(* ===== verification/Prelude.thy ===== *)
theory Prelude
  imports Main "HOL-Library.AList" "HOL-Library.Word"
begin

section \<open>Prelude: results, effects, strings and generic lemmas\<close>

text \<open>
  What every component of the development shares.

  \<^item> A Python function that may raise returns a value of \<open>'e + 'a\<close>: \<open>Inl e\<close> is the raised
    exception, \<open>Inr x\<close> the returned value.  \<open>sbind\<close> runs one such computation after another and
    stops at the first exception, as Python does; \<open>smap\<close> is a comprehension whose body may raise.
  \<^item> A coroutine of the service runs against a world \<open>'s\<close> (the injected stores, clock and key
    backends).  It is a function from the world to a result and a new world, \<open>('s, 'e, 'a) eff\<close>;
    an exception does not undo the effects already made.  \<open>mbind\<close>, \<open>mret\<close>, \<open>mlift\<close>
    compose such functions; \<open>mfor\<close> is a loop over a list.
  \<^item> A Python \<open>str\<close> is its list of code points, \<open>pstr\<close>; \<open>u ''abc''\<close> is the string written
    \<open>''abc''\<close> in the source.  \<open>bytes\<close> is a list of 8-bit words.
  \<^item> A dict keyed by strings is an association list in insertion order; \<open>AList.update\<close> of the
    library is Python's \<open>d[k] = v\<close> (the position of an existing key is kept, a new key comes last).

  The collections: \<open>bind_simps\<close> (inversion of the two binds), \<open>run_simps\<close> (running effects),
  \<open>lit_simps\<close> (comparing literals).
\<close>

named_theorems bind_simps \<open>when a sequence of fallible steps returns, and what its steps returned\<close>
named_theorems run_simps \<open>running a computation in a given world\<close>
named_theorems lit_simps \<open>deciding equality of string literals\<close>

subsection \<open>Fallible computations\<close>

definition sbind :: "'e + 'a \<Rightarrow> ('a \<Rightarrow> 'e + 'b) \<Rightarrow> 'e + 'b" where
  "sbind m f = (case m of Inl e \<Rightarrow> Inl e | Inr x \<Rightarrow> f x)"

lemma sbind_Inl [simp]: "sbind (Inl e) f = Inl e"
  by (simp add: sbind_def)

lemma sbind_Inr [simp]: "sbind (Inr x) f = f x"
  by (simp add: sbind_def)

lemma sbind_eq_Inr [bind_simps]: "sbind m f = Inr y \<longleftrightarrow> (\<exists>x. m = Inr x \<and> f x = Inr y)"
  by (cases m) auto

lemma sbind_eq_Inl [bind_simps]:
  "sbind m f = Inl e \<longleftrightarrow> m = Inl e \<or> (\<exists>x. m = Inr x \<and> f x = Inl e)"
  by (cases m) auto

lemma sbind_assoc: "sbind (sbind m f) g = sbind m (\<lambda>x. sbind (f x) g)"
  by (cases m) auto

lemma sbind_return [simp]: "sbind m Inr = m"
  by (cases m) auto

lemma sbind_cong [fundef_cong]:
  "m = m' \<Longrightarrow> (\<And>x. m' = Inr x \<Longrightarrow> f x = f' x) \<Longrightarrow> sbind m f = sbind m' f'"
  by (cases m') auto

text \<open>A guard: raise \<open>e\<close> unless the condition holds.\<close>

definition ensure :: "bool \<Rightarrow> 'e \<Rightarrow> 'e + unit" where
  "ensure b e = (if b then Inr () else Inl e)"

lemma ensure_simps [simp]: "ensure True e = Inr ()" "ensure False e = Inl e"
  by (simp_all add: ensure_def)

lemma ensure_eq [bind_simps]:
  "ensure b e = Inr v \<longleftrightarrow> b" "ensure b e = Inl e' \<longleftrightarrow> \<not> b \<and> e' = e"
  by (auto simp: ensure_def)

fun smap :: "('a \<Rightarrow> 'e + 'b) \<Rightarrow> 'a list \<Rightarrow> 'e + 'b list" where
  "smap f [] = Inr []"
| "smap f (x # xs) = sbind (f x) (\<lambda>y. sbind (smap f xs) (\<lambda>ys. Inr (y # ys)))"

lemma smap_cong [fundef_cong]:
  "xs = ys \<Longrightarrow> (\<And>x. x \<in> set ys \<Longrightarrow> f x = g x) \<Longrightarrow> smap f xs = smap g ys"
  by (induction xs arbitrary: ys) auto

lemma smap_append:
  "smap f (xs @ ys) = sbind (smap f xs) (\<lambda>as. sbind (smap f ys) (\<lambda>bs. Inr (as @ bs)))"
  by (induction xs) (auto simp: sbind_assoc sbind_def split: sum.splits)

lemma smap_length: "smap f xs = Inr ys \<Longrightarrow> length ys = length xs"
  by (induction xs arbitrary: ys) (auto simp: bind_simps)

lemma smap_nth: "smap f xs = Inr ys \<Longrightarrow> i < length xs \<Longrightarrow> f (xs ! i) = Inr (ys ! i)"
proof (induction xs arbitrary: ys i)
  case (Cons x xs)
  then show ?case by (cases i) (auto simp: bind_simps)
qed simp

lemma smap_take: "smap f xs = Inr ys \<Longrightarrow> smap f (take n xs) = Inr (take n ys)"
proof (induction xs arbitrary: ys n)
  case (Cons x xs)
  then show ?case by (cases n) (auto simp: bind_simps)
qed simp

lemma smap_drop: "smap f xs = Inr ys \<Longrightarrow> smap f (drop n xs) = Inr (drop n ys)"
proof (induction xs arbitrary: ys n)
  case (Cons x xs)
  then show ?case by (cases n) (auto simp: bind_simps)
qed simp

lemma smap_Inr_iff: "(\<exists>ys. smap f xs = Inr ys) \<longleftrightarrow> (\<forall>x\<in>set xs. \<exists>y. f x = Inr y)"
  by (induction xs) (auto simp: bind_simps)

lemma smap_pure [simp]: "smap (\<lambda>x. Inr (f x)) xs = Inr (map f xs)"
  by (induction xs) auto

lemma smap_map: "smap f (map g xs) = smap (\<lambda>x. f (g x)) xs"
  by (induction xs) auto

subsection \<open>Effects\<close>

type_synonym ('s, 'e, 'a) eff = "'s \<Rightarrow> ('e + 'a) \<times> 's"

definition mret :: "'a \<Rightarrow> ('s, 'e, 'a) eff" where
  "mret x s = (Inr x, s)"

definition mraise :: "'e \<Rightarrow> ('s, 'e, 'a) eff" where
  "mraise e s = (Inl e, s)"

definition mlift :: "'e + 'a \<Rightarrow> ('s, 'e, 'a) eff" where
  "mlift r s = (r, s)"

definition mbind :: "('s, 'e, 'a) eff \<Rightarrow> ('a \<Rightarrow> ('s, 'e, 'b) eff) \<Rightarrow> ('s, 'e, 'b) eff" where
  "mbind m f s = (case m s of (Inl e, s') \<Rightarrow> (Inl e, s') | (Inr x, s') \<Rightarrow> f x s')"

text \<open>\<open>try: m  except E as e: h e\<close>; the handler runs in the world the failure left behind.\<close>

definition mcatch :: "('s, 'e, 'a) eff \<Rightarrow> ('e \<Rightarrow> ('s, 'e, 'a) eff) \<Rightarrow> ('s, 'e, 'a) eff" where
  "mcatch m h s = (case m s of (Inl e, s') \<Rightarrow> h e s' | (Inr x, s') \<Rightarrow> (Inr x, s'))"

fun mfor :: "'x list \<Rightarrow> ('x \<Rightarrow> 'b \<Rightarrow> ('s, 'e, 'b) eff) \<Rightarrow> 'b \<Rightarrow> ('s, 'e, 'b) eff" where
  "mfor [] body acc = mret acc"
| "mfor (x # xs) body acc = mbind (body x acc) (mfor xs body)"

lemma mret_run [run_simps]: "mret x s = (Inr x, s)"
  by (simp add: mret_def)

lemma mraise_run [run_simps]: "mraise e s = (Inl e, s)"
  by (simp add: mraise_def)

lemma mlift_run [run_simps]: "mlift r s = (r, s)"
  by (simp add: mlift_def)

lemma mbind_eq_Inr [bind_simps]:
  "mbind m f s = (Inr y, t) \<longleftrightarrow> (\<exists>x s'. m s = (Inr x, s') \<and> f x s' = (Inr y, t))"
  by (auto simp: mbind_def split: prod.splits sum.splits)

lemma mbind_eq_Inl [bind_simps]:
  "mbind m f s = (Inl e, t) \<longleftrightarrow>
     m s = (Inl e, t) \<or> (\<exists>x s'. m s = (Inr x, s') \<and> f x s' = (Inl e, t))"
  by (auto simp: mbind_def split: prod.splits sum.splits)

lemma mbind_run:
  "m s = (Inr x, s') \<Longrightarrow> mbind m f s = f x s'"
  "m s = (Inl e, s') \<Longrightarrow> mbind m f s = (Inl e, s')"
  by (simp_all add: mbind_def)

lemma mbind_mret [simp]: "mbind (mret x) f = f x"
  by (rule ext) (simp add: mbind_def mret_def)

lemma mbind_mraise [simp]: "mbind (mraise e) f = mraise e"
  by (rule ext) (simp add: mbind_def mraise_def)

lemma mbind_mlift [simp]:
  "mbind (mlift (Inr x)) f = f x" "mbind (mlift (Inl e)) f = mraise e"
  by (rule ext, simp add: mbind_def mlift_def mraise_def)+

text \<open>
  An invariant of the world: a relation every step of a computation respects.  \<open>keeps R m\<close>
  says that the world after \<open>m\<close>, returned or raised, is related to the world before it; with a
  reflexive and transitive \<open>R\<close> it is closed under sequencing, which is how the append-only and
  never-backwards properties of the service are proved operation by operation.
\<close>

definition keeps :: "('s \<Rightarrow> 's \<Rightarrow> bool) \<Rightarrow> ('s, 'e, 'a) eff \<Rightarrow> bool" where
  "keeps R m \<longleftrightarrow> (\<forall>s. R s (snd (m s)))"

lemma keepsD: "keeps R m \<Longrightarrow> m s = (r, s') \<Longrightarrow> R s s'"
  by (metis keeps_def snd_conv)

lemma keepsI: "(\<And>s r s'. m s = (r, s') \<Longrightarrow> R s s') \<Longrightarrow> keeps R m"
  unfolding keeps_def by (metis prod.collapse)

lemma keeps_mret [intro, simp]: "reflp R \<Longrightarrow> keeps R (mret x)"
  by (simp add: keeps_def reflp_def mret_def)

lemma keeps_mraise [intro, simp]: "reflp R \<Longrightarrow> keeps R (mraise e)"
  by (simp add: keeps_def reflp_def mraise_def)

lemma keeps_mlift [intro, simp]: "reflp R \<Longrightarrow> keeps R (mlift r)"
  by (simp add: keeps_def reflp_def mlift_def)

lemma keeps_mbind [intro]:
  assumes "transp R" "keeps R m" "\<And>x. keeps R (f x)"
  shows "keeps R (mbind m f)"
proof (rule keepsI)
  fix s r s' assume run: "mbind m f s = (r, s')"
  show "R s s'"
  proof (cases "m s")
    case (Pair q t)
    then have "R s t" using assms(2) by (auto dest: keepsD)
    moreover have "q = Inl e \<Longrightarrow> R s s'" for e
      using run Pair \<open>R s t\<close> by (simp add: mbind_def)
    moreover have "q = Inr x \<Longrightarrow> R t s'" for x
      using run Pair keepsD [OF assms(3)] by (simp add: mbind_def)
    ultimately show ?thesis
      using assms(1) by (cases q) (auto dest: transpD)
  qed
qed

lemma keeps_mcatch [intro]:
  assumes "transp R" "keeps R m" "\<And>e. keeps R (h e)"
  shows "keeps R (mcatch m h)"
proof (rule keepsI)
  fix s r s' assume run: "mcatch m h s = (r, s')"
  show "R s s'"
  proof (cases "m s")
    case (Pair q t)
    then have "R s t" using assms(2) by (auto dest: keepsD)
    moreover have "q = Inr x \<Longrightarrow> R s s'" for x
      using run Pair \<open>R s t\<close> by (simp add: mcatch_def)
    moreover have "q = Inl e \<Longrightarrow> R t s'" for e
      using run Pair keepsD [OF assms(3)] by (simp add: mcatch_def)
    ultimately show ?thesis
      using assms(1) by (cases q) (auto dest: transpD)
  qed
qed

lemma keeps_mfor [intro]:
  assumes "reflp R" "transp R" "\<And>x b. keeps R (body x b)"
  shows "keeps R (mfor xs body acc)"
proof (induction xs arbitrary: acc)
  case Nil
  then show ?case using assms(1) by simp
next
  case (Cons x xs)
  then show ?case using assms(2,3) by (simp add: keeps_mbind)
qed

lemma keeps_if [intro]: "keeps R a \<Longrightarrow> keeps R b \<Longrightarrow> keeps R (if c then a else b)"
  by simp

subsection \<open>Strings and bytes\<close>

type_synonym pstr = "nat list"
type_synonym bytes = "8 word list"

definition u :: "string \<Rightarrow> pstr" where
  "u s = map of_char s"

lemma u_eq_iff [simp, lit_simps]: "u a = u b \<longleftrightarrow> a = b"
  by (simp add: u_def inj_map_eq_map inj_on_def)

lemma u_Nil [simp]: "u [] = []"
  by (simp add: u_def)

lemma u_eq_Nil [simp]: "u a = [] \<longleftrightarrow> a = []" "[] = u a \<longleftrightarrow> a = []"
  by (auto simp: u_def)

lemma length_u [simp]: "length (u s) = length s"
  by (simp add: u_def)

text \<open>\<open>sep.join(xs)\<close>\<close>

fun join :: "'a list \<Rightarrow> 'a list list \<Rightarrow> 'a list" where
  "join sep [] = []"
| "join sep [x] = x"
| "join sep (x # y # ys) = x @ sep @ join sep (y # ys)"

text \<open>Decimal representation of an integer, as \<open>str(n)\<close> prints it.\<close>

fun nat_repr :: "nat \<Rightarrow> pstr" where
  "nat_repr n = (if n < 10 then [48 + n] else nat_repr (n div 10) @ [48 + n mod 10])"

declare nat_repr.simps [simp del]

definition int_repr :: "int \<Rightarrow> pstr" where
  "int_repr i = (if i < 0 then 45 # nat_repr (nat (- i)) else nat_repr (nat i))"

fun digits_val :: "nat \<Rightarrow> pstr \<Rightarrow> nat" where
  "digits_val acc [] = acc"
| "digits_val acc (c # cs) = digits_val (10 * acc + (c - 48)) cs"

definition is_digit :: "nat \<Rightarrow> bool" where
  "is_digit c \<longleftrightarrow> 48 \<le> c \<and> c \<le> 57"

lemma digits_val_append: "digits_val acc (xs @ ys) = digits_val (digits_val acc xs) ys"
  by (induction xs arbitrary: acc) auto

lemma nat_repr_digits: "c \<in> set (nat_repr n) \<Longrightarrow> is_digit c"
proof (induction n rule: nat_repr.induct)
  case (1 n)
  show ?case
  proof (cases "n < 10")
    case True
    with 1 show ?thesis by (simp add: nat_repr.simps [of n] is_digit_def)
  next
    case False
    then have "c \<in> set (nat_repr (n div 10)) \<or> c = 48 + n mod 10"
      using 1 by (auto simp: nat_repr.simps [of n])
    with 1 False show ?thesis by (auto simp: is_digit_def)
  qed
qed

lemma nat_repr_nonempty [simp]: "nat_repr n \<noteq> []"
  by (subst nat_repr.simps) simp

lemma digits_val_nat_repr [simp]: "digits_val 0 (nat_repr n) = n"
proof (induction n rule: nat_repr.induct)
  case (1 n)
  show ?case
  proof (cases "n < 10")
    case True
    then show ?thesis by (simp add: nat_repr.simps [of n])
  next
    case False
    with 1 have "digits_val 0 (nat_repr (n div 10)) = n div 10" by simp
    then show ?thesis using False
      by (simp add: nat_repr.simps [of n] digits_val_append)
  qed
qed

lemma nat_repr_inj: "nat_repr m = nat_repr n \<longleftrightarrow> m = n"
  by (metis digits_val_nat_repr)

lemma nat_repr_leading: "n \<noteq> 0 \<Longrightarrow> hd (nat_repr n) \<noteq> 48"
proof (induction n rule: nat_repr.induct)
  case (1 n)
  then show ?case
    by (cases "n < 10") (simp_all add: nat_repr.simps [of n] hd_append)
qed

subsection \<open>Lists\<close>

lemma append_eq_append_len:
  "length xs = length us \<Longrightarrow> xs @ ys = us @ vs \<longleftrightarrow> xs = us \<and> ys = vs"
  by simp

lemma append_eq_append_len_right:
  "length ys = length vs \<Longrightarrow> xs @ ys = us @ vs \<longleftrightarrow> xs = us \<and> ys = vs"
  by simp

lemma takeWhile_append_stop:
  "(\<And>x. x \<in> set xs \<Longrightarrow> P x) \<Longrightarrow> (case ys of [] \<Rightarrow> True | y # _ \<Rightarrow> \<not> P y) \<Longrightarrow>
     takeWhile P (xs @ ys) = xs \<and> dropWhile P (xs @ ys) = ys"
  by (induction xs) (auto split: list.splits)

end
