(* ===== verification/Errors.thy ===== *)
theory Errors
  imports Prelude
begin

section \<open>Exceptions\<close>

text \<open>
  \<^verbatim>\<open>src/approvo/errors.py\<close>: one constructor per exception class, together with the builtin and
  third-party classes the code catches by name.  An exception is its class; its message is not
  modelled.  \<open>exn_parent\<close> is the class hierarchy and \<open>isinstance e c\<close> what an
  \<open>except c\<close> clause tests.
\<close>

datatype exn =
    ApprovoError
  | RequestNotFound
  | UnknownPolicy
  | PolicyMismatch
  | SubjectConstraintViolation
  | IdempotencyConflict
  | ChallengeExpired
  | SignatureInvalid
  | KeyNotAuthorized
  | KeyExpiredOrRevoked
  | SeparationOfDutiesViolation
  | RequestExpired
  | LedgerConflict
  | ConcurrencyExhausted
  | StoreError
  | SigningError
  | KeyProviderError
  | KeyResolutionError
  | UnsupportedAlgorithmError
  | LedgerTampered
  | ChainBroken
  | EntryHashMismatch
  | SeqGap
  | CheckpointUnverified
  | ConsistencyFailure
  | VerificationFailed
  | PyException
  | KeyError
  | IndexError
  | ValueError
  | UnicodeError
  | TypeError
  | NotCanonicalizable
  | AttributeError
  | AssertionError
  | OverflowError
  | NotImplementedError
  | ImportError
  | OSError
  | InvalidSignature
  | DuplicateKeyError
  | OtherError

fun exn_parent :: "exn \<Rightarrow> exn option" where
  "exn_parent PyException = None"
| "exn_parent ApprovoError = Some PyException"
| "exn_parent ConcurrencyExhausted = Some LedgerConflict"
| "exn_parent KeyProviderError = Some SigningError"
| "exn_parent KeyResolutionError = Some SigningError"
| "exn_parent UnsupportedAlgorithmError = Some SigningError"
| "exn_parent ChainBroken = Some LedgerTampered"
| "exn_parent EntryHashMismatch = Some LedgerTampered"
| "exn_parent SeqGap = Some LedgerTampered"
| "exn_parent CheckpointUnverified = Some LedgerTampered"
| "exn_parent ConsistencyFailure = Some LedgerTampered"
| "exn_parent UnicodeError = Some ValueError"
| "exn_parent NotCanonicalizable = Some TypeError"
| "exn_parent KeyError = Some PyException"
| "exn_parent IndexError = Some PyException"
| "exn_parent ValueError = Some PyException"
| "exn_parent TypeError = Some PyException"
| "exn_parent AttributeError = Some PyException"
| "exn_parent AssertionError = Some PyException"
| "exn_parent OverflowError = Some PyException"
| "exn_parent NotImplementedError = Some PyException"
| "exn_parent ImportError = Some PyException"
| "exn_parent OSError = Some PyException"
| "exn_parent InvalidSignature = Some PyException"
| "exn_parent DuplicateKeyError = Some PyException"
| "exn_parent OtherError = Some PyException"
| "exn_parent e = Some ApprovoError"

text \<open>The hierarchy is four classes deep at most, so three steps up reach every ancestor.\<close>

definition exn_bases :: "exn \<Rightarrow> exn list" where
  "exn_bases e =
     (let up = (\<lambda>x. case x of None \<Rightarrow> None | Some c \<Rightarrow> exn_parent c);
          p1 = exn_parent e; p2 = up p1; p3 = up p2
      in e # List.map_filter id [p1, p2, p3])"

definition isinstance :: "exn \<Rightarrow> exn \<Rightarrow> bool" where
  "isinstance e c \<longleftrightarrow> c \<in> set (exn_bases e)"

definition isinstance_any :: "exn \<Rightarrow> exn list \<Rightarrow> bool" where
  "isinstance_any e cs \<longleftrightarrow> list_ex (isinstance e) cs"

lemma isinstance_refl [simp]: "isinstance e e"
  by (simp add: isinstance_def exn_bases_def Let_def)

lemma isinstance_iff:
  "isinstance e c \<longleftrightarrow> c = e \<or> exn_parent e = Some c \<or>
     (\<exists>p. exn_parent e = Some p \<and>
        (exn_parent p = Some c \<or> (\<exists>q. exn_parent p = Some q \<and> exn_parent q = Some c)))"
  by (auto simp: isinstance_def exn_bases_def Let_def map_filter_simps
      split: option.splits)

lemma isinstance_exception: "isinstance e PyException"
  by (cases e) (auto simp: isinstance_iff)

text \<open>
  The documented intent of the hierarchy: every failure of ledger integrity is caught by
  \<open>except LedgerTampered\<close>, and running out of retries is a \<open>LedgerConflict\<close>.
\<close>

lemma ledger_tampered_subtypes:
  "{e. isinstance e LedgerTampered} =
     {LedgerTampered, ChainBroken, EntryHashMismatch, SeqGap, CheckpointUnverified,
      ConsistencyFailure}"
proof -
  have "isinstance e LedgerTampered \<longleftrightarrow>
      e \<in> {LedgerTampered, ChainBroken, EntryHashMismatch, SeqGap, CheckpointUnverified,
           ConsistencyFailure}" for e
    by (cases e) (simp_all add: isinstance_iff)
  then show ?thesis by blast
qed

lemma ledger_conflict_subtypes:
  "isinstance e LedgerConflict \<longleftrightarrow> e = LedgerConflict \<or> e = ConcurrencyExhausted"
  by (cases e) (simp_all add: isinstance_iff)

lemma isinstance_simps [simp]:
  "isinstance (c :: exn) KeyError \<longleftrightarrow> c = KeyError"
  "isinstance c ValueError \<longleftrightarrow> c = ValueError \<or> c = UnicodeError"
  "isinstance c TypeError \<longleftrightarrow> c = TypeError \<or> c = NotCanonicalizable"
  "isinstance c UnknownPolicy \<longleftrightarrow> c = UnknownPolicy"
  "isinstance c PolicyMismatch \<longleftrightarrow> c = PolicyMismatch"
  "isinstance c InvalidSignature \<longleftrightarrow> c = InvalidSignature"
  "isinstance c UnsupportedAlgorithmError \<longleftrightarrow> c = UnsupportedAlgorithmError"
  "isinstance c NotImplementedError \<longleftrightarrow> c = NotImplementedError"
  "isinstance c OSError \<longleftrightarrow> c = OSError"
  "isinstance c DuplicateKeyError \<longleftrightarrow> c = DuplicateKeyError"
  "isinstance c LedgerConflict \<longleftrightarrow> c = LedgerConflict \<or> c = ConcurrencyExhausted"
  by (cases c; simp add: isinstance_iff)+

end
