(* ===== verification/PyVal.thy ===== *)
theory PyVal
  imports Errors
begin

section \<open>Python values\<close>

text \<open>
  The JSON-like values that cross the trust boundary: envelopes, decoded payloads, ledger payloads.
  Nothing in the code checks their shape before using them, so the operations below raise what
  Python raises on a value of the wrong type.

  A float is kept as its literal (the code only ever rejects it), a dict as its items in insertion
  order with keys that are arbitrary values (\<open>canonical.py\<close> rejects those that are not strings),
  \<open>PObj\<close> is an instance of any other type.
\<close>

datatype pyval =
    PNone
  | PBool bool
  | PInt int
  | PFloat pstr
  | PStr pstr
  | PList "pyval list"
  | PTuple "pyval list"
  | PDict "(pyval \<times> pyval) list"
  | PObj pstr

type_synonym pydict = "(pyval \<times> pyval) list"

abbreviation lit :: "string \<Rightarrow> pyval" where
  "lit s \<equiv> PStr (u s)"

text \<open>A dict display \<open>{"k": v, ...}\<close> with distinct string keys.\<close>

definition items :: "(string \<times> pyval) list \<Rightarrow> pydict" where
  "items kvs = map (\<lambda>(k, v). (lit k, v)) kvs"

lemma items_simps [simp]:
  "items [] = []"
  "items ((k, v) # kvs) = (lit k, v) # items kvs"
  "items (xs @ ys) = items xs @ items ys"
  by (simp_all add: items_def)

lemma set_keys_items [simp]: "fst ` set (items kvs) = (\<lambda>(k, v). lit k) ` set kvs"
  by (force simp: items_def)

text \<open>\<open>d["k"]\<close> and \<open>d.get("k", default)\<close>.\<close>

fun subscr :: "pyval \<Rightarrow> string \<Rightarrow> exn + pyval" where
  "subscr (PDict kvs) k = (case map_of kvs (lit k) of None \<Rightarrow> Inl KeyError | Some v \<Rightarrow> Inr v)"
| "subscr _ k = Inl TypeError"

fun getdef :: "pyval \<Rightarrow> string \<Rightarrow> pyval \<Rightarrow> exn + pyval" where
  "getdef (PDict kvs) k dflt = (case map_of kvs (lit k) of None \<Rightarrow> Inr dflt | Some v \<Rightarrow> Inr v)"
| "getdef _ k dflt = Inl AttributeError"

lemma subscr_Inr: "subscr v k = Inr w \<longleftrightarrow> (\<exists>kvs. v = PDict kvs \<and> map_of kvs (lit k) = Some w)"
  by (cases v) (auto split: option.splits)

lemma subscr_errors: "subscr v k = Inl e \<Longrightarrow> e = KeyError \<or> e = TypeError"
  by (cases v) (auto split: option.splits)

text \<open>\<open>hash(v)\<close> succeeds: lists and dicts, and tuples holding them, are not dict keys.\<close>

fun hashable :: "pyval \<Rightarrow> bool" where
  "hashable (PList _) = False"
| "hashable (PDict _) = False"
| "hashable (PTuple xs) = list_all hashable xs"
| "hashable _ = True"

text \<open>\<open>iter(v)\<close>, as a \<open>for\<close> loop or \<open>tuple(v)\<close> takes it.\<close>

fun py_iter :: "pyval \<Rightarrow> exn + pyval list" where
  "py_iter (PList xs) = Inr xs"
| "py_iter (PTuple xs) = Inr xs"
| "py_iter (PStr s) = Inr (map (\<lambda>c. PStr [c]) s)"
| "py_iter (PDict kvs) = Inr (map fst kvs)"
| "py_iter _ = Inl TypeError"

text \<open>
  \<open>bool(v)\<close>.  A float is zero when no digit of its mantissa is nonzero (a literal below the
  smallest double is not told apart from its exact value).
\<close>

definition float_zero :: "pstr \<Rightarrow> bool" where
  "float_zero t = (let m = takeWhile (\<lambda>c. c \<noteq> 101 \<and> c \<noteq> 69) t
                   in list_ex is_digit m \<and> list_all (\<lambda>c. \<not> (49 \<le> c \<and> c \<le> 57)) m)"

fun truthy :: "pyval \<Rightarrow> bool" where
  "truthy PNone = False"
| "truthy (PBool b) = b"
| "truthy (PInt n) = (n \<noteq> 0)"
| "truthy (PFloat t) = (\<not> float_zero t)"
| "truthy (PStr s) = (s \<noteq> [])"
| "truthy (PList xs) = (xs \<noteq> [])"
| "truthy (PTuple xs) = (xs \<noteq> [])"
| "truthy (PDict kvs) = (kvs \<noteq> [])"
| "truthy (PObj _) = True"

text \<open>
  What the interpreter supplies and the model takes as a parameter: \<open>str(v)\<close> of a value that is
  not a string, \<open>None\<close>, a bool or an int, the Unicode database's \<open>isprintable\<close>, and the
  host's time zone (only used for a timestamp without an offset).
\<close>

record runtime =
  str_other :: "pyval \<Rightarrow> pstr"
  isprintable :: "nat \<Rightarrow> bool"
  local_offset :: "int \<Rightarrow> int"

text \<open>\<open>f"{v}"\<close>\<close>

fun py_str :: "runtime \<Rightarrow> pyval \<Rightarrow> pstr" where
  "py_str R (PStr s) = s"
| "py_str R PNone = u ''None''"
| "py_str R (PBool b) = (if b then u ''True'' else u ''False'')"
| "py_str R (PInt n) = int_repr n"
| "py_str R v = str_other R v"

text \<open>\<open>repr(s)\<close> of a string, and of a list of strings.\<close>

definition hex_digit :: "nat \<Rightarrow> nat" where
  "hex_digit d = (if d < 10 then 48 + d else 87 + d)"

fun hex_pad :: "nat \<Rightarrow> nat \<Rightarrow> pstr" where
  "hex_pad 0 n = []"
| "hex_pad (Suc k) n = hex_pad k (n div 16) @ [hex_digit (n mod 16)]"

definition repr_char :: "runtime \<Rightarrow> nat \<Rightarrow> nat \<Rightarrow> pstr" where
  "repr_char R q c =
     (if c = q \<or> c = 92 then [92, c]
      else if c = 9 then [92, 116] else if c = 10 then [92, 110] else if c = 13 then [92, 114]
      else if c < 32 \<or> c = 127 then [92, 120] @ hex_pad 2 c
      else if c < 127 then [c]
      else if isprintable R c then [c]
      else if c < 256 then [92, 120] @ hex_pad 2 c
      else if c < 65536 then [92, 117] @ hex_pad 4 c
      else [92, 85] @ hex_pad 8 c)"

definition repr_str :: "runtime \<Rightarrow> pstr \<Rightarrow> pstr" where
  "repr_str R s =
     (let q = (if 39 \<in> set s \<and> 34 \<notin> set s then 34 else 39)
      in [q] @ concat (map (repr_char R q) s) @ [q])"

definition repr_str_list :: "runtime \<Rightarrow> pstr list \<Rightarrow> pstr" where
  "repr_str_list R xs = u ''['' @ join (u '', '') (map (repr_str R) xs) @ u '']''"

text \<open>
  A tuple or list of strings as a value, and back.  \<open>str_list\<close> is how a typed dataclass field
  reads such a value; a value of another type is outside the field's annotation, which the code
  does not check and the typed records of the model cannot hold: \<open>OtherError\<close> marks it.
\<close>

definition strs :: "pstr list \<Rightarrow> pyval" where
  "strs xs = PList (map PStr xs)"

fun as_str :: "pyval \<Rightarrow> exn + pstr" where
  "as_str (PStr s) = Inr s"
| "as_str _ = Inl OtherError"

fun as_int :: "pyval \<Rightarrow> exn + int" where
  "as_int (PInt n) = Inr n"
| "as_int _ = Inl OtherError"

fun as_bool :: "pyval \<Rightarrow> exn + bool" where
  "as_bool (PBool b) = Inr b"
| "as_bool _ = Inl OtherError"

definition str_list :: "pyval \<Rightarrow> exn + pstr list" where
  "str_list v = sbind (py_iter v) (smap as_str)"

fun opt_str :: "pyval \<Rightarrow> exn + pstr option" where
  "opt_str PNone = Inr None"
| "opt_str v = sbind (as_str v) (\<lambda>s. Inr (Some s))"

fun of_opt :: "pstr option \<Rightarrow> pyval" where
  "of_opt None = PNone"
| "of_opt (Some s) = PStr s"

lemma smap_as_str [simp]: "smap as_str (map PStr xs) = Inr xs"
  by (induction xs) auto

lemma str_list_strs [simp]: "str_list (strs xs) = Inr xs"
  by (simp add: str_list_def strs_def)

lemma opt_str_of_opt [simp]: "opt_str (of_opt x) = Inr x"
  by (cases x) auto

text \<open>The string a value is, for the places where it is known to be one.\<close>

fun str_of :: "pyval \<Rightarrow> pstr" where
  "str_of (PStr s) = s"
| "str_of _ = []"

end
