(* ===== verification/Text.thy ===== *)
theory Text
  imports PyVal
begin

section \<open>UTF-8, hexadecimal and base64\<close>

text \<open>
  The text encodings of the standard library the code calls: \<open>str.encode("utf-8")\<close> and
  \<open>bytes.decode\<close>, \<open>bytes.hex\<close> and \<open>bytes.fromhex\<close>,
  \<open>base64.standard_b64encode\<close> and \<open>standard_b64decode\<close>.  The decoders accept what CPython
  accepts, not only what the encoders write: \<open>fromhex\<close> skips white space, base64 skips every
  character outside its alphabet and stops at a complete padding.
\<close>

definition to_bytes :: "nat list \<Rightarrow> bytes" where
  "to_bytes ns = map word_of_nat ns"

definition from_bytes :: "bytes \<Rightarrow> nat list" where
  "from_bytes bs = map unat bs"

lemma unat_byte: "unat (word_of_nat n :: 8 word) = n mod 256"
  by (simp add: unsigned_of_nat take_bit_eq_mod)

lemma from_to_bytes: "\<forall>n\<in>set ns. n < 256 \<Longrightarrow> from_bytes (to_bytes ns) = ns"
  by (induction ns) (auto simp: from_bytes_def to_bytes_def unat_byte)

lemma to_from_bytes [simp]: "to_bytes (from_bytes bs) = bs"
  by (induction bs) (auto simp: from_bytes_def to_bytes_def)

lemma to_bytes_append [simp]: "to_bytes (a @ b) = to_bytes a @ to_bytes b"
  by (simp add: to_bytes_def)

lemma from_bytes_append [simp]: "from_bytes (a @ b) = from_bytes a @ from_bytes b"
  by (simp add: from_bytes_def)

lemma length_to_bytes [simp]: "length (to_bytes a) = length a"
  by (simp add: to_bytes_def)

lemma length_from_bytes [simp]: "length (from_bytes a) = length a"
  by (simp add: from_bytes_def)

lemma from_bytes_bound: "n \<in> set (from_bytes bs) \<Longrightarrow> n < 256"
  using unsigned_less [where 'a = nat and 'b = 8] by (auto simp: from_bytes_def)

lemma from_bytes_inj: "from_bytes a = from_bytes b \<longleftrightarrow> a = b"
  by (metis to_from_bytes)

text \<open>ASCII bytes literals \<open>b"..."\<close>.\<close>

definition asc :: "string \<Rightarrow> bytes" where
  "asc s = to_bytes (u s)"

lemma length_asc [simp]: "length (asc s) = length s"
  by (simp add: asc_def)

subsection \<open>UTF-8\<close>

definition surrogate :: "nat \<Rightarrow> bool" where
  "surrogate c \<longleftrightarrow> 0xD800 \<le> c \<and> c \<le> 0xDFFF"

definition utf8_cp :: "nat \<Rightarrow> nat list" where
  "utf8_cp c =
     (if c < 0x80 then [c]
      else if c < 0x800 then [0xC0 + c div 64, 0x80 + c mod 64]
      else if c < 0x10000 then [0xE0 + c div 4096, 0x80 + c div 64 mod 64, 0x80 + c mod 64]
      else [0xF0 + c div 262144, 0x80 + c div 4096 mod 64, 0x80 + c div 64 mod 64, 0x80 + c mod 64])"

definition encodable :: "nat \<Rightarrow> bool" where
  "encodable c \<longleftrightarrow> c < 0x110000 \<and> \<not> surrogate c"

definition utf8_encode :: "pstr \<Rightarrow> exn + bytes" where
  "utf8_encode s =
     (if list_all encodable s then Inr (to_bytes (concat (map utf8_cp s))) else Inl UnicodeError)"

text \<open>
  One character off the front of a byte sequence; overlong forms, stray continuation bytes,
  truncated sequences and values above U+10FFFF are errors.  Surrogates pass, as in the
  \<open>surrogatepass\<close> mode \<open>json.loads\<close> decodes with.
\<close>

definition cont :: "nat \<Rightarrow> bool" where
  "cont x \<longleftrightarrow> 0x80 \<le> x \<and> x < 0xC0"

fun dec_char :: "nat list \<Rightarrow> (nat \<times> nat list) option" where
  "dec_char [] = None"
| "dec_char (x # xs) =
     (if x < 0x80 then Some (x, xs)
      else if x < 0xC2 then None
      else if x < 0xE0 then
        (case xs of y # r \<Rightarrow>
           if cont y then Some ((x - 0xC0) * 64 + (y - 0x80), r) else None
         | _ \<Rightarrow> None)
      else if x < 0xF0 then
        (case xs of y # z # r \<Rightarrow>
           (let c = (x - 0xE0) * 4096 + (y - 0x80) * 64 + (z - 0x80)
            in if cont y \<and> cont z \<and> 0x800 \<le> c then Some (c, r) else None)
         | _ \<Rightarrow> None)
      else if x < 0xF5 then
        (case xs of y # z # w # r \<Rightarrow>
           (let c = (x - 0xF0) * 262144 + (y - 0x80) * 4096 + (z - 0x80) * 64 + (w - 0x80)
            in if cont y \<and> cont z \<and> cont w \<and> 0x10000 \<le> c \<and> c < 0x110000 then Some (c, r) else None)
         | _ \<Rightarrow> None)
      else None)"

lemma dec_char_shorter: "dec_char xs = Some (c, r) \<Longrightarrow> length r < length xs"
  by (cases xs) (auto simp: Let_def split: if_splits list.splits)

function utf8_dec :: "nat list \<Rightarrow> pstr option" where
  "utf8_dec xs =
     (if xs = [] then Some []
      else (case dec_char xs of None \<Rightarrow> None
            | Some (c, r) \<Rightarrow> map_option (Cons c) (utf8_dec r)))"
  by pat_completeness auto
termination
  by (relation "measure length") (auto dest: dec_char_shorter)

declare utf8_dec.simps [simp del]

definition utf8_decode :: "bytes \<Rightarrow> exn + pstr" where
  "utf8_decode bs = (case utf8_dec (from_bytes bs) of None \<Rightarrow> Inl UnicodeError | Some s \<Rightarrow> Inr s)"

lemma utf8_cp_bytes: "c < 0x110000 \<Longrightarrow> n \<in> set (utf8_cp c) \<Longrightarrow> n < 256"
  by (auto simp: utf8_cp_def split: if_splits)

lemma base64_digits:
  fixes c :: nat
  shows "c = c div 64 * 64 + c mod 64"
    and "c = c div 4096 * 4096 + c div 64 mod 64 * 64 + c mod 64"
    and "c = c div 262144 * 262144 + c div 4096 mod 64 * 4096 + c div 64 mod 64 * 64 + c mod 64"
proof -
  have a: "n = n div 64 * 64 + n mod 64" for n :: nat
    by simp
  have d: "c div 64 div 64 = c div 4096" "c div 4096 div 64 = c div 262144"
    by (simp_all flip: div_mult2_eq)
  show "c = c div 64 * 64 + c mod 64" by (rule a)
  show "c = c div 4096 * 4096 + c div 64 mod 64 * 64 + c mod 64"
    using a [of c] a [of "c div 64"] d by linarith
  show "c = c div 262144 * 262144 + c div 4096 mod 64 * 4096 + c div 64 mod 64 * 64 + c mod 64"
    using a [of c] a [of "c div 64"] a [of "c div 4096"] d by linarith
qed

lemma dec_char_utf8_cp: "c < 0x110000 \<Longrightarrow> dec_char (utf8_cp c @ r) = Some (c, r)"
proof -
  assume c: "c < 0x110000"
  consider "c < 0x80" | "0x80 \<le> c" "c < 0x800" | "0x800 \<le> c" "c < 0x10000" | "0x10000 \<le> c"
    by linarith
  then show ?thesis
  proof cases
    case 2
    define p q where "p = c div 64" and "q = c mod 64"
    have "p * 64 + q = c" "q < 64" "2 \<le> p" "p < 32"
      using 2 by (auto simp: p_def q_def)
    then show ?thesis
      using 2 by (simp add: utf8_cp_def cont_def flip: p_def q_def)
  next
    case 3
    define p q t where "p = c div 4096" and "q = c div 64 mod 64" and "t = c mod 64"
    have "p * 4096 + q * 64 + t = c" unfolding p_def q_def t_def by (rule base64_digits [symmetric])
    moreover have "q < 64" "t < 64" "p < 16"
      using 3 by (auto simp: p_def q_def t_def div_less_iff_less_mult)
    ultimately show ?thesis
      using 3 by (simp add: utf8_cp_def cont_def Let_def flip: p_def q_def t_def)
  next
    case 4
    define p q t w where "p = c div 262144" and "q = c div 4096 mod 64"
      and "t = c div 64 mod 64" and "w = c mod 64"
    have "p * 262144 + q * 4096 + t * 64 + w = c"
      unfolding p_def q_def t_def w_def by (rule base64_digits [symmetric])
    moreover have "q < 64" "t < 64" "w < 64" "p < 5"
      using c by (auto simp: p_def q_def t_def w_def div_less_iff_less_mult)
    ultimately show ?thesis
      using 4 c by (simp add: utf8_cp_def cont_def Let_def flip: p_def q_def t_def w_def)
  qed (simp add: utf8_cp_def)
qed

lemma utf8_cp_nonempty [simp]: "utf8_cp c \<noteq> []"
  by (simp add: utf8_cp_def)

lemma utf8_dec_concat: "\<forall>c\<in>set s. c < 0x110000 \<Longrightarrow> utf8_dec (concat (map utf8_cp s)) = Some s"
  by (induction s) (simp_all add: utf8_dec.simps dec_char_utf8_cp)

lemma utf8_encode_from_bytes:
  assumes "utf8_encode s = Inr bs"
  shows "from_bytes bs = concat (map utf8_cp s) \<and> list_all encodable s"
proof -
  from assms have s: "list_all encodable s" and bs: "bs = to_bytes (concat (map utf8_cp s))"
    by (auto simp: utf8_encode_def split: if_splits)
  have "\<forall>n\<in>set (concat (map utf8_cp s)). n < 256"
    using s utf8_cp_bytes by (fastforce simp: list_all_iff encodable_def)
  with s bs show ?thesis by (simp add: from_to_bytes)
qed

lemma utf8_decode_encode: "utf8_encode s = Inr bs \<Longrightarrow> utf8_decode bs = Inr s"
  by (frule utf8_encode_from_bytes)
    (auto simp: utf8_decode_def utf8_dec_concat list_all_iff encodable_def)

lemma utf8_encode_inj: "utf8_encode s = Inr bs \<Longrightarrow> utf8_encode t = Inr bs \<Longrightarrow> s = t"
  by (metis utf8_decode_encode sum.inject(2))

lemma utf8_encode_append:
  "utf8_encode s = Inr xs \<Longrightarrow> utf8_encode t = Inr ys \<Longrightarrow> utf8_encode (s @ t) = Inr (xs @ ys)"
  by (auto simp: utf8_encode_def split: if_splits)

text \<open>
  The encoding is self-delimiting: two byte sequences that start with equally many encoded
  characters and agree, agree on those characters and on the rest.
\<close>

lemma utf8_concat_prefix:
  "length s = length t \<Longrightarrow> \<forall>c\<in>set s. c < 0x110000 \<Longrightarrow> \<forall>c\<in>set t. c < 0x110000 \<Longrightarrow>
     concat (map utf8_cp s) @ x = concat (map utf8_cp t) @ y \<Longrightarrow> s = t \<and> x = y"
proof (induction s t rule: list_induct2)
  case (Cons c s d t)
  have "dec_char (utf8_cp c @ concat (map utf8_cp s) @ x) =
        dec_char (utf8_cp d @ concat (map utf8_cp t) @ y)"
    using Cons.prems(3) by simp
  then have "c = d" "concat (map utf8_cp s) @ x = concat (map utf8_cp t) @ y"
    using Cons.prems(1,2) by (simp_all add: dec_char_utf8_cp)
  with Cons show ?case by simp
qed simp

lemma utf8_encode_prefix:
  assumes "utf8_encode s = Inr a" "utf8_encode t = Inr a'" "length s = length t" "a @ x = a' @ y"
  shows "s = t \<and> x = y"
proof -
  have "from_bytes (a @ x) = from_bytes (a' @ y)"
    using assms(4) by simp
  then have "concat (map utf8_cp s) @ from_bytes x = concat (map utf8_cp t) @ from_bytes y"
    using assms(1,2) by (auto dest!: utf8_encode_from_bytes)
  then have "s = t \<and> from_bytes x = from_bytes y"
    using assms(1,2,3) utf8_encode_from_bytes
    by (intro utf8_concat_prefix) (fastforce simp: list_all_iff encodable_def)+
  then show ?thesis
    by (simp add: from_bytes_inj)
qed

lemma utf8_encode_ascii: "\<forall>c\<in>set s. c < 128 \<Longrightarrow> utf8_encode s = Inr (to_bytes s)"
proof -
  assume a: "\<forall>c\<in>set s. c < 128"
  then have "concat (map utf8_cp s) = s"
    by (induction s) (auto simp: utf8_cp_def)
  with a show ?thesis
    by (auto simp: utf8_encode_def encodable_def surrogate_def list_all_iff)
qed

subsection \<open>Hexadecimal\<close>

definition to_hex :: "bytes \<Rightarrow> pstr" where
  "to_hex bs = concat (map (\<lambda>n. [hex_digit (n div 16), hex_digit (n mod 16)]) (from_bytes bs))"

definition hex_val :: "nat \<Rightarrow> nat option" where
  "hex_val c =
     (if 48 \<le> c \<and> c \<le> 57 then Some (c - 48)
      else if 97 \<le> c \<and> c \<le> 102 then Some (c - 87)
      else if 65 \<le> c \<and> c \<le> 70 then Some (c - 55) else None)"

definition is_space :: "nat \<Rightarrow> bool" where
  "is_space c \<longleftrightarrow> c = 32 \<or> (9 \<le> c \<and> c \<le> 13)"

fun hex_nats :: "pstr \<Rightarrow> nat list option" where
  "hex_nats [] = Some []"
| "hex_nats (c # cs) =
     (if is_space c then hex_nats cs
      else (case cs of [] \<Rightarrow> None
            | d # r \<Rightarrow> (case (hex_val c, hex_val d) of
                 (Some x, Some y) \<Rightarrow> map_option (Cons (16 * x + y)) (hex_nats r)
               | _ \<Rightarrow> None)))"

definition from_hex :: "pstr \<Rightarrow> exn + bytes" where
  "from_hex s = (case hex_nats s of None \<Rightarrow> Inl ValueError | Some ns \<Rightarrow> Inr (to_bytes ns))"

lemma hex_val_digit: "d < 16 \<Longrightarrow> hex_val (hex_digit d) = Some d"
  by (auto simp: hex_val_def hex_digit_def)

lemma hex_digit_not_space: "d < 16 \<Longrightarrow> \<not> is_space (hex_digit d)"
  by (auto simp: is_space_def hex_digit_def)

lemma hex_nats_to_hex: "hex_nats (to_hex bs) = Some (from_bytes bs)"
proof -
  have "\<forall>n\<in>set ns. n < 256 \<Longrightarrow>
      hex_nats (concat (map (\<lambda>n. [hex_digit (n div 16), hex_digit (n mod 16)]) ns)) = Some ns" for ns
    by (induction ns) (auto simp: hex_val_digit hex_digit_not_space)
  then show ?thesis
    by (auto simp: to_hex_def dest: from_bytes_bound)
qed

lemma from_hex_to_hex [simp]: "from_hex (to_hex bs) = Inr bs"
  by (simp add: from_hex_def hex_nats_to_hex)

lemma to_hex_inj [simp]: "to_hex a = to_hex c \<longleftrightarrow> a = c"
  by (metis from_hex_to_hex sum.inject(2))

lemma to_hex_char_bounds: "c \<in> set (to_hex bs) \<Longrightarrow> 48 \<le> c \<and> c \<le> 102"
proof -
  assume "c \<in> set (to_hex bs)"
  then obtain n where "n \<in> set (from_bytes bs)" "c = hex_digit (n div 16) \<or> c = hex_digit (n mod 16)"
    by (auto simp: to_hex_def)
  moreover from this(1) have "n div 16 < 16" "n mod 16 < 16"
    by (auto dest!: from_bytes_bound)
  ultimately show ?thesis by (auto simp: hex_digit_def split: if_splits)
qed

subsection \<open>Base64\<close>

definition b64_char :: "nat \<Rightarrow> nat" where
  "b64_char i =
     (if i < 26 then 65 + i else if i < 52 then 71 + i else if i < 62 then i - 4
      else if i = 62 then 43 else 47)"

definition b64_val :: "nat \<Rightarrow> nat option" where
  "b64_val c =
     (if 65 \<le> c \<and> c \<le> 90 then Some (c - 65)
      else if 97 \<le> c \<and> c \<le> 122 then Some (c - 71)
      else if 48 \<le> c \<and> c \<le> 57 then Some (c + 4)
      else if c = 43 then Some 62 else if c = 47 then Some 63 else None)"

fun b64_enc :: "nat list \<Rightarrow> pstr" where
  "b64_enc [] = []"
| "b64_enc [x] = [b64_char (x div 4), b64_char (x mod 4 * 16), 61, 61]"
| "b64_enc [x, y] = [b64_char (x div 4), b64_char (x mod 4 * 16 + y div 16), b64_char (y mod 16 * 4), 61]"
| "b64_enc (x # y # z # r) =
     [b64_char (x div 4), b64_char (x mod 4 * 16 + y div 16),
      b64_char (y mod 16 * 4 + z div 64), b64_char (z mod 64)] @ b64_enc r"

text \<open>
  \<open>binascii.a2b_base64\<close>, not strict: position in the quad, bits left over, padding seen.
  A character outside the alphabet is skipped; a padding that completes the quad ends the input.
\<close>

fun b64_go :: "nat \<Rightarrow> nat \<Rightarrow> nat \<Rightarrow> pstr \<Rightarrow> nat list option" where
  "b64_go q l p [] = (if q = 0 then Some [] else None)"
| "b64_go q l p (c # cs) =
     (if c = 61 then
        (if 2 \<le> q then (if 4 \<le> q + (p + 1) then Some [] else b64_go q l (p + 1) cs)
         else b64_go q l p cs)
      else (case b64_val c of
        None \<Rightarrow> b64_go q l p cs
      | Some v \<Rightarrow>
          (if q = 0 then b64_go 1 v 0 cs
           else if q = 1 then map_option (Cons (l * 4 + v div 16)) (b64_go 2 (v mod 16) 0 cs)
           else if q = 2 then map_option (Cons (l * 16 + v div 4)) (b64_go 3 (v mod 4) 0 cs)
           else map_option (Cons (l * 64 + v)) (b64_go 0 0 0 cs))))"

definition b64encode :: "bytes \<Rightarrow> pstr" where
  "b64encode bs = b64_enc (from_bytes bs)"

fun b64decode :: "pyval \<Rightarrow> exn + bytes" where
  "b64decode (PStr s) =
     (if list_all (\<lambda>c. c < 128) s
      then (case b64_go 0 0 0 s of None \<Rightarrow> Inl ValueError | Some ns \<Rightarrow> Inr (to_bytes ns))
      else Inl ValueError)"
| "b64decode _ = Inl TypeError"

lemma b64_val_char: "i < 64 \<Longrightarrow> b64_val (b64_char i) = Some i"
  by (auto simp: b64_val_def b64_char_def)

lemma b64_char_neq_pad: "b64_char i \<noteq> 61"
  by (auto simp: b64_char_def)

lemma b64_char_ascii: "i < 64 \<Longrightarrow> b64_char i < 128"
  by (auto simp: b64_char_def)

lemma b64_bits:
  fixes x y z :: nat
  assumes "x < 256" "y < 256" "z < 256"
  shows "x div 4 < 64" "x mod 4 * 16 + y div 16 < 64" "y mod 16 * 4 + z div 64 < 64" "z mod 64 < 64"
    "x mod 4 * 16 < 64" "y mod 16 * 4 < 64" "y div 16 < 16" "z div 64 < 4"
proof -
  show "y div 16 < 16" "z div 64 < 4" "x div 4 < 64" using assms by auto
  moreover have "x mod 4 < 4" "y mod 16 < 16" by auto
  ultimately show "x mod 4 * 16 + y div 16 < 64" "y mod 16 * 4 + z div 64 < 64" "x mod 4 * 16 < 64"
    "y mod 16 * 4 < 64" by linarith+
qed simp

lemma b64_go_enc: "\<forall>n\<in>set xs. n < 256 \<Longrightarrow> b64_go 0 l p (b64_enc xs) = Some xs"
proof (induction xs arbitrary: l p rule: b64_enc.induct)
  case (2 x)
  then have "x < 256" by simp
  note bits = b64_bits [OF this this this]
  show ?case
    by (simp add: b64_val_char [OF bits(1)] b64_val_char [OF bits(5)] b64_char_neq_pad)
next
  case (3 x y)
  then have lt: "x < 256" "y < 256" by simp_all
  note bits = b64_bits [OF lt lt(2)]
  show ?case
    using bits(7) by (simp add: b64_val_char [OF bits(1)] b64_val_char [OF bits(2)]
        b64_val_char [OF bits(6)] b64_char_neq_pad)
next
  case (4 x y z r)
  then have lt: "x < 256" "y < 256" "z < 256" by simp_all
  note bits = b64_bits [OF lt]
  have "b64_go 0 l p (b64_enc r) = Some r" for l p
    using 4 by simp
  then show ?case
    using bits(7,8) by (simp add: b64_val_char [OF bits(1)] b64_val_char [OF bits(2)]
        b64_val_char [OF bits(3)] b64_val_char [OF bits(4)] b64_char_neq_pad)
qed simp

lemma b64_enc_ascii: "\<forall>n\<in>set xs. n < 256 \<Longrightarrow> list_all (\<lambda>c. c < 128) (b64_enc xs)"
  by (induction xs rule: b64_enc.induct) (auto intro!: b64_char_ascii)

lemma b64decode_encode [simp]: "b64decode (PStr (b64encode bs)) = Inr bs"
proof -
  have "\<forall>n\<in>set (from_bytes bs). n < 256"
    by (auto dest: from_bytes_bound)
  then show ?thesis
    by (simp add: b64encode_def b64_go_enc b64_enc_ascii)
qed

declare b64decode.simps(1) [simp del]

lemma b64encode_inj: "b64encode a = b64encode c \<longleftrightarrow> a = c"
  by (metis b64decode_encode sum.inject(2))

lemma b64decode_errors: "b64decode v = Inl e \<Longrightarrow> e = ValueError \<or> e = TypeError"
  by (cases v) (auto simp: b64decode.simps(1) split: if_splits option.splits)

end
