(* ===== verification/Json.thy ===== *)
theory Json
  imports Text "HOL-Library.List_Lexorder"
begin

section \<open>JSON\<close>

text \<open>
  The two functions of the \<^verbatim>\<open>json\<close> module the code calls: \<open>dumps\<close> with the options of
  \<^verbatim>\<open>canonical.py\<close> (\<open>sort_keys=True, separators=(",", ":"), ensure_ascii=False\<close>), and
  \<open>loads\<close> on bytes.  \<open>loads\<close> accepts all that CPython accepts, not only what \<open>dumps\<close> writes:
  white space, floats and \<open>NaN\<close>, every escape, lone surrogates, repeated keys (the last one
  wins), and input in UTF-16 or UTF-32, which it tells by the pattern of zero bytes.

  Strings compare by code point, which is the lexicographic order of the library on lists.
  The main lemma of the theory, \<open>jval_dumps\<close>, says that \<open>loads\<close> undoes \<open>dumps\<close>, up to
  \<open>norm\<close>: keys sorted, tuples become lists.
\<close>

subsection \<open>Writing\<close>

definition esc_char :: "nat \<Rightarrow> pstr" where
  "esc_char c =
     (if c = 34 then [92, 34] else if c = 92 then [92, 92]
      else if c = 10 then [92, 110] else if c = 13 then [92, 114] else if c = 9 then [92, 116]
      else if c = 8 then [92, 98] else if c = 12 then [92, 102]
      else if c < 32 then [92, 117] @ hex_pad 4 c
      else [c])"

definition json_str :: "pstr \<Rightarrow> pstr" where
  "json_str s = [34] @ concat (map esc_char s) @ [34]"

abbreviation key_sort :: "pydict \<Rightarrow> pydict" where
  "key_sort \<equiv> sort_key (\<lambda>kv. str_of (fst kv))"

lemma member_size: "(k, v) \<in> set (kvs :: pydict) \<Longrightarrow> size v < size (PDict kvs)"
  by (induction kvs) auto

function dumps :: "pyval \<Rightarrow> pstr" where
  "dumps PNone = u ''null''"
| "dumps (PBool t) = (if t then u ''true'' else u ''false'')"
| "dumps (PInt i) = int_repr i"
| "dumps (PFloat t) = t"
| "dumps (PStr s) = json_str s"
| "dumps (PList xs) = [91] @ join [44] (map dumps xs) @ [93]"
| "dumps (PTuple xs) = [91] @ join [44] (map dumps xs) @ [93]"
| "dumps (PDict kvs) =
     [123] @ join [44] (map (\<lambda>(k, v). json_str (str_of k) @ [58] @ dumps v) (key_sort kvs)) @ [125]"
| "dumps (PObj t) = []"
  by pat_completeness auto
termination
  by (relation "measure size") (auto simp: less_Suc_eq_le size_list_estimation' dest: member_size)

text \<open>The value \<open>loads\<close> gives back.\<close>

function norm :: "pyval \<Rightarrow> pyval" where
  "norm PNone = PNone"
| "norm (PBool t) = PBool t"
| "norm (PInt i) = PInt i"
| "norm (PFloat t) = PFloat t"
| "norm (PStr s) = PStr s"
| "norm (PList xs) = PList (map norm xs)"
| "norm (PTuple xs) = PList (map norm xs)"
| "norm (PDict kvs) = PDict (map (\<lambda>(k, v). (k, norm v)) (key_sort kvs))"
| "norm (PObj t) = PObj t"
  by pat_completeness auto
termination
  by (relation "measure size") (auto simp: less_Suc_eq_le size_list_estimation' dest: member_size)

subsection \<open>Reading\<close>

definition json_ws :: "nat \<Rightarrow> bool" where
  "json_ws c \<longleftrightarrow> c = 32 \<or> c = 9 \<or> c = 10 \<or> c = 13"

abbreviation skip :: "pstr \<Rightarrow> pstr" where
  "skip \<equiv> dropWhile json_ws"

definition hex4 :: "pstr \<Rightarrow> (nat \<times> pstr) option" where
  "hex4 s = (case s of p # q # t # w # r \<Rightarrow>
       (case (hex_val p, hex_val q, hex_val t, hex_val w) of
          (Some a, Some b, Some c, Some d) \<Rightarrow> Some (a * 4096 + b * 256 + c * 16 + d, r)
        | _ \<Rightarrow> None)
     | _ \<Rightarrow> None)"

definition simple_escape :: "nat \<Rightarrow> nat option" where
  "simple_escape e =
     (if e = 34 \<or> e = 92 \<or> e = 47 then Some e
      else if e = 98 then Some 8 else if e = 102 then Some 12 else if e = 110 then Some 10
      else if e = 114 then Some 13 else if e = 116 then Some 9 else None)"

text \<open>
  The rest of an escape after the backslash.  A high surrogate takes the escaped low surrogate
  after it, when there is one.
\<close>

definition jescape :: "pstr \<Rightarrow> (nat \<times> pstr) option" where
  "jescape s = (case s of [] \<Rightarrow> None | e # q \<Rightarrow>
     if e = 117 then
       (case hex4 q of None \<Rightarrow> None
        | Some (c, r) \<Rightarrow>
            if 0xD800 \<le> c \<and> c \<le> 0xDBFF \<and> take 2 r = [92, 117] then
              (case hex4 (drop 2 r) of None \<Rightarrow> None
               | Some (d, r') \<Rightarrow>
                   if 0xDC00 \<le> d \<and> d \<le> 0xDFFF
                   then Some (0x10000 + (c - 0xD800) * 1024 + (d - 0xDC00), r')
                   else Some (c, r))
            else Some (c, r))
     else map_option (\<lambda>c. (c, q)) (simple_escape e))"

lemma hex4_shorter: "hex4 s = Some (c, r) \<Longrightarrow> length r < length s"
  by (auto simp: hex4_def split: list.splits option.splits)

lemma jescape_shorter: "jescape s = Some (c, r) \<Longrightarrow> length r < length s"
  by (auto simp: jescape_def split: list.splits option.splits if_splits dest!: hex4_shorter)

text \<open>A string after its opening quote; control characters are refused.\<close>

function jstring :: "pstr \<Rightarrow> (pstr \<times> pstr) option" where
  "jstring s = (case s of [] \<Rightarrow> None | c # r \<Rightarrow>
     if c = 34 then Some ([], r)
     else if c = 92 then
       (case jescape r of None \<Rightarrow> None
        | Some (d, r') \<Rightarrow> map_option (\<lambda>(t, q). (d # t, q)) (jstring r'))
     else if c < 32 then None
     else map_option (\<lambda>(t, q). (c # t, q)) (jstring r))"
  by pat_completeness auto
termination
  by (relation "measure length") (auto dest: jescape_shorter)

declare jstring.simps [simp del]

text \<open>A number: an integer part, then a fraction and an exponent when digits follow.\<close>

definition jfraction :: "pstr \<Rightarrow> pstr" where
  "jfraction r = (case r of x # d # q \<Rightarrow> if x = 46 \<and> is_digit d then [x] @ takeWhile is_digit (d # q) else []
                  | _ \<Rightarrow> [])"

definition jexponent :: "pstr \<Rightarrow> pstr" where
  "jexponent r = (case r of [] \<Rightarrow> [] | x # q \<Rightarrow>
     if x = 101 \<or> x = 69 then
       (let sgn = (case q of [] \<Rightarrow> [] | y # _ \<Rightarrow> if y = 43 \<or> y = 45 then [y] else []);
            ds = takeWhile is_digit (drop (length sgn) q)
        in if ds = [] then [] else [x] @ sgn @ ds)
     else [])"

definition jdigits :: "pstr \<Rightarrow> pstr" where
  "jdigits r = (case r of [] \<Rightarrow> [] | d # _ \<Rightarrow> if d = 48 then [48] else takeWhile is_digit r)"

definition jnumber :: "pstr \<Rightarrow> (pyval \<times> pstr) option" where
  "jnumber s =
     (let sgn = (case s of [] \<Rightarrow> [] | c # _ \<Rightarrow> if c = 45 then [45] else []);
          r = drop (length sgn) s;
          ds = jdigits r; r1 = drop (length ds) r;
          fr = jfraction r1; r2 = drop (length fr) r1;
          ex = jexponent r2; r3 = drop (length ex) r2
      in if ds = [] then None
         else if fr = [] \<and> ex = []
         then Some (PInt (if sgn = [] then int (digits_val 0 ds) else - int (digits_val 0 ds)), r3)
         else Some (PFloat (sgn @ ds @ fr @ ex), r3))"

definition jconst :: "pstr \<Rightarrow> (pyval \<times> pstr) option" where
  "jconst s =
     (let try = (\<lambda>t v k. if take (length t) s = t then Some (v, drop (length t) s) else k)
      in try (u ''null'') PNone (try (u ''true'') (PBool True) (try (u ''false'') (PBool False)
          (try (u ''NaN'') (PFloat (u ''NaN'')) (try (u ''Infinity'') (PFloat (u ''Infinity''))
            (try (u ''-Infinity'') (PFloat (u ''-Infinity'')) (jnumber s)))))))"

text \<open>
  A value; the elements of a list and the members of an object after the opening bracket.
  The first argument bounds the recursion; \<open>2 * length s\<close> is always enough (\<open>jval_fuel\<close>).
\<close>

fun jval :: "nat \<Rightarrow> pstr \<Rightarrow> (pyval \<times> pstr) option"
  and jelems :: "nat \<Rightarrow> pstr \<Rightarrow> (pyval list \<times> pstr) option"
  and jmembers :: "nat \<Rightarrow> pstr \<Rightarrow> (pydict \<times> pstr) option" where
  "jval 0 s = None"
| "jval (Suc n) s = (case s of [] \<Rightarrow> None | c # r \<Rightarrow>
     if c = 34 then map_option (\<lambda>(t, q). (PStr t, q)) (jstring r)
     else if c = 123 then
       (case skip r of [] \<Rightarrow> None | d # q \<Rightarrow>
          if d = 125 then Some (PDict [], q)
          else map_option (\<lambda>(kvs, q'). (PDict kvs, q')) (jmembers n (d # q)))
     else if c = 91 then
       (case skip r of [] \<Rightarrow> None | d # q \<Rightarrow>
          if d = 93 then Some (PList [], q)
          else map_option (\<lambda>(vs, q'). (PList vs, q')) (jelems n (d # q)))
     else jconst s)"
| "jelems 0 s = None"
| "jelems (Suc n) s = (case jval n s of None \<Rightarrow> None | Some (v, r) \<Rightarrow>
     (case skip r of [] \<Rightarrow> None | c # q \<Rightarrow>
        if c = 93 then Some ([v], q)
        else if c = 44 then map_option (\<lambda>(vs, q'). (v # vs, q')) (jelems n (skip q))
        else None))"
| "jmembers 0 s = None"
| "jmembers (Suc n) s = (case s of [] \<Rightarrow> None | c # r0 \<Rightarrow>
     if c \<noteq> 34 then None
     else (case jstring r0 of None \<Rightarrow> None | Some (k, r) \<Rightarrow>
       (case skip r of [] \<Rightarrow> None | d # q \<Rightarrow>
          if d \<noteq> 58 then None
          else (case jval n (skip q) of None \<Rightarrow> None | Some (v, r2) \<Rightarrow>
            (case skip r2 of [] \<Rightarrow> None | e # q2 \<Rightarrow>
               if e = 125 then Some ([(PStr k, v)], q2)
               else if e = 44
               then map_option (\<lambda>(kvs, q'). ((PStr k, v) # kvs, q')) (jmembers n (skip q2))
               else None)))))"

text \<open>Objects as dicts: a repeated key keeps its first place and its last value.\<close>

definition dict_of :: "pydict \<Rightarrow> pydict" where
  "dict_of kvs = foldl (\<lambda>d (k, v). AList.update k v d) [] kvs"

fun to_dicts :: "pyval \<Rightarrow> pyval" where
  "to_dicts (PList xs) = PList (map to_dicts xs)"
| "to_dicts (PDict kvs) = PDict (dict_of (map (\<lambda>(k, v). (k, to_dicts v)) kvs))"
| "to_dicts v = v"

text \<open>\<open>json.loads\<close> of a text\<close>

definition loads_text :: "pstr \<Rightarrow> exn + pyval" where
  "loads_text s = (let t = skip s in
     (case jval (2 * length t) t of None \<Rightarrow> Inl ValueError
      | Some (v, r) \<Rightarrow> if skip r = [] then Inr (to_dicts v) else Inl ValueError))"

text \<open>\<open>json.detect_encoding\<close> and the decoders it chooses from\<close>

datatype encoding = UTF8 | UTF8_sig | UTF16 bool | UTF32 bool | UTF16_bom bool | UTF32_bom bool

definition detect_encoding :: "nat list \<Rightarrow> encoding" where
  "detect_encoding bs =
     (if take 4 bs = [0, 0, 0xFE, 0xFF] then UTF32_bom True
      else if take 4 bs = [0xFF, 0xFE, 0, 0] then UTF32_bom False
      else if take 2 bs = [0xFE, 0xFF] then UTF16_bom True
      else if take 2 bs = [0xFF, 0xFE] then UTF16_bom False
      else if take 3 bs = [0xEF, 0xBB, 0xBF] then UTF8_sig
      else if 4 \<le> length bs then
        (if bs ! 0 = 0 then (if bs ! 1 \<noteq> 0 then UTF16 True else UTF32 True)
         else if bs ! 1 = 0 then (if bs ! 2 \<noteq> 0 \<or> bs ! 3 \<noteq> 0 then UTF16 False else UTF32 False)
         else UTF8)
      else if length bs = 2 then
        (if bs ! 0 = 0 then UTF16 True else if bs ! 1 = 0 then UTF16 False else UTF8)
      else UTF8)"

fun units16 :: "bool \<Rightarrow> nat list \<Rightarrow> nat list option" where
  "units16 big [] = Some []"
| "units16 big [x] = None"
| "units16 big (x # y # r) =
     map_option (Cons (if big then x * 256 + y else y * 256 + x)) (units16 big r)"

fun join_surrogates :: "nat list \<Rightarrow> pstr" where
  "join_surrogates (c # d # r) =
     (if 0xD800 \<le> c \<and> c \<le> 0xDBFF \<and> 0xDC00 \<le> d \<and> d \<le> 0xDFFF
      then (0x10000 + (c - 0xD800) * 1024 + (d - 0xDC00)) # join_surrogates r
      else c # join_surrogates (d # r))"
| "join_surrogates r = r"

fun units32 :: "bool \<Rightarrow> nat list \<Rightarrow> pstr option" where
  "units32 big [] = Some []"
| "units32 big (x # y # z # w # r) =
     (let c = (if big then ((x * 256 + y) * 256 + z) * 256 + w
               else ((w * 256 + z) * 256 + y) * 256 + x)
      in if c < 0x110000 then map_option (Cons c) (units32 big r) else None)"
| "units32 big _ = None"

definition decode_as :: "encoding \<Rightarrow> nat list \<Rightarrow> pstr option" where
  "decode_as e bs = (case e of
       UTF8 \<Rightarrow> utf8_dec bs
     | UTF8_sig \<Rightarrow> utf8_dec (drop 3 bs)
     | UTF16 big \<Rightarrow> map_option join_surrogates (units16 big bs)
     | UTF16_bom big \<Rightarrow> map_option join_surrogates (units16 big (drop 2 bs))
     | UTF32 big \<Rightarrow> units32 big bs
     | UTF32_bom big \<Rightarrow> units32 big (drop 4 bs))"

definition json_loads :: "bytes \<Rightarrow> exn + pyval" where
  "json_loads bs =
     (case decode_as (detect_encoding (from_bytes bs)) (from_bytes bs) of
        None \<Rightarrow> Inl UnicodeError
      | Some s \<Rightarrow> loads_text s)"

subsection \<open>Reading back what was written\<close>

fun jsonable :: "pyval \<Rightarrow> bool" where
  "jsonable (PFloat _) = False"
| "jsonable (PList xs) = list_all jsonable xs"
| "jsonable (PTuple xs) = list_all jsonable xs"
| "jsonable (PDict kvs) = list_all (\<lambda>(k, v). (case k of PStr _ \<Rightarrow> True | _ \<Rightarrow> False) \<and> jsonable v) kvs"
| "jsonable (PObj _) = False"
| "jsonable _ = True"

lemma hex4_hex_pad: "c < 32 \<Longrightarrow> hex4 (hex_pad 4 c @ r) = Some (c, r)"
proof -
  assume c: "c < 32"
  define p q where "p = c div 16" and "q = c mod 16"
  have d: "p < 16" "q < 16" "p div 16 = 0" "p mod 16 = p" "16 * p + q = c"
    using c unfolding p_def q_def by simp_all
  have "hex_pad 4 c = hex_pad (Suc (Suc (Suc (Suc 0)))) c"
    by (rule arg_cong [where f = "\<lambda>k. hex_pad k c"]) simp
  then have pad: "hex_pad 4 c = [hex_digit 0, hex_digit 0, hex_digit p, hex_digit q]"
    by (simp only: hex_pad.simps p_def [symmetric] q_def [symmetric] append.simps d(3,4)
        div_0 mod_0)
  show ?thesis
    using d(5) by (simp add: hex4_def pad hex_val_digit [OF d(1)] hex_val_digit [OF d(2)]
        hex_val_digit [of 0, simplified])
qed

lemma jstring_esc_char: "jstring (esc_char c @ s) = map_option (\<lambda>(t, q). (c # t, q)) (jstring s)"
proof (cases "c < 32 \<and> c \<notin> {8, 9, 10, 12, 13}")
  case True
  then have "esc_char c = [92, 117] @ hex_pad 4 c" and c: "c < 32"
    by (auto simp: esc_char_def)
  then show ?thesis
    by (subst jstring.simps) (simp add: jescape_def hex4_hex_pad)
next
  case False
  then show ?thesis
    by (subst jstring.simps) (auto simp: esc_char_def jescape_def simple_escape_def)
qed

lemma jstring_json_str: "jstring (concat (map esc_char s) @ 34 # r) = Some (s, r)"
proof (induction s)
  case Nil
  then show ?case by (subst jstring.simps) simp
next
  case (Cons c s)
  then show ?case by (simp add: jstring_esc_char)
qed

text \<open>What may follow a value inside a JSON text, or end it.\<close>

definition stops :: "pstr \<Rightarrow> bool" where
  "stops r \<longleftrightarrow> (case r of [] \<Rightarrow> True | c # _ \<Rightarrow> c = 44 \<or> c = 93 \<or> c = 125)"

lemma stops_simps [simp]:
  "stops []" "stops (44 # r)" "stops (93 # r)" "stops (125 # r)"
  by (simp_all add: stops_def)

lemma nat_repr_zero [simp]: "nat_repr 0 = [48]"
  by (subst nat_repr.simps) simp

lemma take_digits_nat_repr:
  "stops r \<Longrightarrow> takeWhile is_digit (nat_repr n @ r) = nat_repr n"
proof -
  assume "stops r"
  then have "case r of [] \<Rightarrow> True | y # _ \<Rightarrow> \<not> is_digit y"
    by (auto simp: stops_def is_digit_def split: list.splits)
  then show ?thesis
    using takeWhile_append_stop [of "nat_repr n" is_digit r] nat_repr_digits by blast
qed

lemma nat_repr_Cons: "nat_repr n = c # t \<Longrightarrow> is_digit c \<and> (c = 48 \<longrightarrow> n = 0)"
  using nat_repr_digits [of c n] nat_repr_leading [of n] by auto

lemma jtail_stops: "stops r \<Longrightarrow> jfraction r = [] \<and> jexponent r = []"
  by (auto simp: stops_def jfraction_def jexponent_def split: list.splits)

lemma nat_repr_head: "\<exists>c t. nat_repr n = c # t \<and> is_digit c \<and> (c = 48 \<longrightarrow> n = 0)"
  using nat_repr_Cons [of n] by (cases "nat_repr n") auto

lemma jdigits_nat_repr: "stops r \<Longrightarrow> jdigits (nat_repr n @ r) = nat_repr n"
proof -
  assume r: "stops r"
  obtain c t where ct: "nat_repr n = c # t" "c = 48 \<longrightarrow> n = 0"
    using nat_repr_head by blast
  show ?thesis
  proof (cases "c = 48")
    case True
    with ct show ?thesis by (simp add: jdigits_def)
  next
    case False
    then show ?thesis using take_digits_nat_repr [OF r, of n] by (simp add: ct jdigits_def)
  qed
qed

lemma jnumber_nat:
  assumes "stops r"
  shows "jnumber (nat_repr n @ r) = Some (PInt (int n), r)"
    and "jnumber (45 # nat_repr n @ r) = Some (PInt (- int n), r)"
proof -
  obtain c t where ct: "nat_repr n = c # t" "is_digit c"
    using nat_repr_head by blast
  then have "(case nat_repr n @ r of [] \<Rightarrow> [] | c # _ \<Rightarrow> if c = 45 then [45::nat] else []) = []"
    by (auto simp: is_digit_def)
  then show "jnumber (nat_repr n @ r) = Some (PInt (int n), r)"
    using jtail_stops [OF assms] by (simp add: jnumber_def jdigits_nat_repr [OF assms])
  show "jnumber (45 # nat_repr n @ r) = Some (PInt (- int n), r)"
    using jtail_stops [OF assms] by (simp add: jnumber_def jdigits_nat_repr [OF assms])
qed

lemma u_consts:
  "u ''null'' = [110, 117, 108, 108]" "u ''true'' = [116, 114, 117, 101]"
  "u ''false'' = [102, 97, 108, 115, 101]" "u ''NaN'' = [78, 97, 78]"
  "u ''Infinity'' = [73, 110, 102, 105, 110, 105, 116, 121]"
  "u ''-Infinity'' = [45, 73, 110, 102, 105, 110, 105, 116, 121]"
  by (simp_all add: u_def)

lemma int_repr_shape:
  "\<exists>c t. int_repr i = c # t \<and> (is_digit c \<or> c = 45 \<and> (\<exists>d q. t = d # q \<and> is_digit d))"
  using nat_repr_head [of "nat i"] nat_repr_head [of "nat (- i)"] by (fastforce simp: int_repr_def)

lemma jconst_other:
  "c \<notin> {110, 116, 102, 78, 73, 45} \<Longrightarrow> jconst (c # s) = jnumber (c # s)"
  "d \<noteq> 73 \<Longrightarrow> jconst (45 # d # s) = jnumber (45 # d # s)"
  by (simp_all add: jconst_def u_consts)

lemma jconst_int: "stops r \<Longrightarrow> jconst (int_repr i @ r) = Some (PInt i, r)"
proof -
  assume r: "stops r"
  obtain c t where ct: "int_repr i = c # t"
    and sh: "is_digit c \<or> c = 45 \<and> (\<exists>d q. t = d # q \<and> is_digit d)"
    using int_repr_shape [of i] by blast
  have "jconst (int_repr i @ r) = jnumber (int_repr i @ r)"
    using sh unfolding ct
  proof (elim disjE conjE exE)
    assume "is_digit c"
    then show "jconst ((c # t) @ r) = jnumber ((c # t) @ r)"
      unfolding append_Cons by (intro jconst_other) (auto simp: is_digit_def)
  next
    fix d q assume c: "c = 45" "t = d # q" "is_digit d"
    then have "d \<noteq> 73" by (auto simp: is_digit_def)
    then show "jconst ((c # t) @ r) = jnumber ((c # t) @ r)"
      unfolding c append_Cons by (rule jconst_other)
  qed
  also have "\<dots> = Some (PInt i, r)"
    using jnumber_nat [OF r, of "nat i"] jnumber_nat [OF r, of "nat (- i)"]
    by (auto simp: int_repr_def)
  finally show ?thesis .
qed

text \<open>The first character of a written value: no white space, no closing bracket.\<close>

lemma dumps_head:
  "jsonable v \<Longrightarrow> \<exists>c t. dumps v = c # t \<and> \<not> json_ws c \<and> c \<noteq> 93 \<and> c \<noteq> 125 \<and>
     0 < c \<and> c < 128"
proof (cases v)
  case (PInt i)
  then show ?thesis
    using int_repr_shape [of i] by (auto simp: is_digit_def json_ws_def)
qed (auto simp: json_ws_def u_def json_str_def)

lemma skip_dumps: "jsonable v \<Longrightarrow> skip (dumps v @ r) = dumps v @ r"
  using dumps_head [of v] by auto

lemma skip_nonws: "\<not> json_ws c \<Longrightarrow> skip (c # r) = c # r"
  by simp

definition reads :: "pyval \<Rightarrow> bool" where
  "reads v \<longleftrightarrow> (\<forall>r n. stops r \<longrightarrow> 2 * length (dumps v @ r) \<le> n \<longrightarrow>
     jval n (dumps v @ r) = Some (norm v, r))"

lemma readsD: "reads v \<Longrightarrow> stops r \<Longrightarrow> 2 * length (dumps v @ r) \<le> n \<Longrightarrow>
    jval n (dumps v @ r) = Some (norm v, r)"
  by (simp add: reads_def)

lemma jelems_join:
  "xs \<noteq> [] \<Longrightarrow> \<forall>x\<in>set xs. jsonable x \<and> reads x \<Longrightarrow>
     2 * length (join [44] (map dumps xs) @ 93 # r) + 1 \<le> n \<Longrightarrow>
     jelems n (join [44] (map dumps xs) @ 93 # r) = Some (map norm xs, r)"
proof (induction xs arbitrary: n)
  case (Cons x xs)
  then obtain m where n: "n = Suc m" by (cases n) auto
  show ?case
  proof (cases xs)
    case Nil
    have "jval m (dumps x @ 93 # r) = Some (norm x, 93 # r)"
      using Cons.prems n Nil by (intro readsD) auto
    then show ?thesis using n Nil by (simp add: json_ws_def)
  next
    case (Cons y ys)
    let ?t = "join [44] (map dumps xs) @ 93 # r"
    have "join [44] (map dumps (x # xs)) @ 93 # r = dumps x @ 44 # ?t"
      using Cons by simp
    moreover have "jval m (dumps x @ 44 # ?t) = Some (norm x, 44 # ?t)"
      using Cons.prems n \<open>xs = y # ys\<close> by (intro readsD) auto
    moreover have "skip ?t = ?t"
      using Cons.prems(2) \<open>xs = y # ys\<close> dumps_head [of y] by (cases ys) auto
    moreover have "jelems m ?t = Some (map norm xs, r)"
      using Cons.prems n \<open>xs = y # ys\<close> by (intro Cons.IH) auto
    ultimately show ?thesis using n by (simp add: json_ws_def)
  qed
qed simp

abbreviation member :: "pyval \<times> pyval \<Rightarrow> pstr" where
  "member \<equiv> \<lambda>(k, v). json_str (str_of k) @ [58] @ dumps v"

lemma jmembers_join:
  "kvs \<noteq> [] \<Longrightarrow> \<forall>(k, v)\<in>set kvs. (\<exists>s. k = PStr s) \<and> jsonable v \<and> reads v \<Longrightarrow>
     2 * length (join [44] (map member kvs) @ 125 # r) + 1 \<le> n \<Longrightarrow>
     jmembers n (join [44] (map member kvs) @ 125 # r) = Some (map (\<lambda>(k, v). (k, norm v)) kvs, r)"
proof (induction kvs arbitrary: n)
  case (Cons kv kvs)
  then obtain m where n: "n = Suc m" by (cases n) auto
  obtain s v where kv: "kv = (PStr s, v)" and v: "jsonable v" "reads v"
    using Cons.prems(2) by auto
  show ?case
  proof (cases kvs)
    case Nil
    have "jval m (dumps v @ 125 # r) = Some (norm v, 125 # r)"
      using Cons.prems n Nil kv v by (intro readsD) (auto simp: json_str_def)
    then show ?thesis using n Nil kv skip_dumps [OF v(1)]
      by (simp add: json_ws_def json_str_def jstring_json_str)
  next
    case (Cons y ys)
    let ?t = "join [44] (map member kvs) @ 125 # r"
    have "join [44] (map member (kv # kvs)) @ 125 # r =
        34 # concat (map esc_char s) @ 34 # 58 # dumps v @ 44 # ?t"
      using Cons kv by (simp add: json_str_def)
    moreover have "jval m (dumps v @ 44 # ?t) = Some (norm v, 44 # ?t)"
      using Cons.prems n \<open>kvs = y # ys\<close> kv v by (intro readsD) (auto simp: json_str_def)
    moreover have "skip ?t = ?t"
      using \<open>kvs = y # ys\<close> by (cases ys; cases y) (auto simp: json_str_def json_ws_def)
    moreover have "jmembers m ?t = Some (map (\<lambda>(k, v). (k, norm v)) kvs, r)"
      using Cons.prems n \<open>kvs = y # ys\<close> kv by (intro Cons.IH) auto
    ultimately show ?thesis using n kv skip_dumps [OF v(1)]
      by (simp add: json_ws_def jstring_json_str)
  qed
qed simp

lemma reads_list:
  assumes "\<forall>x\<in>set xs. jsonable x \<and> reads x" "stops r"
    "2 * length ([91] @ join [44] (map dumps xs) @ 93 # r) \<le> n"
  shows "jval n ([91] @ join [44] (map dumps xs) @ 93 # r) = Some (PList (map norm xs), r)"
proof -
  obtain m where n: "n = Suc m" using assms(3) by (cases n) auto
  show ?thesis
  proof (cases xs)
    case Nil
    then show ?thesis using n by (simp add: json_ws_def)
  next
    case (Cons y ys)
    let ?t = "join [44] (map dumps xs) @ 93 # r"
    obtain c t where "?t = c # t" "\<not> json_ws c" "c \<noteq> 93"
      using assms(1) Cons dumps_head [of y] by (cases ys) auto
    moreover have "jelems m ?t = Some (map norm xs, r)"
      using assms n Cons by (intro jelems_join) auto
    ultimately show ?thesis using n by simp
  qed
qed

lemma jsonable_members:
  "jsonable (PDict kvs) \<longleftrightarrow> (\<forall>(k, v)\<in>set kvs. (\<exists>s. k = PStr s) \<and> jsonable v)"
  by (auto simp: list_all_iff split: pyval.splits)

lemma reads_dict:
  assumes "\<forall>(k, v)\<in>set kvs. (\<exists>s. k = PStr s) \<and> jsonable v \<and> reads v" "stops r"
    "2 * length ([123] @ join [44] (map member kvs) @ 125 # r) \<le> n"
  shows "jval n ([123] @ join [44] (map member kvs) @ 125 # r) =
     Some (PDict (map (\<lambda>(k, v). (k, norm v)) kvs), r)"
proof -
  obtain m where n: "n = Suc m" using assms(3) by (cases n) auto
  show ?thesis
  proof (cases kvs)
    case Nil
    then show ?thesis using n by (simp add: json_ws_def)
  next
    case (Cons y ys)
    let ?t = "join [44] (map member kvs) @ 125 # r"
    obtain c t where "?t = c # t" "\<not> json_ws c" "c \<noteq> 125"
      using Cons by (cases ys; cases y) (auto simp: json_str_def json_ws_def)
    moreover have "jmembers m ?t = Some (map (\<lambda>(k, v). (k, norm v)) kvs, r)"
      using assms n Cons by (intro jmembers_join) auto
    ultimately show ?thesis using n by simp
  qed
qed

lemma reads_const:
  assumes "\<And>r. jconst (dumps v @ r) = Some (norm v, r)"
    and "\<exists>c t. dumps v = c # t \<and> c \<noteq> 34 \<and> c \<noteq> 123 \<and> c \<noteq> 91"
  shows "reads v"
  unfolding reads_def
proof (intro allI impI)
  fix r n assume n: "2 * length (dumps v @ r) \<le> n"
  obtain c t where ct: "dumps v = c # t" "c \<noteq> 34" "c \<noteq> 123" "c \<noteq> 91"
    using assms(2) by blast
  then obtain m where "n = Suc m" using n by (cases n) auto
  then show "jval n (dumps v @ r) = Some (norm v, r)"
    using ct assms(1) [of r] by simp
qed

lemma jval_dumps: "jsonable v \<Longrightarrow> reads v"
proof (induction v rule: dumps.induct)
  case (8 kvs)
  then have kvs: "\<forall>(k, v)\<in>set (key_sort kvs). (\<exists>s. k = PStr s) \<and> jsonable v \<and> reads v"
    unfolding jsonable_members by fastforce
  show ?case
    by (unfold reads_def, intro allI impI) (use reads_dict [OF kvs] in simp)
next
  case (6 xs)
  then have xs: "\<forall>x\<in>set xs. jsonable x \<and> reads x" by (auto simp: list_all_iff)
  show ?case
    by (unfold reads_def, intro allI impI) (use reads_list [OF xs] in simp)
next
  case (7 xs)
  then have xs: "\<forall>x\<in>set xs. jsonable x \<and> reads x" by (auto simp: list_all_iff)
  show ?case
    by (unfold reads_def, intro allI impI) (use reads_list [OF xs] in simp)
next
  case (3 i)
  show ?case unfolding reads_def
  proof (intro allI impI)
    fix r n assume r: "stops r" and n: "2 * length (dumps (PInt i) @ r) \<le> n"
    obtain c t where ct: "int_repr i = c # t"
      and sh: "is_digit c \<or> c = 45 \<and> (\<exists>d q. t = d # q \<and> is_digit d)"
      using int_repr_shape [of i] by blast
    then obtain m where "n = Suc m" using n by (cases n) auto
    moreover have "c \<noteq> 34" "c \<noteq> 123" "c \<noteq> 91" using sh by (auto simp: is_digit_def)
    ultimately show "jval n (dumps (PInt i) @ r) = Some (norm (PInt i), r)"
      using jconst_int [OF r, of i] by (simp add: ct)
  qed
next
  case (5 s)
  show ?case unfolding reads_def
  proof (intro allI impI)
    fix r n assume n: "2 * length (dumps (PStr s) @ r) \<le> n"
    then obtain m where "n = Suc m" by (cases n) (auto simp: json_str_def)
    then show "jval n (dumps (PStr s) @ r) = Some (norm (PStr s), r)"
      by (simp add: json_str_def jstring_json_str)
  qed
next
  case 1
  show ?case by (rule reads_const) (simp_all add: u_consts jconst_def)
next
  case (2 t)
  show ?case by (rule reads_const) (cases t; simp add: u_consts jconst_def)+
qed simp_all

text \<open>The bound on the recursion is never reached.\<close>

lemma jstring_shorter: "jstring s = Some (t, r) \<Longrightarrow> length r < length s"
proof (induction s arbitrary: t r rule: jstring.induct)
  case (1 s)
  show ?case
  proof (cases s)
    case Nil
    with "1.prems" show ?thesis by (simp add: jstring.simps [of "[]"])
  next
    case (Cons c q)
    note step = "1.prems" [unfolded Cons jstring.simps [of "c # q"]]
    note IH = "1.IH" [OF Cons]
    show ?thesis
      using step IH Cons by (fastforce split: if_splits option.splits dest: jescape_shorter)
  qed
qed

lemma skip_length: "length (skip s) \<le> length s"
  by (rule length_dropWhile_le)

lemma skip_Cons_length: "skip s = c # q \<Longrightarrow> length q < length s"
  using skip_length [of s] by simp

lemma jnumber_shorter: "jnumber s = Some (v, r) \<Longrightarrow> length r < length s"
proof -
  assume num: "jnumber s = Some (v, r)"
  let ?sgn = "case s of [] \<Rightarrow> [] | c # _ \<Rightarrow> if c = 45 then [45::nat] else []"
  have "jdigits (drop (length ?sgn) s) \<noteq> []"
    using num by (auto simp: jnumber_def Let_def split: if_splits)
  moreover from this have "s \<noteq> []" by (auto simp: jdigits_def)
  moreover have "length r \<le> length s - length (jdigits (drop (length ?sgn) s))"
    using num by (auto simp: jnumber_def Let_def split: if_splits)
  ultimately show ?thesis by (cases "jdigits (drop (length ?sgn) s)"; cases s) auto
qed

lemma jconst_shorter: "jconst s = Some (v, r) \<Longrightarrow> length r < length s"
proof -
  assume s: "jconst s = Some (v, r)"
  then have "s \<noteq> []" by (auto simp: jconst_def u_consts jnumber_def jdigits_def Let_def)
  then have "length s - Suc k < length s" for k by (cases s) auto
  then show ?thesis
    using s jnumber_shorter by (auto simp: jconst_def Let_def u_consts split: if_splits)
qed

text \<open>One step of each of the three functions, with the conditions under which it returns.\<close>

lemma jelems_Some:
  "jelems (Suc n) s = Some (vs, q) \<longleftrightarrow>
     (\<exists>v r c r'. jval n s = Some (v, r) \<and> skip r = c # r' \<and>
        (c = 93 \<and> vs = [v] \<and> q = r' \<or>
         c = 44 \<and> (\<exists>vs'. jelems n (skip r') = Some (vs', q) \<and> vs = v # vs')))"
  by (auto split: option.splits list.splits if_splits simp del: dropWhile_eq_Nil_conv)

lemma jmembers_Some:
  "jmembers (Suc n) s = Some (kvs, q) \<longleftrightarrow>
     (\<exists>r0 k r1 r2 v r3 c r'. s = 34 # r0 \<and> jstring r0 = Some (k, r1) \<and> skip r1 = 58 # r2 \<and>
        jval n (skip r2) = Some (v, r3) \<and> skip r3 = c # r' \<and>
        (c = 125 \<and> kvs = [(PStr k, v)] \<and> q = r' \<or>
         c = 44 \<and> (\<exists>kvs'. jmembers n (skip r') = Some (kvs', q) \<and> kvs = (PStr k, v) # kvs')))"
  by (auto split: option.splits list.splits if_splits simp del: dropWhile_eq_Nil_conv)

lemma jval_Some:
  "jval (Suc n) s = Some (v, q) \<longleftrightarrow>
     (\<exists>c r. s = c # r \<and>
       (if c = 34 then \<exists>t. jstring r = Some (t, q) \<and> v = PStr t
        else if c = 123 then \<exists>d r'. skip r = d # r' \<and>
          (if d = 125 then v = PDict [] \<and> q = r' else \<exists>kvs. jmembers n (d # r') = Some (kvs, q) \<and> v = PDict kvs)
        else if c = 91 then \<exists>d r'. skip r = d # r' \<and>
          (if d = 93 then v = PList [] \<and> q = r' else \<exists>vs. jelems n (d # r') = Some (vs, q) \<and> v = PList vs)
        else jconst s = Some (v, q)))"
  by (auto split: option.splits list.splits if_splits simp del: dropWhile_eq_Nil_conv)
    (rule exI [of _ 125], simp)

declare jval.simps(2) [simp del] jelems.simps(2) [simp del] jmembers.simps(2) [simp del]

lemma jval_shorter_all:
  "(\<forall>s v q. jval n s = Some (v, q) \<longrightarrow> length q < length s) \<and>
   (\<forall>s vs q. jelems n s = Some (vs, q) \<longrightarrow> length q < length s) \<and>
   (\<forall>s kvs q. jmembers n s = Some (kvs, q) \<longrightarrow> length q < length s)"
proof (induction n)
  case (Suc n)
  then have val: "length q < length s" if "jval n s = Some (v, q)" for s v q
    using that by blast
  have elems: "length q < length s" if "jelems n s = Some (vs, q)" for s vs q
    using that Suc by blast
  have members: "length q < length s" if "jmembers n s = Some (kvs, q)" for s kvs q
    using that Suc by blast
  show ?case
  proof (intro conjI allI impI)
    fix s v q assume "jval (Suc n) s = Some (v, q)"
    then show "length q < length s"
      unfolding jval_Some
      by (auto split: if_splits dest!: jstring_shorter jconst_shorter skip_Cons_length elems members)
  next
    fix s vs q assume "jelems (Suc n) s = Some (vs, q)"
    then obtain v r c r' where r: "jval n s = Some (v, r)" "skip r = c # r'"
      "q = r' \<or> (\<exists>vs'. jelems n (skip r') = Some (vs', q))"
      unfolding jelems_Some by blast
    have "length q \<le> length r'"
      using r(3) elems skip_length [of r'] by fastforce
    with val [OF r(1)] skip_Cons_length [OF r(2)] show "length q < length s" by simp
  next
    fix s kvs q assume "jmembers (Suc n) s = Some (kvs, q)"
    then obtain r0 k r1 r2 v r3 c r' where r: "s = 34 # r0" "jstring r0 = Some (k, r1)"
      "skip r1 = 58 # r2" "jval n (skip r2) = Some (v, r3)" "skip r3 = c # r'"
      "q = r' \<or> (\<exists>kvs'. jmembers n (skip r') = Some (kvs', q))"
      unfolding jmembers_Some by blast
    have "length q \<le> length r'"
      using r(6) members skip_length [of r'] by fastforce
    with val [OF r(4)] skip_Cons_length [OF r(5)] skip_Cons_length [OF r(3)] skip_length [of r2]
      jstring_shorter [OF r(2)] r(1)
    show "length q < length s" by simp
  qed
qed simp

lemma option_eqI: "(\<And>x y. a = Some (x, y) \<longleftrightarrow> c = Some (x, y)) \<Longrightarrow> a = c"
  by (cases a; cases c) auto

lemma jval_fuel_all:
  "(\<forall>s. 2 * length s \<le> n \<longrightarrow> jval (Suc n) s = jval n s) \<and>
   (\<forall>s. 2 * length s + 1 \<le> n \<longrightarrow> jelems (Suc n) s = jelems n s) \<and>
   (\<forall>s. 2 * length s + 1 \<le> n \<longrightarrow> jmembers (Suc n) s = jmembers n s)"
proof (induction n)
  case (Suc n)
  note less = jval_shorter_all [of n] jval_shorter_all [of "Suc n"]
  show ?case
  proof (intro conjI allI impI)
    fix s :: pstr assume n: "2 * length s \<le> Suc n"
    have inner: "jmembers (Suc n) (d # r') = jmembers n (d # r')"
      "jelems (Suc n) (d # r') = jelems n (d # r')" if "s = c # r" "skip r = d # r'" for c r d r'
      using Suc n that skip_Cons_length [OF that(2)] by auto
    show "jval (Suc (Suc n)) s = jval (Suc n) s"
    proof (cases s)
      case (Cons c r)
      then show ?thesis
        by (cases "skip r") (simp_all add: jval.simps(2) inner [OF Cons] del: dropWhile_eq_Nil_conv)
    qed (simp add: jval.simps(2))
  next
    fix s :: pstr assume n: "2 * length s + 1 \<le> Suc n"
    then have val: "jval (Suc n) s = jval n s" using Suc by simp
    have inner: "jelems (Suc n) (skip r') = jelems n (skip r')" if "jval n s = Some (v, r)" "skip r = c # r'"
      for v r c r'
    proof -
      have "length r < length s" using less that(1) by blast
      then have "length (skip r') + 1 < length s"
        using skip_Cons_length [OF that(2)] skip_length [of r'] by linarith
      then show ?thesis using Suc n by simp
    qed
    show "jelems (Suc (Suc n)) s = jelems (Suc n) s"
    proof (cases "jval n s")
      case (Some vr)
      then show ?thesis
        using inner [of "fst vr" "snd vr"]
        by (cases "skip (snd vr)")
          (simp_all add: jelems.simps(2) val case_prod_beta del: dropWhile_eq_Nil_conv)
    qed (simp add: jelems.simps(2) val)
  next
    fix s :: pstr assume n: "2 * length s + 1 \<le> Suc n"
    have val: "jval (Suc n) (skip r2) = jval n (skip r2)"
      if "s = 34 # r0" "jstring r0 = Some (k, r1)" "skip r1 = 58 # r2" for r0 k r1 r2
      using Suc n that(1) jstring_shorter [OF that(2)] skip_Cons_length [OF that(3)] skip_length [of r2]
      by auto
    have mem: "jmembers (Suc n) (skip r') = jmembers n (skip r')"
      if "s = 34 # r0" "jstring r0 = Some (k, r1)" "skip r1 = 58 # r2"
        "jval n (skip r2) = Some (v, r3)" "skip r3 = c # r'" for r0 k r1 r2 v r3 c r'
    proof -
      have "length r3 < length (skip r2)" using less that(4) by blast
      then have "length (skip r') + 1 < length s"
        using that(1) jstring_shorter [OF that(2)] skip_Cons_length [OF that(3)] skip_length [of r2]
          skip_Cons_length [OF that(5)] skip_length [of r'] by simp
      then show ?thesis using Suc n by simp
    qed
    show "jmembers (Suc (Suc n)) s = jmembers (Suc n) s"
    proof (cases "\<exists>r0 k r1 r2. s = 34 # r0 \<and> jstring r0 = Some (k, r1) \<and> skip r1 = 58 # r2")
      case True
      then obtain r0 k r1 r2 where
        r: "s = 34 # r0" "jstring r0 = Some (k, r1)" "skip r1 = 58 # r2" by blast
      show ?thesis
      proof (cases "jval n (skip r2)")
        case (Some vr)
        then show ?thesis
          using mem [OF r, of "fst vr" "snd vr"]
          by (cases "skip (snd vr)")
            (simp_all add: jmembers.simps(2) r val [OF r] case_prod_beta del: dropWhile_eq_Nil_conv)
      qed (simp add: jmembers.simps(2) r val [OF r])
    next
      case False
      have "jmembers (Suc k) s = None" for k
        using False by (cases "jmembers (Suc k) s") (auto simp: jmembers_Some)
      then show ?thesis by simp
    qed
  qed
next
  case 0
  have "jval (Suc 0) [] = jval 0 []" by (rule option_eqI) (simp add: jval_Some)
  then show ?case by simp
qed

lemma jval_fuel: "2 * length s \<le> n \<Longrightarrow> jval n s = jval (2 * length s) s"
  by (induction n rule: dec_induct [of "2 * length s"]) (use jval_fuel_all in auto)

subsection \<open>Round trip\<close>

lemma dumps_inj:
  assumes "jsonable v" "jsonable w" "dumps v = dumps w"
  shows "norm v = norm w"
  using readsD [OF jval_dumps [OF assms(1)], of "[]" "2 * length (dumps v)"]
    readsD [OF jval_dumps [OF assms(2)], of "[]" "2 * length (dumps w)"] assms(3) by simp

text \<open>A Python dict holds each key once.\<close>

fun wf_val :: "pyval \<Rightarrow> bool" where
  "wf_val (PList xs) = list_all wf_val xs"
| "wf_val (PTuple xs) = list_all wf_val xs"
| "wf_val (PDict kvs) \<longleftrightarrow> distinct (map fst kvs) \<and> list_all (\<lambda>(k, v). wf_val v) kvs"
| "wf_val _ = True"

lemma update_new: "k \<notin> fst ` set d \<Longrightarrow> AList.update k v d = d @ [(k, v)]"
  by (induction d) auto

lemma dict_of_distinct: "distinct (map fst kvs) \<Longrightarrow> dict_of kvs = kvs"
proof -
  have "distinct (map fst (d @ kvs)) \<Longrightarrow> foldl (\<lambda>d (k, v). AList.update k v d) d kvs = d @ kvs" for d
    by (induction kvs arbitrary: d) (auto simp: update_new split: prod.splits)
  from this [of "[]"] show "distinct (map fst kvs) \<Longrightarrow> dict_of kvs = kvs"
    by (simp add: dict_of_def)
qed

lemma distinct_sort_keys: "distinct (map fst kvs) \<Longrightarrow> distinct (map fst (key_sort kvs))"
  by (metis distinct_map distinct_sort set_sort)

lemma map_fst_snd: "map fst (map (\<lambda>(k, v). (k, f v)) kvs) = map fst kvs"
  by (simp add: case_prod_beta)

lemma to_dicts_norm: "jsonable v \<Longrightarrow> wf_val v \<Longrightarrow> to_dicts (norm v) = norm v"
proof (induction v rule: norm.induct)
  case (8 kvs)
  have mem: "jsonable v \<and> wf_val v" if "(k, v) \<in> set kvs" for k v
    using that "8.prems" by (auto simp: list_all_iff)
  then have "map (\<lambda>(k, v). (k, to_dicts v)) (map (\<lambda>(k, v). (k, norm v)) (key_sort kvs)) =
      map (\<lambda>(k, v). (k, norm v)) (key_sort kvs)"
    using "8.IH" by fastforce
  moreover have "distinct (map fst (map (\<lambda>(k, v). (k, norm v)) (key_sort kvs)))"
    unfolding map_fst_snd using "8.prems" by (simp add: distinct_sort_keys)
  ultimately show ?case by (simp add: dict_of_distinct del: map_map)
qed (auto simp: list_all_iff)

lemma loads_text_dumps:
  assumes "jsonable v" "wf_val v"
  shows "loads_text (dumps v) = Inr (norm v)"
  using readsD [OF jval_dumps [OF assms(1)], of "[]" "2 * length (dumps v)"] skip_dumps [OF assms(1), of "[]"]
  by (simp add: loads_text_def to_dicts_norm [OF assms])

lemma hex_pad_pos: "x \<in> set (hex_pad k n) \<Longrightarrow> 0 < x"
  by (induction k arbitrary: n) (auto simp: hex_digit_def split: if_splits)

lemma esc_char_pos: "x \<in> set (esc_char c) \<Longrightarrow> 0 < x"
  by (auto simp: esc_char_def dest: hex_pad_pos split: if_splits)

lemma nat_repr_pos: "x \<in> set (nat_repr n) \<Longrightarrow> 0 < x"
  using nat_repr_digits [of x n] by (auto simp: is_digit_def)

lemma join_pos: "\<forall>s\<in>set xs. \<forall>x\<in>set s. 0 < x \<Longrightarrow> x \<in> set (join [44::nat] xs) \<Longrightarrow> 0 < x"
  by (induction "[44::nat]" xs rule: join.induct) auto

lemma dumps_pos: "jsonable v \<Longrightarrow> x \<in> set (dumps v) \<Longrightarrow> 0 < x"
proof (induction v arbitrary: x rule: dumps.induct)
  case (8 kvs)
  have "\<forall>s\<in>set (map member (key_sort kvs)). \<forall>x\<in>set s. 0 < x"
    using 8 unfolding jsonable_members by (fastforce simp: json_str_def dest: esc_char_pos)
  from join_pos [OF this] 8 show ?case by auto
next
  case (6 xs)
  then have "\<forall>s\<in>set (map dumps xs). \<forall>x\<in>set s. 0 < x" by (auto simp: list_all_iff)
  from join_pos [OF this] 6 show ?case by auto
next
  case (7 xs)
  then have "\<forall>s\<in>set (map dumps xs). \<forall>x\<in>set s. 0 < x" by (auto simp: list_all_iff)
  from join_pos [OF this] 7 show ?case by auto
qed (auto simp: u_consts json_str_def int_repr_def dest: esc_char_pos nat_repr_pos split: if_splits)

lemma utf8_cp_pos: "0 < c \<Longrightarrow> x \<in> set (utf8_cp c) \<Longrightarrow> 0 < x"
  by (auto simp: utf8_cp_def split: if_splits)

text \<open>Canonical output is recognised as UTF-8: it starts with ASCII and has no zero byte.\<close>

lemma detect_encoding_utf8:
  assumes "bs = x # r" "0 < x" "x < 128" "\<forall>y\<in>set bs. 0 < y"
  shows "detect_encoding bs = UTF8"
proof -
  show ?thesis
    using assms by (cases r) (auto simp: detect_encoding_def)
qed

theorem json_loads_dumps:
  assumes "jsonable v" "wf_val v" "utf8_encode (dumps v) = Inr bs"
  shows "json_loads bs = Inr (norm v)"
proof -
  have bs: "from_bytes bs = concat (map utf8_cp (dumps v))"
    using utf8_encode_from_bytes [OF assms(3)] by simp
  have dec: "utf8_dec (from_bytes bs) = Some (dumps v)"
    using utf8_decode_encode [OF assms(3)] by (simp add: utf8_decode_def split: option.splits)
  obtain c t where "dumps v = c # t" and c: "0 < c" "c < 128"
    using dumps_head [OF assms(1)] by blast
  then have "from_bytes bs = c # concat (map utf8_cp t)"
    by (simp add: bs utf8_cp_def)
  moreover have "\<forall>y\<in>set (from_bytes bs). 0 < y"
    using dumps_pos [OF assms(1)] utf8_cp_pos by (fastforce simp: bs)
  ultimately have "detect_encoding (from_bytes bs) = UTF8"
    using detect_encoding_utf8 c by blast
  then show ?thesis
    by (simp add: json_loads_def decode_as_def dec loads_text_dumps [OF assms(1,2)])
qed

end
