(* ===== verification/Sha2.thy ===== *)
theory Sha2
  imports Prelude
begin

unbundle bit_operations_syntax

section \<open>SHA-2\<close>

text \<open>
  The hash functions of \<^verbatim>\<open>hashlib\<close> that the library calls: SHA-256 for content hashes, entry
  hashes, Merkle nodes and key ids (\<open>sha256\<close>), and SHA-384 for the pre-hashed P-384 signatures
  (\<open>sha384\<close>).  Both are written out (FIPS 180-4), so a content hash of the model is the content
  hash of the program: \<open>sha256_empty_object\<close> of \<open>Canonical\<close> evaluates a golden vector of the
  repository's tests.  The proofs about the ledger use nothing of SHA-2 but that it is a function
  and that its digests have 32 bytes (\<open>length_sha256\<close>); what would need collision resistance is
  stated as \<open>equal, or here is a collision\<close>.
\<close>

subsection \<open>The round functions, for both word sizes\<close>

definition Ch :: "'a::len word \<Rightarrow> 'a word \<Rightarrow> 'a word \<Rightarrow> 'a word" where
  "Ch x y z = (x AND y) XOR (NOT x AND z)"

definition Maj :: "'a::len word \<Rightarrow> 'a word \<Rightarrow> 'a word \<Rightarrow> 'a word" where
  "Maj x y z = (x AND y) XOR (x AND z) XOR (y AND z)"

definition rot3 :: "nat \<Rightarrow> nat \<Rightarrow> nat \<Rightarrow> 'a::len word \<Rightarrow> 'a word" where
  "rot3 a b c x = word_rotr a x XOR word_rotr b x XOR word_rotr c x"

definition rot2_shift :: "nat \<Rightarrow> nat \<Rightarrow> nat \<Rightarrow> 'a::len word \<Rightarrow> 'a word" where
  "rot2_shift a b c x = word_rotr a x XOR word_rotr b x XOR drop_bit c x"

text \<open>
  The message schedule, kept as a window of the last 16 words: the next word from the window,
  then the window moves on by one.
\<close>

definition schedule_next ::
  "('a::len word \<Rightarrow> 'a word) \<Rightarrow> ('a word \<Rightarrow> 'a word) \<Rightarrow> 'a word list \<Rightarrow> 'a word" where
  "schedule_next s0 s1 w = s1 (w ! 14) + w ! 9 + s0 (w ! 1) + w ! 0"

definition round_step ::
  "('a::len word \<Rightarrow> 'a word) \<Rightarrow> ('a word \<Rightarrow> 'a word) \<Rightarrow> 'a word \<Rightarrow> 'a word \<Rightarrow> 'a word list \<Rightarrow> 'a word list" where
  "round_step S0 S1 k w r =
     (let t1 = r ! 7 + S1 (r ! 4) + Ch (r ! 4) (r ! 5) (r ! 6) + k + w;
          t2 = S0 (r ! 0) + Maj (r ! 0) (r ! 1) (r ! 2)
      in [t1 + t2, r ! 0, r ! 1, r ! 2, r ! 3 + t1, r ! 4, r ! 5, r ! 6])"

record 'w sha_params =
  round_consts :: "'w list"
  big0 :: "'w \<Rightarrow> 'w"
  big1 :: "'w \<Rightarrow> 'w"
  small0 :: "'w \<Rightarrow> 'w"
  small1 :: "'w \<Rightarrow> 'w"
  word_bytes :: nat
  init_regs :: "'w list"
  out_bytes :: nat

fun sha_rounds :: "('a::len word) sha_params \<Rightarrow> 'a word list \<Rightarrow> 'a word list \<Rightarrow> 'a word list \<Rightarrow> 'a word list" where
  "sha_rounds P [] w r = r"
| "sha_rounds P (k # ks) w r =
     sha_rounds P ks (tl w @ [schedule_next (small0 P) (small1 P) w])
       (round_step (big0 P) (big1 P) k (hd w) r)"

text \<open>Big-endian conversion between bytes and words.\<close>

definition be_word :: "bytes \<Rightarrow> 'a::len word" where
  "be_word bs = word_of_int (foldl (\<lambda>a b. 256 * a + uint b) 0 bs)"

definition be_bytes :: "nat \<Rightarrow> int \<Rightarrow> bytes" where
  "be_bytes n v = map (\<lambda>i. word_of_int (v div 256 ^ (n - 1 - i))) [0..<n]"

fun chunks :: "nat \<Rightarrow> nat \<Rightarrow> 'b list \<Rightarrow> 'b list list" where
  "chunks 0 n xs = []"
| "chunks (Suc m) n xs = take n xs # chunks m n (drop n xs)"

definition sha_block :: "('a::len word) sha_params \<Rightarrow> 'a word list \<Rightarrow> bytes \<Rightarrow> 'a word list" where
  "sha_block P h blk =
     map2 (+) h (sha_rounds P (round_consts P) (map be_word (chunks 16 (word_bytes P) blk)) h)"

text \<open>Padding: a one bit, zeros, and the length in bits, to a multiple of the block size.\<close>

definition sha_pad :: "('a::len word) sha_params \<Rightarrow> bytes \<Rightarrow> bytes" where
  "sha_pad P m =
     (let bl = 16 * word_bytes P; ll = 2 * word_bytes P; n = length m
      in m @ [0x80] @ replicate ((bl - (n + 1 + ll) mod bl) mod bl) 0 @ be_bytes ll (8 * int n))"

definition sha :: "('a::len word) sha_params \<Rightarrow> bytes \<Rightarrow> bytes" where
  "sha P m =
     (let p = sha_pad P m; bl = 16 * word_bytes P;
          h = foldl (sha_block P) (init_regs P) (chunks (length p div bl) bl p)
      in take (out_bytes P) (concat (map (\<lambda>w. be_bytes (word_bytes P) (uint w)) h)))"

subsection \<open>SHA-256 and SHA-384\<close>

definition sha256_params :: "32 word sha_params" where
  "sha256_params = \<lparr>round_consts = [
     1116352408, 1899447441, 3049323471, 3921009573, 961987163, 1508970993, 2453635748,
     2870763221, 3624381080, 310598401, 607225278, 1426881987, 1925078388, 2162078206,
     2614888103, 3248222580, 3835390401, 4022224774, 264347078, 604807628, 770255983,
     1249150122, 1555081692, 1996064986, 2554220882, 2821834349, 2952996808, 3210313671,
     3336571891, 3584528711, 113926993, 338241895, 666307205, 773529912, 1294757372,
     1396182291, 1695183700, 1986661051, 2177026350, 2456956037, 2730485921, 2820302411,
     3259730800, 3345764771, 3516065817, 3600352804, 4094571909, 275423344, 430227734,
     506948616, 659060556, 883997877, 958139571, 1322822218, 1537002063, 1747873779,
     1955562222, 2024104815, 2227730452, 2361852424, 2428436474, 2756734187, 3204031479,
     3329325298],
    big0 = rot3 2 13 22, big1 = rot3 6 11 25, small0 = rot2_shift 7 18 3, small1 = rot2_shift 17 19 10,
    word_bytes = 4, init_regs = [
     1779033703, 3144134277, 1013904242, 2773480762, 1359893119, 2600822924, 528734635,
     1541459225],
    out_bytes = 32\<rparr>"

definition sha384_params :: "64 word sha_params" where
  "sha384_params = \<lparr>round_consts = [
     4794697086780616226, 8158064640168781261, 13096744586834688815, 16840607885511220156,
     4131703408338449720, 6480981068601479193, 10538285296894168987, 12329834152419229976,
     15566598209576043074, 1334009975649890238, 2608012711638119052, 6128411473006802146,
     8268148722764581231, 9286055187155687089, 11230858885718282805, 13951009754708518548,
     16472876342353939154, 17275323862435702243, 1135362057144423861, 2597628984639134821,
     3308224258029322869, 5365058923640841347, 6679025012923562964, 8573033837759648693,
     10970295158949994411, 12119686244451234320, 12683024718118986047, 13788192230050041572,
     14330467153632333762, 15395433587784984357, 489312712824947311, 1452737877330783856,
     2861767655752347644, 3322285676063803686, 5560940570517711597, 5996557281743188959,
     7280758554555802590, 8532644243296465576, 9350256976987008742, 10552545826968843579,
     11727347734174303076, 12113106623233404929, 14000437183269869457, 14369950271660146224,
     15101387698204529176, 15463397548674623760, 17586052441742319658, 1182934255886127544,
     1847814050463011016, 2177327727835720531, 2830643537854262169, 3796741975233480872,
     4115178125766777443, 5681478168544905931, 6601373596472566643, 7507060721942968483,
     8399075790359081724, 8693463985226723168, 9568029438360202098, 10144078919501101548,
     10430055236837252648, 11840083180663258601, 13761210420658862357, 14299343276471374635,
     14566680578165727644, 15097957966210449927, 16922976911328602910, 17689382322260857208,
     500013540394364858, 748580250866718886, 1242879168328830382, 1977374033974150939,
     2944078676154940804, 3659926193048069267, 4368137639120453308, 4836135668995329356,
     5532061633213252278, 6448918945643986474, 6902733635092675308, 7801388544844847127],
    big0 = rot3 28 34 39, big1 = rot3 14 18 41, small0 = rot2_shift 1 8 7, small1 = rot2_shift 19 61 6,
    word_bytes = 8, init_regs = [
     14680500436340154072, 7105036623409894663, 10473403895298186519, 1526699215303891257,
     7436329637833083697, 10282925794625328401, 15784041429090275239, 5167115440072839076],
    out_bytes = 48\<rparr>"

definition sha256 :: "bytes \<Rightarrow> bytes" where
  "sha256 = sha sha256_params"

definition sha384 :: "bytes \<Rightarrow> bytes" where
  "sha384 = sha sha384_params"

subsection \<open>Digest lengths\<close>

lemma length_sha_rounds: "length r = 8 \<Longrightarrow> length (sha_rounds P ks w r) = 8"
  by (induction P ks w r rule: sha_rounds.induct) (auto simp: round_step_def Let_def)

lemma length_sha_block: "length h = 8 \<Longrightarrow> length (sha_block P h b) = 8"
  by (simp add: sha_block_def length_sha_rounds)

lemma length_sha_fold: "length h = 8 \<Longrightarrow> length (foldl (sha_block P) h bs) = 8"
  by (induction bs arbitrary: h) (auto simp: length_sha_block)

lemma length_concat_be_bytes: "length (concat (map (\<lambda>w. be_bytes n (f w)) ws)) = n * length ws"
  by (induction ws) (auto simp: be_bytes_def)

lemma length_sha256 [simp]: "length (sha256 m) = 32"
  by (simp add: sha256_def sha_def Let_def length_concat_be_bytes length_sha_fold sha256_params_def)

lemma length_sha384: "length (sha384 m) = 48"
  by (simp add: sha384_def sha_def Let_def length_concat_be_bytes length_sha_fold sha384_params_def)

text \<open>Two different messages with one digest.\<close>

definition collision :: "bytes \<Rightarrow> bytes \<Rightarrow> bool" where
  "collision x y \<longleftrightarrow> x \<noteq> y \<and> sha256 x = sha256 y"

text \<open>
  A collision between the messages two computations hash.  The lists are always the messages
  the two runs of the program really hash, so a disjunct \<open>collides xs ys\<close> hands over two
  concrete colliding messages; that collisions exist at all is no secret and would say nothing.
\<close>

definition collides :: "bytes list \<Rightarrow> bytes list \<Rightarrow> bool" where
  "collides xs ys \<longleftrightarrow> (\<exists>x\<in>set xs. \<exists>y\<in>set ys. collision x y)"

lemma collidesI: "x \<in> set xs \<Longrightarrow> y \<in> set ys \<Longrightarrow> collision x y \<Longrightarrow> collides xs ys"
  by (auto simp: collides_def)

lemma collides_mono: "collides xs ys \<Longrightarrow> set xs \<subseteq> set xs' \<Longrightarrow> set ys \<subseteq> set ys' \<Longrightarrow> collides xs' ys'"
  by (auto simp: collides_def)

lemma sha256_eq_or_collision: "sha256 x = sha256 y \<Longrightarrow> x = y \<or> collision x y"
  by (auto simp: collision_def)

end
