(* ===== verification/Canonical.thy ===== *)
theory Canonical
  imports Json Sha2
begin

section \<open>Canonical serialization and content hashes\<close>

text \<open>
  \<^verbatim>\<open>src/approvo/canonical.py\<close>.  Every signature and every hash of the library is computed over
  \<open>canonical_bytes\<close>; "if two objects have the same canonical bytes they are the same object"
  is \<open>canonical_bytes_inj\<close>, up to \<open>norm\<close> (the order of dict keys, and tuples against lists).
\<close>

definition ZERO_HASH :: pstr where
  "ZERO_HASH = u ''sha256:'' @ replicate 64 48"

fun check :: "pyval \<Rightarrow> exn + unit" where
  "check PNone = Inr ()"
| "check (PStr _) = Inr ()"
| "check (PBool _) = Inr ()"
| "check (PInt _) = Inr ()"
| "check (PFloat _) = Inl NotCanonicalizable"
| "check (PDict kvs) =
     sbind (smap (\<lambda>(k, v). case k of PStr _ \<Rightarrow> check v | _ \<Rightarrow> Inl NotCanonicalizable) kvs) (\<lambda>_. Inr ())"
| "check (PList xs) = sbind (smap check xs) (\<lambda>_. Inr ())"
| "check (PTuple xs) = sbind (smap check xs) (\<lambda>_. Inr ())"
| "check (PObj _) = Inl NotCanonicalizable"

definition canonical_bytes :: "pyval \<Rightarrow> exn + bytes" where
  "canonical_bytes obj = sbind (check obj) (\<lambda>_. utf8_encode (dumps obj))"

definition sha256_hex :: "bytes \<Rightarrow> pstr" where
  "sha256_hex data = to_hex (sha256 data)"

definition canonical_hash :: "pyval \<Rightarrow> exn + pstr" where
  "canonical_hash obj = sbind (canonical_bytes obj) (\<lambda>bs. Inr (u ''sha256:'' @ sha256_hex bs))"

lemma smap_unit:
  "(\<forall>x\<in>set xs. f x = (if P x then Inr () else Inl e)) \<Longrightarrow>
     sbind (smap f xs) (\<lambda>_. Inr ()) = (if list_all P xs then Inr () else Inl e)"
proof (induction xs)
  case (Cons x xs)
  then have "sbind (smap f xs) (\<lambda>_. Inr ()) = (if list_all P xs then Inr () else Inl e)" by simp
  moreover have "sbind (smap f (x # xs)) (\<lambda>_. Inr ()) = sbind (f x) (\<lambda>_. sbind (smap f xs) (\<lambda>_. Inr ()))"
    by (simp add: sbind_assoc)
  ultimately show ?case using Cons.prems by simp
qed simp

lemma check_jsonable: "check v = (if jsonable v then Inr () else Inl NotCanonicalizable)"
proof (induction v rule: check.induct)
  case (6 kvs)
  show ?case
    unfolding check.simps jsonable.simps
  proof (rule smap_unit, intro ballI)
    fix x assume x: "x \<in> set kvs"
    obtain k v where kv: "x = (k, v)" by fastforce
    show "(case x of (k, v) \<Rightarrow> case k of PStr _ \<Rightarrow> check v | _ \<Rightarrow> Inl NotCanonicalizable) =
        (if (case x of (k, v) \<Rightarrow> (case k of PStr _ \<Rightarrow> True | _ \<Rightarrow> False) \<and> jsonable v) then Inr ()
         else Inl NotCanonicalizable)"
      using "6.IH" [OF x kv [symmetric]] by (cases k) (simp_all add: kv)
  qed
next
  case (7 xs)
  show ?case unfolding check.simps jsonable.simps by (rule smap_unit) (auto simp: "7.IH")
next
  case (8 xs)
  show ?case unfolding check.simps jsonable.simps by (rule smap_unit) (auto simp: "8.IH")
qed simp_all

lemma canonical_bytes_Inr [bind_simps]:
  "canonical_bytes v = Inr bs \<longleftrightarrow> jsonable v \<and> utf8_encode (dumps v) = Inr bs"
  by (auto simp: canonical_bytes_def check_jsonable)

lemma canonical_bytes_errors: "canonical_bytes v = Inl e \<Longrightarrow> e = NotCanonicalizable \<or> e = UnicodeError"
  by (auto simp: canonical_bytes_def check_jsonable utf8_encode_def split: if_splits)

lemma canonical_hash_Inr [bind_simps]:
  "canonical_hash v = Inr h \<longleftrightarrow>
     (\<exists>bs. canonical_bytes v = Inr bs \<and> h = u ''sha256:'' @ to_hex (sha256 bs))"
  by (auto simp: canonical_hash_def sbind_eq_Inr sha256_hex_def)

lemma canonical_hash_errors: "canonical_hash v = Inl e \<Longrightarrow> e = NotCanonicalizable \<or> e = UnicodeError"
  using canonical_bytes_errors by (auto simp: canonical_hash_def sbind_eq_Inl)

lemma canonical_bytes_norm_eq:
  "canonical_bytes v = Inr a \<Longrightarrow> canonical_bytes w = Inr a \<Longrightarrow> norm v = norm w"
  by (metis canonical_bytes_Inr dumps_inj utf8_encode_inj)

text \<open>The message a content hash hashes, for naming collisions.\<close>

definition cbytes :: "pyval \<Rightarrow> bytes" where
  "cbytes v = (case canonical_bytes v of Inl _ \<Rightarrow> [] | Inr bs \<Rightarrow> bs)"

lemma cbytes_Inr [simp]: "canonical_bytes v = Inr bs \<Longrightarrow> cbytes v = bs"
  by (simp add: cbytes_def)

lemma canonical_hash_norm:
  assumes "canonical_hash v = Inr h" "canonical_hash w = Inr h"
  shows "norm v = norm w \<or> collision (cbytes v) (cbytes w)"
proof -
  obtain a c where ac: "canonical_bytes v = Inr a" "canonical_bytes w = Inr c" "sha256 a = sha256 c"
    using assms by (auto simp: canonical_hash_Inr)
  show ?thesis
  proof (cases "a = c")
    case True
    then show ?thesis using ac canonical_bytes_norm_eq [of v a w] by simp
  next
    case False
    then show ?thesis using ac by (simp add: collision_def)
  qed
qed

text \<open>Conversely, the canonical form of a value and of what \<open>loads\<close> makes of it are the same.\<close>

lemma key_sort_norm:
  "key_sort (map (\<lambda>(k, v). (k, f v)) (key_sort kvs)) = map (\<lambda>(k, v). (k, f v)) (key_sort kvs)"
proof (rule sort_key_id_if_sorted)
  have "map (\<lambda>kv. str_of (fst kv)) (map (\<lambda>(k, v). (k, f v)) xs) = map (\<lambda>kv. str_of (fst kv)) xs"
    for xs :: pydict and f :: "pyval \<Rightarrow> pyval" by (induction xs) auto
  then show "sorted (map (\<lambda>kv. str_of (fst kv)) (map (\<lambda>(k, v). (k, f v)) (key_sort kvs)))"
    by (simp only: sorted_sort_key)
qed

lemma dumps_norm: "dumps (norm v) = dumps v"
proof (induction v rule: norm.induct)
  case (8 kvs)
  then have "map member (map (\<lambda>(k, v). (k, norm v)) (key_sort kvs)) = map member (key_sort kvs)"
    by fastforce
  then show ?case by (simp only: norm.simps dumps.simps key_sort_norm)
next
  case (6 xs)
  then have "map dumps (map norm xs) = map dumps xs" by simp
  then show ?case by (simp only: norm.simps dumps.simps)
next
  case (7 xs)
  then have "map dumps (map norm xs) = map dumps xs" by simp
  then show ?case by (simp only: norm.simps dumps.simps)
qed simp_all

lemma norm_jsonable: "jsonable (norm v) = jsonable v"
proof (induction v rule: norm.induct)
  case (8 kvs)
  have "list_all P (map (\<lambda>(k, v). (k, norm v)) (key_sort kvs)) \<longleftrightarrow>
      list_all (\<lambda>(k, v). P (k, norm v)) kvs" for P :: "pyval \<times> pyval \<Rightarrow> bool"
    by (auto simp: list_all_iff)
  then have "jsonable (norm (PDict kvs)) \<longleftrightarrow>
      list_all (\<lambda>(k, v). (case k of PStr _ \<Rightarrow> True | _ \<Rightarrow> False) \<and> jsonable (norm v)) kvs"
    by simp
  also have "\<dots> \<longleftrightarrow> jsonable (PDict kvs)"
    unfolding jsonable.simps list_all_iff using 8 by fastforce
  finally show ?case .
qed (auto simp: list_all_iff)

lemma canonical_bytes_norm: "canonical_bytes (norm v) = canonical_bytes v"
  by (simp add: canonical_bytes_def check_jsonable norm_jsonable dumps_norm)

subsection \<open>Digests as text\<close>

lemma length_to_hex: "length (to_hex bs) = 2 * length bs"
  by (induction bs) (simp_all add: to_hex_def from_bytes_def)

lemma canonical_hash_length: "canonical_hash v = Inr h \<Longrightarrow> length h = 71"
  by (auto simp: canonical_hash_Inr length_to_hex)

subsection \<open>Properties\<close>

text \<open>C28: two values have the same canonical bytes exactly when they agree up to the order of the
  keys of their dicts and the list/tuple distinction, which is what \<open>norm\<close> forgets: the canonical
  form neither confuses two different values nor separates two equal ones.\<close>

theorem canonical_identity:
  assumes "canonical_bytes v = Inr a" "canonical_bytes w = Inr b"
  shows "a = b \<longleftrightarrow> norm v = norm w"
  using canonical_bytes_norm_eq [of v a w] canonical_bytes_norm [of v] canonical_bytes_norm [of w] assms
  by auto

lemmas canonical_eval = canonical_bytes_Inr utf8_encode_def encodable_def surrogate_def utf8_cp_def asc_def u_def json_str_def
  esc_char_def int_repr_def nat_repr.simps items_def

lemma canonical_identity_witness:
  "canonical_bytes (PDict (items [(''b'', PInt 1), (''a'', PTuple [PNone])])) = Inr (asc ''{\"a\":[null],\"b\":1}'') \<and>
   canonical_bytes (PDict (items [(''a'', PList [PNone]), (''b'', PInt 1)])) = Inr (asc ''{\"a\":[null],\"b\":1}'') \<and>
   norm (PDict (items [(''b'', PInt 1), (''a'', PTuple [PNone])])) =
     norm (PDict (items [(''a'', PList [PNone]), (''b'', PInt 1)]))"
proof -
  have a: "canonical_bytes (PDict (items [(''b'', PInt 1), (''a'', PTuple [PNone])])) = Inr (asc ''{\"a\":[null],\"b\":1}'')"
    by (simp add: canonical_eval)
  have b: "canonical_bytes (PDict (items [(''a'', PList [PNone]), (''b'', PInt 1)])) = Inr (asc ''{\"a\":[null],\"b\":1}'')"
    by (simp add: canonical_eval)
  from a b canonical_identity [OF a b] show ?thesis by simp
qed

text \<open>C29: decoding the canonical bytes of a value gives the value back, up to the same normal form,
  and encoding what was decoded gives the same bytes: a payload can be stored and re-hashed.\<close>

theorem canonical_roundtrip:
  assumes "canonical_bytes v = Inr bs" "wf_val v"
  shows "json_loads bs = Inr (norm v) \<and> canonical_bytes (norm v) = Inr bs"
  using json_loads_dumps [of v bs] assms canonical_bytes_norm [of v] by (simp add: canonical_bytes_Inr)

lemma canonical_roundtrip_witness:
  "json_loads (asc ''{\"a\":[null],\"b\":-12}'') =
     Inr (norm (PDict (items [(''b'', PInt (- 12)), (''a'', PTuple [PNone])])))"
proof -
  have a: "canonical_bytes (PDict (items [(''b'', PInt (- 12)), (''a'', PTuple [PNone])])) =
      Inr (asc ''{\"a\":[null],\"b\":-12}'')"
    by (simp add: canonical_eval)
  show ?thesis using canonical_roundtrip [OF a] by (simp add: items_def)
qed

text \<open>A golden vector: the hash of the empty object, as the code computes it.\<close>

lemma sha256_braces:
  "sha256 [123, 125] =
     [68, 19, 111, 163, 85, 179, 103, 138, 17, 70, 173, 22, 247, 232, 100, 158, 148, 251, 79, 194, 31, 231, 126, 131,
      16, 192, 96, 246, 28, 170, 255, 138]"
  by code_simp

lemma sha256_empty_object:
  "canonical_hash (PDict []) =
     Inr (u ''sha256:44136fa355b3678a1146ad16f7e8649e94fb4fc21fe77e8310c060f61caaff8a'')"
  by (simp add: canonical_hash_def canonical_bytes_def sha256_hex_def to_hex_def from_bytes_def hex_digit_def
      utf8_encode_def encodable_def surrogate_def utf8_cp_def u_def to_bytes_def sha256_braces)

end

