(* ===== verification/Merkle.thy ===== *)
theory Merkle
  imports Canonical
begin

section \<open>Merkle trees\<close>

text \<open>
  \<^verbatim>\<open>src/approvo/merkle.py\<close>.  Lemmas: the split point is the largest power of two below the
  size; an inclusion proof the library makes is accepted (\<open>verify_path_complete\<close>); a proof that is
  accepted proves the leaf, unless it exhibits a collision (\<open>verify_path_sound\<close>); and the root
  fixes the list of leaves, whatever its length, with the same proviso (\<open>root_inj\<close>).  The
  collisions are between messages the two computations hash, which \<open>root_msgs\<close> and
  \<open>path_msgs\<close> list.
\<close>

definition LEAF_PREFIX :: bytes where
  "LEAF_PREFIX = [0]"

definition NODE_PREFIX :: bytes where
  "NODE_PREFIX = [1]"

definition leaf_hash :: "pstr \<Rightarrow> exn + bytes" where
  "leaf_hash leaf = sbind (utf8_encode leaf) (\<lambda>bs. Inr (sha256 (LEAF_PREFIX @ bs)))"

definition node_hash :: "bytes \<Rightarrow> bytes \<Rightarrow> bytes" where
  "node_hash left right = sha256 (NODE_PREFIX @ left @ right)"

text \<open>\<open>k = 1; while k * 2 < n: k *= 2\<close>\<close>

function split_loop :: "nat \<Rightarrow> nat \<Rightarrow> nat" where
  "split_loop k n = (if 0 < k \<and> k * 2 < n then split_loop (k * 2) n else k)"
  by pat_completeness auto
termination
  by (relation "measure (\<lambda>(k, n). n - k)") auto

declare split_loop.simps [simp del]

definition split_point :: "nat \<Rightarrow> nat" where
  "split_point n = split_loop 1 n"

lemma split_loop_spec:
  "0 < k \<Longrightarrow> k < n \<Longrightarrow> \<exists>j. split_loop k n = k * 2 ^ j \<and> split_loop k n < n \<and> n \<le> 2 * split_loop k n"
proof (induction k n rule: split_loop.induct)
  case (1 k n)
  show ?case
  proof (cases "k * 2 < n")
    case True
    with 1 obtain j where j: "split_loop (k * 2) n = k * 2 * 2 ^ j" "split_loop (k * 2) n < n"
      "n \<le> 2 * split_loop (k * 2) n" by auto
    moreover have "split_loop k n = split_loop (k * 2) n"
      using True 1 by (subst split_loop.simps) simp
    ultimately show ?thesis by (intro exI [of _ "Suc j"]) simp
  next
    case False
    then have "split_loop k n = k" by (subst split_loop.simps) simp
    with 1 False show ?thesis by (intro exI [of _ 0]) simp
  qed
qed

lemma split_point_spec:
  "2 \<le> n \<Longrightarrow> \<exists>j. split_point n = 2 ^ j \<and> split_point n < n \<and> n \<le> 2 * split_point n"
  using split_loop_spec [of 1 n] by (simp add: split_point_def)

lemma split_point_bounds: "2 \<le> n \<Longrightarrow> 0 < split_point n \<and> split_point n < n"
  using split_point_spec [of n] by fastforce

function root_of :: "bytes list \<Rightarrow> bytes" where
  "root_of hs =
     (if hs = [] then sha256 []
      else if length hs = 1 then hd hs
      else (let k = split_point (length hs) in node_hash (root_of (take k hs)) (root_of (drop k hs))))"
  by pat_completeness auto
termination
proof (relation "measure length", simp, goal_cases)
  case (1 hs x)
  then have "2 \<le> length hs" by (cases hs rule: list.exhaust) (auto simp: Suc_le_eq)
  with 1 split_point_bounds [of "length hs"] show ?case by simp
next
  case (2 hs x)
  then have "2 \<le> length hs" by (cases hs rule: list.exhaust) (auto simp: Suc_le_eq)
  with 2 split_point_bounds [of "length hs"] show ?case by simp
qed

declare root_of.simps [simp del]

definition merkle_root :: "pstr list \<Rightarrow> exn + pstr" where
  "merkle_root leaves = sbind (smap leaf_hash leaves) (\<lambda>hs. Inr (u ''sha256:'' @ to_hex (root_of hs)))"

function path_of :: "bytes list \<Rightarrow> nat \<Rightarrow> bytes list" where
  "path_of hs i =
     (if length hs \<le> 1 then []
      else (let k = split_point (length hs) in
        if i < k then path_of (take k hs) i @ [root_of (drop k hs)]
        else path_of (drop k hs) (i - k) @ [root_of (take k hs)]))"
  by pat_completeness auto
termination
proof (relation "measure (\<lambda>(hs, i). length hs)", simp, goal_cases)
  case (1 hs i x)
  with split_point_bounds [of "length hs"] show ?case by simp
next
  case (2 hs i x)
  with split_point_bounds [of "length hs"] have "0 < x" "x < length hs" by auto
  then show ?case by simp
qed

declare path_of.simps [simp del]

definition inclusion_proof :: "pstr list \<Rightarrow> int \<Rightarrow> exn + pstr list" where
  "inclusion_proof leaves index =
     (if \<not> (0 \<le> index \<and> index < int (length leaves)) then Inl IndexError
      else sbind (smap leaf_hash leaves) (\<lambda>hs. Inr (map to_hex (path_of hs (nat index)))))"

function verify_path :: "bytes \<Rightarrow> nat \<Rightarrow> nat \<Rightarrow> bytes list \<Rightarrow> bytes option" where
  "verify_path node index sz proof =
     (if sz = 1 then (if proof = [] then Some node else None)
      else if proof = [] then None
      else (let k = split_point sz; sibling = last proof in
        if index < k
        then map_option (\<lambda>sub. node_hash sub sibling) (verify_path node index k (butlast proof))
        else map_option (\<lambda>sub. node_hash sibling sub)
               (verify_path node (index - k) (sz - k) (butlast proof))))"
  by pat_completeness auto
termination
  by (relation "measure (\<lambda>(node, index, sz, proof). length proof)") auto

declare verify_path.simps [simp del]

definition removeprefix :: "pstr \<Rightarrow> pstr \<Rightarrow> pstr" where
  "removeprefix p s = (if take (length p) s = p then drop (length p) s else s)"

definition verify_inclusion :: "pstr \<Rightarrow> int \<Rightarrow> int \<Rightarrow> pstr list \<Rightarrow> pstr \<Rightarrow> exn + bool" where
  "verify_inclusion leaf index tree_size proof root =
     (if \<not> (0 \<le> index \<and> index < tree_size) then Inr False
      else sbind (leaf_hash leaf) (\<lambda>node.
           sbind (smap from_hex proof) (\<lambda>path.
           case verify_path node (nat index) (nat tree_size) path of
             None \<Rightarrow> Inr False
           | Some computed \<Rightarrow> sbind (from_hex (removeprefix (u ''sha256:'') root)) (\<lambda>r. Inr (computed = r)))))"

subsection \<open>A proof made by the library is accepted\<close>

lemma root_of_simps:
  "root_of [] = sha256 []" "root_of [h] = h"
  "2 \<le> length hs \<Longrightarrow> root_of hs =
     node_hash (root_of (take (split_point (length hs)) hs)) (root_of (drop (split_point (length hs)) hs))"
  by (auto simp: root_of.simps [of "[]"] root_of.simps [of "[h]"] root_of.simps [of hs] Let_def)

lemma verify_path_complete:
  "i < length hs \<Longrightarrow> verify_path (hs ! i) i (length hs) (path_of hs i) = Some (root_of hs)"
proof (induction hs i rule: path_of.induct)
  case (1 hs i)
  show ?case
  proof (cases "length hs \<le> 1")
    case True
    with 1 obtain h where "hs = [h]" by (cases hs) auto
    with 1 show ?thesis by (simp add: path_of.simps verify_path.simps root_of_simps)
  next
    case False
    let ?k = "split_point (length hs)"
    have k: "0 < ?k" "?k < length hs" using split_point_bounds [of "length hs"] False by auto
    have root: "root_of hs = node_hash (root_of (take ?k hs)) (root_of (drop ?k hs))"
      using False by (simp add: root_of_simps)
    show ?thesis
    proof (cases "i < ?k")
      case True
      have "verify_path (hs ! i) i ?k (path_of (take ?k hs) i) = Some (root_of (take ?k hs))"
        using "1.IH"(1) [OF False refl True] True k by simp
      then show ?thesis
        using False True k by (simp add: path_of.simps [of hs] verify_path.simps [of _ i "length hs"] root Let_def)
    next
      case i: False
      have "verify_path (hs ! i) (i - ?k) (length hs - ?k) (path_of (drop ?k hs) (i - ?k)) =
          Some (root_of (drop ?k hs))"
        using "1.IH"(2) [OF False refl i] "1.prems" i k by simp
      then show ?thesis
        using False i k by (simp add: path_of.simps [of hs] verify_path.simps [of _ i "length hs"] root Let_def)
    qed
  qed
qed

subsection \<open>An accepted proof proves the leaf\<close>

text \<open>The node messages the two sides hash.\<close>

function root_msgs :: "bytes list \<Rightarrow> bytes list" where
  "root_msgs hs =
     (if hs = [] then [[]]
      else if length hs = 1 then []
      else (let k = split_point (length hs) in
        (NODE_PREFIX @ root_of (take k hs) @ root_of (drop k hs)) # root_msgs (take k hs) @ root_msgs (drop k hs)))"
  by pat_completeness auto
termination
proof (relation "measure length", simp, goal_cases)
  case (1 hs x)
  then have "2 \<le> length hs" by (cases hs rule: list.exhaust) (auto simp: Suc_le_eq)
  with 1 split_point_bounds [of "length hs"] show ?case by simp
next
  case (2 hs x)
  then have "2 \<le> length hs" by (cases hs rule: list.exhaust) (auto simp: Suc_le_eq)
  with 2 split_point_bounds [of "length hs"] show ?case by simp
qed

declare root_msgs.simps [simp del]

function path_msgs :: "bytes \<Rightarrow> nat \<Rightarrow> nat \<Rightarrow> bytes list \<Rightarrow> bytes list" where
  "path_msgs node index sz proof =
     (if sz = 1 \<or> proof = [] then []
      else (let k = split_point sz; sibling = last proof in
        if index < k
        then (case verify_path node index k (butlast proof) of
                None \<Rightarrow> [] | Some sub \<Rightarrow> [NODE_PREFIX @ sub @ sibling]) @ path_msgs node index k (butlast proof)
        else (case verify_path node (index - k) (sz - k) (butlast proof) of
                None \<Rightarrow> [] | Some sub \<Rightarrow> [NODE_PREFIX @ sibling @ sub])
             @ path_msgs node (index - k) (sz - k) (butlast proof)))"
  by pat_completeness auto
termination
  by (relation "measure (\<lambda>(node, index, sz, proof). length proof)") auto

declare path_msgs.simps [simp del]

lemma root_msgs_simps:
  "root_msgs [] = [[]]" "root_msgs [h] = []"
  "2 \<le> length hs \<Longrightarrow> root_msgs hs =
     (NODE_PREFIX @ root_of (take (split_point (length hs)) hs) @ root_of (drop (split_point (length hs)) hs))
       # root_msgs (take (split_point (length hs)) hs) @ root_msgs (drop (split_point (length hs)) hs)"
  by (auto simp: root_msgs.simps [of "[]"] root_msgs.simps [of "[h]"] root_msgs.simps [of hs] Let_def)

lemma length_root_of: "\<forall>h\<in>set hs. length h = 32 \<Longrightarrow> length (root_of hs) = 32"
proof (cases hs)
  case (Cons h t)
  assume "\<forall>h\<in>set hs. length h = 32"
  then show ?thesis using Cons by (cases t) (simp_all add: root_of_simps node_hash_def)
qed (simp add: root_of_simps)

lemma length_verify_path: "length node = 32 \<Longrightarrow> verify_path node i n p = Some r \<Longrightarrow> length r = 32"
  by (subst (asm) verify_path.simps) (auto simp: node_hash_def Let_def split: if_splits)

lemma node_hash_eq:
  assumes "node_hash a c = node_hash a' c'" "length a = length a' \<or> length c = length c'"
  shows "a = a' \<and> c = c' \<or> collision (NODE_PREFIX @ a @ c) (NODE_PREFIX @ a' @ c')"
  using assms by (auto simp: node_hash_def collision_def)

lemma verify_path_sound:
  "length node = 32 \<Longrightarrow> \<forall>h\<in>set hs. length h = 32 \<Longrightarrow> i < length hs \<Longrightarrow>
     verify_path node i (length hs) path = Some (root_of hs) \<Longrightarrow>
     node = hs ! i \<or> collides (path_msgs node i (length hs) path) (root_msgs hs)"
proof (induction hs arbitrary: i path rule: root_of.induct)
  case (1 hs)
  show ?case
  proof (cases "length hs = 1")
    case True
    then obtain h where "hs = [h]" by (cases hs) auto
    with "1.prems" show ?thesis by (simp add: verify_path.simps root_of_simps split: if_splits)
  next
    case False
    with "1.prems" have big: "2 \<le> length hs" by simp
    then have ne: "hs \<noteq> []" by auto
    let ?n = "length hs" and ?k = "split_point (length hs)"
    have k: "0 < ?k" "?k < ?n" using split_point_bounds [OF big] by auto
    have p: "path \<noteq> []" using "1.prems"(4) False by (subst (asm) verify_path.simps) (auto split: if_splits)
    have left: "length (root_of (take ?k hs)) = 32" and right: "length (root_of (drop ?k hs)) = 32"
      using "1.prems"(2) by (auto intro!: length_root_of dest: in_set_takeD in_set_dropD)
    have take32: "\<forall>h\<in>set (take ?k hs). length h = 32" and drop32: "\<forall>h\<in>set (drop ?k hs). length h = 32"
      using "1.prems"(2) by (auto dest: in_set_takeD in_set_dropD)
    note msgs = path_msgs.simps [of node i ?n path] root_msgs_simps(3) [OF big]
    have mono: "collides xs ys \<Longrightarrow> set xs \<subseteq> set (path_msgs node i ?n path) \<Longrightarrow> set ys \<subseteq> set (root_msgs hs) \<Longrightarrow>
        ?thesis" for xs ys
      using collides_mono by blast
    show ?thesis
    proof (cases "i < ?k")
      case True
      then obtain sub where sub: "verify_path node i ?k (butlast path) = Some sub"
        and eq: "node_hash sub (last path) = node_hash (root_of (take ?k hs)) (root_of (drop ?k hs))"
        using "1.prems"(4) False p by (subst (asm) verify_path.simps) (auto simp: root_of_simps big Let_def)
      have "length sub = 32" using length_verify_path "1.prems"(1) sub by blast
      then consider "sub = root_of (take ?k hs)"
        | "collision (NODE_PREFIX @ sub @ last path) (NODE_PREFIX @ root_of (take ?k hs) @ root_of (drop ?k hs))"
        using node_hash_eq [OF eq] left by auto
      then show ?thesis
      proof cases
        case 1
        have "node = take ?k hs ! i \<or> collides (path_msgs node i ?k (butlast path)) (root_msgs (take ?k hs))"
          using "1.IH"(1) [OF ne False refl "1.prems"(1) take32, of i "butlast path"] True k sub 1 by simp
        then show ?thesis
        proof
          assume "collides (path_msgs node i ?k (butlast path)) (root_msgs (take ?k hs))"
          then show ?thesis by (rule mono) (use True p False in \<open>auto simp: msgs Let_def\<close>)
        qed (use True in simp)
      next
        case 2
        then show ?thesis
          by (intro disjI2 collidesI) (use True p False sub in \<open>auto simp: msgs Let_def\<close>)
      qed
    next
      case i: False
      then obtain sub where sub: "verify_path node (i - ?k) (?n - ?k) (butlast path) = Some sub"
        and eq: "node_hash (last path) sub = node_hash (root_of (take ?k hs)) (root_of (drop ?k hs))"
        using "1.prems"(4) False p by (subst (asm) verify_path.simps) (auto simp: root_of_simps big Let_def)
      have "length sub = 32" using length_verify_path "1.prems"(1) sub by blast
      then consider "sub = root_of (drop ?k hs)"
        | "collision (NODE_PREFIX @ last path @ sub) (NODE_PREFIX @ root_of (take ?k hs) @ root_of (drop ?k hs))"
        using node_hash_eq [OF eq] right by auto
      then show ?thesis
      proof cases
        case 1
        have "node = drop ?k hs ! (i - ?k) \<or>
            collides (path_msgs node (i - ?k) (?n - ?k) (butlast path)) (root_msgs (drop ?k hs))"
          using "1.IH"(2) [OF ne False refl "1.prems"(1) drop32, of "i - ?k" "butlast path"] "1.prems"(3) i k sub 1
          by simp
        then show ?thesis
        proof
          assume "collides (path_msgs node (i - ?k) (?n - ?k) (butlast path)) (root_msgs (drop ?k hs))"
          then show ?thesis by (rule mono) (use i p False in \<open>auto simp: msgs Let_def\<close>)
        qed (use i k in simp)
      next
        case 2
        then show ?thesis
          by (intro disjI2 collidesI) (use i p False sub in \<open>auto simp: msgs Let_def\<close>)
      qed
    qed
  qed
qed

subsection \<open>The root fixes the leaves\<close>

definition lh :: "bytes \<Rightarrow> bytes" where
  "lh bs = sha256 (LEAF_PREFIX @ bs)"

definition all_msgs :: "bytes list \<Rightarrow> bytes list" where
  "all_msgs xs = map ((@) LEAF_PREFIX) xs @ root_msgs (map lh xs)"

lemma length_lh [simp]: "length (lh bs) = 32"
  by (simp add: lh_def)

lemma two_or_less: "xs = [] \<or> (\<exists>x. xs = [x]) \<or> 2 \<le> length xs"
  by (cases xs; cases "tl xs") auto

lemma all_msgs_half:
  assumes "2 \<le> length xs"
  shows "set (all_msgs (take (split_point (length xs)) xs)) \<subseteq> set (all_msgs xs)"
    "set (all_msgs (drop (split_point (length xs)) xs)) \<subseteq> set (all_msgs xs)"
  using assms
  by (auto simp: all_msgs_def root_msgs_simps take_map drop_map dest: in_set_takeD in_set_dropD)

text \<open>The outermost message hashed; the first byte tells the empty tree, a leaf and a node apart.\<close>

definition top_msg :: "bytes list \<Rightarrow> bytes" where
  "top_msg xs =
     (if xs = [] then [] else if length xs = 1 then LEAF_PREFIX @ hd xs
      else NODE_PREFIX @ root_of (map lh (take (split_point (length xs)) xs))
             @ root_of (map lh (drop (split_point (length xs)) xs)))"

lemma top_msg: "root_of (map lh xs) = sha256 (top_msg xs)" "top_msg xs \<in> set (all_msgs xs)"
proof -
  consider "xs = []" | x where "xs = [x]" | "2 \<le> length xs" using two_or_less by blast
  then have "root_of (map lh xs) = sha256 (top_msg xs) \<and> top_msg xs \<in> set (all_msgs xs)"
  proof cases
    case 3
    then have "top_msg xs = NODE_PREFIX @ root_of (map lh (take (split_point (length xs)) xs))
             @ root_of (map lh (drop (split_point (length xs)) xs))"
      by (auto simp: top_msg_def)
    then show ?thesis
      using root_of_simps(3) [of "map lh xs"] root_msgs_simps(3) [of "map lh xs"] 3
      by (simp add: node_hash_def all_msgs_def take_map drop_map)
  next
    case 1
    then show ?thesis by (simp add: top_msg_def root_of_simps all_msgs_def root_msgs_simps)
  next
    case 2
    then show ?thesis by (simp add: top_msg_def root_of_simps all_msgs_def lh_def)
  qed
  then show "root_of (map lh xs) = sha256 (top_msg xs)" "top_msg xs \<in> set (all_msgs xs)"
    by blast+
qed

lemma root_inj:
  "root_of (map lh xs) = root_of (map lh ys) \<Longrightarrow> xs = ys \<or> collides (all_msgs xs) (all_msgs ys)"
proof (induction "length xs" arbitrary: xs ys rule: less_induct)
  case less
  show ?case
  proof (cases "top_msg xs = top_msg ys")
    case False
    then have "collision (top_msg xs) (top_msg ys)"
      using less.prems by (simp add: top_msg(1) collision_def)
    then show ?thesis using collidesI top_msg(2) by blast
  next
    case True
    consider "xs = []" | x where "xs = [x]" | "2 \<le> length xs" using two_or_less by blast
    then show ?thesis
    proof cases
      case 1
      then show ?thesis using True two_or_less [of ys]
        by (auto simp: top_msg_def LEAF_PREFIX_def NODE_PREFIX_def split: if_splits)
    next
      case 2
      then show ?thesis using True two_or_less [of ys]
        by (auto simp: top_msg_def LEAF_PREFIX_def NODE_PREFIX_def split: if_splits)
    next
      case 3
      have big: "2 \<le> length ys"
        using True 3 two_or_less [of ys]
        by (auto simp: top_msg_def LEAF_PREFIX_def NODE_PREFIX_def split: if_splits)
      let ?k = "split_point (length xs)" and ?m = "split_point (length ys)"
      have len: "length (root_of (map lh zs)) = 32" for zs
        by (rule length_root_of) auto
      have cat: "root_of (map lh (take ?k xs)) @ root_of (map lh (drop ?k xs)) =
          root_of (map lh (take ?m ys)) @ root_of (map lh (drop ?m ys))"
        using True 3 big by (auto simp: top_msg_def split: if_splits)
      have "length (root_of (map lh (take ?k xs))) = length (root_of (map lh (take ?m ys)))"
        by (simp only: len)
      from append_eq_append_len [OF this, THEN iffD1, OF cat]
      have eq: "root_of (map lh (take ?k xs)) = root_of (map lh (take ?m ys))"
        "root_of (map lh (drop ?k xs)) = root_of (map lh (drop ?m ys))"
        by (rule conjunct1, rule conjunct2)
      have lt: "length (take ?k xs) < length xs" "length (drop ?k xs) < length xs"
        using split_point_bounds [OF 3] by auto
      consider "collides (all_msgs (take ?k xs)) (all_msgs (take ?m ys))"
        | "collides (all_msgs (drop ?k xs)) (all_msgs (drop ?m ys))"
        | "take ?k xs = take ?m ys" "drop ?k xs = drop ?m ys"
        using less.hyps [OF lt(1) eq(1)] less.hyps [OF lt(2) eq(2)] by blast
      then show ?thesis
      proof cases
        case 1
        then show ?thesis by (intro disjI2 collides_mono [OF _ all_msgs_half(1) [OF 3] all_msgs_half(1) [OF big]])
      next
        case 2
        then show ?thesis by (intro disjI2 collides_mono [OF _ all_msgs_half(2) [OF 3] all_msgs_half(2) [OF big]])
      next
        case 3
        then have "take ?k xs @ drop ?k xs = take ?m ys @ drop ?m ys" by (simp only:)
        then show ?thesis unfolding append_take_drop_id by (rule disjI1)
      qed
    qed
  qed
qed

text \<open>The same for the public functions, on lists of strings.\<close>

definition leaf_bytes :: "pstr \<Rightarrow> bytes" where
  "leaf_bytes s = (case utf8_encode s of Inl _ \<Rightarrow> [] | Inr bs \<Rightarrow> bs)"

definition merkle_msgs :: "pstr list \<Rightarrow> bytes list" where
  "merkle_msgs leaves = all_msgs (map leaf_bytes leaves)"

lemma leaf_hash_Inr [bind_simps]:
  "leaf_hash s = Inr h \<longleftrightarrow> (\<exists>bs. utf8_encode s = Inr bs \<and> h = lh bs)"
  by (auto simp: leaf_hash_def lh_def bind_simps)

lemma leaf_hashes_Inr:
  "smap leaf_hash leaves = Inr hs \<Longrightarrow> hs = map lh (map leaf_bytes leaves)"
proof (induction leaves arbitrary: hs)
  case (Cons l ls)
  then show ?case by (auto simp: bind_simps leaf_bytes_def)
qed simp

lemma leaf_hash_encodable: "leaf_hash s = Inr h \<Longrightarrow> leaf_hash t = Inr k \<Longrightarrow> leaf_bytes s = leaf_bytes t \<Longrightarrow> s = t"
  by (auto simp: bind_simps leaf_bytes_def dest: utf8_encode_inj)

lemma merkle_root_Inr [bind_simps]:
  "merkle_root leaves = Inr r \<longleftrightarrow>
     (\<exists>hs. smap leaf_hash leaves = Inr hs \<and> r = u ''sha256:'' @ to_hex (root_of hs))"
  by (auto simp: merkle_root_def bind_simps)

lemma leaf_bytes_inj_list:
  "smap leaf_hash xs = Inr hs \<Longrightarrow> smap leaf_hash ys = Inr ks \<Longrightarrow>
     map leaf_bytes xs = map leaf_bytes ys \<Longrightarrow> xs = ys"
proof (induction xs arbitrary: ys hs ks)
  case (Cons x xs)
  then obtain y ys' where "ys = y # ys'" by (cases ys) auto
  with Cons show ?case by (auto simp: sbind_eq_Inr intro: leaf_hash_encodable)
qed simp

lemma merkle_root_inj:
  assumes "merkle_root xs = Inr r" "merkle_root ys = Inr r"
  shows "xs = ys \<or> collides (merkle_msgs xs) (merkle_msgs ys)"
proof -
  obtain hs ks where h: "smap leaf_hash xs = Inr hs" "smap leaf_hash ys = Inr ks" "root_of hs = root_of ks"
    using assms by (auto simp: merkle_root_Inr)
  then have "root_of (map lh (map leaf_bytes xs)) = root_of (map lh (map leaf_bytes ys))"
    using leaf_hashes_Inr [OF h(1)] leaf_hashes_Inr [OF h(2)] by simp
  from root_inj [OF this] show ?thesis
    using leaf_bytes_inj_list [OF h(1,2)] by (auto simp: merkle_msgs_def)
qed

lemma removeprefix_append [simp]: "removeprefix p (p @ s) = s"
  by (simp add: removeprefix_def)

lemma smap_from_hex_to_hex [simp]: "smap from_hex (map to_hex xs) = Inr xs"
  by (induction xs) auto

text \<open>What a verifier of an inclusion proof hashes.\<close>

definition inclusion_msgs :: "pstr \<Rightarrow> int \<Rightarrow> int \<Rightarrow> pstr list \<Rightarrow> bytes list" where
  "inclusion_msgs leaf index tree_size proof =
     (LEAF_PREFIX @ leaf_bytes leaf) #
     (case smap from_hex proof of Inl _ \<Rightarrow> []
      | Inr path \<Rightarrow> path_msgs (lh (leaf_bytes leaf)) (nat index) (nat tree_size) path)"

lemma inclusion_complete:
  assumes "inclusion_proof leaves i = Inr p" "merkle_root leaves = Inr r"
  shows "verify_inclusion (leaves ! nat i) i (int (length leaves)) p r = Inr True"
proof -
  obtain hs where i: "0 \<le> i" "i < int (length leaves)" and hs: "smap leaf_hash leaves = Inr hs"
    and p: "p = map to_hex (path_of hs (nat i))"
    using assms(1) by (auto simp: inclusion_proof_def bind_simps split: if_splits)
  have r: "r = u ''sha256:'' @ to_hex (root_of hs)" using assms(2) hs by (auto simp: merkle_root_Inr)
  have len: "length hs = length leaves" using smap_length [OF hs] .
  have n: "nat i < length leaves" using i by simp
  then have "leaf_hash (leaves ! nat i) = Inr (hs ! nat i)" using smap_nth [OF hs] by simp
  moreover have "verify_path (hs ! nat i) (nat i) (length leaves) (path_of hs (nat i)) = Some (root_of hs)"
    using verify_path_complete [of "nat i" hs] n len by simp
  ultimately show ?thesis using i by (simp add: verify_inclusion_def p r)
qed

lemma inclusion_sound:
  assumes root: "merkle_root leaves = Inr r"
    and ok: "verify_inclusion leaf i (int (length leaves)) p r = Inr True"
  shows "0 \<le> i \<and> i < int (length leaves) \<and>
    (leaf = leaves ! nat i \<or> collides (inclusion_msgs leaf i (int (length leaves)) p) (merkle_msgs leaves))"
proof -
  obtain hs where hs: "smap leaf_hash leaves = Inr hs" and r: "r = u ''sha256:'' @ to_hex (root_of hs)"
    using root by (auto simp: merkle_root_Inr)
  have i: "0 \<le> i" "i < int (length leaves)" using ok by (auto simp: verify_inclusion_def split: if_splits)
  obtain node path c where node: "leaf_hash leaf = Inr node" and path: "smap from_hex p = Inr path"
    and c: "verify_path node (nat i) (length leaves) path = Some c" "c = root_of hs"
    using ok i by (auto simp: verify_inclusion_def bind_simps r split: option.splits)
  have len: "length hs = length leaves" using smap_length [OF hs] .
  have n: "nat i < length leaves" using i by simp
  have hs': "hs = map lh (map leaf_bytes leaves)" by (rule leaf_hashes_Inr [OF hs])
  have node': "node = lh (leaf_bytes leaf)" using node by (auto simp: leaf_hash_Inr leaf_bytes_def)
  have "node = hs ! nat i \<or> collides (path_msgs node (nat i) (length hs) path) (root_msgs hs)"
    using c n len by (intro verify_path_sound) (auto simp: node' hs')
  then show ?thesis
  proof
    assume "collides (path_msgs node (nat i) (length hs) path) (root_msgs hs)"
    then have "collides (inclusion_msgs leaf i (int (length leaves)) p) (merkle_msgs leaves)"
      by (rule collides_mono) (auto simp: inclusion_msgs_def path node' len merkle_msgs_def all_msgs_def hs')
    then show ?thesis using i by blast
  next
    assume eq: "node = hs ! nat i"
    have li: "leaf_hash (leaves ! nat i) = Inr (hs ! nat i)" using smap_nth [OF hs n] .
    show ?thesis
    proof (cases "leaf_bytes leaf = leaf_bytes (leaves ! nat i)")
      case True
      then show ?thesis using leaf_hash_encodable [OF node li] i by blast
    next
      case False
      then have "collision (LEAF_PREFIX @ leaf_bytes leaf) (LEAF_PREFIX @ leaf_bytes (leaves ! nat i))"
        using eq n by (simp add: collision_def node' hs' lh_def)
      then have "collides (inclusion_msgs leaf i (int (length leaves)) p) (merkle_msgs leaves)"
        by (rule collidesI [rotated 2]) (use n in \<open>auto simp: inclusion_msgs_def merkle_msgs_def all_msgs_def\<close>)
      then show ?thesis using i by blast
    qed
  qed
qed

subsection \<open>Properties\<close>

text \<open>C25: an inclusion proof the library makes is accepted against the root of the same leaves.\<close>

theorem inclusion_accepts:
  assumes "inclusion_proof leaves i = Inr p" "merkle_root leaves = Inr r"
  shows "verify_inclusion (leaves ! nat i) i (int (length leaves)) p r = Inr True"
  using assms by (rule inclusion_complete)

lemma inclusion_accepts_witness:
  "\<exists>p r. inclusion_proof [u ''a'', u ''b'', u ''c''] 2 = Inr p \<and> merkle_root [u ''a'', u ''b'', u ''c''] = Inr r \<and>
     verify_inclusion (u ''c'') 2 3 p r = Inr True"
proof -
  obtain p r where pr: "inclusion_proof [u ''a'', u ''b'', u ''c''] 2 = Inr p"
    "merkle_root [u ''a'', u ''b'', u ''c''] = Inr r"
    by (auto simp: inclusion_proof_def merkle_root_def leaf_hash_def utf8_encode_def encodable_def surrogate_def
        u_def bind_simps)
  show ?thesis using inclusion_accepts [OF pr] pr by (simp add: numeral_2_eq_2)
qed

text \<open>C24: a proof that is accepted proves the leaf: the index is in range and the leaf is the one at
  that index, unless the two computations hash two different messages to the same digest.\<close>

theorem inclusion_proves:
  assumes "merkle_root leaves = Inr r" "verify_inclusion leaf i (int (length leaves)) p r = Inr True"
  shows "0 \<le> i \<and> i < int (length leaves) \<and>
    (leaf = leaves ! nat i \<or> collides (inclusion_msgs leaf i (int (length leaves)) p) (merkle_msgs leaves))"
  using assms by (rule inclusion_sound)

lemma inclusion_proves_witness:
  "\<exists>r. merkle_root [u ''a''] = Inr r \<and> verify_inclusion (u ''a'') 0 1 [] r = Inr True"
proof -
  obtain r where r: "merkle_root [u ''a''] = Inr r"
    by (auto simp: merkle_root_def leaf_hash_def utf8_encode_def encodable_def surrogate_def u_def bind_simps)
  have p: "inclusion_proof [u ''a''] 0 = Inr []"
    by (simp add: inclusion_proof_def leaf_hash_def utf8_encode_def encodable_def surrogate_def u_def
        path_of.simps)
  have ok: "verify_inclusion (u ''a'') 0 (int (length [u ''a''])) [] r = Inr True"
    using inclusion_complete [OF p r] by simp
  show ?thesis using inclusion_proves [OF r ok] r ok by simp
qed

text \<open>the root fixes the list of leaves, its length included, with the same proviso.\<close>

theorem merkle_root_binds:
  assumes "merkle_root xs = Inr r" "merkle_root ys = Inr r"
  shows "xs = ys \<or> collides (merkle_msgs xs) (merkle_msgs ys)"
  using assms by (rule merkle_root_inj)

lemma merkle_root_binds_witness:
  "\<exists>r. merkle_root [u ''a'', u ''b''] = Inr r \<and>
     ([u ''a'', u ''b''] = [u ''a'', u ''b''] \<or>
      collides (merkle_msgs [u ''a'', u ''b'']) (merkle_msgs [u ''a'', u ''b'']))"
proof -
  obtain r where r: "merkle_root [u ''a'', u ''b''] = Inr r"
    by (auto simp: merkle_root_def leaf_hash_def utf8_encode_def encodable_def surrogate_def u_def bind_simps)
  show ?thesis using merkle_root_binds [OF r r] r by blast
qed

text \<open>C40: the loop that finds the split point ends with the largest power of two below the size, so
  both halves of the tree are non-empty.\<close>

theorem split_point_largest:
  assumes "2 \<le> n"
  shows "\<exists>j. split_point n = 2 ^ j \<and> 2 ^ j < n \<and> n \<le> 2 * 2 ^ j"
  using split_point_spec [OF assms] by auto

lemma split_point_largest_witness: "\<exists>j. split_point 7 = 2 ^ j \<and> 2 ^ j < (7::nat) \<and> (7::nat) \<le> 2 * 2 ^ j"
  using split_point_largest [of 7] by simp

end

