(* ===== verification/Clock.thy ===== *)
theory Clock
  imports PyVal "HOL-Library.List_Lexorder"
begin

section \<open>Time\<close>

text \<open>
  \<^verbatim>\<open>src/approvo/clock.py\<close>, and the part of \<open>datetime\<close> the library uses.  A datetime is its
  local time in microseconds since 0001-01-01T00:00 and its UTC offset, if it has one; aware and
  naive datetimes do not compare (\<open>TypeError\<close>), and arithmetic outside the years 1 to 9999
  raises \<open>OverflowError\<close>.

  \<open>fromisoformat\<close> accepts the ISO 8601 forms Python 3.11 documents: calendar and week dates,
  basic or extended; any one character as separator; hours, minutes, seconds and a fraction
  separated by a point or a comma; \<open>Z\<close> or an offset of less than a day, itself with seconds
  and a fraction if it likes.  (Some malformed times a C implementation lets through, such as an
  empty minute before \<open>Z\<close>, are refused here.)
\<close>

record datetime =
  local_us :: int
  utcoff :: "int option"

definition US_DAY :: int where
  "US_DAY = 86400000000"

definition MAX_US :: int where
  "MAX_US = 3652059 * US_DAY"

subsection \<open>The calendar\<close>

definition leap :: "int \<Rightarrow> bool" where
  "leap y \<longleftrightarrow> y mod 4 = 0 \<and> (y mod 100 \<noteq> 0 \<or> y mod 400 = 0)"

definition days_before_year :: "int \<Rightarrow> int" where
  "days_before_year y = (let p = y - 1 in p * 365 + p div 4 - p div 100 + p div 400)"

fun days_before_month :: "bool \<Rightarrow> int \<Rightarrow> int" where
  "days_before_month lp m =
     (if m \<le> 1 then 0 else if m = 2 then 31
      else (if m = 3 then 59 else if m = 4 then 90 else if m = 5 then 120 else if m = 6 then 151
            else if m = 7 then 181 else if m = 8 then 212 else if m = 9 then 243
            else if m = 10 then 273 else if m = 11 then 304 else if m = 12 then 334 else 365)
           + (if lp then 1 else 0))"

declare days_before_month.simps [simp del]

definition days_in_month :: "bool \<Rightarrow> int \<Rightarrow> int" where
  "days_in_month lp m = days_before_month lp (m + 1) - days_before_month lp m"

text \<open>Days since 0001-01-01, and back.\<close>

definition ymd_days :: "int \<Rightarrow> int \<Rightarrow> int \<Rightarrow> int" where
  "ymd_days y m d = days_before_year y + days_before_month (leap y) m + (d - 1)"

definition valid_ymd :: "int \<Rightarrow> int \<Rightarrow> int \<Rightarrow> bool" where
  "valid_ymd y m d \<longleftrightarrow> 1 \<le> y \<and> y \<le> 9999 \<and> 1 \<le> m \<and> m \<le> 12 \<and> 1 \<le> d \<and> d \<le> days_in_month (leap y) m"

definition year_of_days :: "int \<Rightarrow> int" where
  "year_of_days n =
     (let a = n div 146097; r = n mod 146097;
          c = min 3 (r div 36524); r1 = r - c * 36524;
          q = r1 div 1461; r2 = r1 mod 1461;
          d = min 3 (r2 div 365)
      in 400 * a + 100 * c + 4 * q + d + 1)"

definition month_of_days :: "bool \<Rightarrow> int \<Rightarrow> int" where
  "month_of_days lp n =
     (if n < days_before_month lp 2 then 1 else if n < days_before_month lp 3 then 2
      else if n < days_before_month lp 4 then 3 else if n < days_before_month lp 5 then 4
      else if n < days_before_month lp 6 then 5 else if n < days_before_month lp 7 then 6
      else if n < days_before_month lp 8 then 7 else if n < days_before_month lp 9 then 8
      else if n < days_before_month lp 10 then 9 else if n < days_before_month lp 11 then 10
      else if n < days_before_month lp 12 then 11 else 12)"

definition days_ymd :: "int \<Rightarrow> int \<times> int \<times> int" where
  "days_ymd n =
     (let y = year_of_days n; r = n - days_before_year y; m = month_of_days (leap y) r
      in (y, m, r - days_before_month (leap y) m + 1))"

text \<open>ISO week dates: the Monday of week 1 is the one nearest to the first of January.\<close>

definition week1_monday :: "int \<Rightarrow> int" where
  "week1_monday y =
     (let first = days_before_year y; wd = first mod 7 in if wd > 3 then first - wd + 7 else first - wd)"

definition week_days :: "int \<Rightarrow> int \<Rightarrow> int \<Rightarrow> int option" where
  "week_days y w d =
     (if 1 \<le> y \<and> y \<le> 9999 \<and> 1 \<le> w \<and> week1_monday y + (w - 1) * 7 < week1_monday (y + 1) \<and> 1 \<le> d \<and> d \<le> 7
      then Some (week1_monday y + (w - 1) * 7 + (d - 1)) else None)"

subsection \<open>Parsing\<close>

definition num :: "nat \<Rightarrow> nat \<Rightarrow> pstr \<Rightarrow> int option" where
  "num i k s =
     (let t = take k (drop i s) in
      if length t = k \<and> list_all is_digit t then Some (foldl (\<lambda>a c. 10 * a + (int c - 48)) 0 t)
      else None)"

definition at :: "pstr \<Rightarrow> nat \<Rightarrow> nat \<Rightarrow> bool" where
  "at s i c \<longleftrightarrow> i < length s \<and> s ! i = c"

text \<open>The date, a string of the length the separator was found at.\<close>

definition parse_ymd :: "int option \<Rightarrow> int option \<Rightarrow> int option \<Rightarrow> int option" where
  "parse_ymd y m d = (case (y, m, d) of
     (Some y, Some m, Some d) \<Rightarrow> if valid_ymd y m d then Some (ymd_days y m d) else None | _ \<Rightarrow> None)"

definition parse_week :: "int option \<Rightarrow> int option \<Rightarrow> int option \<Rightarrow> int option" where
  "parse_week y w d = (case (y, w, d) of
     (Some y, Some w, Some d) \<Rightarrow> week_days y w d | _ \<Rightarrow> None)"

definition parse_date :: "pstr \<Rightarrow> int option" where
  "parse_date s =
     (if length s = 10 \<and> at s 4 45 \<and> at s 5 87 \<and> at s 8 45
      then parse_week (num 0 4 s) (num 6 2 s) (num 9 1 s)
      else if length s = 10 \<and> at s 4 45 \<and> at s 7 45
      then parse_ymd (num 0 4 s) (num 5 2 s) (num 8 2 s)
      else if length s = 8 \<and> at s 4 45 \<and> at s 5 87
      then parse_week (num 0 4 s) (num 6 2 s) (Some 1)
      else if length s = 8 \<and> at s 4 87
      then parse_week (num 0 4 s) (num 5 2 s) (num 7 1 s)
      else if length s = 8
      then parse_ymd (num 0 4 s) (num 4 2 s) (num 6 2 s)
      else if length s = 7 \<and> at s 4 87
      then parse_week (num 0 4 s) (num 5 2 s) (Some 1)
      else None)"

definition separator_pos :: "pstr \<Rightarrow> nat" where
  "separator_pos s =
     (if length s = 7 then 7
      else if at s 4 45 then
        (if at s 5 87 then
           (if at s 8 45 then (if 10 < length s \<and> is_digit (s ! 10) then 8 else 10) else 8)
         else 10)
      else if at s 4 87 then
        (let pos = 7 + length (takeWhile is_digit (drop 7 s))
         in if pos < 9 then pos else if even pos then 7 else 8)
      else 8)"

definition parse_frac :: "pstr \<Rightarrow> int option" where
  "parse_frac r = (case r of [] \<Rightarrow> Some 0
     | c # ds \<Rightarrow> if (c = 46 \<or> c = 44) \<and> ds \<noteq> [] \<and> list_all is_digit ds
                 then num 0 6 (take 6 (ds @ replicate 6 48)) else None)"

text \<open>Hours, minutes, seconds and microseconds, extended (\<open>12:30\<close>) or basic (\<open>1230\<close>).\<close>

definition parse_hms :: "pstr \<Rightarrow> (int \<times> int \<times> int \<times> int) option" where
  "parse_hms t =
     (let mk = (\<lambda>h m s f. case (h, m, s, f) of
                  (Some h, Some m, Some s, Some f) \<Rightarrow> Some (h, m, s, f) | _ \<Rightarrow> None)
      in if length t = 2 then mk (num 0 2 t) (Some 0) (Some 0) (Some 0)
         else if at t 2 58 then
           (if length t = 5 then mk (num 0 2 t) (num 3 2 t) (Some 0) (Some 0)
            else if at t 5 58 then mk (num 0 2 t) (num 3 2 t) (num 6 2 t) (parse_frac (drop 8 t))
            else None)
         else if length t = 4 then mk (num 0 2 t) (num 2 2 t) (Some 0) (Some 0)
         else mk (num 0 2 t) (num 2 2 t) (num 4 2 t) (parse_frac (drop 6 t)))"

definition hms_us :: "int \<times> int \<times> int \<times> int \<Rightarrow> int" where
  "hms_us x = (case x of (h, m, s, f) \<Rightarrow> ((h * 60 + m) * 60 + s) * 1000000 + f)"

definition parse_offset :: "pstr \<Rightarrow> int option option" where
  "parse_offset z = (case z of [] \<Rightarrow> Some None
     | c # r \<Rightarrow>
         if c = 90 then (if r = [] then Some (Some 0) else None)
         else (case parse_hms r of None \<Rightarrow> None
               | Some x \<Rightarrow> let off = (if c = 45 then - hms_us x else hms_us x)
                           in if - US_DAY < off \<and> off < US_DAY then Some (Some off) else None))"

definition parse_time :: "pstr \<Rightarrow> (int \<times> int option) option" where
  "parse_time t =
     (let tz = (\<lambda>c. c = 43 \<or> c = 45 \<or> c = 90);
          hms = takeWhile (\<lambda>c. \<not> tz c) t; z = dropWhile (\<lambda>c. \<not> tz c) t
      in case (parse_hms hms, parse_offset z) of
           (Some (h, m, s, f), Some off) \<Rightarrow>
             if h < 24 \<and> m < 60 \<and> s < 60 then Some (hms_us (h, m, s, f), off) else None
         | _ \<Rightarrow> None)"

definition fromisoformat :: "pstr \<Rightarrow> exn + datetime" where
  "fromisoformat s =
     (let p = separator_pos s; t = drop (p + 1) s
      in case parse_date (take p s) of
           None \<Rightarrow> Inl ValueError
         | Some n \<Rightarrow>
             if n < 0 \<or> 3652059 \<le> n then Inl ValueError
             else if t = [] then Inr \<lparr>local_us = n * US_DAY, utcoff = None\<rparr>
             else (case parse_time t of
                 None \<Rightarrow> Inl ValueError
               | Some (us, off) \<Rightarrow> Inr \<lparr>local_us = n * US_DAY + us, utcoff = off\<rparr>))"

fun parse_rfc3339 :: "pyval \<Rightarrow> exn + datetime" where
  "parse_rfc3339 (PStr s) = fromisoformat s"
| "parse_rfc3339 _ = Inl TypeError"

subsection \<open>Comparison and arithmetic\<close>

definition dt_cmp :: "(int \<Rightarrow> int \<Rightarrow> bool) \<Rightarrow> datetime \<Rightarrow> datetime \<Rightarrow> exn + bool" where
  "dt_cmp R x y = (case (utcoff x, utcoff y) of
       (None, None) \<Rightarrow> Inr (R (local_us x) (local_us y))
     | (Some p, Some q) \<Rightarrow> Inr (R (local_us x - p) (local_us y - q))
     | _ \<Rightarrow> Inl TypeError)"

definition dt_less :: "datetime \<Rightarrow> datetime \<Rightarrow> exn + bool" where
  "dt_less = dt_cmp (<)"

definition dt_le :: "datetime \<Rightarrow> datetime \<Rightarrow> exn + bool" where
  "dt_le = dt_cmp (\<le>)"

text \<open>\<open>min(x, y)\<close>: the first of equal ones.\<close>

definition dt_min :: "datetime \<Rightarrow> datetime \<Rightarrow> exn + datetime" where
  "dt_min x y = sbind (dt_less y x) (\<lambda>t. Inr (if t then y else x))"

definition dt_add :: "datetime \<Rightarrow> int \<Rightarrow> exn + datetime" where
  "dt_add x us =
     (let l = local_us x + us in
      if 0 \<le> l \<and> l < MAX_US then Inr (x\<lparr>local_us := l\<rparr>) else Inl OverflowError)"

subsection \<open>Printing\<close>

definition pad :: "nat \<Rightarrow> int \<Rightarrow> pstr" where
  "pad k n = (let s = int_repr n in replicate (k - length s) 48 @ s)"

definition astimezone_utc :: "runtime \<Rightarrow> datetime \<Rightarrow> exn + datetime" where
  "astimezone_utc R x =
     (let off = (case utcoff x of None \<Rightarrow> local_offset R (local_us x) | Some off \<Rightarrow> off);
          l = local_us x - off
      in if 0 \<le> l \<and> l < MAX_US then Inr \<lparr>local_us = l, utcoff = Some 0\<rparr> else Inl OverflowError)"

definition strftime_ms :: "datetime \<Rightarrow> pstr" where
  "strftime_ms x =
     (let (y, m, d) = days_ymd (local_us x div US_DAY); t = local_us x mod US_DAY;
          h = t div 3600000000; mi = t div 60000000 mod 60; s = t div 1000000 mod 60;
          ms = t mod 1000000 div 1000
      in int_repr y @ [45] @ pad 2 m @ [45] @ pad 2 d @ [84] @ pad 2 h @ [58] @ pad 2 mi @ [58]
         @ pad 2 s @ [46] @ pad 3 ms)"

definition to_rfc3339 :: "runtime \<Rightarrow> datetime \<Rightarrow> exn + pstr" where
  "to_rfc3339 R x = sbind (astimezone_utc R x) (\<lambda>z. Inr (strftime_ms z @ [90]))"

text \<open>\<open>FixedClock\<close>, and \<open>SystemClock\<close> on what the host's clock reads.\<close>

definition FixedClock_now :: "pstr \<Rightarrow> exn + pstr" where
  "FixedClock_now value = Inr value"

definition SystemClock_now :: "runtime \<Rightarrow> int \<Rightarrow> exn + pstr" where
  "SystemClock_now R host_us = to_rfc3339 R \<lparr>local_us = host_us, utcoff = Some 0\<rparr>"

subsection \<open>The calendar is right\<close>

lemma div_step: "0 < k \<Longrightarrow> (p + 1) div k = p div k + (if (p + 1) mod k = 0 then 1 else 0)" for p k :: int
proof -
  assume k: "0 < k"
  define q r where "q = p div k" and "r = p mod k"
  have p: "p = k * q + r" "0 \<le> r" "r < k" using k by (auto simp: q_def r_def)
  show ?thesis
  proof (cases "r + 1 = k")
    case True
    then have "p + 1 = k * (q + 1)" using p(1) by (simp add: algebra_simps)
    then show ?thesis using k by (simp add: q_def [symmetric])
  next
    case False
    then have "(p + 1) div k = q" "(p + 1) mod k = r + 1"
      using p k by (auto intro!: int_div_pos_eq int_mod_pos_eq)
    then show ?thesis using p(2) by (simp add: q_def [symmetric])
  qed
qed

lemma mod_400: "y mod 400 = 0 \<Longrightarrow> y mod 100 = 0" "y mod 100 = 0 \<Longrightarrow> y mod 4 = 0" for y :: int
  using mod_mod_cancel [of 100 400 y] mod_mod_cancel [of 4 100 y] by simp_all

lemma year_sum:
  fixes y :: int
  assumes "A' = A + i" "B' = B + j" "C' = C + k"
  shows "y * 365 + A' - B' + C' = (y - 1) * 365 + A - B + C + 365 + (i - j + k)"
  using assms by simp

lemma leap_sum:
  "(C \<Longrightarrow> B) \<Longrightarrow> (B \<Longrightarrow> A) \<Longrightarrow> (if A \<and> (\<not> B \<or> C) then 1 else 0 :: int) =
     (if A then 1 else 0) - (if B then 1 else 0) + (if C then 1 else 0)"
  by auto

lemma days_before_year_step: "days_before_year (y + 1) = days_before_year y + 365 + (if leap y then 1 else 0)"
proof -
  let ?i = "\<lambda>k. if y mod k = 0 then 1 else 0 :: int"
  have step: "y div 4 = (y - 1) div 4 + ?i 4" "y div 100 = (y - 1) div 100 + ?i 100"
    "y div 400 = (y - 1) div 400 + ?i 400"
    by (rule div_step [where p = "y - 1", unfolded diff_add_cancel, OF zero_less_numeral])+
  have leap: "(if leap y then 1 else 0) = ?i 4 - ?i 100 + ?i 400"
    unfolding leap_def by (rule leap_sum) (erule mod_400)+
  have "y + 1 - 1 = y" by simp
  then show ?thesis
    unfolding days_before_year_def Let_def leap by (simp only: year_sum [OF step])
qed

lemma year_digits:
  fixes a c q d :: int
  assumes "0 \<le> c" "c \<le> 3" "0 \<le> q" "q \<le> 24" "0 \<le> d" "d \<le> 3"
  shows "days_before_year (400 * a + 100 * c + 4 * q + d + 1) = 146097 * a + 36524 * c + 1461 * q + 365 * d"
proof -
  let ?p = "400 * a + 100 * c + 4 * q + d"
  have "?p = 4 * (100 * a + 25 * c + q) + d" "?p = 100 * (4 * a + c) + (4 * q + d)"
    "?p = 400 * a + (100 * c + 4 * q + d)" by simp_all
  then have "?p div 4 = 100 * a + 25 * c + q" "?p div 100 = 4 * a + c" "?p div 400 = a"
    using assms by (auto intro!: int_div_pos_eq)
  then show ?thesis by (simp add: days_before_year_def Let_def)
qed

lemma min_div_bounds:
  fixes r k :: int
  assumes "0 \<le> r" "r \<le> 4 * k" "0 < k"
  shows "0 \<le> min 3 (r div k)" "min 3 (r div k) * k \<le> r" "r - min 3 (r div k) * k \<le> k"
    "r - min 3 (r div k) * k = k \<Longrightarrow> min 3 (r div k) = 3"
proof -
  have r: "r = k * (r div k) + r mod k" "0 \<le> r mod k" "r mod k < k" "0 \<le> r div k"
    using assms by (simp_all add: pos_imp_zdiv_nonneg_iff)
  show "0 \<le> min 3 (r div k)" using r by simp
  show "min 3 (r div k) * k \<le> r"
  proof -
    have "min 3 (r div k) * k \<le> r div k * k" using assms(3) by (intro mult_right_mono) auto
    also have "\<dots> \<le> r" using r(1,2) by (metis add_increasing2 mult.commute order_refl)
    finally show ?thesis .
  qed
  show "r - min 3 (r div k) * k \<le> k" "r - min 3 (r div k) * k = k \<Longrightarrow> min 3 (r div k) = 3"
  proof -
    have "r - r div k * k = r mod k" by (simp add: minus_div_mult_eq_mod)
    then show "r - min 3 (r div k) * k \<le> k" "r - min 3 (r div k) * k = k \<Longrightarrow> min 3 (r div k) = 3"
      using r(2,3) assms(2) by (auto simp: min_def split: if_splits)
  qed
qed

lemma year_of_days:
  "days_before_year (year_of_days n) \<le> n" "n < days_before_year (year_of_days n + 1)"
proof -
  define a r where "a = n div 146097" and "r = n mod 146097"
  define c r1 where "c = min 3 (r div 36524)" and "r1 = r - c * 36524"
  define q r2 where "q = r1 div 1461" and "r2 = r1 mod 1461"
  define d where "d = min 3 (r2 div 365)"
  have y: "year_of_days n = 400 * a + 100 * c + 4 * q + d + 1"
    by (simp add: year_of_days_def Let_def a_def r_def c_def r1_def q_def r2_def d_def)
  have n: "n = 146097 * a + r" "0 \<le> r" "r < 146097" by (simp_all add: a_def r_def)
  have r4: "r \<le> 4 * 36524" using n(3) by simp
  note cb = min_div_bounds [OF n(2) r4 zero_less_numeral, folded c_def, folded r1_def]
  have c: "0 \<le> c" "c \<le> 3" "0 \<le> r1" "r1 \<le> 36524" "r1 = 36524 \<Longrightarrow> c = 3"
    by (rule cb(1), simp add: c_def, use cb(2) in \<open>simp add: r1_def\<close>, rule cb(3), erule cb(4))
  have q: "r1 = 1461 * q + r2" "0 \<le> r2" "r2 < 1461" by (simp_all add: q_def r2_def)
  have q24: "0 \<le> q" "q \<le> 24" using q c(3,4) by auto
  have d: "0 \<le> d" "d \<le> 3" "365 * d \<le> r2" "r2 \<le> 365 * d + 365" "r2 = 365 * d + 365 \<Longrightarrow> d = 3"
  proof -
    have r4: "r2 \<le> 4 * 365" using q(3) by simp
    note db = min_div_bounds [OF q(2) r4 zero_less_numeral, folded d_def]
    show "0 \<le> d" "d \<le> 3" "365 * d \<le> r2" "r2 \<le> 365 * d + 365" "r2 = 365 * d + 365 \<Longrightarrow> d = 3"
      by (rule db(1), simp add: d_def, use db(2,3,4) in simp_all)
  qed
  have dby: "days_before_year (year_of_days n) = 146097 * a + 36524 * c + 1461 * q + 365 * d"
    unfolding y using c(1,2) q24 d(1,2) by (rule year_digits)
  have eq: "n = 146097 * a + 36524 * c + 1461 * q + r2"
    using n(1) q(1) r1_def by simp
  show "days_before_year (year_of_days n) \<le> n"
    using dby eq d(3) by simp
  show "n < days_before_year (year_of_days n + 1)"
  proof (cases "r2 = 365 * d + 365")
    case False
    then show ?thesis using days_before_year_step [of "year_of_days n"] dby eq d(4) by auto
  next
    case True
    with d(5) have d3: "d = 3" by simp
    have "leap (year_of_days n)"
    proof (cases "q = 24")
      case True
      then have "r1 = 36524" using q(1) \<open>r2 = 365 * d + 365\<close> d3 by simp
      then have "year_of_days n = 400 * (a + 1)" using c(5) y True d3 by simp
      then show ?thesis by (simp add: leap_def)
    next
      case False
      have "year_of_days n = 4 * (100 * a + 25 * c + q + 1)" using y d3 by simp
      moreover have "year_of_days n mod 100 \<noteq> 0"
      proof -
        have "year_of_days n = 100 * (4 * a + c) + (4 * q + 4)" using y d3 by simp
        then have "year_of_days n mod 100 = 4 * q + 4"
          using False q24 by (intro int_mod_pos_eq [where q = "4 * a + c"]) auto
        then show ?thesis using q24 by simp
      qed
      ultimately show ?thesis by (simp add: leap_def)
    qed
    then show ?thesis using days_before_year_step [of "year_of_days n"] dby eq d(4) by auto
  qed
qed

lemma month_of_days:
  assumes "0 \<le> n" "n < 365 + (if lp then 1 else 0)"
  shows "1 \<le> month_of_days lp n" "month_of_days lp n \<le> 12"
    "days_before_month lp (month_of_days lp n) \<le> n" "n < days_before_month lp (month_of_days lp n + 1)"
  using assms by (auto simp: month_of_days_def days_before_month.simps)

lemma days_before_year_mono: "y \<le> z \<Longrightarrow> days_before_year y \<le> days_before_year z"
proof (induction z rule: int_ge_induct)
  case (step i)
  then show ?case using days_before_year_step [of i] by simp
qed simp

lemma days_ymd:
  assumes "days_ymd n = (y, m, d)"
  shows "ymd_days y m d = n" "1 \<le> m" "m \<le> 12" "1 \<le> d" "d \<le> days_in_month (leap y) m"
    "days_before_year y \<le> n" "n < days_before_year (y + 1)"
proof -
  let ?r = "n - days_before_year (year_of_days n)"
  have y: "y = year_of_days n" and m: "m = month_of_days (leap y) ?r"
    and d: "d = ?r - days_before_month (leap y) m + 1"
    using assms by (auto simp: days_ymd_def Let_def)
  have r: "0 \<le> ?r" "?r < 365 + (if leap y then 1 else 0)"
    using year_of_days [of n] days_before_year_step [of "year_of_days n"] unfolding y by auto
  note mo = month_of_days [OF r]
  show "ymd_days y m d = n" using y d by (simp add: ymd_days_def)
  show "1 \<le> m" "m \<le> 12" using mo m by auto
  show "1 \<le> d" "d \<le> days_in_month (leap y) m" using mo m d by (auto simp: days_in_month_def)
  show "days_before_year y \<le> n" "n < days_before_year (y + 1)" using year_of_days [of n] y by auto
qed

lemma days_before_year_lower: "y \<le> z \<Longrightarrow> 365 * (z - y) \<le> days_before_year z - days_before_year y"
proof (induction z rule: int_ge_induct)
  case (step i)
  then show ?case using days_before_year_step [of i] by (simp add: algebra_simps)
qed simp

lemma year_bounds:
  assumes "days_ymd n = (y, m, d)" "0 \<le> n" "n < 3652059"
  shows "1 \<le> y" "y \<le> 9999"
proof -
  have "days_before_year 1 = 0" "days_before_year 10000 = 3652059"
    by (simp_all add: days_before_year_def)
  moreover have "y + 1 \<le> 1 \<Longrightarrow> days_before_year (y + 1) \<le> days_before_year 1"
    "10000 \<le> y \<Longrightarrow> days_before_year 10000 \<le> days_before_year y"
    by (rule days_before_year_mono, assumption)+
  ultimately show "1 \<le> y" "y \<le> 9999" using days_ymd(6,7) [OF assms(1)] assms(2,3) by force+
qed

subsection \<open>Printing and parsing agree\<close>

text \<open>The digit \<open>d\<close> as a character.\<close>

definition dg :: "nat \<Rightarrow> nat" where
  "dg d = 48 + d"

lemma dg_simps [simp]:
  "d < 10 \<Longrightarrow> is_digit (dg d)" "dg d \<noteq> 43" "dg d \<noteq> 45" "dg d \<noteq> 44" "dg d \<noteq> 46"
  "d < 10 \<Longrightarrow> dg d \<noteq> 90" "d < 10 \<Longrightarrow> dg d \<noteq> 58" "d < 10 \<Longrightarrow> dg d \<noteq> 84" "d < 10 \<Longrightarrow> dg d \<noteq> 87"
  "int (dg d) - 48 = int d"
  by (auto simp: dg_def is_digit_def)

lemma dg_order [simp]: "dg c < dg d \<longleftrightarrow> c < d" "dg c = dg d \<longleftrightarrow> c = d"
  by (simp_all add: dg_def)

lemma nat_repr_dg:
  "n < 10 \<Longrightarrow> nat_repr n = [dg n]"
  "10 \<le> n \<Longrightarrow> nat_repr n = nat_repr (n div 10) @ [dg (n mod 10)]"
  by (simp_all add: nat_repr.simps [of n] dg_def)

lemma dg_0 [simp]: "48 = dg 0"
  by (simp add: dg_def)

lemma nat_repr_digits_123:
  "n < 10 \<Longrightarrow> nat_repr n = [dg n]"
  "10 \<le> n \<Longrightarrow> n < 100 \<Longrightarrow> nat_repr n = [dg (n div 10), dg (n mod 10)]"
  "100 \<le> n \<Longrightarrow> n < 1000 \<Longrightarrow> nat_repr n = [dg (n div 100), dg (n div 10 mod 10), dg (n mod 10)]"
  "1000 \<le> n \<Longrightarrow> n < 10000 \<Longrightarrow>
     nat_repr n = [dg (n div 1000), dg (n div 100 mod 10), dg (n div 10 mod 10), dg (n mod 10)]"
proof -
  show one: "n < 10 \<Longrightarrow> nat_repr n = [dg n]" for n by (rule nat_repr_dg)
  show two: "10 \<le> n \<Longrightarrow> n < 100 \<Longrightarrow> nat_repr n = [dg (n div 10), dg (n mod 10)]" for n
    by (simp add: nat_repr_dg(2) one)
  show three: "100 \<le> n \<Longrightarrow> n < 1000 \<Longrightarrow> nat_repr n = [dg (n div 100), dg (n div 10 mod 10), dg (n mod 10)]" for n
    by (simp add: nat_repr_dg(2) [of n] two div_mult2_eq [symmetric])
  show "1000 \<le> n \<Longrightarrow> n < 10000 \<Longrightarrow>
     nat_repr n = [dg (n div 1000), dg (n div 100 mod 10), dg (n div 10 mod 10), dg (n mod 10)]"
    by (simp add: nat_repr_dg(2) [of n] three div_mult2_eq [symmetric])
qed

lemma pad_dg:
  "n < 100 \<Longrightarrow> pad 2 (int n) = [dg (n div 10), dg (n mod 10)]"
  "n < 1000 \<Longrightarrow> pad 3 (int n) = [dg (n div 100), dg (n div 10 mod 10), dg (n mod 10)]"
proof -
  show "n < 100 \<Longrightarrow> pad 2 (int n) = [dg (n div 10), dg (n mod 10)]"
    by (cases "n < 10") (simp_all add: pad_def int_repr_def nat_repr_digits_123 Let_def)
  assume n: "n < 1000"
  show "pad 3 (int n) = [dg (n div 100), dg (n div 10 mod 10), dg (n mod 10)]"
  proof (cases "n < 10")
    case True
    then show ?thesis by (simp add: pad_def int_repr_def nat_repr_digits_123 Let_def numeral_2_eq_2)
  next
    case False
    with n show ?thesis
      by (cases "n < 100") (simp_all add: pad_def int_repr_def nat_repr_digits_123 Let_def)
  qed
qed

lemma int_repr_year:
  "1000 \<le> n \<Longrightarrow> n < 10000 \<Longrightarrow>
     int_repr (int n) = [dg (n div 1000), dg (n div 100 mod 10), dg (n div 10 mod 10), dg (n mod 10)]"
  by (simp add: int_repr_def nat_repr_digits_123)

lemma num_dg:
  "a < 10 \<Longrightarrow> c < 10 \<Longrightarrow> take 2 (drop i s) = [dg a, dg c] \<Longrightarrow> num i 2 s = Some (10 * int a + int c)"
  "a < 10 \<Longrightarrow> c < 10 \<Longrightarrow> d < 10 \<Longrightarrow> e < 10 \<Longrightarrow> take 4 (drop i s) = [dg a, dg c, dg d, dg e] \<Longrightarrow>
     num i 4 s = Some (10 * (10 * (10 * int a + int c) + int d) + int e)"
  by (simp_all add: num_def)

text \<open>The time of day \<open>HH:MM:SS.mmm\<close> followed by \<open>Z\<close>, and the date before it, digit by digit.\<close>

lemma parse_date_digits:
  assumes "y1 < 10" "y2 < 10" "y3 < 10" "y4 < 10" "m1 < 10" "m2 < 10" "d1 < 10" "d2 < 10"
  shows "parse_date [dg y1, dg y2, dg y3, dg y4, 45, dg m1, dg m2, 45, dg d1, dg d2] =
    parse_ymd (Some (10 * (10 * (10 * int y1 + int y2) + int y3) + int y4))
      (Some (10 * int m1 + int m2)) (Some (10 * int d1 + int d2))"
  using assms by (simp add: parse_date_def at_def num_dg)

lemma parse_frac_digits:
  assumes "f1 < 10" "f2 < 10" "f3 < 10"
  shows "parse_frac [46, dg f1, dg f2, dg f3] = Some ((10 * (10 * int f1 + int f2) + int f3) * 1000)"
proof -
  have "is_digit 48" by (simp add: is_digit_def del: dg_0)
  then show ?thesis
    using assms by (simp add: parse_frac_def num_def numeral_eq_Suc del: dg_0)
qed

lemma parse_time_digits:
  assumes "h1 < 10" "h2 < 10" "n1 < 10" "n2 < 10" "s1 < 10" "s2 < 10" "f1 < 10" "f2 < 10" "f3 < 10"
    "10 * h1 + h2 < 24" "10 * n1 + n2 < 60" "10 * s1 + s2 < 60"
  shows "parse_time [dg h1, dg h2, 58, dg n1, dg n2, 58, dg s1, dg s2, 46, dg f1, dg f2, dg f3, 90] =
    Some (((int (10 * h1 + h2) * 60 + int (10 * n1 + n2)) * 60 + int (10 * s1 + s2)) * 1000000 +
      int (10 * (10 * f1 + f2) + f3) * 1000, Some 0)"
proof -
  let ?t = "[dg h1, dg h2, 58, dg n1, dg n2, 58, dg s1, dg s2, 46, dg f1, dg f2, dg f3]"
  let ?c = "\<lambda>c. \<not> (c = 43 \<or> c = 45 \<or> c = (90::nat))"
  have split: "takeWhile ?c (?t @ [90]) = ?t \<and> dropWhile ?c (?t @ [90]) = [90]"
    by (rule takeWhile_append_stop) (use assms in auto)
  have "parse_hms ?t = Some (int (10 * h1 + h2), int (10 * n1 + n2), int (10 * s1 + s2),
      int (10 * (10 * f1 + f2) + f3) * 1000)"
    using assms(7-9)
    by (simp add: parse_hms_def at_def Let_def parse_frac_digits num_dg(1) [OF assms(1,2)]
        num_dg(1) [OF assms(3,4)] num_dg(1) [OF assms(5,6)])
  then show ?thesis
    using split assms by (simp add: parse_time_def Let_def parse_offset_def hms_us_def)
qed

text \<open>A nonnegative number below a bound, by its decimal digits.\<close>

lemma digits2: "n < 100 \<Longrightarrow> n div 10 < 10 \<and> n mod 10 < 10 \<and> 10 * (n div 10) + n mod 10 = (n::nat)"
  by auto

lemma digits3:
  "n < 1000 \<Longrightarrow> n div 100 < 10 \<and> n div 10 mod 10 < 10 \<and> n mod 10 < 10 \<and>
     10 * (10 * (n div 100) + n div 10 mod 10) + n mod 10 = (n::nat)"
proof -
  assume "n < 1000"
  moreover have "10 * (n div 100) + n div 10 mod 10 = n div 10"
    using div_mult_mod_eq [of "n div 10" 10] by (simp add: div_mult2_eq [symmetric])
  ultimately show ?thesis by auto
qed

lemma digits4:
  "n < 10000 \<Longrightarrow> n div 1000 < 10 \<and> n div 100 mod 10 < 10 \<and> n div 10 mod 10 < 10 \<and> n mod 10 < 10 \<and>
     10 * (10 * (10 * (n div 1000) + n div 100 mod 10) + n div 10 mod 10) + n mod 10 = (n::nat)"
proof -
  assume n: "n < 10000"
  have "10 * (n div 1000) + n div 100 mod 10 = n div 100"
    using div_mult_mod_eq [of "n div 100" 10] by (simp add: div_mult2_eq [symmetric])
  moreover have "10 * (n div 100) + n div 10 mod 10 = n div 10"
    using div_mult_mod_eq [of "n div 10" 10] by (simp add: div_mult2_eq [symmetric])
  ultimately show ?thesis using n by auto
qed

text \<open>The fields of a timestamp, as the program prints them.\<close>

definition stamp :: "int \<Rightarrow> int \<Rightarrow> int \<Rightarrow> int \<Rightarrow> int \<Rightarrow> int \<Rightarrow> int \<Rightarrow> pstr" where
  "stamp y m d h mi s ms =
     int_repr y @ [45] @ pad 2 m @ [45] @ pad 2 d @ [84] @ pad 2 h @ [58] @ pad 2 mi @ [58]
       @ pad 2 s @ [46] @ pad 3 ms @ [90]"

lemma fromisoformat_stamp:
  assumes y: "1000 \<le> y" "y < 10000" and md: "valid_ymd y m d"
    and t: "0 \<le> h" "h < 24" "0 \<le> mi" "mi < 60" "0 \<le> s" "s < 60" "0 \<le> ms" "ms < 1000"
    and n: "0 \<le> ymd_days y m d" "ymd_days y m d < 3652059"
  shows "fromisoformat (stamp y m d h mi s ms) =
    Inr \<lparr>local_us = ymd_days y m d * US_DAY + (((h * 60 + mi) * 60 + s) * 1000000 + ms * 1000),
         utcoff = Some 0\<rparr>"
proof -
  have small: "m < 100" "d < 100" "0 \<le> m" "0 \<le> d"
    using md by (auto simp: valid_ymd_def days_in_month_def days_before_month.simps split: if_splits)
  define Y M D H N S F where defs: "Y = nat y" "M = nat m" "D = nat d" "H = nat h" "N = nat mi"
      "S = nat s" "F = nat ms"
  have nat: "y = int Y" "m = int M" "d = int D" "h = int H" "mi = int N" "s = int S" "ms = int F"
    using y t small unfolding defs by simp_all
  have lt: "1000 \<le> Y" "Y < 10000" "M < 100" "D < 100" "H < 24" "N < 60" "S < 60" "F < 1000"
    "H < 100" "N < 100" "S < 100"
    using y t small nat by auto
  note dY = digits4 [OF lt(2)] and dM = digits2 [OF lt(3)] and dD = digits2 [OF lt(4)]
    and dH = digits2 [OF lt(9)] and dN = digits2 [OF lt(10)] and dS = digits2 [OF lt(11)]
    and dF = digits3 [OF lt(8)]
  let ?date = "[dg (Y div 1000), dg (Y div 100 mod 10), dg (Y div 10 mod 10), dg (Y mod 10), 45,
      dg (M div 10), dg (M mod 10), 45, dg (D div 10), dg (D mod 10)]"
  let ?time = "[dg (H div 10), dg (H mod 10), 58, dg (N div 10), dg (N mod 10), 58,
      dg (S div 10), dg (S mod 10), 46, dg (F div 100), dg (F div 10 mod 10), dg (F mod 10), 90]"
  have shape: "stamp y m d h mi s ms = ?date @ 84 # ?time"
    using lt by (simp add: stamp_def nat pad_dg int_repr_year)
  have "separator_pos (?date @ 84 # ?time) = 10"
    using dM by (simp add: separator_pos_def at_def)
  moreover have "parse_date ?date = Some (ymd_days y m d)"
  proof -
    have "10 * (10 * (10 * int (Y div 1000) + int (Y div 100 mod 10)) + int (Y div 10 mod 10)) + int (Y mod 10) = y"
      "10 * int (M div 10) + int (M mod 10) = m" "10 * int (D div 10) + int (D mod 10) = d"
      using arg_cong [OF conjunct2 [OF conjunct2 [OF conjunct2 [OF conjunct2 [OF dY]]]], of int]
        arg_cong [OF conjunct2 [OF conjunct2 [OF dM]], of int]
        arg_cong [OF conjunct2 [OF conjunct2 [OF dD]], of int] nat
      by (simp_all only: of_nat_add of_nat_mult of_nat_numeral)
    moreover have "parse_date ?date =
        parse_ymd (Some (10 * (10 * (10 * int (Y div 1000) + int (Y div 100 mod 10)) + int (Y div 10 mod 10)) + int (Y mod 10)))
          (Some (10 * int (M div 10) + int (M mod 10))) (Some (10 * int (D div 10) + int (D mod 10)))"
      by (rule parse_date_digits) (use dY dM dD in blast)+
    ultimately show ?thesis
      using md by (simp only: parse_ymd_def prod.case option.case if_True)
  qed
  moreover have "parse_time ?time = Some (((h * 60 + mi) * 60 + s) * 1000000 + ms * 1000, Some 0)"
    using dH dN dS dF lt by (subst parse_time_digits) (simp_all add: nat)
  ultimately show ?thesis
    using n by (simp add: fromisoformat_def shape Let_def)
qed

subsection \<open>Timestamps the library writes\<close>

definition day_fields :: "int \<Rightarrow> int \<times> int \<times> int \<times> int" where
  "day_fields t = (t div 3600000000, t div 60000000 mod 60, t div 1000000 mod 60, t mod 1000000 div 1000)"

lemma day_fields:
  assumes "day_fields t = (h, mi, s, ms)" "0 \<le> t" "t < US_DAY"
  shows "0 \<le> h" "h < 24" "0 \<le> mi" "mi < 60" "0 \<le> s" "s < 60" "0 \<le> ms" "ms < 1000"
    "((h * 60 + mi) * 60 + s) * 1000 + ms = t div 1000"
proof -
  have f: "h = t div 3600000000" "mi = t div 60000000 mod 60" "s = t div 1000000 mod 60"
      "ms = t mod 1000000 div 1000"
    using assms(1) by (auto simp: day_fields_def)
  show "0 \<le> h" "h < 24" using assms(2,3) by (auto simp: f US_DAY_def)
  show "0 \<le> mi" "mi < 60" "0 \<le> s" "s < 60" by (simp_all add: f)
  show "0 \<le> ms" "ms < 1000" by (auto simp: f)
  have "t div 60000000 div 60 = h" "t div 1000000 div 60 = t div 60000000"
    by (simp_all add: f zdiv_zmult2_eq [symmetric])
  then have "h * 60 + mi = t div 60000000" "(t div 60000000) * 60 + s = t div 1000000"
    unfolding f using div_mult_mod_eq [of "t div 60000000" 60] div_mult_mod_eq [of "t div 1000000" 60]
    by simp_all
  moreover have "t div 1000000 * 1000 + ms = t div 1000"
  proof -
    have "t div 1000 div 1000 = t div 1000000" by (simp add: zdiv_zmult2_eq [symmetric])
    moreover have "t div 1000 mod 1000 = t mod 1000000 div 1000"
      using zmod_zmult2_eq [of 1000 t 1000] by simp
    ultimately show ?thesis using div_mult_mod_eq [of "t div 1000" 1000] by (simp add: f)
  qed
  ultimately show "((h * 60 + mi) * 60 + s) * 1000 + ms = t div 1000" by simp
qed

text \<open>What \<open>to_rfc3339\<close> prints of an instant: its fields in UTC.\<close>

lemma to_rfc3339_stamp:
  assumes "to_rfc3339 R x = Inr txt" "utcoff x = Some off"
  obtains y m d h mi s ms where
    "txt = stamp y m d h mi s ms" "0 \<le> local_us x - off" "local_us x - off < MAX_US"
    "days_ymd ((local_us x - off) div US_DAY) = (y, m, d)"
    "day_fields ((local_us x - off) mod US_DAY) = (h, mi, s, ms)"
proof -
  obtain y m d where ymd: "days_ymd ((local_us x - off) div US_DAY) = (y, m, d)" by (metis prod_cases3)
  obtain h mi s ms where f: "day_fields ((local_us x - off) mod US_DAY) = (h, mi, s, ms)" by (metis prod_cases4)
  have r: "0 \<le> local_us x - off" "local_us x - off < MAX_US"
    and t: "txt = strftime_ms \<lparr>local_us = local_us x - off, utcoff = Some 0\<rparr> @ [90]"
    using assms by (auto simp: to_rfc3339_def astimezone_utc_def Let_def bind_simps split: if_splits)
  have "txt = stamp y m d h mi s ms"
  proof -
    let ?t = "(local_us x - off) mod US_DAY"
    have flds: "h = ?t div 3600000000" "mi = ?t div 60000000 mod 60" "s = ?t div 1000000 mod 60"
      "ms = ?t mod 1000000 div 1000"
      using f unfolding day_fields_def by blast+
    show ?thesis
      by (simp only: t strftime_ms_def stamp_def ymd Let_def datetime.select_convs prod.case flds append_assoc)
  qed
  then show ?thesis using that r ymd f by blast
qed

definition year1000 :: "datetime \<Rightarrow> bool" where
  "year1000 x \<longleftrightarrow> (case utcoff x of None \<Rightarrow> False | Some off \<Rightarrow> days_before_year 1000 * US_DAY \<le> local_us x - off)"

lemma year1000D:
  assumes "year1000 x" "utcoff x = Some off" "days_ymd ((local_us x - off) div US_DAY) = (y, m, d)"
  shows "1000 \<le> y"
proof (rule ccontr)
  assume "\<not> 1000 \<le> y"
  then have "days_before_year (y + 1) \<le> days_before_year 1000" by (intro days_before_year_mono) simp
  then have "(local_us x - off) div US_DAY < days_before_year 1000"
    using days_ymd(7) [OF assms(3)] by simp
  moreover have "days_before_year 1000 \<le> (local_us x - off) div US_DAY"
    using assms(1,2) zdiv_mono1 [of "days_before_year 1000 * US_DAY" "local_us x - off" US_DAY]
    by (simp add: year1000_def US_DAY_def)
  ultimately show False by simp
qed

lemma range_days:
  assumes "0 \<le> l" "l < MAX_US"
  shows "0 \<le> l div US_DAY" "l div US_DAY < 3652059" "0 \<le> l mod US_DAY" "l mod US_DAY < US_DAY"
proof -
  have K: "0 < US_DAY" by (simp add: US_DAY_def)
  show m: "0 \<le> l mod US_DAY" "l mod US_DAY < US_DAY" using K by simp_all
  show "0 \<le> l div US_DAY" using K assms(1) by (simp add: pos_imp_zdiv_nonneg_iff)
  show "l div US_DAY < 3652059"
  proof (rule ccontr)
    assume "\<not> l div US_DAY < 3652059"
    then have "3652059 * US_DAY \<le> l div US_DAY * US_DAY" using K by (intro mult_right_mono) simp_all
    also have "\<dots> \<le> l" using m(1) div_mult_mod_eq [of l US_DAY] by linarith
    finally show False using assms(2) by (simp add: MAX_US_def)
  qed
qed

lemma split_ms: "l div US_DAY * US_DAY + (l mod US_DAY) div 1000 * 1000 = l div 1000 * 1000"
proof -
  have "l div 1000 div 86400000 = l div US_DAY" by (simp add: US_DAY_def zdiv_zmult2_eq [symmetric])
  moreover have "l div 1000 mod 86400000 = l mod US_DAY div 1000"
    using zmod_zmult2_eq [of 86400000 l 1000] by (simp add: US_DAY_def)
  ultimately show ?thesis
    using div_mult_mod_eq [of "l div 1000" 86400000] by (simp add: US_DAY_def)
qed

lemma parse_to_rfc3339:
  assumes s: "to_rfc3339 R x = Inr txt" and off: "utcoff x = Some off" and big: "year1000 x"
  shows "parse_rfc3339 (PStr txt) =
    Inr \<lparr>local_us = (local_us x - off) div 1000 * 1000, utcoff = Some 0\<rparr>"
proof -
  let ?l = "local_us x - off"
  obtain y m d h mi sc ms where t: "txt = stamp y m d h mi sc ms" and r: "0 \<le> ?l" "?l < MAX_US"
    and ymd: "days_ymd (?l div US_DAY) = (y, m, d)" and f: "day_fields (?l mod US_DAY) = (h, mi, sc, ms)"
    using to_rfc3339_stamp [OF s off] by blast
  note rd = range_days [OF r] and dy = days_ymd [OF ymd]
  note df = day_fields [OF f rd(3,4)] and yb = year_bounds [OF ymd rd(1,2)]
  have valid: "valid_ymd y m d" using dy yb by (simp add: valid_ymd_def)
  have "fromisoformat txt = Inr \<lparr>local_us = ymd_days y m d * US_DAY + (((h * 60 + mi) * 60 + sc) * 1000000 + ms * 1000), utcoff = Some 0\<rparr>"
    unfolding t using year1000D [OF big off ymd] yb valid df rd dy(1)
    by (intro fromisoformat_stamp) simp_all
  moreover have "((h * 60 + mi) * 60 + sc) * 1000000 + ms * 1000 = (?l mod US_DAY) div 1000 * 1000"
    using df(9) by simp
  ultimately show ?thesis by (simp add: dy(1) split_ms)
qed

declare dg_0 [simp del]

text \<open>
  Such timestamps compare as strings the way the instants compare, so sorting by the string
  sorts by time; \<^verbatim>\<open>policy/engine.py\<close> sorts decisions that way.
\<close>

lemma lex_append:
  fixes a a' b b' :: "nat list"
  shows "length a = length a' \<Longrightarrow> a @ b < a' @ b' \<longleftrightarrow> a < a' \<or> a = a' \<and> b < b'"
  by (induction a a' rule: list_induct2) auto

lemma lex_digit:
  fixes a c d e :: nat
  assumes "c < k" "e < k"
  shows "(a < d \<or> a = d \<and> c < e) \<longleftrightarrow> k * a + c < k * d + e"
proof -
  have "k * a + k \<le> k * d" if "a < d" for a d
    using mult_le_mono2 [of "a + 1" d k] that by simp
  from this [of a d] this [of d a] show ?thesis
    using assms by (cases a d rule: linorder_cases) auto
qed

lemma lex_pair:
  fixes a c d e :: nat
  assumes "c < k" "e < k"
  shows "(a < d \<or> a = d \<and> (c < e \<or> c = e \<and> R)) \<longleftrightarrow> k * a + c < k * d + e \<or> k * a + c = k * d + e \<and> R"
  using lex_digit [OF assms, of a d] lex_digit [OF assms(2,1), of d a]
  by (metis (full_types) linorder_neq_iff order_less_asym)

lemma mod10: "n mod 10 < (10::nat)"
  by simp

lemma pad2_less:
  assumes "0 \<le> m" "m < 100" "0 \<le> n" "n < 100"
  shows "pad 2 m < pad 2 n \<longleftrightarrow> m < n" "pad 2 m = pad 2 n \<longleftrightarrow> m = n" "length (pad 2 m) = 2"
proof -
  define M N where "M = nat m" and "N = nat n"
  have mn: "m = int M" "n = int N" "M < 100" "N < 100" using assms by (auto simp: M_def N_def)
  note d = digits2 [OF mn(3)] digits2 [OF mn(4)]
  show "pad 2 m < pad 2 n \<longleftrightarrow> m < n"
    using lex_digit [of "M mod 10" 10 "N mod 10" "M div 10" "N div 10"] d mn by (simp add: pad_dg)
  show "pad 2 m = pad 2 n \<longleftrightarrow> m = n" using d mn by (auto simp: pad_dg) (metis d)+
  show "length (pad 2 m) = 2" using mn by (simp add: pad_dg)
qed

lemma pad3_less:
  assumes "0 \<le> m" "m < 1000" "0 \<le> n" "n < 1000"
  shows "pad 3 m < pad 3 n \<longleftrightarrow> m < n" "length (pad 3 m) = 3"
proof -
  define M N where "M = nat m" and "N = nat n"
  have mn: "m = int M" "n = int N" "M < 1000" "N < 1000" using assms by (auto simp: M_def N_def)
  note d = digits3 [OF mn(3)] digits3 [OF mn(4)]
  have "(M div 100 < N div 100 \<or> M div 100 = N div 100 \<and>
      (M div 10 mod 10 < N div 10 mod 10 \<or> M div 10 mod 10 = N div 10 mod 10 \<and> M mod 10 < N mod 10)) \<longleftrightarrow>
      10 * (10 * (M div 100) + M div 10 mod 10) + M mod 10 < 10 * (10 * (N div 100) + N div 10 mod 10) + N mod 10"
    by (subst lex_pair [OF mod10 mod10], subst lex_digit [OF mod10 mod10]) (rule refl)
  then show "pad 3 m < pad 3 n \<longleftrightarrow> m < n"
    using d mn by (simp add: pad_dg)
  show "length (pad 3 m) = 3" using mn by (simp add: pad_dg)
qed

lemma year_less:
  assumes "1000 \<le> m" "m < 10000" "1000 \<le> n" "n < 10000"
  shows "int_repr m < int_repr n \<longleftrightarrow> m < n" "int_repr m = int_repr n \<longleftrightarrow> m = n" "length (int_repr m) = 4"
proof -
  define M N where "M = nat m" and "N = nat n"
  have mn: "m = int M" "n = int N" "1000 \<le> M" "M < 10000" "1000 \<le> N" "N < 10000"
    using assms by (auto simp: M_def N_def)
  note d = digits4 [OF mn(4)] digits4 [OF mn(6)]
  let ?a = "M div 1000" and ?b = "M div 100 mod 10" and ?c = "M div 10 mod 10" and ?d = "M mod 10"
    and ?a' = "N div 1000" and ?b' = "N div 100 mod 10" and ?c' = "N div 10 mod 10" and ?d' = "N mod 10"
  have "(?a < ?a' \<or> ?a = ?a' \<and> (?b < ?b' \<or> ?b = ?b' \<and> (?c < ?c' \<or> ?c = ?c' \<and> ?d < ?d'))) \<longleftrightarrow>
      10 * (10 * (10 * ?a + ?b) + ?c) + ?d < 10 * (10 * (10 * ?a' + ?b') + ?c') + ?d'"
    by (subst lex_pair [OF mod10 mod10], subst lex_pair [OF mod10 mod10], subst lex_digit [OF mod10 mod10])
      (rule refl)
  then show "int_repr m < int_repr n \<longleftrightarrow> m < n"
    using d mn by (simp add: int_repr_year)
  show "int_repr m = int_repr n \<longleftrightarrow> m = n"
    using mn by (simp add: int_repr_def nat_repr_inj)
  show "length (int_repr m) = 4" using mn by (simp add: int_repr_year)
qed

lemma lex_digit_int:
  fixes a c d e :: int
  assumes "0 \<le> c" "c < k" "0 \<le> e" "e < k"
  shows "(a < d \<or> a = d \<and> c < e) \<longleftrightarrow> a * k + c < d * k + e"
proof -
  have "a * k + k \<le> d * k" if "a < d" for a d
    using mult_right_mono [of "a + 1" d k] that assms by (simp add: algebra_simps)
  from this [of a d] this [of d a] show ?thesis
    using assms by (cases a d rule: linorder_cases) auto
qed

lemma lex_pair_int:
  fixes a c d e :: int
  assumes "0 \<le> c" "c < k" "0 \<le> e" "e < k"
  shows "(a < d \<or> a = d \<and> (c < e \<or> c = e \<and> R)) \<longleftrightarrow> a * k + c < d * k + e \<or> a * k + c = d * k + e \<and> R"
  using lex_digit_int [OF assms, of a d] lex_digit_int [OF assms(3,4,1,2), of d a]
  by (metis (full_types) linorder_neq_iff order_less_asym)

lemma days_before_month_mono: "1 \<le> m \<Longrightarrow> m < n \<Longrightarrow> days_before_month lp (m + 1) \<le> days_before_month lp n"
  by (auto simp: days_before_month.simps) presburger+

lemma ymd_order:
  assumes "days_ymd a = (y, m, d)" "days_ymd c = (y', m', d')"
  shows "(y < y' \<or> y = y' \<and> (m < m' \<or> m = m' \<and> d < d')) \<longleftrightarrow> a < c"
    and "a = c \<longleftrightarrow> y = y' \<and> m = m' \<and> d = d'"
proof -
  note A = days_ymd [OF assms(1)] and C = days_ymd [OF assms(2)]
  have le: "p < q" if h: "days_ymd p = (y, m, d)" "days_ymd q = (y', m', d')"
    "y < y' \<or> y = y' \<and> (m < m' \<or> m = m' \<and> d < d')" for p q y m d y' m' d'
  proof -
    note P = days_ymd [OF h(1)] and Q = days_ymd [OF h(2)]
    consider "y < y'" | "y = y'" "m < m'" | "y = y'" "m = m'" "d < d'" using h(3) by blast
    then show ?thesis
    proof cases
      case 1
      then have "days_before_year (y + 1) \<le> days_before_year y'" by (intro days_before_year_mono) simp
      then show ?thesis using P(7) Q(6) by simp
    next
      case 2
      then show ?thesis
        using P(1,5) Q(1,4) days_before_month_mono [OF P(2) 2(2), of "leap y"]
        by (simp add: ymd_days_def days_in_month_def)
    next
      case 3
      then show ?thesis using P(1) Q(1) by (simp add: ymd_days_def)
    qed
  qed
  show eq: "a = c \<longleftrightarrow> y = y' \<and> m = m' \<and> d = d'"
  proof
    assume "a = c"
    with assms show "y = y' \<and> m = m' \<and> d = d'" by simp
  next
    assume "y = y' \<and> m = m' \<and> d = d'"
    then have "ymd_days y m d = ymd_days y' m' d'" by blast
    then show "a = c" unfolding A(1) C(1) .
  qed
  let ?L = "y < y' \<or> y = y' \<and> (m < m' \<or> m = m' \<and> d < d')"
  have "?L \<or> (y' < y \<or> y' = y \<and> (m' < m \<or> m' = m \<and> d' < d)) \<or> y = y' \<and> m = m' \<and> d = d'"
    by linarith
  then have "?L \<or> c < a \<or> a = c"
    using le [OF assms(2,1)] eq by blast
  moreover have "?L \<Longrightarrow> a < c" by (rule le [OF assms])
  ultimately show "?L \<longleftrightarrow> a < c"
    by (meson less_asym less_irrefl)
qed

lemma stamp_order:
  assumes y: "1000 \<le> y" "y < 10000" "1000 \<le> y'" "y' < 10000"
    and a: "days_ymd a = (y, m, d)" and c: "days_ymd c = (y', m', d')"
    and t: "day_fields t = (h, mi, s, ms)" "0 \<le> t" "t < US_DAY"
    and t': "day_fields t' = (h', mi', s', ms')" "0 \<le> t'" "t' < US_DAY"
  shows "stamp y m d h mi s ms < stamp y' m' d' h' mi' s' ms' \<longleftrightarrow>
    a < c \<or> a = c \<and> t div 1000 < t' div 1000"
proof -
  note A = days_ymd [OF a] and C = days_ymd [OF c]
  note T = day_fields [OF t] and T' = day_fields [OF t']
  have dim: "days_in_month lp m \<le> 31" for lp m
    by (auto simp: days_in_month_def days_before_month.simps)
  have md: "0 \<le> m" "m < 100" "0 \<le> d" "d < 100" "0 \<le> m'" "m' < 100" "0 \<le> d'" "d' < 100"
    using A C dim [of "leap y" m] dim [of "leap y'" m'] by auto
  have small: "h < 100" "mi < 100" "s < 100" "h' < 100" "mi' < 100" "s' < 100"
    using T T' by auto
  note p = pad2_less [OF md(1,2,5,6)] pad2_less [OF md(5,6) md(1,2)] pad2_less [OF md(3,4,7,8)]
    pad2_less [OF md(7,8) md(3,4)] pad2_less [OF T(1) small(1) T'(1) small(4)]
    pad2_less [OF T'(1) small(4) T(1) small(1)] pad2_less [OF T(3) small(2) T'(3) small(5)]
    pad2_less [OF T'(3) small(5) T(3) small(2)] pad2_less [OF T(5) small(3) T'(5) small(6)]
    pad2_less [OF T'(5) small(6) T(5) small(3)] pad3_less [OF T(7,8) T'(7,8)] pad3_less [OF T'(7,8) T(7,8)]
    year_less [OF y] year_less [OF y(3,4) y(1,2)]
  have "stamp y m d h mi s ms < stamp y' m' d' h' mi' s' ms' \<longleftrightarrow>
      y < y' \<or> y = y' \<and> (m < m' \<or> m = m' \<and> (d < d' \<or> d = d' \<and>
        (h < h' \<or> h = h' \<and> (mi < mi' \<or> mi = mi' \<and> (s < s' \<or> s = s' \<and> ms < ms')))))"
    unfolding stamp_def by (simp add: lex_append p)
  also have "\<dots> \<longleftrightarrow> a < c \<or> a = c \<and>
        (h < h' \<or> h = h' \<and> (mi < mi' \<or> mi = mi' \<and> (s < s' \<or> s = s' \<and> ms < ms')))"
    using ymd_order [OF a c] by blast
  also have "(h < h' \<or> h = h' \<and> (mi < mi' \<or> mi = mi' \<and> (s < s' \<or> s = s' \<and> ms < ms'))) \<longleftrightarrow>
      ((h * 60 + mi) * 60 + s) * 1000 + ms < ((h' * 60 + mi') * 60 + s') * 1000 + ms'"
    by (subst lex_pair_int [OF T(3,4) T'(3,4)], subst lex_pair_int [OF T(5,6) T'(5,6)],
        subst lex_digit_int [OF T(7,8) T'(7,8)]) (rule refl)
  finally show ?thesis using T(9) T'(9) by simp
qed

lemma div_order:
  fixes l l' :: int
  shows "(l div US_DAY < l' div US_DAY \<or> l div US_DAY = l' div US_DAY \<and>
      (l mod US_DAY) div 1000 < (l' mod US_DAY) div 1000) \<longleftrightarrow> l div 1000 < l' div 1000"
proof -
  have q: "l div 1000 = l div US_DAY * 86400000 + (l mod US_DAY) div 1000"
    "0 \<le> (l mod US_DAY) div 1000" "(l mod US_DAY) div 1000 < 86400000" for l :: int
    using split_ms [of l] by (auto simp: US_DAY_def)
  show ?thesis
    using lex_digit_int [OF q(2,3) [of l] q(2,3) [of l'], of "l div US_DAY" "l' div US_DAY"]
    by (simp only: q(1) [of l] q(1) [of l'])
qed

lemma to_rfc3339_order:
  assumes "to_rfc3339 R x = Inr s" "to_rfc3339 R x' = Inr s'" "utcoff x = Some off" "utcoff x' = Some off'"
    "year1000 x" "year1000 x'"
  shows "s < s' \<longleftrightarrow> (local_us x - off) div 1000 < (local_us x' - off') div 1000"
proof -
  obtain y m d h mi sc ms where t: "s = stamp y m d h mi sc ms"
    and r: "0 \<le> local_us x - off" "local_us x - off < MAX_US"
    and ymd: "days_ymd ((local_us x - off) div US_DAY) = (y, m, d)"
    and f: "day_fields ((local_us x - off) mod US_DAY) = (h, mi, sc, ms)"
    using to_rfc3339_stamp [OF assms(1,3)] by blast
  obtain y' m' d' h' mi' sc' ms' where t': "s' = stamp y' m' d' h' mi' sc' ms'"
    and r': "0 \<le> local_us x' - off'" "local_us x' - off' < MAX_US"
    and ymd': "days_ymd ((local_us x' - off') div US_DAY) = (y', m', d')"
    and f': "day_fields ((local_us x' - off') mod US_DAY) = (h', mi', sc', ms')"
    using to_rfc3339_stamp [OF assms(2,4)] by blast
  note rd = range_days [OF r] and rd' = range_days [OF r']
  have y: "1000 \<le> y" "y < 10000" "1000 \<le> y'" "y' < 10000"
    using year1000D [OF assms(5,3) ymd] year1000D [OF assms(6,4) ymd'] year_bounds [OF ymd rd(1,2)]
      year_bounds [OF ymd' rd'(1,2)] by auto
  show ?thesis
    unfolding t t' stamp_order [OF y ymd ymd' f rd(3,4) f' rd'(3,4)] by (rule div_order)
qed

subsection \<open>Properties\<close>

text \<open>C35: the timestamps the server writes read back as the instant they were written for, to the
  millisecond, for every instant from the year 1000 on.\<close>

theorem timestamp_roundtrip:
  assumes "to_rfc3339 R x = Inr s" "utcoff x = Some off" "year1000 x"
  shows "parse_rfc3339 (PStr s) = Inr \<lparr>local_us = (local_us x - off) div 1000 * 1000, utcoff = Some 0\<rparr>"
  using assms by (rule parse_to_rfc3339)

text \<open>such timestamps compare as strings the way the instants compare, to the millisecond.  The
  engine sorts decisions by the string.\<close>

theorem timestamp_order:
  assumes "to_rfc3339 R x = Inr s" "to_rfc3339 R x' = Inr s'" "utcoff x = Some off" "utcoff x' = Some off'"
    "year1000 x" "year1000 x'"
  shows "s < s' \<longleftrightarrow> (local_us x - off) div 1000 < (local_us x' - off') div 1000"
  using assms by (rule to_rfc3339_order)

lemmas time_eval = fromisoformat_def parse_date_def parse_time_def separator_pos_def parse_ymd_def
  num_def at_def u_def is_digit_def parse_hms_def parse_offset_def parse_frac_def ymd_days_def valid_ymd_def
  days_in_month_def days_before_year_def leap_def hms_us_def US_DAY_def days_before_month.simps Let_def

definition epoch :: datetime where
  "epoch = \<lparr>local_us = 719162 * US_DAY, utcoff = Some 0\<rparr>"

definition utc_runtime :: runtime where
  "utc_runtime = \<lparr>str_other = (\<lambda>v. []), isprintable = (\<lambda>c. True), local_offset = (\<lambda>l. 0)\<rparr>"

lemma epoch_ok: "year1000 epoch" "\<exists>s. to_rfc3339 R epoch = Inr s" "\<exists>s. to_rfc3339 R (epoch\<lparr>utcoff := Some (- 5000)\<rparr>) = Inr s"
  by (simp_all add: epoch_def year1000_def US_DAY_def to_rfc3339_def astimezone_utc_def MAX_US_def bind_simps
      days_before_year_def Let_def)

lemma timestamp_roundtrip_witness: "\<exists>s. to_rfc3339 utc_runtime epoch = Inr s \<and> parse_rfc3339 (PStr s) = Inr epoch"
proof -
  obtain s where s: "to_rfc3339 utc_runtime epoch = Inr s" using epoch_ok(2) by blast
  show ?thesis using timestamp_roundtrip [OF s _ epoch_ok(1), of 0] s by (simp add: epoch_def US_DAY_def)
qed

lemma timestamp_order_witness:
  "\<exists>s s'. to_rfc3339 utc_runtime epoch = Inr s \<and> to_rfc3339 utc_runtime (epoch\<lparr>utcoff := Some (- 5000)\<rparr>) = Inr s' \<and> s < s'"
proof -
  obtain s s' where s: "to_rfc3339 utc_runtime epoch = Inr s" "to_rfc3339 utc_runtime (epoch\<lparr>utcoff := Some (- 5000)\<rparr>) = Inr s'"
    using epoch_ok by blast
  show ?thesis
    using timestamp_order [OF s, of 0 "- 5000"] s epoch_ok(1)
    by (simp add: epoch_def US_DAY_def year1000_def days_before_year_def)
qed

end
