(* ===== verification/Models.thy ===== *)
theory Models
  imports Canonical Clock
begin

section \<open>The data model\<close>

text \<open>
  \<^verbatim>\<open>src/approvo/models.py\<close>.  Each dataclass is a record, each \<open>to_dict\<close> and
  \<open>from_dict\<close> a function on values.  \<open>from_dict\<close> checks nothing, so what comes from an
  envelope or a ledger payload is kept as it is: the fields of \<open>Decision\<close> and
  \<open>ApprovalRequest\<close> are values of any type.  The classes only the server builds
  (\<open>PolicyResult\<close>, \<open>RequestView\<close>, \<open>DecisionChallenge\<close>) have typed fields.
\<close>

abbreviation REQUEST_SCHEMA :: pyval where
  "REQUEST_SCHEMA \<equiv> lit ''approvo/request/v1''"
abbreviation DECISION_SCHEMA :: pyval where
  "DECISION_SCHEMA \<equiv> lit ''approvo/decision/v1''"
abbreviation CHECKPOINT_SCHEMA :: pyval where
  "CHECKPOINT_SCHEMA \<equiv> lit ''approvo/checkpoint/v1''"
abbreviation POLICY_SCHEMA :: pyval where
  "POLICY_SCHEMA \<equiv> lit ''approvo/policy/v1''"

definition DECISION_PAYLOAD_TYPE :: pstr where
  "DECISION_PAYLOAD_TYPE = u ''application/vnd.approvo.decision+json''"

subsection \<open>Identity\<close>

record Identity =
  i_id :: pstr
  i_roles :: "pstr list"

definition Identity_to_dict :: "Identity \<Rightarrow> pyval" where
  "Identity_to_dict i = PDict (items [(''id'', PStr (i_id i)), (''roles'', strs (i_roles i))])"

definition Identity_from_dict :: "pyval \<Rightarrow> exn + Identity" where
  "Identity_from_dict d =
     sbind (sbind (subscr d ''id'') as_str) (\<lambda>i.
     sbind (sbind (getdef d ''roles'' (PTuple [])) str_list) (\<lambda>rs.
     Inr \<lparr>i_id = i, i_roles = rs\<rparr>))"

lemma Identity_roundtrip: "Identity_from_dict (Identity_to_dict i) = Inr i"
  by (simp add: Identity_from_dict_def Identity_to_dict_def)

subsection \<open>ApprovalRequest\<close>

record ApprovalRequest =
  r_kind :: pyval
  r_subject :: pyval
  r_requested_by :: pyval
  r_policy_id :: pyval
  r_policy_digest :: pyval
  r_created_at :: pyval
  r_not_valid_after :: pyval
  r_nonce :: pyval
  r_schema :: pyval

definition identity_items :: "ApprovalRequest \<Rightarrow> (string \<times> pyval) list" where
  "identity_items r =
     [(''schema'', r_schema r), (''kind'', r_kind r), (''subject'', r_subject r),
      (''requested_by'', r_requested_by r), (''policy_id'', r_policy_id r),
      (''policy_digest'', r_policy_digest r), (''not_valid_after'', r_not_valid_after r),
      (''nonce'', r_nonce r)]"

definition identity_dict :: "ApprovalRequest \<Rightarrow> pyval" where
  "identity_dict r = PDict (items (identity_items r))"

definition request_id :: "ApprovalRequest \<Rightarrow> exn + pstr" where
  "request_id r = canonical_hash (identity_dict r)"

definition context_dict :: "ApprovalRequest \<Rightarrow> pyval" where
  "context_dict r = PDict (items (identity_items r @ [(''created_at'', r_created_at r)]))"

definition context_digest :: "ApprovalRequest \<Rightarrow> exn + pstr" where
  "context_digest r = canonical_hash (context_dict r)"

definition Request_to_dict :: "ApprovalRequest \<Rightarrow> exn + pyval" where
  "Request_to_dict r = sbind (request_id r) (\<lambda>rid.
     Inr (PDict (items (identity_items r @ [(''created_at'', r_created_at r), (''request_id'', PStr rid)]))))"

definition Request_from_dict :: "pyval \<Rightarrow> exn + ApprovalRequest" where
  "Request_from_dict d =
     sbind (subscr d ''kind'') (\<lambda>kind.
     sbind (subscr d ''subject'') (\<lambda>subject.
     sbind (subscr d ''requested_by'') (\<lambda>requested_by.
     sbind (subscr d ''policy_id'') (\<lambda>policy_id.
     sbind (subscr d ''policy_digest'') (\<lambda>policy_digest.
     sbind (subscr d ''created_at'') (\<lambda>created_at.
     sbind (subscr d ''not_valid_after'') (\<lambda>not_valid_after.
     sbind (getdef d ''nonce'' (lit '''')) (\<lambda>nonce.
     sbind (getdef d ''schema'' REQUEST_SCHEMA) (\<lambda>schema.
     Inr \<lparr>r_kind = kind, r_subject = subject, r_requested_by = requested_by, r_policy_id = policy_id,
          r_policy_digest = policy_digest, r_created_at = created_at,
          r_not_valid_after = not_valid_after, r_nonce = nonce, r_schema = schema\<rparr>)))))))))"

lemma Request_roundtrip: "Request_to_dict r = Inr d \<Longrightarrow> Request_from_dict d = Inr r"
  by (auto simp: Request_to_dict_def bind_simps Request_from_dict_def identity_items_def)

subsection \<open>Decision\<close>

record Decision =
  d_request_id :: pyval
  d_context_digest :: pyval
  d_verdict :: pyval
  d_approver_id :: pyval
  d_decided_at :: pyval
  d_comment :: pyval
  d_idempotency_key :: pyval
  d_authn :: pyval
  d_schema :: pyval

definition Decision_to_dict :: "Decision \<Rightarrow> pyval" where
  "Decision_to_dict d = PDict (items (
     [(''schema'', d_schema d), (''request_id'', d_request_id d),
      (''context_digest'', d_context_digest d), (''verdict'', d_verdict d),
      (''approver_id'', d_approver_id d), (''decided_at'', d_decided_at d),
      (''comment'', d_comment d), (''idempotency_key'', d_idempotency_key d)]
     @ (if d_authn d = PNone then [] else [(''authn'', d_authn d)])))"

definition Decision_from_dict :: "pyval \<Rightarrow> exn + Decision" where
  "Decision_from_dict d =
     sbind (subscr d ''request_id'') (\<lambda>request_id.
     sbind (subscr d ''context_digest'') (\<lambda>context_digest.
     sbind (subscr d ''verdict'') (\<lambda>verdict.
     sbind (subscr d ''approver_id'') (\<lambda>approver_id.
     sbind (subscr d ''decided_at'') (\<lambda>decided_at.
     sbind (getdef d ''comment'' (lit '''')) (\<lambda>comment.
     sbind (getdef d ''idempotency_key'' (lit '''')) (\<lambda>idempotency_key.
     sbind (getdef d ''authn'' PNone) (\<lambda>authn.
     sbind (getdef d ''schema'' DECISION_SCHEMA) (\<lambda>schema.
     Inr \<lparr>d_request_id = request_id, d_context_digest = context_digest, d_verdict = verdict,
          d_approver_id = approver_id, d_decided_at = decided_at, d_comment = comment,
          d_idempotency_key = idempotency_key, d_authn = authn, d_schema = schema\<rparr>)))))))))"

lemma Decision_roundtrip: "Decision_from_dict (Decision_to_dict d) = Inr d"
  by (simp add: Decision_to_dict_def Decision_from_dict_def)

text \<open>Field by field through \<open>norm\<close>: what a decision is after a trip through canonical JSON.\<close>

definition Decision_norm :: "Decision \<Rightarrow> Decision" where
  "Decision_norm d =
     \<lparr>d_request_id = norm (d_request_id d), d_context_digest = norm (d_context_digest d),
      d_verdict = norm (d_verdict d), d_approver_id = norm (d_approver_id d),
      d_decided_at = norm (d_decided_at d), d_comment = norm (d_comment d),
      d_idempotency_key = norm (d_idempotency_key d), d_authn = norm (d_authn d),
      d_schema = norm (d_schema d)\<rparr>"

subsection \<open>LedgerEntry\<close>

record LedgerEntry =
  e_seq :: int
  e_recorded_at :: pyval
  e_prev_hash :: pstr
  e_event_type :: pstr
  e_request_id :: pyval
  e_payload :: pyval
  e_entry_hash :: pstr

definition core_items :: "LedgerEntry \<Rightarrow> (string \<times> pyval) list" where
  "core_items e =
     [(''seq'', PInt (e_seq e)), (''recorded_at'', e_recorded_at e),
      (''prev_hash'', PStr (e_prev_hash e)), (''event_type'', PStr (e_event_type e)),
      (''request_id'', e_request_id e), (''payload'', e_payload e)]"

definition core_dict :: "LedgerEntry \<Rightarrow> pyval" where
  "core_dict e = PDict (items (core_items e))"

definition Entry_to_dict :: "LedgerEntry \<Rightarrow> pyval" where
  "Entry_to_dict e = PDict (items (core_items e @ [(''entry_hash'', PStr (e_entry_hash e))]))"

definition sealed :: "LedgerEntry \<Rightarrow> exn + LedgerEntry" where
  "sealed e = sbind (canonical_hash (core_dict e)) (\<lambda>h. Inr (e\<lparr>e_entry_hash := h\<rparr>))"

definition Entry_from_dict :: "pyval \<Rightarrow> exn + LedgerEntry" where
  "Entry_from_dict d =
     sbind (sbind (subscr d ''seq'') as_int) (\<lambda>seq.
     sbind (subscr d ''recorded_at'') (\<lambda>recorded_at.
     sbind (sbind (subscr d ''prev_hash'') as_str) (\<lambda>prev_hash.
     sbind (sbind (subscr d ''event_type'') as_str) (\<lambda>event_type.
     sbind (getdef d ''request_id'' PNone) (\<lambda>request_id.
     sbind (subscr d ''payload'') (\<lambda>payload.
     sbind (sbind (getdef d ''entry_hash'' (lit '''')) as_str) (\<lambda>entry_hash.
     Inr \<lparr>e_seq = seq, e_recorded_at = recorded_at, e_prev_hash = prev_hash, e_event_type = event_type,
          e_request_id = request_id, e_payload = payload, e_entry_hash = entry_hash\<rparr>)))))))"

lemma Entry_roundtrip: "Entry_from_dict (Entry_to_dict e) = Inr e"
  by (simp add: Entry_to_dict_def core_items_def Entry_from_dict_def)

subsection \<open>Checkpoint\<close>

record Checkpoint =
  c_tree_size :: int
  c_root_hash :: pyval
  c_published_at :: pyval
  c_log_id :: pyval
  c_prev_root_hash :: pyval
  c_signatures :: "pyval list"
  c_schema :: pyval

definition signed_items :: "Checkpoint \<Rightarrow> (string \<times> pyval) list" where
  "signed_items c =
     [(''schema'', c_schema c), (''log_id'', c_log_id c), (''tree_size'', PInt (c_tree_size c)),
      (''root_hash'', c_root_hash c), (''published_at'', c_published_at c),
      (''prev_root_hash'', c_prev_root_hash c)]"

definition signed_dict :: "Checkpoint \<Rightarrow> pyval" where
  "signed_dict c = PDict (items (signed_items c))"

definition Checkpoint_to_dict :: "Checkpoint \<Rightarrow> pyval" where
  "Checkpoint_to_dict c = PDict (items (signed_items c @ [(''signatures'', PList (c_signatures c))]))"

definition Checkpoint_from_dict :: "pyval \<Rightarrow> exn + Checkpoint" where
  "Checkpoint_from_dict d =
     sbind (sbind (subscr d ''tree_size'') as_int) (\<lambda>tree_size.
     sbind (subscr d ''root_hash'') (\<lambda>root_hash.
     sbind (subscr d ''published_at'') (\<lambda>published_at.
     sbind (getdef d ''log_id'' (lit ''default'')) (\<lambda>log_id.
     sbind (getdef d ''prev_root_hash'' PNone) (\<lambda>prev_root_hash.
     sbind (sbind (getdef d ''signatures'' (PTuple [])) py_iter) (\<lambda>signatures.
     sbind (getdef d ''schema'' CHECKPOINT_SCHEMA) (\<lambda>schema.
     Inr \<lparr>c_tree_size = tree_size, c_root_hash = root_hash, c_published_at = published_at,
          c_log_id = log_id, c_prev_root_hash = prev_root_hash, c_signatures = signatures,
          c_schema = schema\<rparr>)))))))"

lemma Checkpoint_roundtrip: "Checkpoint_from_dict (Checkpoint_to_dict c) = Inr c"
  by (simp add: Checkpoint_to_dict_def signed_items_def Checkpoint_from_dict_def)

subsection \<open>PolicyResult and Record\<close>

record PolicyResult =
  p_status :: pstr
  p_satisfied_by :: "pstr list"
  p_reasons :: "pstr list"

definition PolicyResult_to_dict :: "PolicyResult \<Rightarrow> pyval" where
  "PolicyResult_to_dict p = PDict (items
     [(''status'', PStr (p_status p)), (''satisfied_by'', strs (p_satisfied_by p)),
      (''reasons'', strs (p_reasons p))])"

definition PolicyResult_from_dict :: "pyval \<Rightarrow> exn + PolicyResult" where
  "PolicyResult_from_dict d =
     sbind (sbind (subscr d ''status'') as_str) (\<lambda>status.
     sbind (sbind (getdef d ''satisfied_by'' (PTuple [])) str_list) (\<lambda>satisfied_by.
     sbind (sbind (getdef d ''reasons'' (PTuple [])) str_list) (\<lambda>reasons.
     Inr \<lparr>p_status = status, p_satisfied_by = satisfied_by, p_reasons = reasons\<rparr>)))"

lemma PolicyResult_roundtrip: "PolicyResult_from_dict (PolicyResult_to_dict p) = Inr p"
  by (simp add: PolicyResult_to_dict_def PolicyResult_from_dict_def)

record Record =
  rec_request :: ApprovalRequest
  rec_decisions :: "Decision list"
  rec_status :: pstr
  rec_policy_result :: PolicyResult

definition Record_to_dict :: "Record \<Rightarrow> exn + pyval" where
  "Record_to_dict r = sbind (Request_to_dict (rec_request r)) (\<lambda>req.
     Inr (PDict (items
       [(''request'', req), (''decisions'', PList (map Decision_to_dict (rec_decisions r))),
        (''status'', PStr (rec_status r)), (''policy_result'', PolicyResult_to_dict (rec_policy_result r))])))"

subsection \<open>Read models\<close>

record RequestView =
  v_request_id :: pstr
  v_kind :: pyval
  v_status :: pstr
  v_requested_by :: pyval
  v_policy_id :: pyval
  v_subject :: pyval
  v_created_at :: pyval
  v_not_valid_after :: pyval
  v_updated_at :: pyval
  v_approvals :: int
  v_threshold :: int
  v_approvers :: "pstr list"
  v_pending_for :: "pstr list"
  v_last_seq :: int

definition View_to_dict :: "RequestView \<Rightarrow> pyval" where
  "View_to_dict v = PDict (items
     [(''request_id'', PStr (v_request_id v)), (''kind'', v_kind v), (''status'', PStr (v_status v)),
      (''requested_by'', v_requested_by v), (''policy_id'', v_policy_id v), (''subject'', v_subject v),
      (''created_at'', v_created_at v), (''not_valid_after'', v_not_valid_after v),
      (''updated_at'', v_updated_at v), (''approvals'', PInt (v_approvals v)),
      (''threshold'', PInt (v_threshold v)), (''approvers'', strs (v_approvers v)),
      (''pending_for'', strs (v_pending_for v)), (''last_seq'', PInt (v_last_seq v))])"

definition View_from_dict :: "pyval \<Rightarrow> exn + RequestView" where
  "View_from_dict d =
     sbind (sbind (subscr d ''request_id'') as_str) (\<lambda>request_id.
     sbind (subscr d ''kind'') (\<lambda>kind.
     sbind (sbind (subscr d ''status'') as_str) (\<lambda>status.
     sbind (subscr d ''requested_by'') (\<lambda>requested_by.
     sbind (subscr d ''policy_id'') (\<lambda>policy_id.
     sbind (subscr d ''subject'') (\<lambda>subject.
     sbind (subscr d ''created_at'') (\<lambda>created_at.
     sbind (subscr d ''not_valid_after'') (\<lambda>not_valid_after.
     sbind (subscr d ''updated_at'') (\<lambda>updated_at.
     sbind (sbind (subscr d ''approvals'') as_int) (\<lambda>approvals.
     sbind (sbind (subscr d ''threshold'') as_int) (\<lambda>threshold.
     sbind (sbind (getdef d ''approvers'' (PTuple [])) str_list) (\<lambda>approvers.
     sbind (sbind (getdef d ''pending_for'' (PTuple [])) str_list) (\<lambda>pending_for.
     sbind (sbind (getdef d ''last_seq'' (PInt 0)) as_int) (\<lambda>last_seq.
     Inr \<lparr>v_request_id = request_id, v_kind = kind, v_status = status, v_requested_by = requested_by,
          v_policy_id = policy_id, v_subject = subject, v_created_at = created_at,
          v_not_valid_after = not_valid_after, v_updated_at = updated_at, v_approvals = approvals,
          v_threshold = threshold, v_approvers = approvers, v_pending_for = pending_for,
          v_last_seq = last_seq\<rparr>))))))))))))))"

lemma View_roundtrip: "View_from_dict (View_to_dict v) = Inr v"
  by (simp add: View_to_dict_def View_from_dict_def)

text \<open>Filters; a filter that is unset is \<open>None\<close> (and the code also ignores an empty one).\<close>

record RequestQuery =
  q_status :: "pstr list option"
  q_kind :: "pstr option"
  q_requested_by :: "pstr option"
  q_awaiting :: "pstr option"
  q_subject_match :: "pydict option"
  q_limit :: int
  q_cursor :: "pstr option"

definition default_query :: RequestQuery where
  "default_query = \<lparr>q_status = None, q_kind = None, q_requested_by = None, q_awaiting = None,
     q_subject_match = None, q_limit = 50, q_cursor = None\<rparr>"

record 'a Page =
  pg_items :: "'a list"
  pg_next_cursor :: "pstr option"

definition Page_to_dict :: "RequestView Page \<Rightarrow> pyval" where
  "Page_to_dict p = PDict (items
     [(''items'', PList (map View_to_dict (pg_items p))), (''next_cursor'', of_opt (pg_next_cursor p))])"

subsection \<open>DecisionChallenge\<close>

record DecisionChallenge =
  ch_request_id :: pyval
  ch_approver_id :: pyval
  ch_verdict :: pyval
  ch_payload_type :: pyval
  ch_payload_b64 :: pyval
  ch_pae_b64 :: pyval
  ch_decided_at :: pyval
  ch_expires_at :: pyval
  ch_idempotency_key :: pyval

definition Challenge_to_dict :: "DecisionChallenge \<Rightarrow> pyval" where
  "Challenge_to_dict c = PDict (items
     [(''request_id'', ch_request_id c), (''approver_id'', ch_approver_id c),
      (''verdict'', ch_verdict c), (''payload_type'', ch_payload_type c),
      (''payload_b64'', ch_payload_b64 c), (''pae_b64'', ch_pae_b64 c),
      (''decided_at'', ch_decided_at c), (''expires_at'', ch_expires_at c),
      (''idempotency_key'', ch_idempotency_key c)])"

definition Challenge_from_dict :: "pyval \<Rightarrow> exn + DecisionChallenge" where
  "Challenge_from_dict d =
     sbind (subscr d ''request_id'') (\<lambda>request_id.
     sbind (subscr d ''approver_id'') (\<lambda>approver_id.
     sbind (subscr d ''verdict'') (\<lambda>verdict.
     sbind (subscr d ''payload_type'') (\<lambda>payload_type.
     sbind (subscr d ''payload_b64'') (\<lambda>payload_b64.
     sbind (subscr d ''pae_b64'') (\<lambda>pae_b64.
     sbind (subscr d ''decided_at'') (\<lambda>decided_at.
     sbind (subscr d ''expires_at'') (\<lambda>expires_at.
     sbind (subscr d ''idempotency_key'') (\<lambda>idempotency_key.
     Inr \<lparr>ch_request_id = request_id, ch_approver_id = approver_id, ch_verdict = verdict,
          ch_payload_type = payload_type, ch_payload_b64 = payload_b64, ch_pae_b64 = pae_b64,
          ch_decided_at = decided_at, ch_expires_at = expires_at,
          ch_idempotency_key = idempotency_key\<rparr>)))))))))"

lemma Challenge_roundtrip: "Challenge_from_dict (Challenge_to_dict c) = Inr c"
  by (simp add: Challenge_to_dict_def Challenge_from_dict_def)

subsection \<open>Verification reports\<close>

text \<open>
  The lines of a report.  The code builds each description as a string; a constructor stands for
  the message and carries what the message prints.
\<close>

datatype description =
    Hash_chain_intact int int
  | Hash_chain_error exn
  | Checkpoint_signed_by "pstr list"
  | Checkpoint_signature_error exn
  | Merkle_root_matches int
  | Extends_pinned_checkpoint
  | Pinned_checkpoint_error exn
  | Decision_unknown_request pyval
  | Decision_bound pyval pyval
  | Decision_signature pyval bool
  | Status_not_checked pyval
  | Policy_mismatch exn
  | Status_reproducible pyval pstr

record Check =
  ck_ok :: bool
  ck_description :: description

record VerificationReport =
  vr_checks :: "Check list"
  vr_from_seq :: int
  vr_to_seq :: int

definition report_ok :: "VerificationReport \<Rightarrow> bool" where
  "report_ok r = list_all ck_ok (vr_checks r)"

definition report_failures :: "VerificationReport \<Rightarrow> Check list" where
  "report_failures r = filter (\<lambda>c. \<not> ck_ok c) (vr_checks r)"

definition raise_for_failures :: "VerificationReport \<Rightarrow> exn + unit" where
  "raise_for_failures r = (if report_ok r then Inr () else Inl VerificationFailed)"

lemma report_ok_iff: "report_ok r \<longleftrightarrow> report_failures r = []"
  by (auto simp: report_ok_def report_failures_def list_all_iff filter_empty_conv)

subsection \<open>What a content hash determines\<close>

lemma map_of_key_sort: "distinct (map fst kvs) \<Longrightarrow> map_of (key_sort kvs) = map_of kvs"
  by (rule map_of_inject_set [THEN iffD2]) (simp_all add: distinct_sort_keys)

lemma norm_dict_fields:
  assumes "norm (PDict kvs) = norm (PDict kvs')" "distinct (map fst kvs)" "distinct (map fst kvs')"
  shows "map_option norm (map_of kvs k) = map_option norm (map_of kvs' k)"
proof -
  have "map_of (map (\<lambda>(k, v). (k, norm v)) xs) k = map_option norm (map_of xs k)" for xs
    by (induction xs) auto
  then have "map_option norm (map_of (key_sort kvs) k) = map_option norm (map_of (key_sort kvs') k)"
    using arg_cong [OF assms(1) [unfolded norm.simps pyval.inject], of "\<lambda>xs. map_of xs k"] by simp
  then show ?thesis using assms(2,3) by (simp add: map_of_key_sort)
qed

lemma norm_PStr [simp]: "norm v = PStr s \<longleftrightarrow> v = PStr s"
  by (cases v) auto

text \<open>An entry, up to the order of dict keys inside it.\<close>

definition entry_norm :: "LedgerEntry \<Rightarrow> LedgerEntry" where
  "entry_norm e = e\<lparr>e_recorded_at := norm (e_recorded_at e), e_request_id := norm (e_request_id e),
     e_payload := norm (e_payload e)\<rparr>"

lemma core_dict_norm_eq:
  assumes "norm (core_dict e) = norm (core_dict e')" "e_entry_hash e = e_entry_hash e'"
  shows "entry_norm e = entry_norm e'"
proof -
  have d: "distinct (map fst (items (core_items e)))" for e by (simp add: core_items_def)
  note f = norm_dict_fields [OF assms(1) [unfolded core_dict_def] d d]
  show ?thesis
    using f [of "lit ''seq''"] f [of "lit ''recorded_at''"] f [of "lit ''prev_hash''"]
      f [of "lit ''event_type''"] f [of "lit ''request_id''"] f [of "lit ''payload''"] assms(2)
    by (simp add: entry_norm_def core_items_def)
qed

definition same_identity :: "ApprovalRequest \<Rightarrow> ApprovalRequest \<Rightarrow> bool" where
  "same_identity r r' \<longleftrightarrow>
     norm (r_schema r) = norm (r_schema r') \<and> norm (r_kind r) = norm (r_kind r') \<and>
     norm (r_subject r) = norm (r_subject r') \<and> norm (r_requested_by r) = norm (r_requested_by r') \<and>
     norm (r_policy_id r) = norm (r_policy_id r') \<and> norm (r_policy_digest r) = norm (r_policy_digest r') \<and>
     norm (r_not_valid_after r) = norm (r_not_valid_after r') \<and> norm (r_nonce r) = norm (r_nonce r')"

lemma identity_dict_norm_eq: "norm (identity_dict r) = norm (identity_dict r') \<Longrightarrow> same_identity r r'"
proof -
  assume a: "norm (identity_dict r) = norm (identity_dict r')"
  have d: "distinct (map fst (items (identity_items r)))" for r by (simp add: identity_items_def)
  note f = norm_dict_fields [OF a [unfolded identity_dict_def] d d]
  show ?thesis
    using f [of "lit ''schema''"] f [of "lit ''kind''"] f [of "lit ''subject''"] f [of "lit ''requested_by''"]
      f [of "lit ''policy_id''"] f [of "lit ''policy_digest''"] f [of "lit ''not_valid_after''"]
      f [of "lit ''nonce''"]
    by (simp add: same_identity_def identity_items_def)
qed

lemma context_dict_norm_eq:
  "norm (context_dict r) = norm (context_dict r') \<Longrightarrow>
     same_identity r r' \<and> norm (r_created_at r) = norm (r_created_at r')"
proof -
  assume a: "norm (context_dict r) = norm (context_dict r')"
  have d: "distinct (map fst (items (identity_items r @ [(''created_at'', r_created_at r)])))" for r
    by (simp add: identity_items_def)
  note f = norm_dict_fields [OF a [unfolded context_dict_def] d d]
  show ?thesis
    using f [of "lit ''schema''"] f [of "lit ''kind''"] f [of "lit ''subject''"] f [of "lit ''requested_by''"]
      f [of "lit ''policy_id''"] f [of "lit ''policy_digest''"] f [of "lit ''not_valid_after''"]
      f [of "lit ''nonce''"] f [of "lit ''created_at''"]
    by (simp add: same_identity_def identity_items_def)
qed

text \<open>A request id is never the context digest of a request, short of a collision.\<close>

lemma identity_context_disjoint: "norm (identity_dict r) \<noteq> norm (context_dict r')"
proof
  assume a: "norm (identity_dict r) = norm (context_dict r')"
  have d: "distinct (map fst (items (identity_items r)))" for r by (simp add: identity_items_def)
  have d': "distinct (map fst (items (identity_items r @ [(''created_at'', r_created_at r)])))" for r
    by (simp add: identity_items_def)
  show False
    using norm_dict_fields [OF a [unfolded context_dict_def identity_dict_def] d d', of "lit ''created_at''"]
    by (simp add: identity_items_def)
qed

lemma request_id_created_at: "request_id (r\<lparr>r_created_at := t\<rparr>) = request_id r"
  by (simp add: request_id_def identity_dict_def identity_items_def)

lemma request_id_hash: "request_id r = Inr h \<Longrightarrow> request_id r' = Inr h \<Longrightarrow>
    same_identity r r' \<or> collision (cbytes (identity_dict r)) (cbytes (identity_dict r'))"
  unfolding request_id_def using canonical_hash_norm identity_dict_norm_eq by blast

lemma context_digest_hash: "context_digest r = Inr h \<Longrightarrow> context_digest r' = Inr h \<Longrightarrow>
    same_identity r r' \<and> norm (r_created_at r) = norm (r_created_at r') \<or>
    collision (cbytes (context_dict r)) (cbytes (context_dict r'))"
  unfolding context_digest_def using canonical_hash_norm context_dict_norm_eq by blast

subsection \<open>Properties\<close>

text \<open>C30: content addressing.  Two requests with the same id agree on every identity-bearing field,
  and two with the same context digest agree on the time of creation too, unless the two canonical
  encodings are a SHA-256 collision.\<close>

theorem request_binding:
  "(request_id r = Inr h \<and> request_id r' = Inr h \<longrightarrow>
     same_identity r r' \<or> collision (cbytes (identity_dict r)) (cbytes (identity_dict r'))) \<and>
   (context_digest r = Inr h \<and> context_digest r' = Inr h \<longrightarrow>
     same_identity r r' \<and> norm (r_created_at r) = norm (r_created_at r') \<or>
     collision (cbytes (context_dict r)) (cbytes (context_dict r')))"
  using request_id_hash context_digest_hash by blast

definition example_request :: ApprovalRequest where
  "example_request =
     \<lparr>r_kind = lit ''deploy'', r_subject = PDict (items [(''v'', PInt 1)]), r_requested_by = lit ''al'',
      r_policy_id = lit ''p'', r_policy_digest = lit ''d'', r_created_at = lit ''2025-01-01T00:00:00Z'',
      r_not_valid_after = lit ''2025-01-02T00:00:00Z'', r_nonce = lit '''', r_schema = REQUEST_SCHEMA\<rparr>"

lemma example_request_hashes:
  "\<exists>h. request_id example_request = Inr h" "\<exists>h. context_digest example_request = Inr h"
  by (simp_all add: request_id_def context_digest_def canonical_hash_Inr example_request_def identity_dict_def
      context_dict_def identity_items_def canonical_eval)

lemma request_binding_witness:
  "\<exists>h. request_id example_request = Inr h \<and>
     request_id (example_request\<lparr>r_created_at := lit ''2026''\<rparr>) = Inr h \<and>
     same_identity example_request (example_request\<lparr>r_created_at := lit ''2026''\<rparr>)"
proof -
  obtain h where h: "request_id example_request = Inr h" using example_request_hashes(1) by blast
  have h': "request_id (example_request\<lparr>r_created_at := lit ''2026''\<rparr>) = Inr h"
    by (simp only: request_id_created_at h)
  have same: "identity_dict (example_request\<lparr>r_created_at := lit ''2026''\<rparr>) = identity_dict example_request"
    by (simp add: identity_dict_def identity_items_def)
  show ?thesis
    using request_binding [of example_request h "example_request\<lparr>r_created_at := lit ''2026''\<rparr>"] h h'
    by (auto simp: same collision_def)
qed

end

