(* ===== verification/Chain.thy ===== *)
theory Chain
  imports Models
begin

section \<open>The hash chain\<close>

text \<open>
  \<^verbatim>\<open>src/approvo/chain.py\<close>.  \<open>chained\<close> is what a verified segment is, entry by entry;
  \<open>verify_segment_chained\<close> says the loop decides it, \<open>verify_segment_append\<close> that a ledger can be
  verified page by page, \<open>chain_binds\<close> that the hash of the last entry fixes the whole segment
  unless two of its entries collide.
\<close>

definition next_entry ::
  "LedgerEntry option \<Rightarrow> pstr \<Rightarrow> pyval \<Rightarrow> pyval \<Rightarrow> pyval \<Rightarrow> exn + LedgerEntry" where
  "next_entry prev event_type payload at_time rid =
     sealed \<lparr>e_seq = (case prev of Some p \<Rightarrow> e_seq p + 1 | None \<Rightarrow> 0),
             e_recorded_at = at_time,
             e_prev_hash = (case prev of Some p \<Rightarrow> e_entry_hash p | None \<Rightarrow> ZERO_HASH),
             e_event_type = event_type,
             e_request_id = rid,
             e_payload = payload,
             e_entry_hash = []\<rparr>"

fun verify_loop :: "int \<Rightarrow> pstr \<Rightarrow> int \<Rightarrow> pstr \<Rightarrow> LedgerEntry list \<Rightarrow> exn + (int \<times> pstr)" where
  "verify_loop seq prev_hash last_seq last_hash [] = Inr (last_seq, last_hash)"
| "verify_loop seq prev_hash last_seq last_hash (e # es) =
     (if e_seq e \<noteq> seq then Inl SeqGap
      else if e_prev_hash e \<noteq> prev_hash then Inl ChainBroken
      else sbind (canonical_hash (core_dict e)) (\<lambda>h.
        if e_entry_hash e \<noteq> h then Inl EntryHashMismatch
        else verify_loop (e_seq e + 1) (e_entry_hash e) (e_seq e) (e_entry_hash e) es))"

definition verify_segment :: "LedgerEntry list \<Rightarrow> int \<Rightarrow> pstr \<Rightarrow> exn + (int \<times> pstr)" where
  "verify_segment es first_seq prev_hash = verify_loop first_seq prev_hash (first_seq - 1) prev_hash es"

subsection \<open>What a verified segment is\<close>

definition sealed_ok :: "LedgerEntry \<Rightarrow> bool" where
  "sealed_ok e \<longleftrightarrow> canonical_hash (core_dict e) = Inr (e_entry_hash e)"

fun chained :: "int \<Rightarrow> pstr \<Rightarrow> LedgerEntry list \<Rightarrow> bool" where
  "chained s p [] = True"
| "chained s p (e # es) \<longleftrightarrow>
     e_seq e = s \<and> e_prev_hash e = p \<and> sealed_ok e \<and> chained (s + 1) (e_entry_hash e) es"

definition end_hash :: "pstr \<Rightarrow> LedgerEntry list \<Rightarrow> pstr" where
  "end_hash p es = (if es = [] then p else e_entry_hash (last es))"

lemma end_hash_simps [simp]:
  "end_hash p [] = p" "end_hash p (e # es) = end_hash (e_entry_hash e) es"
  "end_hash p (es @ [e]) = e_entry_hash e" "end_hash (end_hash p xs) ys = end_hash p (xs @ ys)"
  by (simp_all add: end_hash_def)

lemma chained_append:
  "chained s p (xs @ ys) \<longleftrightarrow> chained s p xs \<and> chained (s + int (length xs)) (end_hash p xs) ys"
  by (induction xs arbitrary: s p) (auto simp: add.assoc)

lemma chained_take: "chained s p xs \<Longrightarrow> chained s p (take n xs)"
  using chained_append [of s p "take n xs" "drop n xs"] by simp

lemma chained_nth:
  "chained s p xs \<longleftrightarrow>
     (\<forall>i<length xs. e_seq (xs ! i) = s + int i \<and>
        e_prev_hash (xs ! i) = (if i = 0 then p else e_entry_hash (xs ! (i - 1))) \<and> sealed_ok (xs ! i))"
proof (induction xs arbitrary: s p)
  case (Cons e xs)
  have "e_prev_hash ((e # xs) ! Suc i) = (if Suc i = 0 then p else e_entry_hash ((e # xs) ! (Suc i - 1))) \<longleftrightarrow>
      e_prev_hash (xs ! i) = (if i = 0 then e_entry_hash e else e_entry_hash (xs ! (i - 1)))" for i
    by (cases i) simp_all
  then show ?case
    unfolding chained.simps Cons.IH length_Cons All_less_Suc2 by (simp add: add.assoc)
qed simp

lemma verify_loop_Inr:
  "verify_loop s p ls lh es = Inr r \<longleftrightarrow>
     chained s p es \<and> r = (if es = [] then (ls, lh) else (s + int (length es) - 1, end_hash p es))"
proof (induction es arbitrary: s p ls lh)
  case (Cons e es)
  show ?case
    by (cases "canonical_hash (core_dict e)"; cases "es = []")
      (auto simp: Cons.IH sealed_ok_def)
qed auto

lemma verify_segment_chained:
  "verify_segment es s p = Inr (n, h) \<longleftrightarrow>
     chained s p es \<and> n = s + int (length es) - 1 \<and> h = end_hash p es"
  by (auto simp: verify_segment_def verify_loop_Inr)

text \<open>Each way of failing, and where: everything before the reported entry is intact.\<close>

definition entry_error :: "int \<Rightarrow> pstr \<Rightarrow> LedgerEntry \<Rightarrow> exn \<Rightarrow> bool" where
  "entry_error s p e x \<longleftrightarrow>
     (if e_seq e \<noteq> s then x = SeqGap
      else if e_prev_hash e \<noteq> p then x = ChainBroken
      else (case canonical_hash (core_dict e) of
              Inl y \<Rightarrow> x = y
            | Inr h \<Rightarrow> h \<noteq> e_entry_hash e \<and> x = EntryHashMismatch))"

lemma verify_loop_Inl:
  "verify_loop s p ls lh es = Inl x \<longleftrightarrow>
     (\<exists>i<length es. chained s p (take i es) \<and>
        entry_error (s + int i) (end_hash p (take i es)) (es ! i) x)"
proof (induction es arbitrary: s p ls lh)
  case (Cons e es)
  have "verify_loop s p ls lh (e # es) = Inl x \<longleftrightarrow>
      entry_error s p e x \<or> e_seq e = s \<and> e_prev_hash e = p \<and> sealed_ok e \<and>
        verify_loop (s + 1) (e_entry_hash e) s (e_entry_hash e) es = Inl x"
    by (cases "canonical_hash (core_dict e)") (auto simp: entry_error_def sealed_ok_def)
  also have "\<dots> \<longleftrightarrow> (\<exists>i<length (e # es). chained s p (take i (e # es)) \<and>
      entry_error (s + int i) (end_hash p (take i (e # es))) ((e # es) ! i) x)"
    unfolding Cons.IH length_Cons Ex_less_Suc2 by (auto simp: add.assoc)
  finally show ?case .
qed simp

lemma verify_segment_errors:
  "verify_segment es s p = Inl x \<Longrightarrow>
     x \<in> {SeqGap, ChainBroken, EntryHashMismatch, NotCanonicalizable, UnicodeError}"
  by (auto simp: verify_segment_def verify_loop_Inl entry_error_def dest: canonical_hash_errors
      split: if_splits sum.splits)

lemma verify_segment_append:
  "verify_segment (xs @ ys) s p =
     sbind (verify_segment xs s p) (\<lambda>(n, h). verify_segment ys (n + 1) h)"
proof -
  have "verify_loop s p ls lh (xs @ ys) =
      sbind (verify_loop s p ls lh xs) (\<lambda>(n, h). verify_loop (n + 1) h n h ys)"
    if "ls = s - 1" "lh = p" for s p ls lh
    using that
  proof (induction xs arbitrary: s p ls lh)
    case (Cons e xs)
    note IH = Cons.IH [of "e_seq e" "s + 1" "e_entry_hash e" "e_entry_hash e"]
    show ?case
      using Cons.prems IH by (cases "canonical_hash (core_dict e)") auto
  qed simp
  then show ?thesis by (simp add: verify_segment_def)
qed

subsection \<open>Extending a chain\<close>

lemma next_entry_Inr:
  assumes "next_entry prev ty pl t rid = Inr e"
  shows "e_seq e = (case prev of Some p \<Rightarrow> e_seq p + 1 | None \<Rightarrow> 0)"
    "e_prev_hash e = (case prev of Some p \<Rightarrow> e_entry_hash p | None \<Rightarrow> ZERO_HASH)"
    "e_event_type e = ty" "e_payload e = pl" "e_recorded_at e = t" "e_request_id e = rid" "sealed_ok e"
proof -
  obtain h where "canonical_hash (core_dict \<lparr>e_seq = (case prev of Some p \<Rightarrow> e_seq p + 1 | None \<Rightarrow> 0),
      e_recorded_at = t, e_prev_hash = (case prev of Some p \<Rightarrow> e_entry_hash p | None \<Rightarrow> ZERO_HASH),
      e_event_type = ty, e_request_id = rid, e_payload = pl, e_entry_hash = []\<rparr>) = Inr h"
    and "e = \<lparr>e_seq = (case prev of Some p \<Rightarrow> e_seq p + 1 | None \<Rightarrow> 0),
      e_recorded_at = t, e_prev_hash = (case prev of Some p \<Rightarrow> e_entry_hash p | None \<Rightarrow> ZERO_HASH),
      e_event_type = ty, e_request_id = rid, e_payload = pl, e_entry_hash = h\<rparr>"
    using assms by (auto simp: next_entry_def sealed_def sbind_eq_Inr)
  then show "e_seq e = (case prev of Some p \<Rightarrow> e_seq p + 1 | None \<Rightarrow> 0)"
    "e_prev_hash e = (case prev of Some p \<Rightarrow> e_entry_hash p | None \<Rightarrow> ZERO_HASH)"
    "e_event_type e = ty" "e_payload e = pl" "e_recorded_at e = t" "e_request_id e = rid" "sealed_ok e"
    by (simp_all add: sealed_ok_def core_dict_def core_items_def)
qed

lemma next_entry_errors: "next_entry prev ty pl t rid = Inl x \<Longrightarrow> x = NotCanonicalizable \<or> x = UnicodeError"
  by (auto simp: next_entry_def sealed_def sbind_eq_Inl dest: canonical_hash_errors)

lemma next_entry_genesis: "next_entry None ty pl t rid = Inr e \<Longrightarrow> chained 0 ZERO_HASH [e]"
  using next_entry_Inr [of None ty pl t rid e] by simp

lemma chained_last_seq: "chained s p es \<Longrightarrow> es \<noteq> [] \<Longrightarrow> e_seq (last es) = s + int (length es) - 1"
  by (cases es rule: rev_cases) (auto simp: chained_append)

lemma next_entry_chained:
  assumes "chained s p es" "es \<noteq> []" "next_entry (Some (last es)) ty pl t rid = Inr e"
  shows "chained s p (es @ [e])"
  using next_entry_Inr [OF assms(3)] chained_last_seq [OF assms(1,2)] assms(1,2)
  by (simp add: chained_append end_hash_def)

text \<open>The head of a log, as the service reads it before it appends.\<close>

lemma next_entry_log:
  assumes "chained 0 ZERO_HASH es" "next_entry (if es = [] then None else Some (last es)) ty pl t rid = Inr e"
  shows "chained 0 ZERO_HASH (es @ [e])"
  using assms next_entry_chained next_entry_genesis by (cases "es = []") auto

subsection \<open>Tamper evidence\<close>

lemma sealed_same_hash:
  assumes "sealed_ok e" "sealed_ok e'" "e_entry_hash e = e_entry_hash e'"
  shows "entry_norm e = entry_norm e' \<or> collision (cbytes (core_dict e)) (cbytes (core_dict e'))"
  using assms canonical_hash_norm core_dict_norm_eq unfolding sealed_ok_def by metis

lemma entry_norm_prev: "entry_norm e = entry_norm e' \<Longrightarrow> e_prev_hash e = e_prev_hash e'"
  by (drule arg_cong [where f = e_prev_hash]) (simp add: entry_norm_def)

lemma chain_binds:
  "chained s p xs \<Longrightarrow> chained s p' ys \<Longrightarrow> length xs = length ys \<Longrightarrow> xs \<noteq> [] \<Longrightarrow>
     end_hash p xs = end_hash p' ys \<Longrightarrow>
     map entry_norm xs = map entry_norm ys \<or>
     (\<exists>i<length xs. collision (cbytes (core_dict (xs ! i))) (cbytes (core_dict (ys ! i))))"
proof (induction xs arbitrary: ys rule: rev_induct)
  case (snoc e xs)
  obtain ys' e' where ys: "ys = ys' @ [e']" and len: "length xs = length ys'"
    using snoc.prems(3) by (cases ys rule: rev_cases) auto
  have e: "sealed_ok e" "sealed_ok e'" "e_entry_hash e = e_entry_hash e'"
    and pre: "chained s p xs" "chained s p' ys'"
    and link: "e_prev_hash e = end_hash p xs" "e_prev_hash e' = end_hash p' ys'"
    using snoc.prems by (auto simp: ys chained_append)
  show ?case
  proof (cases "collision (cbytes (core_dict e)) (cbytes (core_dict e'))")
    case True
    then show ?thesis using len by (auto simp: ys nth_append intro!: exI [of _ "length xs"])
  next
    case False
    then have same: "entry_norm e = entry_norm e'" using sealed_same_hash [OF e] by blast
    show ?thesis
    proof (cases "xs = []")
      case True
      then show ?thesis using same len ys by simp
    next
      case False
      have "end_hash p xs = end_hash p' ys'" using entry_norm_prev [OF same] link by simp
      then have "map entry_norm xs = map entry_norm ys' \<or>
          (\<exists>i<length xs. collision (cbytes (core_dict (xs ! i))) (cbytes (core_dict (ys' ! i))))"
        using snoc.IH [OF pre len False] by blast
      then show ?thesis using same len by (auto simp: ys nth_append less_Suc_eq)
    qed
  qed
qed simp

subsection \<open>Properties\<close>

text \<open>C22: \<open>verify_segment\<close> accepts exactly the segments whose entries are numbered from the expected
  number, each linked to the hash of the one before and sealed with the hash of its own content, and
  it returns the number and the hash of the last entry.\<close>

theorem verify_segment_accepts:
  "verify_segment es s p = Inr (n, h) \<longleftrightarrow>
     (\<forall>i<length es. e_seq (es ! i) = s + int i \<and>
        e_prev_hash (es ! i) = (if i = 0 then p else e_entry_hash (es ! (i - 1))) \<and> sealed_ok (es ! i)) \<and>
     n = s + int (length es) - 1 \<and> h = (if es = [] then p else e_entry_hash (last es))"
  by (simp add: verify_segment_chained chained_nth end_hash_def)

definition example_entry :: LedgerEntry where
  "example_entry = \<lparr>e_seq = 0, e_recorded_at = PNone, e_prev_hash = ZERO_HASH, e_event_type = u ''x'',
     e_request_id = PNone, e_payload = PTuple [], e_entry_hash = []\<rparr>"

lemma example_entry_seals: "\<exists>h. sealed example_entry = Inr (example_entry\<lparr>e_entry_hash := h\<rparr>) \<and>
    chained 0 ZERO_HASH [example_entry\<lparr>e_entry_hash := h\<rparr>] \<and>
    chained 0 ZERO_HASH [example_entry\<lparr>e_entry_hash := h, e_payload := PList []\<rparr>]"
  by (simp add: sealed_def sealed_ok_def canonical_hash_Inr example_entry_def core_dict_def core_items_def
      canonical_eval ZERO_HASH_def bind_simps canonical_bytes_def list_all_iff)

lemma verify_segment_accepts_witness:
  "\<exists>h. verify_segment [example_entry\<lparr>e_entry_hash := h\<rparr>] 0 ZERO_HASH = Inr (0, h)"
proof -
  obtain h where "chained 0 ZERO_HASH [example_entry\<lparr>e_entry_hash := h\<rparr>]" using example_entry_seals by blast
  then show ?thesis
    using verify_segment_accepts [of "[example_entry\<lparr>e_entry_hash := h\<rparr>]" 0 ZERO_HASH 0 h]
    by (auto intro!: exI [of _ h])
qed

text \<open>where it raises, every entry before the reported one is intact, and the exception is the one
  for the first check the entry fails: the number, then the link, then the hash of the content.\<close>

theorem verify_segment_reports:
  "verify_segment es s p = Inl x \<longleftrightarrow>
     (\<exists>i<length es. chained s p (take i es) \<and>
        entry_error (s + int i) (end_hash p (take i es)) (es ! i) x)"
  by (simp add: verify_segment_def verify_loop_Inl)

text \<open>a ledger can be verified page by page: verifying a page and then the next one from the number
  after the last and the hash it returned is verifying the two together.\<close>

theorem verify_segment_pages:
  "verify_segment (xs @ ys) s p = sbind (verify_segment xs s p) (\<lambda>(n, h). verify_segment ys (n + 1) h)"
  by (rule verify_segment_append)

text \<open>an entry made for the head of an intact log extends it to an intact log.\<close>

theorem next_entry_extends:
  assumes "chained 0 ZERO_HASH es" "next_entry (if es = [] then None else Some (last es)) ty pl t rid = Inr e"
  shows "verify_segment (es @ [e]) 0 ZERO_HASH = Inr (int (length es), e_entry_hash e)"
  using next_entry_log [OF assms] by (simp add: verify_segment_chained)

lemma next_entry_extends_witness:
  "\<exists>e. next_entry None (u ''x'') (PTuple []) PNone PNone = Inr e \<and>
     verify_segment [e] 0 ZERO_HASH = Inr (0, e_entry_hash e)"
proof -
  obtain e where e: "next_entry None (u ''x'') (PTuple []) PNone PNone = Inr e"
    using example_entry_seals by (auto simp: next_entry_def example_entry_def)
  show ?thesis using next_entry_extends [of "[]" "u ''x''" "PTuple []" PNone PNone e] e by simp
qed

text \<open>C16: tamper evidence.  Two intact segments of the same length that end in the same hash hold the
  same entries, up to the order of keys inside payloads, unless the content of two entries at the
  same place is a SHA-256 collision: the hash of the head fixes the history.\<close>

theorem head_binds_history:
  assumes "chained s p xs" "chained s p' ys" "length xs = length ys" "xs \<noteq> []" "end_hash p xs = end_hash p' ys"
  shows "map entry_norm xs = map entry_norm ys \<or>
     (\<exists>i<length xs. collision (cbytes (core_dict (xs ! i))) (cbytes (core_dict (ys ! i))))"
  using assms by (rule chain_binds)

lemma head_binds_history_witness:
  "\<exists>h. chained 0 ZERO_HASH [example_entry\<lparr>e_entry_hash := h\<rparr>] \<and>
     (map entry_norm [example_entry\<lparr>e_entry_hash := h\<rparr>] =
        map entry_norm [example_entry\<lparr>e_entry_hash := h, e_payload := PList []\<rparr>] \<or>
      (\<exists>i<1. collision (cbytes (core_dict ([example_entry\<lparr>e_entry_hash := h\<rparr>] ! i)))
         (cbytes (core_dict ([example_entry\<lparr>e_entry_hash := h, e_payload := PList []\<rparr>] ! i)))))"
proof -
  obtain h where h: "chained 0 ZERO_HASH [example_entry\<lparr>e_entry_hash := h\<rparr>]"
    "chained 0 ZERO_HASH [example_entry\<lparr>e_entry_hash := h, e_payload := PList []\<rparr>]"
    using example_entry_seals by blast
  show ?thesis using head_binds_history [OF h] h by (auto intro!: exI [of _ h])
qed

end

