(* ===== verification/Policy.thy ===== *)
theory Policy
  imports Models "HOL-Library.Sublist"
begin

section \<open>Policies and their evaluation\<close>

text \<open>
  \<^verbatim>\<open>src/approvo/policy/model.py\<close> and \<^verbatim>\<open>policy/engine.py\<close>.  \<open>evaluate\<close> is the pure function
  from evidence to status.  The specification is in terms of \<open>counted\<close> (which decisions count)
  and \<open>stands\<close> (what each approver's latest decision says): \<open>evaluate_Inr\<close> says what the function
  returns, in the order the code tests the outcomes.
\<close>

record Policy =
  pol_id :: pstr
  pol_kind :: pstr
  allowed_approvers :: "pstr list"
  threshold :: int
  require_distinct_roles :: "pstr list"
  separation_of_duties :: bool
  reject_is_terminal :: bool
  max_age_seconds :: int
  required_subject_fields :: "pstr list"
  pol_schema :: pyval

definition Policy_to_dict :: "Policy \<Rightarrow> pyval" where
  "Policy_to_dict p = PDict (items
     [(''schema'', pol_schema p), (''id'', PStr (pol_id p)), (''kind'', PStr (pol_kind p)),
      (''allowed_approvers'', strs (allowed_approvers p)), (''threshold'', PInt (threshold p)),
      (''require_distinct_roles'', strs (require_distinct_roles p)),
      (''separation_of_duties'', PBool (separation_of_duties p)),
      (''reject_is_terminal'', PBool (reject_is_terminal p)),
      (''max_age_seconds'', PInt (max_age_seconds p)),
      (''required_subject_fields'', strs (required_subject_fields p))])"

definition Policy_from_dict :: "pyval \<Rightarrow> exn + Policy" where
  "Policy_from_dict d =
     sbind (sbind (subscr d ''id'') as_str) (\<lambda>pid.
     sbind (sbind (subscr d ''kind'') as_str) (\<lambda>kind.
     sbind (sbind (subscr d ''allowed_approvers'') str_list) (\<lambda>allowed.
     sbind (sbind (subscr d ''threshold'') as_int) (\<lambda>thr.
     sbind (sbind (getdef d ''require_distinct_roles'' (PTuple [])) str_list) (\<lambda>roles.
     sbind (sbind (getdef d ''separation_of_duties'' (PBool True)) as_bool) (\<lambda>sod.
     sbind (sbind (getdef d ''reject_is_terminal'' (PBool True)) as_bool) (\<lambda>rit.
     sbind (sbind (getdef d ''max_age_seconds'' (PInt (7 * 24 * 3600))) as_int) (\<lambda>age.
     sbind (sbind (getdef d ''required_subject_fields'' (PTuple [])) str_list) (\<lambda>flds.
     sbind (getdef d ''schema'' POLICY_SCHEMA) (\<lambda>schema.
     Inr \<lparr>pol_id = pid, pol_kind = kind, allowed_approvers = allowed, threshold = thr,
          require_distinct_roles = roles, separation_of_duties = sod, reject_is_terminal = rit,
          max_age_seconds = age, required_subject_fields = flds, pol_schema = schema\<rparr>))))))))))"

lemma Policy_roundtrip: "Policy_from_dict (Policy_to_dict p) = Inr p"
  by (simp add: Policy_from_dict_def Policy_to_dict_def)

definition policy_digest :: "Policy \<Rightarrow> exn + pstr" where
  "policy_digest p = canonical_hash (Policy_to_dict p)"

text \<open>\<open>f in subject\<close>, for a string \<open>f\<close>\<close>

fun py_contains :: "pyval \<Rightarrow> pstr \<Rightarrow> exn + bool" where
  "py_contains (PDict kvs) f = Inr (PStr f \<in> fst ` set kvs)"
| "py_contains (PList xs) f = Inr (PStr f \<in> set xs)"
| "py_contains (PTuple xs) f = Inr (PStr f \<in> set xs)"
| "py_contains (PStr s) f = Inr (sublist f s)"
| "py_contains _ f = Inl TypeError"

definition validate_subject :: "Policy \<Rightarrow> pyval \<Rightarrow> exn + unit" where
  "validate_subject p subject =
     sbind (smap (py_contains subject) (required_subject_fields p)) (\<lambda>present.
     if list_all id present then Inr () else Inl SubjectConstraintViolation)"

lemma validate_subject_dict:
  "validate_subject p (PDict kvs) =
     (if \<forall>f\<in>set (required_subject_fields p). PStr f \<in> fst ` set kvs then Inr ()
      else Inl SubjectConstraintViolation)"
proof -
  have "py_contains (PDict kvs) = (\<lambda>f. Inr (PStr f \<in> fst ` set kvs))" by (rule ext) simp
  then have "smap (py_contains (PDict kvs)) fs = Inr (map (\<lambda>f. PStr f \<in> fst ` set kvs) fs)" for fs
    by (simp only: smap_pure)
  then show ?thesis by (simp add: validate_subject_def list_all_iff)
qed

text \<open>\<open>InMemoryPolicyStore\<close>\<close>

type_synonym PolicyStore = "(pstr \<times> Policy) list"

definition policy_store_add :: "Policy \<Rightarrow> PolicyStore \<Rightarrow> PolicyStore" where
  "policy_store_add p ps = AList.update (pol_id p) p ps"

definition policy_store_init :: "Policy list \<Rightarrow> PolicyStore" where
  "policy_store_init ps = foldl (\<lambda>m p. AList.update (pol_id p) p m) [] ps"

definition policy_store_get :: "PolicyStore \<Rightarrow> pyval \<Rightarrow> exn + Policy" where
  "policy_store_get ps policy_id = (case policy_id of
       PStr s \<Rightarrow> (case map_of ps s of None \<Rightarrow> Inl UnknownPolicy | Some p \<Rightarrow> Inr p)
     | v \<Rightarrow> if hashable v then Inl UnknownPolicy else Inl TypeError)"

lemma policy_store_get_add:
  "policy_store_get (policy_store_add p ps) (PStr s) =
     (if s = pol_id p then Inr p else policy_store_get ps (PStr s))"
  by (simp add: policy_store_get_def policy_store_add_def update_conv')

subsection \<open>The engine\<close>

type_synonym Identities = "(pstr \<times> Identity) list"

definition role_ref :: "pstr \<Rightarrow> pstr" where
  "role_ref r = u ''role:'' @ r"

definition identities_get :: "Identities \<Rightarrow> pyval \<Rightarrow> exn + Identity option" where
  "identities_get ids v = (case v of
       PStr s \<Rightarrow> Inr (map_of ids s)
     | w \<Rightarrow> if hashable w then Inr None else Inl TypeError)"

definition eligible :: "pyval \<Rightarrow> Policy \<Rightarrow> Identities \<Rightarrow> exn + bool" where
  "eligible approver_id policy identities =
     (if approver_id \<in> set (map PStr (allowed_approvers policy)) then Inr True
      else sbind (identities_get identities approver_id) (\<lambda>ident.
        case ident of None \<Rightarrow> Inr False
        | Some i \<Rightarrow> Inr (list_ex (\<lambda>r. role_ref r \<in> set (allowed_approvers policy)) (i_roles i))))"

definition holds_role :: "Identities \<Rightarrow> pstr \<Rightarrow> pstr \<Rightarrow> bool" where
  "holds_role identities role a = (case map_of identities a of None \<Rightarrow> False | Some i \<Rightarrow> role \<in> set (i_roles i))"

definition roles_satisfied :: "pstr list \<Rightarrow> Policy \<Rightarrow> Identities \<Rightarrow> bool" where
  "roles_satisfied approver_ids policy identities =
     list_all (\<lambda>required. filter (holds_role identities required) approver_ids \<noteq> [])
       (require_distinct_roles policy)"

definition reason :: "runtime \<Rightarrow> pyval \<Rightarrow> string \<Rightarrow> pstr" where
  "reason R who why = py_str R who @ u '': ignored ('' @ u why @ u '')''"

text \<open>Why a decision does not count, if it does not.\<close>

definition objection ::
  "runtime \<Rightarrow> ApprovalRequest \<Rightarrow> Policy \<Rightarrow> Identities \<Rightarrow> pstr \<Rightarrow> datetime \<Rightarrow> Decision \<Rightarrow> exn + pstr option" where
  "objection R request policy identities context deadline d =
     (if d_context_digest d \<noteq> PStr context
      then Inr (Some (reason R (d_approver_id d) ''bound to a different request body''))
      else sbind (eligible (d_approver_id d) policy identities) (\<lambda>ok.
        if \<not> ok then Inr (Some (reason R (d_approver_id d) ''not an allowed approver''))
        else if separation_of_duties policy \<and> d_approver_id d = r_requested_by request
        then Inr (Some (reason R (d_approver_id d) ''separation of duties: requester''))
        else sbind (parse_rfc3339 (d_decided_at d)) (\<lambda>t.
             sbind (dt_less deadline t) (\<lambda>late.
             if late then Inr (Some (reason R (d_approver_id d) ''decided after the window closed''))
             else Inr None))))"

fun count_decisions ::
  "(Decision \<Rightarrow> exn + pstr option) \<Rightarrow> Decision list \<Rightarrow> exn + (Decision list \<times> pstr list)" where
  "count_decisions obj [] = Inr ([], [])"
| "count_decisions obj (d # ds) =
     sbind (obj d) (\<lambda>why.
     sbind (count_decisions obj ds) (\<lambda>(counted, reasons).
     Inr (case why of None \<Rightarrow> (d # counted, reasons) | Some r \<Rightarrow> (counted, r # reasons))))"

text \<open>\<open>latest\<close>: by approver, the last decision in the order of \<open>decided_at\<close>\<close>

definition by_time :: "Decision list \<Rightarrow> Decision list" where
  "by_time ds = sort_key (\<lambda>d. str_of (d_decided_at d)) ds"

definition latest :: "Decision list \<Rightarrow> (pstr \<times> Decision) list" where
  "latest counted = foldl (\<lambda>m d. AList.update (str_of (d_approver_id d)) d m) [] (by_time counted)"

definition voting :: "string \<Rightarrow> (pstr \<times> Decision) list \<Rightarrow> pstr list" where
  "voting verdict votes = map fst (filter (\<lambda>(a, d). d_verdict d = lit verdict) votes)"

definition comma :: pstr where
  "comma = u '', ''"

definition conclude ::
  "runtime \<Rightarrow> ApprovalRequest \<Rightarrow> Policy \<Rightarrow> Identities \<Rightarrow> datetime \<Rightarrow> datetime \<Rightarrow> pstr list \<Rightarrow>
   (pstr \<times> Decision) list \<Rightarrow> exn + PolicyResult" where
  "conclude R request policy identities now deadline reasons votes =
     (let rejecters = voting ''reject'' votes; approvers = voting ''approve'' votes;
          enough = int (length approvers) \<ge> threshold policy;
          roles_ok = roles_satisfied approvers policy identities
      in if reject_is_terminal policy \<and> rejecters \<noteq> [] then
           Inr \<lparr>p_status = u ''rejected'', p_satisfied_by = sort rejecters,
                p_reasons = reasons @ [u ''rejected by: '' @ join comma (sort rejecters)]\<rparr>
         else if enough \<and> roles_ok then
           Inr \<lparr>p_status = u ''approved'', p_satisfied_by = sort approvers,
                p_reasons = reasons @ [u ''threshold '' @ int_repr (threshold policy) @ u '' met by: ''
                                       @ join comma (sort approvers)]\<rparr>
         else sbind (dt_less deadline now) (\<lambda>closed.
           if closed then
             Inr \<lparr>p_status = u ''expired'', p_satisfied_by = sort approvers,
                  p_reasons = reasons @ [u ''window closed at '' @ py_str R (r_not_valid_after request)
                                         @ u '' without approval'']\<rparr>
           else
             Inr \<lparr>p_status = u ''pending'', p_satisfied_by = sort approvers,
                  p_reasons = reasons @ [int_repr (int (length approvers)) @ u ''/''
                    @ int_repr (threshold policy) @ u '' approvals''
                    @ (if require_distinct_roles policy \<noteq> [] \<and> \<not> roles_ok
                       then u ''; roles still required: '' @ repr_str_list R (require_distinct_roles policy)
                       else [])]\<rparr>))"

definition deadline_of :: "ApprovalRequest \<Rightarrow> Policy \<Rightarrow> exn + datetime" where
  "deadline_of request policy =
     sbind (parse_rfc3339 (r_not_valid_after request)) (\<lambda>closes.
     sbind (parse_rfc3339 (r_created_at request)) (\<lambda>created.
     sbind (dt_add created (max_age_seconds policy * 1000000)) (\<lambda>ages_out.
     dt_min closes ages_out)))"

definition evaluate ::
  "runtime \<Rightarrow> ApprovalRequest \<Rightarrow> Decision list \<Rightarrow> Policy \<Rightarrow> Identities \<Rightarrow> pyval \<Rightarrow> exn + PolicyResult" where
  "evaluate R request decisions policy identities at_time =
     sbind (parse_rfc3339 at_time) (\<lambda>now.
     sbind (deadline_of request policy) (\<lambda>deadline.
     sbind (context_digest request) (\<lambda>context.
     sbind (count_decisions (objection R request policy identities context deadline) decisions)
       (\<lambda>(counted, reasons).
     conclude R request policy identities now deadline reasons (latest counted)))))"

subsection \<open>Which decisions count\<close>

definition allowed :: "Policy \<Rightarrow> Identities \<Rightarrow> pstr \<Rightarrow> bool" where
  "allowed policy identities a \<longleftrightarrow>
     a \<in> set (allowed_approvers policy) \<or>
     (\<exists>i. map_of identities a = Some i \<and> (\<exists>r\<in>set (i_roles i). role_ref r \<in> set (allowed_approvers policy)))"

lemma eligible_Inr:
  "eligible v policy identities = Inr True \<longleftrightarrow> (\<exists>a. v = PStr a \<and> allowed policy identities a)"
  by (cases v)
    (auto simp: eligible_def allowed_def identities_get_def list_ex_iff bind_simps split: option.splits)

definition counted ::
  "ApprovalRequest \<Rightarrow> Policy \<Rightarrow> Identities \<Rightarrow> pstr \<Rightarrow> datetime \<Rightarrow> Decision \<Rightarrow> bool" where
  "counted request policy identities context deadline d \<longleftrightarrow>
     d_context_digest d = PStr context \<and>
     (\<exists>a. d_approver_id d = PStr a \<and> allowed policy identities a) \<and>
     \<not> (separation_of_duties policy \<and> d_approver_id d = r_requested_by request) \<and>
     (\<exists>t. parse_rfc3339 (d_decided_at d) = Inr t \<and> dt_less deadline t = Inr False)"

lemma objection_None:
  "objection R request policy identities context deadline d = Inr None \<longleftrightarrow>
     counted request policy identities context deadline d"
  unfolding objection_def counted_def eligible_Inr [symmetric]
  by (auto simp: bind_simps)

lemma count_decisions_filter:
  "count_decisions obj ds = Inr (cs, rs) \<Longrightarrow> cs = filter (\<lambda>d. obj d = Inr None) ds"
  by (induction ds arbitrary: cs rs) (auto simp: bind_simps split: option.splits)

lemma count_decisions_Inr:
  "(\<exists>r. count_decisions obj ds = Inr r) \<longleftrightarrow> (\<forall>d\<in>set ds. \<exists>w. obj d = Inr w)"
  by (induction ds) (auto simp: bind_simps)

subsection \<open>One voice per approver\<close>

definition voice_of :: "Decision \<Rightarrow> pstr" where
  "voice_of d = str_of (d_approver_id d)"

definition stamp_of :: "Decision \<Rightarrow> pstr" where
  "stamp_of d = str_of (d_decided_at d)"

lemma map_of_last_update:
  "map_of (foldl (\<lambda>m d. AList.update (f d) d m) m xs) a =
     (if a \<in> f ` set xs then Some (last (filter (\<lambda>d. f d = a) xs)) else map_of m a)"
  by (induction xs rule: rev_induct) (auto simp: update_conv')

lemma latest_map_of:
  "map_of (latest cs) a =
     (if a \<in> voice_of ` set cs then Some (last (filter (\<lambda>d. voice_of d = a) (by_time cs))) else None)"
  unfolding latest_def voice_of_def [symmetric] map_of_last_update by (simp add: by_time_def)

lemma latest_distinct: "distinct (map fst (latest cs))"
proof -
  have "distinct (map fst m) \<Longrightarrow> distinct (map fst (foldl (\<lambda>m d. AList.update (f d) d m) m xs))"
    for f :: "Decision \<Rightarrow> pstr" and m xs
    by (induction xs arbitrary: m) (simp_all add: distinct_update)
  then show ?thesis by (simp add: latest_def)
qed

lemma sorted_last_max:
  assumes "sorted (map f xs)" "x \<in> set xs"
  shows "f x \<le> f (last xs)"
  using assms by (induction xs rule: rev_induct) (auto simp: sorted_append)

lemma latest_Some:
  assumes "map_of (latest cs) a = Some d"
  shows "d \<in> set cs" "voice_of d = a" "\<forall>d'\<in>set cs. voice_of d' = a \<longrightarrow> stamp_of d' \<le> stamp_of d"
proof -
  let ?ys = "filter (\<lambda>d. voice_of d = a) (by_time cs)"
  have d: "d = last ?ys" and a: "a \<in> voice_of ` set cs"
    using assms by (simp_all add: latest_map_of split: if_splits)
  have ys: "set ?ys = {d \<in> set cs. voice_of d = a}" by (auto simp: by_time_def)
  have ne: "?ys \<noteq> []" using a ys by force
  then have "d \<in> set ?ys" unfolding d by (rule last_in_set)
  then show "d \<in> set cs" "voice_of d = a" using ys by auto
  have "map stamp_of ?ys = map stamp_of (filter (\<lambda>d. voice_of d = a) (sort_key stamp_of cs))"
    by (simp add: by_time_def stamp_of_def [abs_def])
  then have "sorted (map stamp_of ?ys)"
    by (metis sorted_filter sorted_sort_key)
  then show "\<forall>d'\<in>set cs. voice_of d' = a \<longrightarrow> stamp_of d' \<le> stamp_of d"
  proof (intro ballI impI)
    fix d' assume "d' \<in> set cs" "voice_of d' = a"
    then have "d' \<in> set ?ys" using ys by simp
    with \<open>sorted (map stamp_of ?ys)\<close> show "stamp_of d' \<le> stamp_of d"
      unfolding d by (rule sorted_last_max)
  qed
qed

lemma latest_None: "map_of (latest cs) a = None \<longleftrightarrow> (\<forall>d\<in>set cs. voice_of d \<noteq> a)"
  by (auto simp: latest_map_of)

lemma voting_set:
  "a \<in> set (voting v (latest cs)) \<longleftrightarrow> (\<exists>d. map_of (latest cs) a = Some d \<and> d_verdict d = lit v)"
  using latest_distinct [of cs] by (auto simp: voting_def map_of_eq_Some_iff [OF latest_distinct] image_iff)

lemma voting_distinct: "distinct (voting v (latest cs))"
proof -
  have "distinct (map fst xs) \<Longrightarrow> distinct (map fst (filter P xs))" for xs :: "(pstr \<times> Decision) list" and P
    by (induction xs) auto
  then show ?thesis using latest_distinct by (simp add: voting_def)
qed

subsection \<open>What \<open>evaluate\<close> returns\<close>

text \<open>The evidence an evaluation weighs: the deadline, the digest it binds to, what counts.\<close>

definition weighs ::
  "runtime \<Rightarrow> ApprovalRequest \<Rightarrow> Decision list \<Rightarrow> Policy \<Rightarrow> Identities \<Rightarrow> datetime \<Rightarrow> pstr \<Rightarrow> Decision list \<Rightarrow> bool" where
  "weighs R request decisions policy identities deadline context cs \<longleftrightarrow>
     deadline_of request policy = Inr deadline \<and> context_digest request = Inr context \<and>
     cs = filter (counted request policy identities context deadline) decisions"

lemma evaluate_Inr:
  assumes "evaluate R request decisions policy identities at_time = Inr res"
  obtains now deadline ctx cs reasons where
    "parse_rfc3339 at_time = Inr now" "weighs R request decisions policy identities deadline ctx cs"
    "conclude R request policy identities now deadline reasons (latest cs) = Inr res"
proof -
  obtain now deadline ctx cs reasons where e: "parse_rfc3339 at_time = Inr now"
    "deadline_of request policy = Inr deadline" "context_digest request = Inr ctx"
    "count_decisions (objection R request policy identities ctx deadline) decisions = Inr (cs, reasons)"
    "conclude R request policy identities now deadline reasons (latest cs) = Inr res"
    using assms unfolding evaluate_def by (auto simp: sbind_eq_Inr)
  have "cs = filter (counted request policy identities ctx deadline) decisions"
    using count_decisions_filter [OF e(4)] by (simp add: objection_None)
  then show ?thesis using that e unfolding weighs_def by blast
qed

lemma conclude_cases:
  assumes "conclude R request policy identities now deadline reasons votes = Inr res"
  shows
    "reject_is_terminal policy \<and> voting ''reject'' votes \<noteq> [] \<and> p_status res = u ''rejected'' \<and>
       p_satisfied_by res = sort (voting ''reject'' votes) \<or>
     \<not> (reject_is_terminal policy \<and> voting ''reject'' votes \<noteq> []) \<and>
     p_satisfied_by res = sort (voting ''approve'' votes) \<and>
     (if int (length (voting ''approve'' votes)) \<ge> threshold policy \<and>
         roles_satisfied (voting ''approve'' votes) policy identities
      then p_status res = u ''approved''
      else \<exists>closed. dt_less deadline now = Inr closed \<and>
             p_status res = (if closed then u ''expired'' else u ''pending''))"
  using assms unfolding conclude_def Let_def
  by (cases "dt_less deadline now") (simp_all split: if_splits, auto)

lemma status_literals:
  "u ''rejected'' \<noteq> u ''approved''" "u ''expired'' \<noteq> u ''approved''" "u ''pending'' \<noteq> u ''approved''"
  "u ''rejected'' \<noteq> u ''expired''" "u ''rejected'' \<noteq> u ''pending''" "u ''expired'' \<noteq> u ''pending''"
  by simp_all

text \<open>A decision that counts and stands: the approver's latest.\<close>

definition stands :: "Decision list \<Rightarrow> string \<Rightarrow> pstr \<Rightarrow> bool" where
  "stands cs verdict a \<longleftrightarrow> (\<exists>d. map_of (latest cs) a = Some d \<and> d_verdict d = lit verdict)"

lemma evaluate_approved:
  assumes "evaluate R request decisions policy identities at_time = Inr res" "p_status res = u ''approved''"
  obtains deadline ctx cs where "weighs R request decisions policy identities deadline ctx cs"
    "distinct (p_satisfied_by res)" "\<forall>a. a \<in> set (p_satisfied_by res) \<longleftrightarrow> stands cs ''approve'' a"
    "threshold policy \<le> int (length (p_satisfied_by res))"
    "\<forall>r\<in>set (require_distinct_roles policy). \<exists>a\<in>set (p_satisfied_by res). holds_role identities r a"
    "reject_is_terminal policy \<longrightarrow> (\<forall>a. \<not> stands cs ''reject'' a)"
proof -
  obtain now deadline ctx cs reasons where e:
    "weighs R request decisions policy identities deadline ctx cs"
    "conclude R request policy identities now deadline reasons (latest cs) = Inr res"
    by (rule evaluate_Inr [OF assms(1)])
  have c: "\<not> (reject_is_terminal policy \<and> voting ''reject'' (latest cs) \<noteq> [])"
    "p_satisfied_by res = sort (voting ''approve'' (latest cs))"
    "int (length (voting ''approve'' (latest cs))) \<ge> threshold policy"
    "roles_satisfied (voting ''approve'' (latest cs)) policy identities"
    using conclude_cases [OF e(2)] assms(2) by (auto split: if_splits)
  show ?thesis
  proof (rule that [OF e(1)])
    show "distinct (p_satisfied_by res)" using voting_distinct by (simp add: c(2))
    show "\<forall>a. a \<in> set (p_satisfied_by res) \<longleftrightarrow> stands cs ''approve'' a"
      by (simp add: c(2) voting_set stands_def)
    show "threshold policy \<le> int (length (p_satisfied_by res))" using c(2,3) by simp
    show "\<forall>r\<in>set (require_distinct_roles policy). \<exists>a\<in>set (p_satisfied_by res). holds_role identities r a"
      using c(4) by (fastforce simp: c(2) roles_satisfied_def list_all_iff filter_empty_conv)
    show "reject_is_terminal policy \<longrightarrow> (\<forall>a. \<not> stands cs ''reject'' a)"
    proof (intro impI allI notI)
      fix a assume "reject_is_terminal policy" "stands cs ''reject'' a"
      then have "a \<in> set (voting ''reject'' (latest cs))" by (simp add: voting_set stands_def)
      with \<open>reject_is_terminal policy\<close> c(1) show False by auto
    qed
  qed
qed

text \<open>Decisions that do not count leave the status and the approvers as they are.\<close>

lemma conclude_reasons:
  "conclude R request policy identities now deadline reasons votes = Inr res \<Longrightarrow>
     \<exists>res'. conclude R request policy identities now deadline reasons' votes = Inr res' \<and>
       p_status res' = p_status res \<and> p_satisfied_by res' = p_satisfied_by res"
  unfolding conclude_def Let_def
  by (cases "dt_less deadline now") (simp_all split: if_splits, auto)

lemma evaluate_only_counted:
  assumes "evaluate R request decisions policy identities at_time = Inr res"
    and "weighs R request decisions policy identities deadline ctx cs"
  shows "\<exists>res'. evaluate R request cs policy identities at_time = Inr res' \<and>
    p_status res' = p_status res \<and> p_satisfied_by res' = p_satisfied_by res"
proof -
  obtain now dl cx cs' reasons where e: "parse_rfc3339 at_time = Inr now"
    "weighs R request decisions policy identities dl cx cs'"
    "conclude R request policy identities now dl reasons (latest cs') = Inr res"
    by (rule evaluate_Inr [OF assms(1)])
  have same: "dl = deadline" "cx = ctx" "cs' = cs"
    using e(2) assms(2) unfolding weighs_def by auto
  have obj: "\<forall>d\<in>set cs. objection R request policy identities ctx deadline d = Inr None"
    using assms(2) by (auto simp: weighs_def objection_None)
  have "count_decisions f ds = Inr (ds, [])" if "\<forall>d\<in>set ds. f d = Inr None" for f ds
    using that by (induction ds) auto
  with obj have "count_decisions (objection R request policy identities ctx deadline) cs = Inr (cs, [])"
    by blast
  moreover obtain res' where "conclude R request policy identities now deadline [] (latest cs) = Inr res'"
    "p_status res' = p_status res" "p_satisfied_by res' = p_satisfied_by res"
    using conclude_reasons [OF e(3)] same by blast
  ultimately show ?thesis
    using e(1) assms(2) by (auto simp: evaluate_def weighs_def)
qed

subsection \<open>Properties\<close>

text \<open>Who approves and who rejects: the approvers whose decision that stands says so.\<close>

definition approving :: "Decision list \<Rightarrow> pstr set" where
  "approving cs = {a. stands cs ''approve'' a}"

definition rejecting :: "Decision list \<Rightarrow> pstr set" where
  "rejecting cs = {a. stands cs ''reject'' a}"

lemma set_voting:
  "set (voting ''approve'' (latest cs)) = approving cs" "set (voting ''reject'' (latest cs)) = rejecting cs"
  by (auto simp: approving_def rejecting_def stands_def voting_set)

lemma card_approving: "length (voting ''approve'' (latest cs)) = card (approving cs)"
  using distinct_card [OF voting_distinct] by (metis set_voting(1))

lemma roles_approving:
  "roles_satisfied (voting ''approve'' (latest cs)) policy identities \<longleftrightarrow>
     (\<forall>r\<in>set (require_distinct_roles policy). \<exists>a\<in>approving cs. holds_role identities r a)"
  by (simp add: roles_satisfied_def list_all_iff filter_empty_conv flip: set_voting)

lemma sort_voting:
  "set (sort (voting v (latest cs))) = set (voting v (latest cs)) \<and> sorted (sort (voting v (latest cs))) \<and>
     distinct (sort (voting v (latest cs)))"
  by (simp add: voting_distinct)

text \<open>C9: the whole of \<open>evaluate\<close>, as a specification over sets.  Only the decisions that count are
  weighed, each approver has one voice, a terminal rejection comes before any approval, approval needs
  the threshold and every required role, and without it the request is pending until its window
  closes.\<close>

theorem evaluate_spec:
  assumes "evaluate R request decisions policy identities at_time = Inr res"
    and "weighs R request decisions policy identities deadline cx cs" "parse_rfc3339 at_time = Inr now"
  shows "p_status res =
    (if reject_is_terminal policy \<and> rejecting cs \<noteq> {} then u ''rejected''
     else if threshold policy \<le> int (card (approving cs)) \<and>
        (\<forall>r\<in>set (require_distinct_roles policy). \<exists>a\<in>approving cs. holds_role identities r a)
     then u ''approved''
     else if dt_less deadline now = Inr True then u ''expired'' else u ''pending'') \<and>
    set (p_satisfied_by res) = (if p_status res = u ''rejected'' then rejecting cs else approving cs) \<and>
    sorted (p_satisfied_by res) \<and> distinct (p_satisfied_by res)"
proof -
  obtain now' dl cx' cs' reasons where e: "parse_rfc3339 at_time = Inr now'"
    "weighs R request decisions policy identities dl cx' cs'"
    "conclude R request policy identities now' dl reasons (latest cs') = Inr res"
    by (rule evaluate_Inr [OF assms(1)])
  have same: "now' = now" "dl = deadline" "cs' = cs"
    using e assms(2,3) unfolding weighs_def by auto
  have rej: "voting ''reject'' (latest cs) \<noteq> [] \<longleftrightarrow> rejecting cs \<noteq> {}"
    by (simp flip: set_voting)
  from conclude_cases [OF e(3)[unfolded same]] show ?thesis
    unfolding rej card_approving roles_approving
  proof (elim disjE conjE)
    assume "reject_is_terminal policy" "rejecting cs \<noteq> {}" "p_status res = u ''rejected''"
      "p_satisfied_by res = sort (voting ''reject'' (latest cs))"
    then show ?thesis using sort_voting [of "''reject''" cs] by (simp add: set_voting)
  next
    assume a: "\<not> (reject_is_terminal policy \<and> rejecting cs \<noteq> {})"
      "p_satisfied_by res = sort (voting ''approve'' (latest cs))"
      "if threshold policy \<le> int (card (approving cs)) \<and>
          (\<forall>r\<in>set (require_distinct_roles policy). \<exists>a\<in>approving cs. holds_role identities r a)
       then p_status res = u ''approved''
       else \<exists>closed. dt_less deadline now = Inr closed \<and>
              p_status res = (if closed then u ''expired'' else u ''pending'')"
    then have "p_status res \<noteq> u ''rejected''" by (auto split: if_splits)
    with a show ?thesis using sort_voting [of "''approve''" cs] by (auto simp: set_voting split: if_splits)
  qed
qed

text \<open>decisions that do not count (bound to another body, by someone not allowed, by the requester
  under separation of duties, or late) change neither the status nor the approvers.\<close>

theorem ignored_decisions_do_not_matter:
  assumes "evaluate R request decisions policy identities at_time = Inr res"
    and "weighs R request decisions policy identities deadline cx cs"
  shows "cs = filter (counted request policy identities cx deadline) decisions \<and>
    (\<exists>res'. evaluate R request cs policy identities at_time = Inr res' \<and>
      p_status res' = p_status res \<and> p_satisfied_by res' = p_satisfied_by res)"
  using evaluate_only_counted [OF assms] assms(2) by (simp add: weighs_def)

text \<open>A stamp the server writes: the instant it stands for, in milliseconds.\<close>

definition server_stamp :: "runtime \<Rightarrow> pstr \<Rightarrow> int \<Rightarrow> bool" where
  "server_stamp R s ms \<longleftrightarrow>
     (\<exists>x off. to_rfc3339 R x = Inr s \<and> utcoff x = Some off \<and> year1000 x \<and> ms = (local_us x - off) div 1000)"

lemma server_stamp_order:
  "server_stamp R s a \<Longrightarrow> server_stamp R s' b \<Longrightarrow> s \<le> s' \<longleftrightarrow> a \<le> b"
  using to_rfc3339_order unfolding server_stamp_def by (metis linorder_not_le)

text \<open>C21: one voice.  When the decisions carry timestamps the server wrote, the decision of an approver
  that stands is one no later decision by that approver contradicts.\<close>

theorem latest_decision_stands:
  assumes "\<forall>d\<in>set cs. server_stamp R (stamp_of d) (ms d)" "stands cs v a"
  shows "\<exists>d\<in>set cs. voice_of d = a \<and> d_verdict d = lit v \<and> (\<forall>d'\<in>set cs. voice_of d' = a \<longrightarrow> ms d' \<le> ms d)"
proof -
  obtain d where d: "map_of (latest cs) a = Some d" "d_verdict d = lit v"
    using assms(2) by (auto simp: stands_def)
  have "ms d' \<le> ms d" if "d' \<in> set cs" "voice_of d' = a" for d'
    using latest_Some [OF d(1)] assms(1) that server_stamp_order by blast
  then show ?thesis using latest_Some [OF d(1)] d(2) by blast
qed

definition offset_decision :: "string \<Rightarrow> string \<Rightarrow> Decision" where
  "offset_decision verdict t =
     \<lparr>d_request_id = lit ''r'', d_context_digest = lit ''c'', d_verdict = lit verdict, d_approver_id = lit ''al'',
      d_decided_at = lit t, d_comment = lit '''', d_idempotency_key = lit '''', d_authn = PNone,
      d_schema = DECISION_SCHEMA\<rparr>"

text \<open>the order is that of the strings, so with another notation of the same kind of timestamp an
  earlier decision can stand against a later one: here the rejection was made two hours after the
  approval, and the approval stands.\<close>

theorem later_decision_can_lose:
  "let approve = offset_decision ''approve'' ''2025-01-01T12:00:00+05:00'';
       reject = offset_decision ''reject'' ''2025-01-01T09:00:00+00:00''
   in sbind (parse_rfc3339 (d_decided_at approve)) (\<lambda>t.
        sbind (parse_rfc3339 (d_decided_at reject)) (\<lambda>t'. dt_less t t')) = Inr True \<and>
      stands [approve, reject] ''approve'' (u ''al'') \<and> \<not> stands [approve, reject] ''reject'' (u ''al'')"
  by (simp add: Let_def offset_decision_def time_eval stands_def latest_def by_time_def dt_less_def dt_cmp_def)

lemma norm_strs: "norm (strs xs) = strs xs"
  by (induction xs) (simp_all add: strs_def)

text \<open>a digest pins a policy.  Two policies with the same digest are the same policy, up to the form
  of the schema tag, unless their canonical encodings collide.\<close>

theorem policy_digest_pins:
  assumes "policy_digest p = Inr h" "policy_digest q = Inr h"
  shows "p = q\<lparr>pol_schema := pol_schema p\<rparr> \<and> norm (pol_schema p) = norm (pol_schema q) \<or>
    collision (cbytes (Policy_to_dict p)) (cbytes (Policy_to_dict q))"
proof -
  have "norm (Policy_to_dict p) = norm (Policy_to_dict q) \<or>
      collision (cbytes (Policy_to_dict p)) (cbytes (Policy_to_dict q))"
    using canonical_hash_norm assms unfolding policy_digest_def by blast
  moreover have "p = q\<lparr>pol_schema := pol_schema p\<rparr> \<and> norm (pol_schema p) = norm (pol_schema q)"
    if n: "norm (Policy_to_dict p) = norm (Policy_to_dict q)"
  proof -
    have inj: "strs xs = strs ys \<Longrightarrow> xs = ys" for xs ys
      by (metis str_list_strs sum.inject(2))
    note f = norm_dict_fields [OF n [unfolded Policy_to_dict_def]]
    show ?thesis
      using f [of "lit ''id''"] f [of "lit ''kind''"] f [of "lit ''allowed_approvers''"] f [of "lit ''threshold''"]
        f [of "lit ''require_distinct_roles''"] f [of "lit ''separation_of_duties''"]
        f [of "lit ''reject_is_terminal''"] f [of "lit ''max_age_seconds''"]
        f [of "lit ''required_subject_fields''"] f [of "lit ''schema''"]
      by (simp add: norm_strs) (intro Policy.equality; simp add: inj)
  qed
  ultimately show ?thesis by blast
qed

definition example_policy :: Policy where
  "example_policy = \<lparr>pol_id = u ''p'', pol_kind = u ''deploy'', allowed_approvers = [u ''al'', u ''role:sre''], threshold = 1,
     require_distinct_roles = [], separation_of_duties = True, reject_is_terminal = True,
     max_age_seconds = 604800, required_subject_fields = [u ''v''], pol_schema = POLICY_SCHEMA\<rparr>"

lemma policy_digest_pins_witness:
  "\<exists>h. policy_digest example_policy = Inr h \<and>
     (example_policy = example_policy\<lparr>pol_schema := POLICY_SCHEMA\<rparr> \<or>
      collision (cbytes (Policy_to_dict example_policy)) (cbytes (Policy_to_dict example_policy)))"
proof -
  obtain h where h: "policy_digest example_policy = Inr h"
    by (simp add: policy_digest_def canonical_hash_Inr Policy_to_dict_def example_policy_def strs_def canonical_eval)
  from policy_digest_pins [OF h h] h show ?thesis by (simp add: example_policy_def)
qed

text \<open>A request that asks for one approval, with one given in time and one by a stranger.\<close>

definition asked :: ApprovalRequest where
  "asked = example_request\<lparr>r_requested_by := lit ''zed''\<rparr>"

definition vote_by :: "string \<Rightarrow> string \<Rightarrow> pstr \<Rightarrow> Decision" where
  "vote_by who verdict cx = (offset_decision verdict ''2025-01-01T12:00:00Z'')
     \<lparr>d_approver_id := lit who, d_context_digest := PStr cx\<rparr>"

lemma asked_deadline: "deadline_of asked example_policy = Inr \<lparr>local_us = 63871372800000000, utcoff = Some 0\<rparr>"
  by (simp add: deadline_of_def asked_def example_request_def example_policy_def time_eval dt_add_def dt_min_def
      dt_less_def dt_cmp_def MAX_US_def)

lemma asked_digest: "\<exists>cx. context_digest asked = Inr cx"
  by (simp add: asked_def context_digest_def canonical_hash_Inr example_request_def context_dict_def
      identity_items_def canonical_eval)

lemma asked_evaluates:
  assumes "context_digest asked = Inr cx"
  shows "weighs utc_runtime asked [vote_by ''al'' ''approve'' cx, vote_by ''eve'' ''reject'' cx] example_policy []
      \<lparr>local_us = 63871372800000000, utcoff = Some 0\<rparr> cx [vote_by ''al'' ''approve'' cx]"
    and "\<exists>res. evaluate utc_runtime asked [vote_by ''al'' ''approve'' cx, vote_by ''eve'' ''reject'' cx] example_policy []
      (lit ''2025-01-01T13:00:00Z'') = Inr res"
proof -
  have t: "parse_rfc3339 (lit ''2025-01-01T12:00:00Z'') = Inr \<lparr>local_us = 63871329600000000, utcoff = Some 0\<rparr>"
    "parse_rfc3339 (lit ''2025-01-01T13:00:00Z'') = Inr \<lparr>local_us = 63871333200000000, utcoff = Some 0\<rparr>"
    by (simp_all add: time_eval)
  have al: "allowed example_policy [] (u ''al'')" "\<not> allowed example_policy [] (u ''eve'')"
    by (simp_all add: allowed_def example_policy_def)
  have el: "eligible (lit ''al'') example_policy [] = Inr True" "eligible (lit ''eve'') example_policy [] = Inr False"
    by (simp_all add: eligible_def example_policy_def identities_get_def)
  show "weighs utc_runtime asked [vote_by ''al'' ''approve'' cx, vote_by ''eve'' ''reject'' cx] example_policy []
      \<lparr>local_us = 63871372800000000, utcoff = Some 0\<rparr> cx [vote_by ''al'' ''approve'' cx]"
    using t al assms asked_deadline
    by (simp add: weighs_def counted_def vote_by_def offset_decision_def asked_def
        example_request_def dt_less_def dt_cmp_def del: parse_rfc3339.simps)
  have pol: "separation_of_duties example_policy" "threshold example_policy = 1" "require_distinct_roles example_policy = []"
    by (simp_all add: example_policy_def)
  let ?dl = "\<lparr>local_us = 63871372800000000, utcoff = Some 0\<rparr>"
  have o1: "objection utc_runtime asked example_policy [] cx ?dl (vote_by ''al'' ''approve'' cx) = Inr None"
    using t el by (simp add: objection_def vote_by_def offset_decision_def dt_less_def dt_cmp_def asked_def
        example_request_def del: parse_rfc3339.simps)
  obtain why where o2: "objection utc_runtime asked example_policy [] cx ?dl (vote_by ''eve'' ''reject'' cx) = Inr (Some why)"
    using t el by (simp add: objection_def vote_by_def offset_decision_def)
  show "\<exists>res. evaluate utc_runtime asked [vote_by ''al'' ''approve'' cx, vote_by ''eve'' ''reject'' cx] example_policy []
      (lit ''2025-01-01T13:00:00Z'') = Inr res"
    using t(2) assms o1 o2
    by (simp add: evaluate_def asked_deadline del: parse_rfc3339.simps)
      (simp add: conclude_def Let_def latest_def by_time_def voting_def vote_by_def offset_decision_def pol
        roles_satisfied_def)
qed

lemma evaluate_spec_witness:
  "\<exists>cx res. evaluate utc_runtime asked [vote_by ''al'' ''approve'' cx, vote_by ''eve'' ''reject'' cx] example_policy []
      (lit ''2025-01-01T13:00:00Z'') = Inr res \<and> p_status res = u ''approved''"
proof -
  obtain cx where cx: "context_digest asked = Inr cx" using asked_digest by blast
  obtain res where res: "evaluate utc_runtime asked [vote_by ''al'' ''approve'' cx, vote_by ''eve'' ''reject'' cx]
      example_policy [] (lit ''2025-01-01T13:00:00Z'') = Inr res"
    using asked_evaluates(2) [OF cx] by blast
  have t: "parse_rfc3339 (lit ''2025-01-01T13:00:00Z'') = Inr \<lparr>local_us = 63871333200000000, utcoff = Some 0\<rparr>"
    by (simp add: time_eval)
  have sets: "approving [vote_by ''al'' ''approve'' cx] = {u ''al''}" "rejecting [vote_by ''al'' ''approve'' cx] = {}"
    by (auto simp: approving_def rejecting_def stands_def latest_def by_time_def vote_by_def offset_decision_def)
  show ?thesis
    using evaluate_spec [OF res asked_evaluates(1) [OF cx] t] res by (auto simp: sets example_policy_def)
qed

lemma ignored_decisions_do_not_matter_witness:
  "\<exists>cx res. evaluate utc_runtime asked [vote_by ''al'' ''approve'' cx] example_policy []
      (lit ''2025-01-01T13:00:00Z'') = Inr res"
proof -
  obtain cx where cx: "context_digest asked = Inr cx" using asked_digest by blast
  obtain res where res: "evaluate utc_runtime asked [vote_by ''al'' ''approve'' cx, vote_by ''eve'' ''reject'' cx]
      example_policy [] (lit ''2025-01-01T13:00:00Z'') = Inr res"
    using asked_evaluates(2) [OF cx] by blast
  show ?thesis using ignored_decisions_do_not_matter [OF res asked_evaluates(1) [OF cx]] by blast
qed

lemma latest_decision_stands_witness:
  "\<exists>s. to_rfc3339 utc_runtime epoch = Inr s \<and>
     (\<exists>d\<in>{(vote_by ''al'' ''approve'' [])\<lparr>d_decided_at := PStr s\<rparr>}. voice_of d = u ''al'' \<and> d_verdict d = lit ''approve'')"
proof -
  obtain s where s: "to_rfc3339 utc_runtime epoch = Inr s" using epoch_ok(2) by blast
  let ?d = "(vote_by ''al'' ''approve'' [])\<lparr>d_decided_at := PStr s\<rparr>"
  have a: "\<forall>d\<in>set [?d]. server_stamp utc_runtime (stamp_of d) ((\<lambda>d. local_us epoch div 1000) d)"
    using s epoch_ok(1) by (auto simp: server_stamp_def stamp_of_def epoch_def)
  have b: "stands [?d] ''approve'' (u ''al'')"
    by (simp add: stands_def latest_def by_time_def vote_by_def offset_decision_def)
  show ?thesis using latest_decision_stands [OF a b] s by auto
qed

end

