(* ===== verification/Projection.thy ===== *)
theory Projection
  imports Policy
begin

section \<open>Building views from records\<close>

text \<open>
  \<^verbatim>\<open>src/approvo/projection.py\<close>: a view is a rendering of a record.  \<open>eligible_approvers_iff\<close>
  ties the list shown to users to the eligibility rule of the engine, \<open>build_view_pending\<close> says
  whom a pending request waits for.
\<close>

definition eligible_identity :: "ApprovalRequest \<Rightarrow> Policy \<Rightarrow> Identity \<Rightarrow> bool" where
  "eligible_identity request policy i \<longleftrightarrow>
     \<not> (separation_of_duties policy \<and> PStr (i_id i) = r_requested_by request) \<and>
     (i_id i \<in> set (allowed_approvers policy) \<or>
      list_ex (\<lambda>r. role_ref r \<in> set (allowed_approvers policy)) (i_roles i))"

definition eligible_approvers :: "ApprovalRequest \<Rightarrow> Policy \<Rightarrow> Identities \<Rightarrow> pstr list" where
  "eligible_approvers request policy identities =
     sort (map i_id (filter (eligible_identity request policy) (map snd identities)))"

text \<open>\<open>{d.approver_id for d in record.decisions}\<close>\<close>

definition decided_set :: "Decision list \<Rightarrow> exn + pyval list" where
  "decided_set ds = smap (\<lambda>d. if hashable (d_approver_id d) then Inr (d_approver_id d) else Inl TypeError) ds"

definition build_view :: "Record \<Rightarrow> Policy \<Rightarrow> Identities \<Rightarrow> int \<Rightarrow> pyval \<Rightarrow> exn + RequestView" where
  "build_view record policy identities last_seq updated_at =
     (let request = rec_request record in
      sbind (decided_set (rec_decisions record)) (\<lambda>decided.
      sbind (request_id request) (\<lambda>rid.
      Inr \<lparr>v_request_id = rid, v_kind = r_kind request, v_status = rec_status record,
           v_requested_by = r_requested_by request, v_policy_id = r_policy_id request,
           v_subject = r_subject request, v_created_at = r_created_at request,
           v_not_valid_after = r_not_valid_after request, v_updated_at = updated_at,
           v_approvals = (if rec_status record \<noteq> u ''rejected''
                          then int (length (p_satisfied_by (rec_policy_result record))) else 0),
           v_threshold = threshold policy,
           v_approvers = p_satisfied_by (rec_policy_result record),
           v_pending_for = (if rec_status record = u ''pending''
             then filter (\<lambda>a. PStr a \<notin> set decided) (eligible_approvers request policy identities) else []),
           v_last_seq = last_seq\<rparr>)))"

subsection \<open>Who may still decide\<close>

text \<open>The roster is keyed by the identities' own ids.\<close>

definition wf_identities :: "Identities \<Rightarrow> bool" where
  "wf_identities ids \<longleftrightarrow> distinct (map fst ids) \<and> (\<forall>(k, i) \<in> set ids. i_id i = k)"

lemma eligible_approvers_iff:
  assumes "wf_identities identities"
  shows "a \<in> set (eligible_approvers request policy identities) \<longleftrightarrow>
    map_of identities a \<noteq> None \<and> allowed policy identities a \<and>
    \<not> (separation_of_duties policy \<and> PStr a = r_requested_by request)"
proof -
  have m: "map_of identities a = Some i \<longleftrightarrow> (a, i) \<in> set identities" for i
    using assms by (auto simp: wf_identities_def)
  have k: "(b, i) \<in> set identities \<Longrightarrow> i_id i = b" for b i
    using assms by (auto simp: wf_identities_def)
  have "a \<in> set (eligible_approvers request policy identities) \<longleftrightarrow>
      (\<exists>i. (a, i) \<in> set identities \<and> eligible_identity request policy i)"
  proof
    assume "a \<in> set (eligible_approvers request policy identities)"
    then obtain b i where "(b, i) \<in> set identities" "eligible_identity request policy i" "a = i_id i"
      by (auto simp: eligible_approvers_def)
    then show "\<exists>i. (a, i) \<in> set identities \<and> eligible_identity request policy i"
      using k by blast
  next
    assume "\<exists>i. (a, i) \<in> set identities \<and> eligible_identity request policy i"
    then obtain i where i: "(a, i) \<in> set identities" "eligible_identity request policy i" by blast
    then have "i \<in> snd ` set identities" by force
    with i(2) have "i_id i \<in> set (eligible_approvers request policy identities)"
      by (simp add: eligible_approvers_def)
    then show "a \<in> set (eligible_approvers request policy identities)" using k [OF i(1)] by simp
  qed
  also have "\<dots> \<longleftrightarrow> (\<exists>i. map_of identities a = Some i \<and> eligible_identity request policy i)"
    by (simp only: m)
  also have "\<dots> \<longleftrightarrow> (\<exists>i. map_of identities a = Some i \<and>
      \<not> (separation_of_duties policy \<and> PStr a = r_requested_by request) \<and> allowed policy identities a)"
    using k by (auto simp: eligible_identity_def allowed_def list_ex_iff m)
  finally show ?thesis by auto
qed

lemma eligible_approvers_distinct:
  assumes "wf_identities identities"
  shows "distinct (eligible_approvers request policy identities)"
proof -
  have "map i_id (map snd identities) = map fst identities"
    using assms unfolding wf_identities_def map_map by (intro map_cong) auto
  then have "distinct (map i_id (map snd identities))"
    using assms unfolding wf_identities_def by metis
  moreover have "distinct (map f xs) \<Longrightarrow> distinct (map f (filter P xs))"
    for f :: "Identity \<Rightarrow> pstr" and P xs
    by (induction xs) auto
  ultimately show ?thesis by (simp add: eligible_approvers_def)
qed

lemma decided_set_Inr: "decided_set ds = Inr as \<Longrightarrow> as = map d_approver_id ds"
  by (induction ds arbitrary: as) (auto simp: decided_set_def bind_simps split: if_splits)

lemma build_view_pending:
  assumes "build_view record policy identities n t = Inr v" "wf_identities identities"
  shows "a \<in> set (v_pending_for v) \<longleftrightarrow>
    rec_status record = u ''pending'' \<and> map_of identities a \<noteq> None \<and> allowed policy identities a \<and>
    \<not> (separation_of_duties policy \<and> PStr a = r_requested_by (rec_request record)) \<and>
    (\<forall>d\<in>set (rec_decisions record). d_approver_id d \<noteq> PStr a)"
proof -
  obtain decided where "decided_set (rec_decisions record) = Inr decided" and
    v: "v_pending_for v = (if rec_status record = u ''pending'' then filter (\<lambda>a. PStr a \<notin> set decided)
      (eligible_approvers (rec_request record) policy identities) else [])"
    using assms(1) by (auto simp: build_view_def Let_def bind_simps)
  then have "set decided = d_approver_id ` set (rec_decisions record)" by (auto dest: decided_set_Inr)
  then show ?thesis using v by (auto simp: eligible_approvers_iff [OF assms(2)] image_iff)
qed

lemma build_view_fields:
  assumes "build_view record policy identities n t = Inr v"
  shows "request_id (rec_request record) = Inr (v_request_id v)"
    "v_status v = rec_status record" "v_last_seq v = n" "v_updated_at v = t"
    "v_approvers v = p_satisfied_by (rec_policy_result record)" "v_threshold v = threshold policy"
  using assms by (auto simp: build_view_def Let_def bind_simps)

text \<open>Whoever a request waits for can still cast a vote that counts.\<close>

lemma pending_can_vote:
  assumes "build_view record policy identities n t = Inr v" "wf_identities identities"
    and "a \<in> set (v_pending_for v)" "d_approver_id d = PStr a" "d_context_digest d = PStr cx"
    and "parse_rfc3339 (d_decided_at d) = Inr dt" "dt_less deadline dt = Inr False"
  shows "counted (rec_request record) policy identities cx deadline d"
  using build_view_pending [OF assms(1,2), of a] assms(3-7) by (simp add: counted_def)

subsection \<open>Properties\<close>

text \<open>a view renders its record.  It carries the record's id, status, approvers and sequence number,
  and it lists as pending exactly the members of the roster who are allowed to approve, are not barred
  by separation of duties and have not decided.\<close>

theorem view_renders_record:
  assumes "build_view record policy identities n t = Inr v" "wf_identities identities"
  shows "request_id (rec_request record) = Inr (v_request_id v) \<and> v_status v = rec_status record \<and>
    v_approvers v = p_satisfied_by (rec_policy_result record) \<and> v_last_seq v = n \<and>
    (\<forall>a. a \<in> set (v_pending_for v) \<longleftrightarrow>
       rec_status record = u ''pending'' \<and> map_of identities a \<noteq> None \<and> allowed policy identities a \<and>
       \<not> (separation_of_duties policy \<and> PStr a = r_requested_by (rec_request record)) \<and>
       (\<forall>d\<in>set (rec_decisions record). d_approver_id d \<noteq> PStr a))"
  using build_view_fields [OF assms(1)] build_view_pending [OF assms] by simp

text \<open>whoever a view lists as pending can still cast a vote the engine counts.\<close>

theorem pending_vote_counts:
  assumes "build_view record policy identities n t = Inr v" "wf_identities identities"
    and "a \<in> set (v_pending_for v)" "d_approver_id d = PStr a" "d_context_digest d = PStr cx"
    and "parse_rfc3339 (d_decided_at d) = Inr dt" "dt_less deadline dt = Inr False"
  shows "objection R (rec_request record) policy identities cx deadline d = Inr None"
  using pending_can_vote [OF assms] by (simp add: objection_None)

definition example_roster :: Identities where
  "example_roster = [(u ''al'', \<lparr>i_id = u ''al'', i_roles = []\<rparr>), (u ''bo'', \<lparr>i_id = u ''bo'', i_roles = [u ''sre'']\<rparr>)]"

definition pending_record :: Record where
  "pending_record = \<lparr>rec_request = asked, rec_decisions = [], rec_status = u ''pending'',
     rec_policy_result = \<lparr>p_status = u ''pending'', p_satisfied_by = [], p_reasons = []\<rparr>\<rparr>"

lemma pending_view: "\<exists>v. build_view pending_record example_policy example_roster 0 PNone = Inr v"
  by (simp add: build_view_def pending_record_def decided_set_def Let_def asked_def request_id_def canonical_hash_Inr
      example_request_def identity_dict_def identity_items_def canonical_eval bind_simps)

lemma example_roster_wf: "wf_identities example_roster"
  by (simp add: wf_identities_def example_roster_def)

lemma bo_pending:
  "build_view pending_record example_policy example_roster 0 PNone = Inr v \<Longrightarrow> u ''bo'' \<in> set (v_pending_for v)"
  by (simp add: build_view_pending [OF _ example_roster_wf])
    (simp add: pending_record_def example_roster_def allowed_def role_ref_def example_policy_def asked_def u_def)

lemma view_renders_record_witness:
  "\<exists>v. build_view pending_record example_policy example_roster 0 PNone = Inr v \<and> v_status v = u ''pending''"
proof -
  obtain v where v: "build_view pending_record example_policy example_roster 0 PNone = Inr v" using pending_view by blast
  show ?thesis using view_renders_record [OF v example_roster_wf] v by (simp add: pending_record_def)
qed

lemma pending_vote_counts_witness:
  "objection utc_runtime asked example_policy example_roster [] \<lparr>local_us = 63871372800000000, utcoff = Some 0\<rparr>
     (vote_by ''bo'' ''approve'' []) = Inr None"
proof -
  obtain v where v: "build_view pending_record example_policy example_roster 0 PNone = Inr v" using pending_view by blast
  have t: "parse_rfc3339 (d_decided_at (vote_by ''bo'' ''approve'' [])) =
      Inr \<lparr>local_us = 63871329600000000, utcoff = Some 0\<rparr>"
    by (simp add: time_eval vote_by_def offset_decision_def)
  have late: "dt_less \<lparr>local_us = 63871372800000000, utcoff = Some 0\<rparr>
      \<lparr>local_us = 63871329600000000, utcoff = Some 0\<rparr> = Inr False"
    by (simp add: dt_less_def dt_cmp_def)
  show ?thesis
    using pending_vote_counts [OF v example_roster_wf bo_pending [OF v] _ _ t late, of "[]" utc_runtime]
    by (simp add: pending_record_def vote_by_def offset_decision_def)
qed

end

