(* ===== verification/Keys.thy ===== *)
theory Keys
  imports Canonical Clock
begin

section \<open>Signature schemes and the key directory\<close>

text \<open>
  \<^verbatim>\<open>src/approvo/crypto/algorithms.py\<close> and \<^verbatim>\<open>crypto/keys.py\<close>.  The primitives of the
  \<^verbatim>\<open>cryptography\<close> package are a parameter: \<open>'k\<close> is its public-key objects, \<open>'p\<close> its Ed25519
  private keys, and \<open>('k, 'p) crypto\<close> the operations the code calls on them, each of which may
  raise.  The registry, the choice of the pre-hash and the encodings are the code's own.
\<close>

subsection \<open>Schemes\<close>

datatype key_class = Ed25519Key | EcKey pstr | RsaKey | OtherKey

record ('k, 'p) crypto =
  ed_from_bytes :: "bytes \<Rightarrow> exn + 'k"
  ed_bytes_raw :: "'k \<Rightarrow> exn + bytes"
  ed_verify_sig :: "'k \<Rightarrow> bytes \<Rightarrow> bytes \<Rightarrow> exn + unit"
  load_der :: "bytes \<Rightarrow> exn + 'k"
  spki_der :: "'k \<Rightarrow> exn + bytes"
  ec_verify_digest :: "'k \<Rightarrow> bytes \<Rightarrow> bytes \<Rightarrow> pstr \<Rightarrow> exn + unit"
  pss_verify_sha256 :: "'k \<Rightarrow> bytes \<Rightarrow> bytes \<Rightarrow> exn + unit"
  pkcs1_verify_sha256 :: "'k \<Rightarrow> bytes \<Rightarrow> bytes \<Rightarrow> exn + unit"
  class_of :: "'k \<Rightarrow> key_class"
  priv_from_seed :: "bytes \<Rightarrow> exn + 'p"
  priv_sign :: "'p \<Rightarrow> bytes \<Rightarrow> bytes"
  priv_public_raw :: "'p \<Rightarrow> bytes"

record 'k scheme =
  s_name :: pstr
  s_public_raw :: "'k \<Rightarrow> exn + bytes"
  s_load_public :: "bytes \<Rightarrow> exn + 'k"
  s_verify :: "bytes \<Rightarrow> bytes \<Rightarrow> bytes \<Rightarrow> exn + unit"

definition ED25519 :: pstr where
  "ED25519 = u ''ed25519''"
definition ECDSA_P256_SHA256 :: pstr where
  "ECDSA_P256_SHA256 = u ''ecdsa-p256-sha256''"
definition ECDSA_P384_SHA384 :: pstr where
  "ECDSA_P384_SHA384 = u ''ecdsa-p384-sha384''"
definition RSA_PSS_SHA256 :: pstr where
  "RSA_PSS_SHA256 = u ''rsa-pss-sha256''"
definition RSA_PKCS1_SHA256 :: pstr where
  "RSA_PKCS1_SHA256 = u ''rsa-pkcs1-sha256''"

definition ed_verify :: "('k, 'p) crypto \<Rightarrow> bytes \<Rightarrow> bytes \<Rightarrow> bytes \<Rightarrow> exn + unit" where
  "ed_verify C raw sig msg = sbind (ed_from_bytes C raw) (\<lambda>k. ed_verify_sig C k sig msg)"

text \<open>\<open>hashlib.new(name, msg).digest()\<close> for the two hashes the registry names\<close>

definition hash_new :: "pstr \<Rightarrow> bytes \<Rightarrow> exn + bytes" where
  "hash_new name msg =
     (if name = u ''sha256'' then Inr (sha256 msg)
      else if name = u ''sha384'' then Inr (sha384 msg) else Inl ValueError)"

definition ec_verifier :: "('k, 'p) crypto \<Rightarrow> pstr \<Rightarrow> bytes \<Rightarrow> bytes \<Rightarrow> bytes \<Rightarrow> exn + unit" where
  "ec_verifier C hash_name raw sig msg =
     sbind (load_der C raw) (\<lambda>k.
     sbind (hash_new hash_name msg) (\<lambda>digest.
     ec_verify_digest C k sig digest hash_name))"

definition rsa_pss_verify :: "('k, 'p) crypto \<Rightarrow> bytes \<Rightarrow> bytes \<Rightarrow> bytes \<Rightarrow> exn + unit" where
  "rsa_pss_verify C raw sig msg = sbind (load_der C raw) (\<lambda>k. pss_verify_sha256 C k sig msg)"

definition rsa_pkcs1_verify :: "('k, 'p) crypto \<Rightarrow> bytes \<Rightarrow> bytes \<Rightarrow> bytes \<Rightarrow> exn + unit" where
  "rsa_pkcs1_verify C raw sig msg = sbind (load_der C raw) (\<lambda>k. pkcs1_verify_sha256 C k sig msg)"

type_synonym 'k registry = "(pstr \<times> 'k scheme) list"

definition default_registry :: "('k, 'p) crypto \<Rightarrow> 'k registry" where
  "default_registry C =
     [(ED25519, \<lparr>s_name = ED25519, s_public_raw = ed_bytes_raw C, s_load_public = ed_from_bytes C,
                 s_verify = ed_verify C\<rparr>),
      (ECDSA_P256_SHA256, \<lparr>s_name = ECDSA_P256_SHA256, s_public_raw = spki_der C,
                 s_load_public = load_der C, s_verify = ec_verifier C (u ''sha256'')\<rparr>),
      (ECDSA_P384_SHA384, \<lparr>s_name = ECDSA_P384_SHA384, s_public_raw = spki_der C,
                 s_load_public = load_der C, s_verify = ec_verifier C (u ''sha384'')\<rparr>),
      (RSA_PSS_SHA256, \<lparr>s_name = RSA_PSS_SHA256, s_public_raw = spki_der C,
                 s_load_public = load_der C, s_verify = rsa_pss_verify C\<rparr>),
      (RSA_PKCS1_SHA256, \<lparr>s_name = RSA_PKCS1_SHA256, s_public_raw = spki_der C,
                 s_load_public = load_der C, s_verify = rsa_pkcs1_verify C\<rparr>)]"

definition get_scheme :: "'k registry \<Rightarrow> pstr \<Rightarrow> exn + 'k scheme" where
  "get_scheme reg name = (case map_of reg name of None \<Rightarrow> Inl UnsupportedAlgorithmError | Some s \<Rightarrow> Inr s)"

definition register_scheme :: "'k scheme \<Rightarrow> 'k registry \<Rightarrow> 'k registry" where
  "register_scheme s reg = AList.update (s_name s) s reg"

definition known_schemes :: "'k registry \<Rightarrow> pstr list" where
  "known_schemes reg = sort (map fst reg)"

definition keyid_for :: "bytes \<Rightarrow> pstr" where
  "keyid_for public_raw = to_hex (sha256 public_raw)"

definition scheme_for_public_key :: "('k, 'p) crypto \<Rightarrow> 'k \<Rightarrow> pstr" where
  "scheme_for_public_key C key = (case class_of C key of
       Ed25519Key \<Rightarrow> ED25519
     | EcKey curve \<Rightarrow> (if curve = u ''secp256r1'' then ECDSA_P256_SHA256
                      else if curve = u ''secp384r1'' then ECDSA_P384_SHA384 else [])
     | RsaKey \<Rightarrow> RSA_PSS_SHA256
     | OtherKey \<Rightarrow> [])"

lemmas scheme_names = ED25519_def ECDSA_P256_SHA256_def ECDSA_P384_SHA384_def RSA_PSS_SHA256_def
  RSA_PKCS1_SHA256_def

text \<open>Each registered scheme verifies with the primitive and the hash its name says.\<close>

lemma default_registry_schemes:
  "get_scheme (default_registry C) name = Inr s \<longleftrightarrow>
     name = ED25519 \<and> s = \<lparr>s_name = ED25519, s_public_raw = ed_bytes_raw C, s_load_public = ed_from_bytes C, s_verify = ed_verify C\<rparr> \<or>
     name = ECDSA_P256_SHA256 \<and> s = \<lparr>s_name = ECDSA_P256_SHA256, s_public_raw = spki_der C, s_load_public = load_der C, s_verify = ec_verifier C (u ''sha256'')\<rparr> \<or>
     name = ECDSA_P384_SHA384 \<and> s = \<lparr>s_name = ECDSA_P384_SHA384, s_public_raw = spki_der C, s_load_public = load_der C, s_verify = ec_verifier C (u ''sha384'')\<rparr> \<or>
     name = RSA_PSS_SHA256 \<and> s = \<lparr>s_name = RSA_PSS_SHA256, s_public_raw = spki_der C, s_load_public = load_der C, s_verify = rsa_pss_verify C\<rparr> \<or>
     name = RSA_PKCS1_SHA256 \<and> s = \<lparr>s_name = RSA_PKCS1_SHA256, s_public_raw = spki_der C, s_load_public = load_der C, s_verify = rsa_pkcs1_verify C\<rparr>"
  by (auto simp: get_scheme_def default_registry_def scheme_names split: option.splits if_splits)

lemma get_scheme_register:
  "get_scheme (register_scheme s reg) name = (if name = s_name s then Inr s else get_scheme reg name)"
  by (auto simp: get_scheme_def register_scheme_def update_conv')

lemma keyid_for_inj: "keyid_for a = keyid_for c \<Longrightarrow> a = c \<or> collision a c"
  by (auto simp: keyid_for_def collision_def)

subsection \<open>Keys\<close>

record KeyRef =
  k_keyid :: pstr
  k_scheme :: pstr
  k_public :: pstr
  k_owner_id :: pstr
  k_not_before :: pstr
  k_not_after :: "pstr option"
  k_revoked_at :: "pstr option"
  k_key_use :: pstr
  k_log_ids :: "pstr list option"

definition valid_at :: "KeyRef \<Rightarrow> pyval \<Rightarrow> exn + bool" where
  "valid_at k at_time =
     sbind (parse_rfc3339 at_time) (\<lambda>t.
     sbind (sbind (fromisoformat (k_not_before k)) (dt_less t)) (\<lambda>early.
     if early then Inr False
     else sbind (case k_not_after k of None \<Rightarrow> Inr False
                 | Some na \<Rightarrow> sbind (fromisoformat na) (\<lambda>x. dt_less x t)) (\<lambda>late.
     if late then Inr False
     else sbind (case k_revoked_at k of None \<Rightarrow> Inr False
                 | Some ra \<Rightarrow> sbind (fromisoformat ra) (\<lambda>x. dt_le x t)) (\<lambda>revoked.
     Inr (\<not> revoked)))))"

definition scoped_to :: "KeyRef \<Rightarrow> pyval \<Rightarrow> bool" where
  "scoped_to k log_id = (case k_log_ids k of None \<Rightarrow> True | Some ids \<Rightarrow> log_id \<in> set (map PStr ids))"

definition public_bytes :: "KeyRef \<Rightarrow> exn + bytes" where
  "public_bytes k = from_hex (k_public k)"

definition load_public :: "'k registry \<Rightarrow> KeyRef \<Rightarrow> exn + 'k" where
  "load_public reg k =
     sbind (get_scheme reg (k_scheme k)) (\<lambda>s. sbind (public_bytes k) (s_load_public s))"

definition KeyRef_to_dict :: "KeyRef \<Rightarrow> pyval" where
  "KeyRef_to_dict k = PDict (items
     [(''keyid'', PStr (k_keyid k)), (''scheme'', PStr (k_scheme k)), (''public'', PStr (k_public k)),
      (''owner_id'', PStr (k_owner_id k)), (''not_before'', PStr (k_not_before k)),
      (''not_after'', of_opt (k_not_after k)), (''revoked_at'', of_opt (k_revoked_at k)),
      (''key_use'', PStr (k_key_use k)),
      (''log_ids'', case k_log_ids k of None \<Rightarrow> PNone | Some ids \<Rightarrow> strs ids)])"

definition KeyRef_from_dict :: "pyval \<Rightarrow> exn + KeyRef" where
  "KeyRef_from_dict d =
     sbind (getdef d ''log_ids'' PNone) (\<lambda>log_ids.
     sbind (sbind (subscr d ''keyid'') as_str) (\<lambda>keyid.
     sbind (sbind (getdef d ''scheme'' (PStr ED25519)) as_str) (\<lambda>scheme.
     sbind (sbind (subscr d ''public'') as_str) (\<lambda>public.
     sbind (sbind (subscr d ''owner_id'') as_str) (\<lambda>owner_id.
     sbind (sbind (subscr d ''not_before'') as_str) (\<lambda>not_before.
     sbind (sbind (getdef d ''not_after'' PNone) opt_str) (\<lambda>not_after.
     sbind (sbind (getdef d ''revoked_at'' PNone) opt_str) (\<lambda>revoked_at.
     sbind (sbind (getdef d ''key_use'' (lit ''approver'')) as_str) (\<lambda>key_use.
     sbind (case log_ids of PNone \<Rightarrow> Inr None | v \<Rightarrow> sbind (str_list v) (\<lambda>x. Inr (Some x))) (\<lambda>ids.
     Inr \<lparr>k_keyid = keyid, k_scheme = scheme, k_public = public, k_owner_id = owner_id,
          k_not_before = not_before, k_not_after = not_after, k_revoked_at = revoked_at,
          k_key_use = key_use, k_log_ids = ids\<rparr>))))))))))"

lemma KeyRef_roundtrip: "KeyRef_from_dict (KeyRef_to_dict k) = Inr k"
proof (cases "k_log_ids k")
  case (Some ids)
  have "str_list (PList (map PStr ids)) = Inr ids" using str_list_strs [of ids] by (simp add: strs_def)
  then show ?thesis using Some by (simp add: KeyRef_from_dict_def KeyRef_to_dict_def strs_def)
qed (simp add: KeyRef_from_dict_def KeyRef_to_dict_def)

text \<open>\<open>{**d, "k": v}\<close>\<close>

fun dict_with :: "pyval \<Rightarrow> string \<Rightarrow> pyval \<Rightarrow> pyval" where
  "dict_with (PDict kvs) k v = PDict (AList.update (lit k) v kvs)"
| "dict_with d k v = d"

lemma KeyRef_with_revoked:
  "KeyRef_from_dict (dict_with (KeyRef_to_dict k) ''revoked_at'' (PStr t)) = Inr (k\<lparr>k_revoked_at := Some t\<rparr>)"
proof -
  have "dict_with (KeyRef_to_dict k) ''revoked_at'' (PStr t) = KeyRef_to_dict (k\<lparr>k_revoked_at := Some t\<rparr>)"
    by (simp add: KeyRef_to_dict_def)
  then show ?thesis by (simp add: KeyRef_roundtrip)
qed

text \<open>Where every timestamp of the key has an offset, the window is the one documented.\<close>

definition instant :: "pstr \<Rightarrow> int option" where
  "instant s = (case fromisoformat s of
     Inr x \<Rightarrow> (case utcoff x of Some off \<Rightarrow> Some (local_us x - off) | None \<Rightarrow> None) | Inl _ \<Rightarrow> None)"

lemma instant_Some: "instant s = Some t \<longleftrightarrow>
    (\<exists>x off. fromisoformat s = Inr x \<and> utcoff x = Some off \<and> t = local_us x - off)"
  by (auto simp: instant_def split: sum.splits option.splits)

definition in_window :: "KeyRef \<Rightarrow> int \<Rightarrow> bool" where
  "in_window k t \<longleftrightarrow>
     (\<exists>nb. instant (k_not_before k) = Some nb \<and> nb \<le> t) \<and>
     (\<forall>s na. k_not_after k = Some s \<longrightarrow> instant s = Some na \<longrightarrow> t \<le> na) \<and>
     (\<forall>s ra. k_revoked_at k = Some s \<longrightarrow> instant s = Some ra \<longrightarrow> t < ra)"

definition timed :: "KeyRef \<Rightarrow> bool" where
  "timed k \<longleftrightarrow> instant (k_not_before k) \<noteq> None \<and>
     (case k_not_after k of None \<Rightarrow> True | Some s \<Rightarrow> instant s \<noteq> None) \<and>
     (case k_revoked_at k of None \<Rightarrow> True | Some s \<Rightarrow> instant s \<noteq> None)"

lemma dt_cmp_instants:
  "fromisoformat s = Inr x \<Longrightarrow> fromisoformat s' = Inr x' \<Longrightarrow> instant s = Some t \<Longrightarrow> instant s' = Some t' \<Longrightarrow>
     dt_less x x' = Inr (t < t') \<and> dt_le x x' = Inr (t \<le> t')"
  by (auto simp: instant_Some dt_less_def dt_le_def dt_cmp_def)

lemma valid_at_window:
  assumes "timed k" "instant s = Some t"
  shows "valid_at k (PStr s) = Inr (in_window k t)"
proof -
  obtain nb where nb: "instant (k_not_before k) = Some nb" using assms(1) by (auto simp: timed_def)
  then obtain xnb where xnb: "fromisoformat (k_not_before k) = Inr xnb" by (auto simp: instant_Some)
  obtain x where x: "fromisoformat s = Inr x" using assms(2) by (auto simp: instant_Some)
  have early: "dt_less x xnb = Inr (t < nb)" using dt_cmp_instants [OF x xnb assms(2) nb] by blast
  have late: "(case k_not_after k of None \<Rightarrow> Inr False | Some na \<Rightarrow> sbind (fromisoformat na) (\<lambda>y. dt_less y x)) =
      Inr (\<exists>s' na. k_not_after k = Some s' \<and> instant s' = Some na \<and> na < t)"
  proof (cases "k_not_after k")
    case (Some s')
    then obtain na where na: "instant s' = Some na" using assms(1) by (auto simp: timed_def)
    then obtain y where y: "fromisoformat s' = Inr y" by (auto simp: instant_Some)
    show ?thesis using dt_cmp_instants [OF y x na assms(2)] by (simp add: Some y na)
  qed simp
  have revoked: "(case k_revoked_at k of None \<Rightarrow> Inr False | Some ra \<Rightarrow> sbind (fromisoformat ra) (\<lambda>y. dt_le y x)) =
      Inr (\<exists>s' ra. k_revoked_at k = Some s' \<and> instant s' = Some ra \<and> ra \<le> t)"
  proof (cases "k_revoked_at k")
    case (Some s')
    then obtain ra where ra: "instant s' = Some ra" using assms(1) by (auto simp: timed_def)
    then obtain y where y: "fromisoformat s' = Inr y" by (auto simp: instant_Some)
    show ?thesis using dt_cmp_instants [OF y x ra assms(2)] by (simp add: Some y ra)
  qed simp
  show ?thesis
    by (auto simp: valid_at_def x xnb early late revoked in_window_def nb not_le not_less)
qed

subsection \<open>The directory\<close>

type_synonym KeyDirectory = "(pstr \<times> KeyRef) list"

definition kd_add :: "KeyRef \<Rightarrow> KeyDirectory \<Rightarrow> KeyDirectory" where
  "kd_add k kd = AList.update (k_keyid k) k kd"

definition kd_extend :: "KeyRef list \<Rightarrow> KeyDirectory \<Rightarrow> KeyDirectory" where
  "kd_extend ks kd = foldl (\<lambda>d k. AList.update (k_keyid k) k d) kd ks"

definition kd_init :: "KeyRef list \<Rightarrow> KeyDirectory" where
  "kd_init ks = kd_extend ks []"

definition kd_get :: "KeyDirectory \<Rightarrow> pyval \<Rightarrow> exn + KeyRef option" where
  "kd_get kd keyid = (case keyid of
       PStr s \<Rightarrow> Inr (map_of kd s)
     | v \<Rightarrow> if hashable v then Inr None else Inl TypeError)"

definition kd_revoke :: "pstr \<Rightarrow> pstr \<Rightarrow> KeyDirectory \<Rightarrow> exn + KeyDirectory" where
  "kd_revoke keyid revoked_at kd = (case map_of kd keyid of
       None \<Rightarrow> Inl KeyError
     | Some key \<Rightarrow> sbind (KeyRef_from_dict (dict_with (KeyRef_to_dict key) ''revoked_at'' (PStr revoked_at)))
                     (\<lambda>key'. Inr (AList.update keyid key' kd)))"

definition kd_all :: "KeyDirectory \<Rightarrow> KeyRef list" where
  "kd_all kd = map snd kd"

definition kd_by_use :: "pstr \<Rightarrow> KeyDirectory \<Rightarrow> KeyRef list" where
  "kd_by_use use kd = filter (\<lambda>k. k_key_use k = use) (kd_all kd)"

definition kd_to_dict :: "KeyDirectory \<Rightarrow> pyval" where
  "kd_to_dict kd = PDict (items [(''keys'', PList (map KeyRef_to_dict (kd_all kd)))])"

definition kd_from_dict :: "pyval \<Rightarrow> exn + KeyDirectory" where
  "kd_from_dict d =
     sbind (sbind (getdef d ''keys'' (PTuple [])) py_iter) (\<lambda>vs.
     sbind (smap KeyRef_from_dict vs) (\<lambda>ks. Inr (kd_init ks)))"

text \<open>Well-formed: each key is filed under its own id.\<close>

definition kd_wf :: "KeyDirectory \<Rightarrow> bool" where
  "kd_wf kd \<longleftrightarrow> distinct (map fst kd) \<and> list_all (\<lambda>(i, k). k_keyid k = i) kd"

lemma kd_wf_update: "kd_wf kd \<Longrightarrow> k_keyid k = i \<Longrightarrow> kd_wf (AList.update i k kd)"
proof -
  assume wf: "kd_wf kd" "k_keyid k = i"
  have "set (AList.update i k kd) \<subseteq> insert (i, k) (set kd)"
    by (induction kd) auto
  with wf show ?thesis by (auto simp: kd_wf_def list_all_iff distinct_update)
qed

lemma kd_wf_ops:
  "kd_wf kd \<Longrightarrow> kd_wf (kd_add k kd)"
  "kd_wf kd \<Longrightarrow> kd_wf (kd_extend ks kd)"
  "kd_wf (kd_init ks)"
  "kd_wf kd \<Longrightarrow> kd_revoke i t kd = Inr kd' \<Longrightarrow> kd_wf kd'"
  "kd_from_dict d = Inr kd' \<Longrightarrow> kd_wf kd'"
proof -
  show add: "kd_wf kd \<Longrightarrow> kd_wf (kd_add k kd)" for k kd
    by (simp add: kd_add_def kd_wf_update)
  show ext: "kd_wf kd \<Longrightarrow> kd_wf (kd_extend ks kd)" for ks kd
    by (induction ks arbitrary: kd) (simp_all add: kd_extend_def kd_wf_update)
  show init: "kd_wf (kd_init ks)" for ks
    using ext [of "[]" ks] by (simp add: kd_init_def) (simp add: kd_wf_def)
  show "kd_wf kd \<Longrightarrow> kd_revoke i t kd = Inr kd' \<Longrightarrow> kd_wf kd'"
    by (auto simp: kd_revoke_def KeyRef_with_revoked kd_wf_def list_all_iff split: option.splits
        dest!: map_of_SomeD intro!: kd_wf_update [unfolded kd_wf_def list_all_iff])
  show "kd_from_dict d = Inr kd' \<Longrightarrow> kd_wf kd'"
    by (auto simp: kd_from_dict_def bind_simps init)
qed

lemma kd_get_keyid: "kd_wf kd \<Longrightarrow> kd_get kd v = Inr (Some k) \<Longrightarrow> v = PStr (k_keyid k) \<and> k \<in> set (kd_all kd)"
  by (cases v) (auto simp: kd_get_def kd_wf_def list_all_iff kd_all_def dest!: map_of_SomeD split: if_splits
      intro: image_eqI [rotated])

lemma kd_wf_rebuild: "kd_wf kd \<Longrightarrow> kd_init (kd_all kd) = kd"
proof -
  have "kd_wf (d @ kd) \<Longrightarrow> foldl (\<lambda>d k. AList.update (k_keyid k) k d) d (kd_all kd) = d @ kd" for d
  proof (induction kd arbitrary: d)
    case (Cons x kd)
    obtain i k where x: "x = (i, k)" by fastforce
    with Cons.prems have "i \<notin> fst ` set d" "k_keyid k = i" "kd_wf ((d @ [(i, k)]) @ kd)"
      by (auto simp: kd_wf_def)
    with Cons.IH [of "d @ [(i, k)]"] show ?case
      by (simp add: x kd_all_def update_new)
  qed (simp add: kd_all_def)
  from this [of "[]"] show "kd_wf kd \<Longrightarrow> kd_init (kd_all kd) = kd"
    by (simp add: kd_init_def kd_extend_def)
qed

lemma kd_roundtrip: "kd_wf kd \<Longrightarrow> kd_from_dict (kd_to_dict kd) = Inr kd"
proof -
  have "smap KeyRef_from_dict (map KeyRef_to_dict ks) = Inr ks" for ks
    by (induction ks) (simp_all add: KeyRef_roundtrip)
  then show "kd_wf kd \<Longrightarrow> kd_from_dict (kd_to_dict kd) = Inr kd"
    by (simp add: kd_from_dict_def kd_to_dict_def kd_wf_rebuild)
qed

lemma kd_revoke_get:
  "kd_revoke i t kd = Inr kd' \<Longrightarrow>
     map_of kd' j = (if j = i then map_option (\<lambda>k. k\<lparr>k_revoked_at := Some t\<rparr>) (map_of kd i) else map_of kd j)"
  by (auto simp: kd_revoke_def KeyRef_with_revoked update_conv' split: option.splits)

subsection \<open>Properties\<close>

text \<open>the validity window.  With timestamps that carry an offset, a key is valid at an instant
  exactly when it is not before \<open>not_before\<close>, not after \<open>not_after\<close>, and strictly before
  \<open>revoked_at\<close>.\<close>

theorem key_validity_window:
  assumes "timed k" "instant s = Some t"
  shows "valid_at k (PStr s) = Inr (in_window k t)"
  using assms by (rule valid_at_window)

text \<open>C34: every operation of the directory keeps each key filed under its own id, once, and a directory
  written out and read back is the same directory, in the same order.\<close>

theorem directory_invariant:
  "kd_wf (kd_init ks) \<and>
   (kd_wf kd \<longrightarrow> kd_wf (kd_add k kd) \<and> kd_wf (kd_extend ks kd)) \<and>
   (kd_wf kd \<and> kd_revoke i t kd = Inr kd' \<longrightarrow> kd_wf kd') \<and>
   (kd_from_dict d = Inr kd' \<longrightarrow> kd_wf kd') \<and>
   (kd_wf kd \<longrightarrow> kd_from_dict (kd_to_dict kd) = Inr kd)"
  using kd_wf_ops kd_roundtrip by blast

text \<open>revocation.  A revoked key is not valid at or after the instant of revocation, whatever its
  window said, and no other key of the directory changes.\<close>

theorem revocation_effective:
  assumes "kd_revoke i r kd = Inr kd'" "map_of kd i = Some k" "timed k" "instant r = Some tr"
    and "instant s = Some t" "tr \<le> t"
  shows "\<exists>k'. map_of kd' i = Some k' \<and> valid_at k' (PStr s) = Inr False \<and>
    (\<forall>j. j \<noteq> i \<longrightarrow> map_of kd' j = map_of kd j)"
proof -
  let ?k = "k\<lparr>k_revoked_at := Some r\<rparr>"
  have "timed ?k" using assms(3,4) by (simp add: timed_def)
  then have "valid_at ?k (PStr s) = Inr (in_window ?k t)" using assms(5) by (rule valid_at_window)
  moreover have "\<not> in_window ?k t" using assms(4,6) by (auto simp: in_window_def)
  ultimately show ?thesis using kd_revoke_get [OF assms(1)] assms(2) by simp
qed

definition example_key :: KeyRef where
  "example_key = \<lparr>k_keyid = u ''id'', k_scheme = ED25519, k_public = u ''00'', k_owner_id = u ''al'',
     k_not_before = u ''2025-01-01T00:00:00Z'', k_not_after = None, k_revoked_at = None,
     k_key_use = u ''approver'', k_log_ids = None\<rparr>"


lemma example_instants:
  "instant (u ''2025-01-01T00:00:00Z'') = Some 63871286400000000"
  "instant (u ''2025-02-01T00:00:00Z'') = Some 63873964800000000"
  by (simp_all add: instant_def time_eval)

lemma key_validity_window_witness:
  "valid_at example_key (lit ''2025-02-01T00:00:00Z'') = Inr True"
  using key_validity_window [of example_key "u ''2025-02-01T00:00:00Z''" 63873964800000000] example_instants
  by (simp add: timed_def in_window_def example_key_def)

lemma directory_invariant_witness: "kd_from_dict (kd_to_dict (kd_init [example_key])) = Inr (kd_init [example_key])"
proof -
  have "kd_wf (kd_init [example_key])" using directory_invariant by blast
  then show ?thesis using directory_invariant [of _ "kd_init [example_key]"] by blast
qed

lemma revocation_effective_witness:
  "\<exists>kd' k'. kd_revoke (u ''id'') (u ''2025-01-01T00:00:00Z'') [(u ''id'', example_key)] = Inr kd' \<and>
     map_of kd' (u ''id'') = Some k' \<and> valid_at k' (lit ''2025-02-01T00:00:00Z'') = Inr False"
proof -
  obtain kd' where kd: "kd_revoke (u ''id'') (u ''2025-01-01T00:00:00Z'') [(u ''id'', example_key)] = Inr kd'"
    by (simp add: kd_revoke_def KeyRef_with_revoked)
  have t: "timed example_key" by (simp add: timed_def example_key_def example_instants)
  show ?thesis
    using revocation_effective [OF kd _ t example_instants, simplified] kd by blast
qed

end

