(* ===== verification/Envelope.thy ===== *)
theory Envelope
  imports Keys Models
begin

section \<open>Signers and DSSE envelopes\<close>

text \<open>
  \<^verbatim>\<open>src/approvo/crypto/signer.py\<close> and \<^verbatim>\<open>crypto/envelope.py\<close>.  A signer runs in a world
  \<open>'s\<close>, since a KMS signs over the network.  Two facts carry the security argument: the bytes
  signed determine payload type and payload (\<open>pae_inj\<close>), and an envelope the library makes
  decodes to the payload it was made from and its signed bytes are the ones the signers saw
  (\<open>envelope_of_unwrap\<close>, \<open>envelope_of_signable\<close>).
\<close>

subsection \<open>Signers\<close>

record PublicKeyMaterial =
  m_scheme :: pstr
  m_public :: bytes

definition m_keyid :: "PublicKeyMaterial \<Rightarrow> pstr" where
  "m_keyid m = keyid_for (m_public m)"

definition to_key_ref ::
  "PublicKeyMaterial \<Rightarrow> pstr \<Rightarrow> pstr \<Rightarrow> pstr option \<Rightarrow> pstr \<Rightarrow> pstr list option \<Rightarrow> KeyRef" where
  "to_key_ref m owner_id not_before not_after key_use log_ids =
     \<lparr>k_keyid = m_keyid m, k_scheme = m_scheme m, k_public = to_hex (m_public m), k_owner_id = owner_id,
      k_not_before = not_before, k_not_after = not_after, k_revoked_at = None, k_key_use = key_use,
      k_log_ids = log_ids\<rparr>"

record 's signer =
  sg_algorithm :: pstr
  sg_key_id :: "exn + pstr"
  sg_sign :: "bytes \<Rightarrow> ('s, exn, bytes) eff"
  sg_public_material :: PublicKeyMaterial

definition sign_with :: "'s signer \<Rightarrow> bytes \<Rightarrow> ('s, exn, bytes \<times> pstr) eff" where
  "sign_with sg data =
     mbind (sg_sign sg data) (\<lambda>sig. mbind (mlift (sg_key_id sg)) (\<lambda>kid. mret (sig, kid)))"

definition public_key_ref ::
  "'s signer \<Rightarrow> pstr \<Rightarrow> pstr \<Rightarrow> pstr option \<Rightarrow> pstr \<Rightarrow> pstr list option \<Rightarrow> KeyRef" where
  "public_key_ref sg = to_key_ref (sg_public_material sg)"

definition Ed25519Signer :: "('k, 'p) crypto \<Rightarrow> 'p \<Rightarrow> 's signer" where
  "Ed25519Signer C key =
     \<lparr>sg_algorithm = ED25519,
      sg_key_id = Inr (keyid_for (priv_public_raw C key)),
      sg_sign = (\<lambda>data. mret (priv_sign C key data)),
      sg_public_material = \<lparr>m_scheme = ED25519, m_public = priv_public_raw C key\<rparr>\<rparr>"

definition Ed25519Signer_from_private_bytes :: "('k, 'p) crypto \<Rightarrow> bytes \<Rightarrow> exn + 's signer" where
  "Ed25519Signer_from_private_bytes C seed = sbind (priv_from_seed C seed) (\<lambda>key. Inr (Ed25519Signer C key))"

lemma to_key_ref_simps [simp]:
  "k_keyid (to_key_ref m ow nb na us ids) = keyid_for (m_public m)"
  "k_scheme (to_key_ref m ow nb na us ids) = m_scheme m"
  "public_bytes (to_key_ref m ow nb na us ids) = Inr (m_public m)"
  by (simp_all add: to_key_ref_def m_keyid_def public_bytes_def)

subsection \<open>Pre-authentication encoding\<close>

definition dec_bytes :: "nat \<Rightarrow> bytes" where
  "dec_bytes n = to_bytes (nat_repr n)"

definition pae_bytes :: "nat \<Rightarrow> bytes \<Rightarrow> bytes \<Rightarrow> bytes" where
  "pae_bytes len_ty ty payload =
     join [32] [asc ''DSSEv1'', dec_bytes len_ty, ty, dec_bytes (length payload), payload]"

fun pae :: "pyval \<Rightarrow> bytes \<Rightarrow> exn + bytes" where
  "pae (PStr ty) payload = sbind (utf8_encode ty) (\<lambda>tb. Inr (pae_bytes (length ty) tb payload))"
| "pae (PList _) payload = Inl AttributeError"
| "pae (PTuple _) payload = Inl AttributeError"
| "pae (PDict _) payload = Inl AttributeError"
| "pae _ payload = Inl TypeError"

lemma dec_bytes_digits: "x \<in> set (dec_bytes n) \<Longrightarrow> x \<noteq> 32"
proof -
  assume "x \<in> set (dec_bytes n)"
  then obtain c where c: "c \<in> set (nat_repr n)" "x = word_of_nat c" by (auto simp: dec_bytes_def to_bytes_def)
  then have "48 \<le> c" "c \<le> 57" using nat_repr_digits by (auto simp: is_digit_def)
  then have "unat x = c" by (simp add: c(2) unat_byte)
  then show ?thesis using \<open>48 \<le> c\<close> by auto
qed

lemma dec_bytes_inj: "dec_bytes m = dec_bytes n \<longleftrightarrow> m = n"
proof -
  have "from_bytes (dec_bytes n) = nat_repr n" for n
    unfolding dec_bytes_def
    by (rule from_to_bytes) (use nat_repr_digits in \<open>fastforce simp: is_digit_def\<close>)
  then show ?thesis by (metis nat_repr_inj)
qed

lemma split_at_space:
  assumes "xs @ 32 # ys = us @ 32 # vs" "\<forall>x\<in>set xs. x \<noteq> (32 :: 8 word)" "\<forall>x\<in>set us. x \<noteq> 32"
  shows "xs = us \<and> ys = vs"
proof -
  have split: "takeWhile (\<lambda>x. x \<noteq> 32) (zs @ 32 # ws) = zs \<and> dropWhile (\<lambda>x. x \<noteq> 32) (zs @ 32 # ws) = 32 # ws"
    if "\<forall>x\<in>set zs. x \<noteq> (32 :: 8 word)" for zs ws
    by (rule takeWhile_append_stop) (use that in auto)
  let ?P = "\<lambda>x. x \<noteq> (32 :: 8 word)"
  have "takeWhile ?P (xs @ 32 # ys) = takeWhile ?P (us @ 32 # vs)"
    "dropWhile ?P (xs @ 32 # ys) = dropWhile ?P (us @ 32 # vs)"
    by (simp_all only: assms(1))
  then show ?thesis
    unfolding conjunct1 [OF split [OF assms(2)]] conjunct2 [OF split [OF assms(2)]]
      conjunct1 [OF split [OF assms(3)]] conjunct2 [OF split [OF assms(3)]] by blast
qed

text \<open>The encoding is injective: no payload type and payload are confused with another pair.\<close>

lemma pae_bytes_inj:
  assumes t: "utf8_encode s = Inr t" "utf8_encode s' = Inr t'"
    and eq: "pae_bytes (length s) t p = pae_bytes (length s') t' p'"
  shows "s = s' \<and> p = p'"
proof -
  have "dec_bytes (length s) @ 32 # t @ 32 # dec_bytes (length p) @ 32 # p =
      dec_bytes (length s') @ 32 # t' @ 32 # dec_bytes (length p') @ 32 # p'"
    using eq by (simp add: pae_bytes_def)
  then have len: "length s = length s'"
    and rest: "t @ 32 # dec_bytes (length p) @ 32 # p = t' @ 32 # dec_bytes (length p') @ 32 # p'"
    using split_at_space [of "dec_bytes (length s)" _ "dec_bytes (length s')"] dec_bytes_digits dec_bytes_inj
    by blast+
  have s: "s = s'" and tail: "32 # dec_bytes (length p) @ 32 # p = 32 # dec_bytes (length p') @ 32 # p'"
    using utf8_encode_prefix [OF t len rest] by blast+
  have "p = p'"
    using split_at_space [of "dec_bytes (length p)" p "dec_bytes (length p')" p'] dec_bytes_digits tail by auto
  with s show ?thesis by blast
qed

lemma pae_Inr: "pae ty p = Inr x \<longleftrightarrow> (\<exists>s t. ty = PStr s \<and> utf8_encode s = Inr t \<and> x = pae_bytes (length s) t p)"
  by (cases ty) (auto simp: bind_simps)

lemma pae_inj: "pae ty p = Inr x \<Longrightarrow> pae ty' p' = Inr x \<Longrightarrow> ty = ty' \<and> p = p'"
  unfolding pae_Inr using pae_bytes_inj by blast

subsection \<open>Envelopes\<close>

definition envelope_sig :: "pstr \<Rightarrow> bytes \<Rightarrow> pyval" where
  "envelope_sig keyid sig = PDict (items [(''keyid'', PStr keyid), (''sig'', PStr (b64encode sig))])"

definition envelope_of :: "pstr \<Rightarrow> bytes \<Rightarrow> pyval list \<Rightarrow> pyval" where
  "envelope_of payload_type body signatures = PDict (items
     [(''payloadType'', PStr payload_type), (''payload'', PStr (b64encode body)),
      (''signatures'', PList signatures)])"

definition wrap :: "pyval \<Rightarrow> pstr \<Rightarrow> 's signer list \<Rightarrow> ('s, exn, pyval) eff" where
  "wrap payload payload_type signers =
     mbind (mlift (canonical_bytes payload)) (\<lambda>body.
     mbind (mlift (pae (PStr payload_type) body)) (\<lambda>signable.
     mbind (mfor signers (\<lambda>s acc.
              mbind (mlift (sg_key_id s)) (\<lambda>kid.
              mbind (sg_sign s signable) (\<lambda>sig. mret (acc @ [envelope_sig kid sig])))) [])
       (\<lambda>signatures. mret (envelope_of payload_type body signatures))))"

definition wrap_async :: "pyval \<Rightarrow> pstr \<Rightarrow> 's signer list \<Rightarrow> ('s, exn, pyval) eff" where
  "wrap_async payload payload_type signers =
     mbind (mlift (canonical_bytes payload)) (\<lambda>body.
     mbind (mlift (pae (PStr payload_type) body)) (\<lambda>signable.
     mbind (mfor signers (\<lambda>s acc.
              mbind (sign_with s signable) (\<lambda>(sig, kid). mret (acc @ [envelope_sig kid sig]))) [])
       (\<lambda>signatures. mret (envelope_of payload_type body signatures))))"

definition unwrap_payload :: "pyval \<Rightarrow> exn + pyval" where
  "unwrap_payload envelope =
     sbind (subscr envelope ''payload'') (\<lambda>p. sbind (b64decode p) json_loads)"

definition signable_bytes :: "pyval \<Rightarrow> exn + bytes" where
  "signable_bytes envelope =
     sbind (subscr envelope ''payloadType'') (\<lambda>ty.
     sbind (subscr envelope ''payload'') (\<lambda>p.
     sbind (b64decode p) (\<lambda>body. pae ty body)))"

lemma envelope_of_subscr [simp]:
  "subscr (envelope_of ty body sigs) ''payloadType'' = Inr (PStr ty)"
  "subscr (envelope_of ty body sigs) ''payload'' = Inr (PStr (b64encode body))"
  "getdef (envelope_of ty body sigs) ''signatures'' d = Inr (PList sigs)"
  by (simp_all add: envelope_of_def)

lemma envelope_of_signable: "signable_bytes (envelope_of ty body sigs) = pae (PStr ty) body"
  by (simp add: signable_bytes_def)

lemma json_loads_canonical:
  "canonical_bytes v = Inr bs \<Longrightarrow> wf_val v \<Longrightarrow> json_loads bs = Inr (norm v)"
  using json_loads_dumps by (auto simp: canonical_bytes_Inr)

lemma envelope_of_unwrap:
  "canonical_bytes v = Inr body \<Longrightarrow> wf_val v \<Longrightarrow> unwrap_payload (envelope_of ty body sigs) = Inr (norm v)"
  by (simp add: unwrap_payload_def json_loads_canonical)

lemma wrap_async_shape:
  assumes "wrap_async v ty signers s = (Inr env, s')"
  obtains body x sigs where "canonical_bytes v = Inr body" "pae (PStr ty) body = Inr x"
    "env = envelope_of ty body sigs" "length sigs = length signers"
proof -
  obtain body x sigs where w: "canonical_bytes v = Inr body" "pae (PStr ty) body = Inr x"
    "env = envelope_of ty body sigs"
    and f: "mfor signers (\<lambda>s acc. mbind (sign_with s x) (\<lambda>(sig, kid). mret (acc @ [envelope_sig kid sig]))) [] s
        = (Inr sigs, s')"
    using assms unfolding wrap_async_def mbind_eq_Inr by (auto simp: run_simps)
  have "length ys = length xs + length ss" if
    "mfor ss (\<lambda>s acc. mbind (sign_with s x) (\<lambda>(sig, kid). mret (acc @ [envelope_sig kid sig]))) xs s
        = (Inr ys, s')" for ss xs ys s s'
    using that
    by (induction ss arbitrary: xs s) (fastforce simp: run_simps bind_simps)+
  then show ?thesis using that w f by fastforce
qed

lemma unwrap_errors:
  "unwrap_payload env = Inl e \<Longrightarrow> isinstance_any e [KeyError, ValueError, TypeError]"
  by (auto simp: unwrap_payload_def sbind_eq_Inl isinstance_any_def json_loads_def loads_text_def Let_def
      dest!: subscr_errors b64decode_errors split: option.splits prod.splits if_splits)

subsection \<open>Properties\<close>

text \<open>the bytes a signer signs determine the payload type and the payload: a signature can not be
  moved from one pair to another.\<close>

theorem pae_injective:
  assumes "pae ty p = Inr x" "pae ty' p' = Inr x"
  shows "ty = ty' \<and> p = p'"
  using assms by (rule pae_inj)

lemma pae_injective_witness: "\<exists>x. pae (PStr DECISION_PAYLOAD_TYPE) [1, 2] = Inr x \<and>
    pae (lit ''application/vnd.approvo.decision+json'') [1, 2] = Inr x \<and>
    PStr DECISION_PAYLOAD_TYPE = lit ''application/vnd.approvo.decision+json''"
proof -
  obtain x where x: "pae (PStr DECISION_PAYLOAD_TYPE) [1, 2] = Inr x"
    "pae (lit ''application/vnd.approvo.decision+json'') [1, 2] = Inr x"
    by (simp add: DECISION_PAYLOAD_TYPE_def canonical_eval)
  show ?thesis using pae_injective [OF x] x by blast
qed

end

