(* ===== verification/Verifier.thy ===== *)
theory Verifier
  imports Envelope
begin

section \<open>Envelope verification\<close>

text \<open>
  \<^verbatim>\<open>src/approvo/crypto/verifier.py\<close>.  \<open>counts\<close> says when one signature entry counts;
  \<open>verified_signatures_iff\<close> says the loop returns exactly the keys of the entries that count, each
  once, and \<open>decision_authorized_iff\<close> what the authorization rule comes to.
\<close>

record VerifiedSignature =
  vs_keyid :: pstr
  vs_owner_id :: pstr
  vs_key_use :: pstr

definition vs_of :: "KeyRef \<Rightarrow> VerifiedSignature" where
  "vs_of k = \<lparr>vs_keyid = k_keyid k, vs_owner_id = k_owner_id k, vs_key_use = k_key_use k\<rparr>"

text \<open>The exceptions of one signature check that only skip the signature.\<close>

definition skipped :: "exn \<Rightarrow> bool" where
  "skipped e \<longleftrightarrow> isinstance_any e [InvalidSignature, ValueError, KeyError, TypeError, UnsupportedAlgorithmError]"

definition check_sig :: "'k registry \<Rightarrow> KeyRef \<Rightarrow> pyval \<Rightarrow> bytes \<Rightarrow> exn + unit" where
  "check_sig reg key sig signable =
     sbind (get_scheme reg (k_scheme key)) (\<lambda>sch.
     sbind (public_bytes key) (\<lambda>pk.
     sbind (subscr sig ''sig'') (\<lambda>s.
     sbind (b64decode s) (\<lambda>raw. s_verify sch pk raw signable))))"

fun verify_sigs ::
  "'k registry \<Rightarrow> KeyDirectory \<Rightarrow> pyval \<Rightarrow> bytes \<Rightarrow> pstr list \<Rightarrow> pyval list \<Rightarrow> exn + VerifiedSignature list" where
  "verify_sigs reg kd at_time signable seen [] = Inr []"
| "verify_sigs reg kd at_time signable seen (sig # sigs) =
     sbind (getdef sig ''keyid'' (lit '''')) (\<lambda>keyid.
     sbind (kd_get kd keyid) (\<lambda>found.
     case found of
       None \<Rightarrow> verify_sigs reg kd at_time signable seen sigs
     | Some key \<Rightarrow>
         sbind (valid_at key at_time) (\<lambda>valid.
         if \<not> valid then verify_sigs reg kd at_time signable seen sigs
         else (case check_sig reg key sig signable of
             Inl e \<Rightarrow> if skipped e then verify_sigs reg kd at_time signable seen sigs else Inl e
           | Inr _ \<Rightarrow>
               if k_keyid key \<in> set seen then verify_sigs reg kd at_time signable seen sigs
               else sbind (verify_sigs reg kd at_time signable (k_keyid key # seen) sigs)
                      (\<lambda>out. Inr (vs_of key # out))))))"

definition verified_signatures ::
  "'k registry \<Rightarrow> pyval \<Rightarrow> KeyDirectory \<Rightarrow> pyval \<Rightarrow> exn + VerifiedSignature list" where
  "verified_signatures reg envelope kd at_time =
     sbind (signable_bytes envelope) (\<lambda>signable.
     sbind (sbind (getdef envelope ''signatures'' (PTuple [])) py_iter) (\<lambda>sigs.
     verify_sigs reg kd at_time signable [] sigs))"

definition verify_envelope :: "'k registry \<Rightarrow> pyval \<Rightarrow> KeyDirectory \<Rightarrow> pyval \<Rightarrow> exn + pstr list" where
  "verify_envelope reg envelope kd at_time =
     sbind (verified_signatures reg envelope kd at_time) (\<lambda>vs.
     Inr (foldl (\<lambda>result v. if vs_owner_id v \<in> set result then result else result @ [vs_owner_id v]) [] vs))"

fun authorizing :: "KeyDirectory \<Rightarrow> pyval \<Rightarrow> pyval \<Rightarrow> bool \<Rightarrow> VerifiedSignature list \<Rightarrow> exn + bool" where
  "authorizing kd approver_id log_id known [] = Inr False"
| "authorizing kd approver_id log_id known (v # vs) =
     (if vs_key_use v = u ''approver'' \<and> PStr (vs_owner_id v) = approver_id then Inr True
      else if vs_key_use v = u ''decision_issuer'' \<and> known then
        sbind (kd_get kd (PStr (vs_keyid v))) (\<lambda>found.
        case found of
          Some key \<Rightarrow> if scoped_to key log_id then Inr True else authorizing kd approver_id log_id known vs
        | None \<Rightarrow> authorizing kd approver_id log_id known vs)
      else authorizing kd approver_id log_id known vs)"

definition decision_authorized ::
  "'k registry \<Rightarrow> pyval \<Rightarrow> pyval \<Rightarrow> pyval \<Rightarrow> KeyDirectory \<Rightarrow> pyval \<Rightarrow> bool \<Rightarrow> exn + bool" where
  "decision_authorized reg envelope approver_id log_id kd at_time known_identity =
     sbind (verified_signatures reg envelope kd at_time) (authorizing kd approver_id log_id known_identity)"

subsection \<open>Which signatures count\<close>

definition counts :: "'k registry \<Rightarrow> KeyDirectory \<Rightarrow> pyval \<Rightarrow> bytes \<Rightarrow> pyval \<Rightarrow> KeyRef \<Rightarrow> bool" where
  "counts reg kd at_time signable sig key \<longleftrightarrow>
     (\<exists>keyid. getdef sig ''keyid'' (lit '''') = Inr keyid \<and> kd_get kd keyid = Inr (Some key)) \<and>
     valid_at key at_time = Inr True \<and> check_sig reg key sig signable = Inr ()"

text \<open>One round of the loop: the entry is passed over, or it counts and its key is new.\<close>

lemma verify_sigs_step:
  assumes "verify_sigs reg kd at_time signable seen (sig # sigs) = Inr out"
  shows "verify_sigs reg kd at_time signable seen sigs = Inr out \<or>
    (\<exists>key out'. counts reg kd at_time signable sig key \<and> k_keyid key \<notin> set seen \<and> out = vs_of key # out' \<and>
       verify_sigs reg kd at_time signable (k_keyid key # seen) sigs = Inr out')"
proof -
  obtain keyid found where f: "getdef sig ''keyid'' (lit '''') = Inr keyid" "kd_get kd keyid = Inr found"
    using assms by (auto simp: bind_simps)
  show ?thesis
  proof (cases found)
    case None
    then show ?thesis using assms f by simp
  next
    case (Some key)
    then obtain valid where "valid_at key at_time = Inr valid" using assms f by (auto simp: bind_simps)
    then show ?thesis
      using assms f Some
      by (cases "check_sig reg key sig signable") (auto simp: bind_simps counts_def split: if_splits)
  qed
qed

lemma verify_sigs_sound:
  "verify_sigs reg kd at_time signable seen sigs = Inr out \<Longrightarrow> v \<in> set out \<Longrightarrow>
     \<exists>sig\<in>set sigs. \<exists>key. counts reg kd at_time signable sig key \<and> v = vs_of key"
proof (induction sigs arbitrary: seen out)
  case (Cons sig sigs)
  from verify_sigs_step [OF Cons.prems(1)] show ?case
    using Cons.IH Cons.prems(2) by (elim disjE exE conjE) fastforce+
qed simp

lemma verify_sigs_complete:
  "verify_sigs reg kd at_time signable seen sigs = Inr out \<Longrightarrow> sig \<in> set sigs \<Longrightarrow>
     counts reg kd at_time signable sig key \<Longrightarrow> k_keyid key \<in> set seen \<union> vs_keyid ` set out"
proof (induction sigs arbitrary: seen out)
  case (Cons s sigs)
  from Cons.prems obtain keyid found where
    f: "getdef s ''keyid'' (lit '''') = Inr keyid" "kd_get kd keyid = Inr found" by (auto simp: bind_simps)
  note step = Cons.prems(1)
  show ?case
  proof (cases "\<exists>k. counts reg kd at_time signable s k \<and> k_keyid k \<notin> set seen")
    case True
    then obtain k where k: "counts reg kd at_time signable s k" "k_keyid k \<notin> set seen" by blast
    then have "found = Some k" using f by (auto simp: counts_def)
    then obtain out' where out: "out = vs_of k # out'"
      and rest: "verify_sigs reg kd at_time signable (k_keyid k # seen) sigs = Inr out'"
      using step f k by (auto simp: counts_def bind_simps)
    show ?thesis
    proof (cases "sig = s")
      case True
      then have "key = k" using Cons.prems(3) k(1) by (auto simp: counts_def)
      then show ?thesis by (simp add: out vs_of_def)
    next
      case False
      then show ?thesis using Cons.IH [OF rest _ Cons.prems(3)] Cons.prems(2) by (auto simp: out vs_of_def)
    qed
  next
    case False
    then have rest: "verify_sigs reg kd at_time signable seen sigs = Inr out"
      using step f by (auto simp: counts_def bind_simps split: option.splits sum.splits if_splits)
    show ?thesis
    proof (cases "sig = s")
      case True
      then show ?thesis using False Cons.prems(3) by auto
    next
      case False
      then show ?thesis using Cons.IH [OF rest _ Cons.prems(3)] Cons.prems(2) by auto
    qed
  qed
qed simp

lemma verify_sigs_distinct:
  "verify_sigs reg kd at_time signable seen sigs = Inr out \<Longrightarrow>
     distinct (map vs_keyid out) \<and> set (map vs_keyid out) \<inter> set seen = {}"
proof (induction sigs arbitrary: seen out)
  case (Cons s sigs)
  from verify_sigs_step [OF Cons.prems] show ?case
  proof (elim disjE exE conjE)
    fix key out'
    assume k: "k_keyid key \<notin> set seen" "out = vs_of key # out'"
      and "verify_sigs reg kd at_time signable (k_keyid key # seen) sigs = Inr out'"
    then show ?case using Cons.IH [of "k_keyid key # seen" out'] by (auto simp: vs_of_def)
  qed (rule Cons.IH)
qed simp

lemma verified_signatures_Inr:
  "verified_signatures reg env kd at_time = Inr out \<longleftrightarrow>
     (\<exists>signable v sigs. signable_bytes env = Inr signable \<and> getdef env ''signatures'' (PTuple []) = Inr v \<and>
        py_iter v = Inr sigs \<and> verify_sigs reg kd at_time signable [] sigs = Inr out)"
  by (auto simp: verified_signatures_def bind_simps)

text \<open>The signature entries of an envelope, and what the whole loop returns.\<close>

definition sig_entries :: "pyval \<Rightarrow> pyval list" where
  "sig_entries env = (case sbind (getdef env ''signatures'' (PTuple [])) py_iter of Inl _ \<Rightarrow> [] | Inr xs \<Rightarrow> xs)"

definition has_signature :: "'k registry \<Rightarrow> pyval \<Rightarrow> KeyDirectory \<Rightarrow> pyval \<Rightarrow> KeyRef \<Rightarrow> bool" where
  "has_signature reg env kd at_time key \<longleftrightarrow>
     (\<exists>signable sig. signable_bytes env = Inr signable \<and> sig \<in> set (sig_entries env) \<and>
        counts reg kd at_time signable sig key)"

lemma counts_directory: "kd_wf kd \<Longrightarrow> counts reg kd t m s k \<Longrightarrow> map_of kd (k_keyid k) = Some k"
proof -
  assume wf: "kd_wf kd" and c: "counts reg kd t m s k"
  then obtain v where v: "kd_get kd v = Inr (Some k)" by (auto simp: counts_def)
  with kd_get_keyid [OF wf v] show ?thesis by (simp add: kd_get_def)
qed

lemma verified_signatures_set:
  assumes "kd_wf kd" "verified_signatures reg env kd at_time = Inr out"
  shows "v \<in> set out \<longleftrightarrow> (\<exists>key. has_signature reg env kd at_time key \<and> v = vs_of key)"
    and "distinct (map vs_keyid out)"
proof -
  obtain signable w sigs where s: "signable_bytes env = Inr signable"
    "getdef env ''signatures'' (PTuple []) = Inr w" "py_iter w = Inr sigs"
    "verify_sigs reg kd at_time signable [] sigs = Inr out"
    using assms(2) by (auto simp: verified_signatures_Inr)
  then have e: "sig_entries env = sigs" by (simp add: sig_entries_def)
  show "distinct (map vs_keyid out)" using verify_sigs_distinct [OF s(4)] by simp
  show "v \<in> set out \<longleftrightarrow> (\<exists>key. has_signature reg env kd at_time key \<and> v = vs_of key)"
  proof
    assume "v \<in> set out"
    then show "\<exists>key. has_signature reg env kd at_time key \<and> v = vs_of key"
      using verify_sigs_sound [OF s(4)] s e by (fastforce simp: has_signature_def)
  next
    assume "\<exists>key. has_signature reg env kd at_time key \<and> v = vs_of key"
    then obtain key sig where k: "sig \<in> set sigs" "counts reg kd at_time signable sig key" "v = vs_of key"
      using s e by (auto simp: has_signature_def)
    then obtain v' where v': "v' \<in> set out" "vs_keyid v' = k_keyid key"
      using verify_sigs_complete [OF s(4) k(1,2)] by auto
    then obtain sig' key' where k': "counts reg kd at_time signable sig' key'" "v' = vs_of key'"
      using verify_sigs_sound [OF s(4)] by blast
    have "key' = key"
      using counts_directory [OF assms(1) k(2)] counts_directory [OF assms(1) k'(1)] v'(2) k'(2)
      by (simp add: vs_of_def)
    then show "v \<in> set out" using v' k' k by simp
  qed
qed

lemma authorizing_iff:
  "authorizing kd a l known vs = Inr r \<Longrightarrow>
     r \<longleftrightarrow> (\<exists>v\<in>set vs. vs_key_use v = u ''approver'' \<and> PStr (vs_owner_id v) = a \<or>
              vs_key_use v = u ''decision_issuer'' \<and> known \<and>
              (\<exists>key. map_of kd (vs_keyid v) = Some key \<and> scoped_to key l))"
  by (induction vs) (auto simp: kd_get_def split: if_splits option.splits)

lemma authorizing_returns: "\<exists>r. authorizing kd a l known vs = Inr r"
  by (induction vs) (auto simp: kd_get_def split: option.splits)

text \<open>Who may sign a decision by \<open>a\<close> on log \<open>l\<close>.\<close>

definition may_sign :: "KeyRef \<Rightarrow> pyval \<Rightarrow> pyval \<Rightarrow> bool \<Rightarrow> bool" where
  "may_sign key a l known \<longleftrightarrow>
     k_key_use key = u ''approver'' \<and> PStr (k_owner_id key) = a \<or>
     k_key_use key = u ''decision_issuer'' \<and> known \<and> scoped_to key l"

lemma decision_authorized_Inr:
  assumes "kd_wf kd" "decision_authorized reg env a l kd at_time known = Inr r"
  shows "r \<longleftrightarrow> (\<exists>key. has_signature reg env kd at_time key \<and> may_sign key a l known)"
proof -
  obtain vs where vs: "verified_signatures reg env kd at_time = Inr vs" "authorizing kd a l known vs = Inr r"
    using assms(2) by (auto simp: decision_authorized_def bind_simps)
  have dir: "map_of kd (k_keyid key) = Some key" if "has_signature reg env kd at_time key" for key
    using that counts_directory [OF assms(1)] by (auto simp: has_signature_def)
  show ?thesis
    unfolding authorizing_iff [OF vs(2)] may_sign_def
    using verified_signatures_set(1) [OF assms(1) vs(1)] dir
    by (fastforce simp: vs_of_def Bex_def)
qed

lemma decision_authorized_returns:
  "verified_signatures reg env kd t = Inr vs \<Longrightarrow> \<exists>r. decision_authorized reg env a l kd t known = Inr r"
  using authorizing_returns by (simp add: decision_authorized_def)

text \<open>\<open>verify_envelope\<close>: the owners, each once.\<close>

lemma owners_fold:
  "distinct acc \<Longrightarrow>
     distinct (foldl (\<lambda>r v. if f v \<in> set r then r else r @ [f v]) acc vs) \<and>
     set (foldl (\<lambda>r v. if f v \<in> set r then r else r @ [f v]) acc vs) = set acc \<union> f ` set vs"
  by (induction vs arbitrary: acc) auto

lemma verify_envelope_owners:
  assumes "kd_wf kd" "verify_envelope reg env kd t = Inr owners"
  shows "distinct owners" "ow \<in> set owners \<longleftrightarrow> (\<exists>key. has_signature reg env kd t key \<and> k_owner_id key = ow)"
proof -
  obtain vs where vs: "verified_signatures reg env kd t = Inr vs"
    "owners = foldl (\<lambda>result v. if vs_owner_id v \<in> set result then result else result @ [vs_owner_id v]) [] vs"
    using assms(2) by (auto simp: verify_envelope_def bind_simps)
  show "distinct owners" using owners_fold [of "[]" vs_owner_id vs] by (simp add: vs(2))
  show "ow \<in> set owners \<longleftrightarrow> (\<exists>key. has_signature reg env kd t key \<and> k_owner_id key = ow)"
  proof -
    have "ow \<in> set owners \<longleftrightarrow> (\<exists>v\<in>set vs. vs_owner_id v = ow)"
      using owners_fold [of "[]" vs_owner_id vs] by (auto simp: vs(2))
    also have "\<dots> \<longleftrightarrow> (\<exists>key. has_signature reg env kd t key \<and> k_owner_id key = ow)"
      using verified_signatures_set(1) [OF assms(1) vs(1)] by (fastforce simp: vs_of_def Bex_def)
    finally show ?thesis .
  qed
qed

subsection \<open>Properties\<close>

text \<open>C20: the signatures reported for an envelope are those of the keys of the directory that are valid
  at the time and whose scheme accepts one of the entries on the envelope's bytes; each key is
  reported once, however often it signed.\<close>

theorem verified_signatures_iff:
  assumes "kd_wf kd" "verified_signatures reg env kd at_time = Inr vs"
  shows "(\<forall>v. v \<in> set vs \<longleftrightarrow> (\<exists>key. has_signature reg env kd at_time key \<and> v = vs_of key)) \<and>
    distinct (map vs_keyid vs)"
  using verified_signatures_set [OF assms] by blast

text \<open>C8: the authorization rule.  A decision is authorized exactly when a valid signature of the
  envelope is by an approver key of the approver it names, or by a decision-issuer key scoped to the
  log, for an approver the service knows.\<close>

theorem decision_authorized_iff:
  assumes "kd_wf kd" "decision_authorized reg env a l kd at_time known = Inr r"
  shows "r \<longleftrightarrow> (\<exists>key. has_signature reg env kd at_time key \<and>
    (k_key_use key = u ''approver'' \<and> PStr (k_owner_id key) = a \<or>
     k_key_use key = u ''decision_issuer'' \<and> known \<and> scoped_to key l))"
  using decision_authorized_Inr [OF assms] unfolding may_sign_def .

text \<open>What the code relies on of Ed25519: the public key of a private key loads, and what the private
  key signs the public key verifies.\<close>

definition ed_correct :: "('k, 'p) crypto \<Rightarrow> 'p \<Rightarrow> bool" where
  "ed_correct C key \<longleftrightarrow> (\<exists>pk. ed_from_bytes C (priv_public_raw C key) = Inr pk \<and>
     (\<forall>msg. ed_verify_sig C pk (priv_sign C key msg) msg = Inr ()))"

lemma check_sig_Ed25519:
  assumes "ed_correct C key"
  shows "check_sig (default_registry C)
    (to_key_ref \<lparr>m_scheme = ED25519, m_public = priv_public_raw C key\<rparr> ow nb na use ids)
    (envelope_sig kid (priv_sign C key msg)) msg = Inr ()"
proof -
  have "get_scheme (default_registry C) ED25519 = Inr \<lparr>s_name = ED25519, s_public_raw = ed_bytes_raw C,
      s_load_public = ed_from_bytes C, s_verify = ed_verify C\<rparr>"
    by (simp add: default_registry_schemes)
  then show ?thesis
    using assms by (auto simp: check_sig_def envelope_sig_def ed_verify_def ed_correct_def)
qed

lemma wrap_Ed25519:
  "canonical_bytes v = Inr body \<Longrightarrow> pae (PStr ty) body = Inr x \<Longrightarrow>
     wrap_async v ty [Ed25519Signer C key] s =
       (Inr (envelope_of ty body [envelope_sig (keyid_for (priv_public_raw C key)) (priv_sign C key x)]), s)"
  by (simp add: wrap_async_def Ed25519Signer_def sign_with_def mbind_def mlift_def mret_def)

lemma verified_one:
  assumes "signable_bytes env = Inr x" "getdef env ''signatures'' (PTuple []) = Inr (PList [envelope_sig kid sig])"
    and "map_of kd kid = Some key" "k_keyid key = kid" "valid_at key t = Inr True"
    and "check_sig reg key (envelope_sig kid sig) x = Inr ()"
  shows "verified_signatures reg env kd t = Inr [vs_of key]"
  using assms by (simp add: verified_signatures_def envelope_sig_def kd_get_def)

text \<open>a decision signed with an approver's Ed25519 key is authorized for that approver, and the
  envelope carries the decision: the library accepts what it signs.\<close>

theorem signed_decision_authorized:
  assumes "ed_correct C key" "wrap_async (Decision_to_dict d) DECISION_PAYLOAD_TYPE [Ed25519Signer C key] s = (Inr env, s')"
    and "kref = public_key_ref (Ed25519Signer C key) a nb na (u ''approver'') ids"
    and "map_of kd (k_keyid kref) = Some kref" "valid_at kref t = Inr True" "wf_val (Decision_to_dict d)"
  shows "decision_authorized (default_registry C) env (PStr a) l kd t known = Inr True \<and>
    unwrap_payload env = Inr (norm (Decision_to_dict d))"
proof -
  obtain body x where b: "canonical_bytes (Decision_to_dict d) = Inr body" "pae (PStr DECISION_PAYLOAD_TYPE) body = Inr x"
    using wrap_async_shape [OF assms(2)] by metis
  then have env: "env = envelope_of DECISION_PAYLOAD_TYPE body
      [envelope_sig (keyid_for (priv_public_raw C key)) (priv_sign C key x)]"
    using assms(2) by (simp add: wrap_Ed25519)
  have id: "k_keyid kref = keyid_for (priv_public_raw C key)"
    by (simp add: assms(3) public_key_ref_def Ed25519Signer_def)
  have "verified_signatures (default_registry C) env kd t = Inr [vs_of kref]"
  proof (rule verified_one)
    show "signable_bytes env = Inr x" by (simp only: env envelope_of_signable b)
    show "check_sig (default_registry C) kref (envelope_sig (keyid_for (priv_public_raw C key)) (priv_sign C key x)) x = Inr ()"
      using check_sig_Ed25519 [OF assms(1)] by (simp add: assms(3) public_key_ref_def Ed25519Signer_def)
  qed (use assms(4,5) id in \<open>simp_all add: env\<close>)
  moreover have "k_key_use kref = u ''approver''" "k_owner_id kref = a"
    by (simp_all add: assms(3) public_key_ref_def to_key_ref_def)
  ultimately show ?thesis
    using envelope_of_unwrap [OF b(1) assms(6)] by (simp add: decision_authorized_def vs_of_def env)
qed

text \<open>A signature scheme to instantiate the parameter with: the signature repeats the message after the
  key.\<close>

definition echo_crypto :: "(bytes, bytes) crypto" where
  "echo_crypto =
     \<lparr>ed_from_bytes = Inr, ed_bytes_raw = Inr,
      ed_verify_sig = (\<lambda>k sig msg. if sig = k @ msg then Inr () else Inl InvalidSignature),
      load_der = Inr, spki_der = Inr,
      ec_verify_digest = (\<lambda>k sig dg h. Inl InvalidSignature),
      pss_verify_sha256 = (\<lambda>k sig msg. Inl InvalidSignature),
      pkcs1_verify_sha256 = (\<lambda>k sig msg. Inl InvalidSignature),
      class_of = (\<lambda>k. Ed25519Key), priv_from_seed = Inr, priv_sign = (\<lambda>p msg. p @ msg),
      priv_public_raw = (\<lambda>p. p)\<rparr>"

lemma echo_correct: "ed_correct echo_crypto key"
  by (simp add: ed_correct_def echo_crypto_def)

definition example_ref :: KeyRef where
  "example_ref = public_key_ref (Ed25519Signer echo_crypto [7] :: unit signer) (u ''al'') (u ''2025-01-01T00:00:00Z'') None
     (u ''approver'') None"

definition example_decision :: Decision where
  "example_decision =
     \<lparr>d_request_id = lit ''r'', d_context_digest = lit ''c'', d_verdict = lit ''approve'', d_approver_id = lit ''al'',
      d_decided_at = lit ''2025-02-01T00:00:00Z'', d_comment = lit '''', d_idempotency_key = lit ''k'',
      d_authn = PNone, d_schema = DECISION_SCHEMA\<rparr>"

lemma example_ref_valid: "valid_at example_ref (lit ''2025-02-01T00:00:00Z'') = Inr True"
  using example_instants
  by (simp add: valid_at_window [of _ _ 63873964800000000] timed_def in_window_def example_ref_def
      public_key_ref_def to_key_ref_def)

lemma example_decision_wf: "wf_val (Decision_to_dict example_decision)"
  by (simp add: Decision_to_dict_def example_decision_def)

lemma example_envelope: "\<exists>env. wrap_async (Decision_to_dict example_decision) DECISION_PAYLOAD_TYPE
    [Ed25519Signer echo_crypto [7]] () = (Inr env, ())"
proof -
  obtain body where b: "canonical_bytes (Decision_to_dict example_decision) = Inr body"
    by (simp add: Decision_to_dict_def example_decision_def canonical_eval)
  obtain x where x: "pae (PStr DECISION_PAYLOAD_TYPE) body = Inr x"
    by (simp add: DECISION_PAYLOAD_TYPE_def canonical_eval)
  from wrap_Ed25519 [OF b x, of echo_crypto "[7]" "()"] show ?thesis by blast
qed

lemma example_verified: "\<exists>env. verified_signatures (default_registry echo_crypto) env
    [(k_keyid example_ref, example_ref)] (lit ''2025-02-01T00:00:00Z'') = Inr [vs_of example_ref]"
proof -
  obtain x where x: "pae (PStr DECISION_PAYLOAD_TYPE) [] = Inr x"
    by (simp add: DECISION_PAYLOAD_TYPE_def canonical_eval)
  have "check_sig (default_registry echo_crypto) example_ref (envelope_sig (k_keyid example_ref) ([7] @ x)) x = Inr ()"
    using check_sig_Ed25519 [OF echo_correct, of "[7]" "u ''al''" "u ''2025-01-01T00:00:00Z''" None "u ''approver''" None
        "k_keyid example_ref" x]
    by (simp add: example_ref_def public_key_ref_def Ed25519Signer_def echo_crypto_def)
  then have "verified_signatures (default_registry echo_crypto)
      (envelope_of DECISION_PAYLOAD_TYPE [] [envelope_sig (k_keyid example_ref) ([7] @ x)])
      [(k_keyid example_ref, example_ref)] (lit ''2025-02-01T00:00:00Z'') = Inr [vs_of example_ref]"
    by (intro verified_one) (simp_all add: envelope_of_signable x example_ref_valid del: pae.simps)
  then show ?thesis by blast
qed

lemma signed_decision_authorized_witness:
  "\<exists>env. decision_authorized (default_registry echo_crypto) env (lit ''al'') (lit ''log'')
     [(k_keyid example_ref, example_ref)] (lit ''2025-02-01T00:00:00Z'') False = Inr True"
proof -
  obtain env where e: "wrap_async (Decision_to_dict example_decision) DECISION_PAYLOAD_TYPE
      [Ed25519Signer echo_crypto [7]] () = (Inr env, ())"
    using example_envelope by blast
  show ?thesis
    using signed_decision_authorized [OF echo_correct e example_ref_def _ example_ref_valid example_decision_wf,
        of "[(k_keyid example_ref, example_ref)]" "lit ''log''" False]
    by auto
qed

lemma decision_authorized_iff_witness:
  "\<exists>env key. decision_authorized (default_registry echo_crypto) env (lit ''al'') (lit ''log'')
     [(k_keyid example_ref, example_ref)] (lit ''2025-02-01T00:00:00Z'') False = Inr True \<and>
     has_signature (default_registry echo_crypto) env [(k_keyid example_ref, example_ref)]
       (lit ''2025-02-01T00:00:00Z'') key"
proof -
  obtain env where e: "verified_signatures (default_registry echo_crypto) env [(k_keyid example_ref, example_ref)]
      (lit ''2025-02-01T00:00:00Z'') = Inr [vs_of example_ref]"
    using example_verified by blast
  have wf: "kd_wf [(k_keyid example_ref, example_ref)]" by (simp add: kd_wf_def)
  have a: "decision_authorized (default_registry echo_crypto) env (lit ''al'') (lit ''log'')
      [(k_keyid example_ref, example_ref)] (lit ''2025-02-01T00:00:00Z'') False = Inr True"
    using e by (simp add: decision_authorized_def vs_of_def example_ref_def public_key_ref_def to_key_ref_def)
  show ?thesis using decision_authorized_iff [OF wf a] a by auto
qed

lemma verified_signatures_iff_witness:
  "\<exists>env key. has_signature (default_registry echo_crypto) env [(k_keyid example_ref, example_ref)]
     (lit ''2025-02-01T00:00:00Z'') key"
proof -
  obtain env where e: "verified_signatures (default_registry echo_crypto) env [(k_keyid example_ref, example_ref)]
      (lit ''2025-02-01T00:00:00Z'') = Inr [vs_of example_ref]"
    using example_verified by blast
  have wf: "kd_wf [(k_keyid example_ref, example_ref)]" by (simp add: kd_wf_def)
  have "vs_of example_ref \<in> set [vs_of example_ref]" by simp
  then show ?thesis using verified_signatures_iff [OF wf e] by blast
qed

end

