(* ===== verification/Checkpoints.thy ===== *)
theory Checkpoints
  imports Merkle Verifier
begin

section \<open>Signed checkpoints\<close>

text \<open>
  \<^verbatim>\<open>src/approvo/checkpoint.py\<close>.  \<open>verify_checkpoint_counts\<close>: only log keys scoped to the
  checkpoint's log, valid when it was published, count.  \<open>verify_consistency_fork\<close>: a checkpoint
  pinned elsewhere fixes the prefix of the log it was computed over, unless two Merkle messages
  collide.  \<open>checkpoint_not_envelope\<close>: the bytes a log key signs are never the bytes of an envelope.
\<close>

definition CHECKPOINT_SIG_CONTEXT :: bytes where
  "CHECKPOINT_SIG_CONTEXT = asc ''approvo/checkpoint/v1'' @ [10]"

definition checkpoint_signable :: "Checkpoint \<Rightarrow> exn + bytes" where
  "checkpoint_signable cp = sbind (canonical_bytes (signed_dict cp)) (\<lambda>bs. Inr (CHECKPOINT_SIG_CONTEXT @ bs))"

definition build_checkpoint :: "pstr list \<Rightarrow> pyval \<Rightarrow> pyval \<Rightarrow> Checkpoint option \<Rightarrow> exn + Checkpoint" where
  "build_checkpoint leaf_hashes log_id at_time prev =
     sbind (merkle_root leaf_hashes) (\<lambda>root.
     Inr \<lparr>c_tree_size = int (length leaf_hashes), c_root_hash = PStr root, c_published_at = at_time,
          c_log_id = log_id,
          c_prev_root_hash = (case prev of Some p \<Rightarrow> c_root_hash p | None \<Rightarrow> PNone),
          c_signatures = [], c_schema = CHECKPOINT_SCHEMA\<rparr>)"

definition append_sig :: "Checkpoint \<Rightarrow> pstr \<Rightarrow> bytes \<Rightarrow> exn + Checkpoint" where
  "append_sig cp keyid sig =
     Checkpoint_from_dict (dict_with (Checkpoint_to_dict cp) ''signatures''
       (PList (c_signatures cp @ [envelope_sig keyid sig])))"

definition sign_checkpoint :: "Checkpoint \<Rightarrow> 's signer \<Rightarrow> ('s, exn, Checkpoint) eff" where
  "sign_checkpoint cp sg =
     mbind (mlift (sg_key_id sg)) (\<lambda>kid.
     mbind (mlift (checkpoint_signable cp)) (\<lambda>bs.
     mbind (sg_sign sg bs) (\<lambda>sig. mlift (append_sig cp kid sig))))"

definition sign_checkpoint_async :: "Checkpoint \<Rightarrow> 's signer \<Rightarrow> ('s, exn, Checkpoint) eff" where
  "sign_checkpoint_async cp sg =
     mbind (mlift (checkpoint_signable cp)) (\<lambda>bs.
     mbind (sign_with sg bs) (\<lambda>(sig, kid). mlift (append_sig cp kid sig)))"

fun verify_log_sigs ::
  "'k registry \<Rightarrow> KeyDirectory \<Rightarrow> Checkpoint \<Rightarrow> bytes \<Rightarrow> pyval list \<Rightarrow> exn + pstr list" where
  "verify_log_sigs reg kd cp signable [] = Inr []"
| "verify_log_sigs reg kd cp signable (sig # sigs) =
     sbind (getdef sig ''keyid'' (lit '''')) (\<lambda>keyid.
     sbind (kd_get kd keyid) (\<lambda>found.
     case found of
       None \<Rightarrow> verify_log_sigs reg kd cp signable sigs
     | Some key \<Rightarrow>
         if k_key_use key \<noteq> u ''log'' then verify_log_sigs reg kd cp signable sigs
         else sbind (valid_at key (c_published_at cp)) (\<lambda>valid.
           if \<not> valid \<or> \<not> scoped_to key (c_log_id cp) then verify_log_sigs reg kd cp signable sigs
           else (case check_sig reg key sig signable of
               Inl e \<Rightarrow> if skipped e then verify_log_sigs reg kd cp signable sigs else Inl e
             | Inr _ \<Rightarrow> sbind (verify_log_sigs reg kd cp signable sigs) (\<lambda>out. Inr (k_owner_id key # out))))))"

definition verify_checkpoint :: "'k registry \<Rightarrow> Checkpoint \<Rightarrow> KeyDirectory \<Rightarrow> exn + pstr list" where
  "verify_checkpoint reg cp kd =
     sbind (checkpoint_signable cp) (\<lambda>signable.
     sbind (verify_log_sigs reg kd cp signable (c_signatures cp)) (\<lambda>verified.
     if verified = [] then Inl CheckpointUnverified else Inr verified))"

text \<open>The slice \<open>xs[:n]\<close>; a negative bound counts from the end.\<close>

definition slice_to :: "'a list \<Rightarrow> int \<Rightarrow> 'a list" where
  "slice_to xs n = (if 0 \<le> n then take (nat n) xs else take (nat (int (length xs) + n)) xs)"

definition verify_consistency :: "Checkpoint \<Rightarrow> pstr list \<Rightarrow> exn + unit" where
  "verify_consistency trusted prefix_leaf_hashes =
     (if int (length prefix_leaf_hashes) < c_tree_size trusted then Inl ConsistencyFailure
      else sbind (merkle_root (slice_to prefix_leaf_hashes (c_tree_size trusted))) (\<lambda>root.
        if PStr root \<noteq> c_root_hash trusted then Inl ConsistencyFailure else Inr ()))"

subsection \<open>Signing\<close>

lemma append_sig: "append_sig cp kid sig = Inr (cp\<lparr>c_signatures := c_signatures cp @ [envelope_sig kid sig]\<rparr>)"
proof -
  have "dict_with (Checkpoint_to_dict cp) ''signatures'' (PList xs) =
      Checkpoint_to_dict (cp\<lparr>c_signatures := xs\<rparr>)" for xs
    by (simp add: Checkpoint_to_dict_def signed_items_def)
  then show ?thesis by (simp add: append_sig_def Checkpoint_roundtrip)
qed

lemma signable_signatures [simp]: "checkpoint_signable (cp\<lparr>c_signatures := xs\<rparr>) = checkpoint_signable cp"
  by (simp add: checkpoint_signable_def signed_dict_def signed_items_def)

lemma build_checkpoint_Inr:
  "build_checkpoint leaves log_id t prev = Inr cp \<Longrightarrow>
     c_tree_size cp = int (length leaves) \<and> c_log_id cp = log_id \<and> c_published_at cp = t \<and>
     (\<exists>root. merkle_root leaves = Inr root \<and> c_root_hash cp = PStr root) \<and> c_signatures cp = []"
  by (auto simp: build_checkpoint_def sbind_eq_Inr)

subsection \<open>Verification\<close>

definition log_key_counts :: "'k registry \<Rightarrow> KeyDirectory \<Rightarrow> Checkpoint \<Rightarrow> bytes \<Rightarrow> pyval \<Rightarrow> KeyRef \<Rightarrow> bool" where
  "log_key_counts reg kd cp signable sig key \<longleftrightarrow>
     counts reg kd (c_published_at cp) signable sig key \<and> k_key_use key = u ''log'' \<and>
     scoped_to key (c_log_id cp)"

lemma verify_log_sigs_step:
  assumes "verify_log_sigs reg kd cp signable (sig # sigs) = Inr out"
  shows "(\<nexists>key. log_key_counts reg kd cp signable sig key) \<and> verify_log_sigs reg kd cp signable sigs = Inr out \<or>
    (\<exists>key out'. log_key_counts reg kd cp signable sig key \<and> out = k_owner_id key # out' \<and>
       verify_log_sigs reg kd cp signable sigs = Inr out')"
proof -
  obtain keyid found where f: "getdef sig ''keyid'' (lit '''') = Inr keyid" "kd_get kd keyid = Inr found"
    using assms by (auto simp: bind_simps)
  show ?thesis
  proof (cases found)
    case None
    then show ?thesis using assms f by (auto simp: log_key_counts_def counts_def)
  next
    case (Some key)
    show ?thesis
    proof (cases "k_key_use key = u ''log''")
      case False
      then show ?thesis using assms f Some by (auto simp: log_key_counts_def counts_def)
    next
      case True
      then obtain valid where "valid_at key (c_published_at cp) = Inr valid"
        using assms f Some by (auto simp: bind_simps)
      then show ?thesis
        using assms f Some True
        by (cases "check_sig reg key sig signable")
          (auto simp: bind_simps log_key_counts_def counts_def split: if_splits)
    qed
  qed
qed

lemma verify_log_sigs_set:
  "verify_log_sigs reg kd cp signable sigs = Inr out \<Longrightarrow>
     ow \<in> set out \<longleftrightarrow> (\<exists>sig\<in>set sigs. \<exists>key. log_key_counts reg kd cp signable sig key \<and> k_owner_id key = ow)"
proof (induction sigs arbitrary: out)
  case (Cons sig sigs)
  have one: "log_key_counts reg kd cp signable sig k \<Longrightarrow> log_key_counts reg kd cp signable sig k' \<Longrightarrow> k = k'" for k k'
    by (auto simp: log_key_counts_def counts_def)
  from verify_log_sigs_step [OF Cons.prems] show ?case
  proof (elim disjE exE conjE)
    fix key out'
    assume k: "log_key_counts reg kd cp signable sig key" "out = k_owner_id key # out'"
      "verify_log_sigs reg kd cp signable sigs = Inr out'"
    have "(\<exists>key. log_key_counts reg kd cp signable sig key \<and> k_owner_id key = ow) \<longleftrightarrow> k_owner_id key = ow"
      using k(1) one by blast
    then show ?thesis using Cons.IH [OF k(3)] k(2) by auto
  next
    assume "\<nexists>key. log_key_counts reg kd cp signable sig key" "verify_log_sigs reg kd cp signable sigs = Inr out"
    then show ?thesis using Cons.IH by auto
  qed
qed simp

lemma verify_checkpoint_Inr:
  "verify_checkpoint reg cp kd = Inr owners \<longleftrightarrow>
     (\<exists>m. checkpoint_signable cp = Inr m \<and> verify_log_sigs reg kd cp m (c_signatures cp) = Inr owners \<and> owners \<noteq> [])"
  by (auto simp: verify_checkpoint_def bind_simps split: if_splits)

lemma verify_checkpoint_counts:
  assumes "verify_checkpoint reg cp kd = Inr owners"
  shows "owners \<noteq> [] \<and> (\<forall>ow. ow \<in> set owners \<longleftrightarrow>
    (\<exists>m sig key. checkpoint_signable cp = Inr m \<and> sig \<in> set (c_signatures cp) \<and>
       log_key_counts reg kd cp m sig key \<and> k_owner_id key = ow))"
proof -
  obtain m where m: "checkpoint_signable cp = Inr m" "owners \<noteq> []"
    "verify_log_sigs reg kd cp m (c_signatures cp) = Inr owners"
    using assms by (auto simp: verify_checkpoint_Inr)
  show ?thesis using m(1,2) verify_log_sigs_set [OF m(3)] by auto
qed

subsection \<open>Consistency\<close>

lemma verify_consistency_Inr:
  "verify_consistency cp leaves = Inr () \<longleftrightarrow>
     c_tree_size cp \<le> int (length leaves) \<and>
     (\<exists>root. merkle_root (slice_to leaves (c_tree_size cp)) = Inr root \<and> c_root_hash cp = PStr root)"
  by (auto simp: verify_consistency_def bind_simps split: if_splits)

lemma verify_consistency_fork:
  assumes built: "build_checkpoint old log_id t prev = Inr cp"
    and ok: "verify_consistency (cp\<lparr>c_signatures := sigs\<rparr>) now = Inr ()"
  shows "take (length old) now = old \<or> collides (merkle_msgs (take (length old) now)) (merkle_msgs old)"
proof -
  obtain root where r: "merkle_root old = Inr root" "c_root_hash cp = PStr root" "c_tree_size cp = int (length old)"
    using build_checkpoint_Inr [OF built] by blast
  then have "merkle_root (take (length old) now) = Inr root"
    using ok by (auto simp: verify_consistency_Inr slice_to_def)
  then show ?thesis using merkle_root_inj r(1) by blast
qed

lemma verify_consistency_extension:
  assumes "build_checkpoint old log_id t prev = Inr cp"
  shows "verify_consistency (cp\<lparr>c_signatures := sigs\<rparr>) (old @ new) = Inr ()"
  using build_checkpoint_Inr [OF assms] by (auto simp: verify_consistency_Inr slice_to_def)

lemma verify_consistency_errors:
  "verify_consistency cp leaves = Inl e \<Longrightarrow> e = ConsistencyFailure \<or> e = UnicodeError"
proof -
  have "smap leaf_hash xs = Inl e \<Longrightarrow> e = UnicodeError" for xs e
    by (induction xs) (auto simp: sbind_eq_Inl leaf_hash_def utf8_encode_def split: if_splits)
  then show "verify_consistency cp leaves = Inl e \<Longrightarrow> e = ConsistencyFailure \<or> e = UnicodeError"
    by (auto simp: verify_consistency_def sbind_eq_Inl merkle_root_def split: if_splits)
qed

subsection \<open>Domain separation\<close>

text \<open>A signature on a checkpoint is never a signature on an envelope: the first bytes differ.\<close>

lemma asc_Cons: "asc (c # cs) = word_of_nat (of_char c) # asc cs"
  by (simp add: asc_def u_def to_bytes_def)

lemma checkpoint_not_envelope:
  assumes "checkpoint_signable cp = Inr m" "signable_bytes env = Inr m'"
  shows "m \<noteq> m'"
proof -
  obtain r where "m = CHECKPOINT_SIG_CONTEXT @ r" using assms(1) by (auto simp: checkpoint_signable_def bind_simps)
  moreover obtain l t p where "m' = pae_bytes l t p"
    using assms(2) by (auto simp: signable_bytes_def sbind_eq_Inr pae_Inr)
  ultimately show ?thesis
    by (simp add: CHECKPOINT_SIG_CONTEXT_def pae_bytes_def asc_Cons)
qed

lemma verify_one_log_sig:
  assumes "checkpoint_signable cp = Inr m" "map_of kd kid = Some key" "k_key_use key = u ''log''"
    and "valid_at key (c_published_at cp) = Inr True" "scoped_to key (c_log_id cp)"
    and "check_sig reg key (envelope_sig kid sig) m = Inr ()"
  shows "verify_checkpoint reg (cp\<lparr>c_signatures := [envelope_sig kid sig]\<rparr>) kd = Inr [k_owner_id key]"
proof -
  have "getdef (envelope_sig kid sig) ''keyid'' (lit '''') = Inr (PStr kid)" by (simp add: envelope_sig_def)
  then show ?thesis using assms by (simp add: verify_checkpoint_def kd_get_def)
qed

subsection \<open>Properties\<close>

text \<open>C26: a checkpoint verifies exactly with the owners of the log keys that are scoped to its log,
  valid when it was published, and signed the bytes of the tree head; one at least is required.\<close>

theorem checkpoint_signers:
  assumes "verify_checkpoint reg cp kd = Inr owners"
  shows "owners \<noteq> [] \<and> (\<forall>ow. ow \<in> set owners \<longleftrightarrow>
    (\<exists>m sig key. checkpoint_signable cp = Inr m \<and> sig \<in> set (c_signatures cp) \<and>
       counts reg kd (c_published_at cp) m sig key \<and> k_key_use key = u ''log'' \<and>
       scoped_to key (c_log_id cp) \<and> k_owner_id key = ow))"
  using verify_checkpoint_counts [OF assms] by (simp add: log_key_counts_def)

text \<open>a checkpoint signed with an Ed25519 log key of the directory verifies, with the key's owner.\<close>

theorem signed_checkpoint_verifies:
  assumes "ed_correct C key" "sign_checkpoint_async cp (Ed25519Signer C key) s = (Inr cp', s')" "c_signatures cp = []"
    and "kref = to_key_ref \<lparr>m_scheme = ED25519, m_public = priv_public_raw C key\<rparr> ow nb na (u ''log'') ids"
    and "map_of kd (k_keyid kref) = Some kref" "valid_at kref (c_published_at cp) = Inr True"
    and "scoped_to kref (c_log_id cp)"
  shows "verify_checkpoint (default_registry C) cp' kd = Inr [ow] \<and> signed_dict cp' = signed_dict cp"
proof -
  obtain m where m: "checkpoint_signable cp = Inr m"
    and cp': "cp' = cp\<lparr>c_signatures := [envelope_sig (k_keyid kref) (priv_sign C key m)]\<rparr>"
    using assms(2,3,4) by (auto simp: sign_checkpoint_async_def sign_with_def Ed25519Signer_def mbind_eq_Inr
        run_simps append_sig)
  have "verify_checkpoint (default_registry C) cp' kd = Inr [k_owner_id kref]"
    unfolding cp' using m assms(5,6,7) check_sig_Ed25519 [OF assms(1)]
    by (intro verify_one_log_sig) (simp_all add: assms(4) to_key_ref_def)
  then show ?thesis by (simp add: assms(4) to_key_ref_def cp' signed_dict_def signed_items_def)
qed

text \<open>C17: fork detection.  A log is consistent with a checkpoint built over an older log exactly when
  it extends that log, unless two messages of the Merkle computations collide.\<close>

theorem consistency_detects_forks:
  assumes "build_checkpoint old log_id t prev = Inr cp" "verify_consistency (cp\<lparr>c_signatures := sigs\<rparr>) now = Inr ()"
  shows "take (length old) now = old \<or> collides (merkle_msgs (take (length old) now)) (merkle_msgs old)"
  using assms by (rule verify_consistency_fork)

text \<open>a log that extends the one a checkpoint was built over is consistent with it.\<close>

theorem consistency_accepts_extensions:
  assumes "build_checkpoint old log_id t prev = Inr cp"
  shows "verify_consistency (cp\<lparr>c_signatures := sigs\<rparr>) (old @ new) = Inr ()"
  using assms by (rule verify_consistency_extension)

text \<open>C27: domain separation.  The bytes signed for a checkpoint are never the bytes signed for an
  envelope, so neither signature passes for the other.\<close>

theorem checkpoint_envelope_separation:
  assumes "checkpoint_signable cp = Inr m" "signable_bytes env = Inr m'"
  shows "m \<noteq> m'"
  using assms by (rule checkpoint_not_envelope)

lemma consistency_detects_forks_witness:
  "\<exists>cp. build_checkpoint [u ''a''] (lit ''log'') PNone None = Inr cp \<and>
     verify_consistency cp [u ''a'', u ''b''] = Inr () \<and>
     (take 1 [u ''a'', u ''b''] = [u ''a''] \<or>
      collides (merkle_msgs (take 1 [u ''a'', u ''b''])) (merkle_msgs [u ''a'']))"
proof -
  obtain cp where cp: "build_checkpoint [u ''a''] (lit ''log'') PNone None = Inr cp"
    by (auto simp: build_checkpoint_def merkle_root_def leaf_hash_def canonical_eval bind_simps)
  have ok: "verify_consistency (cp\<lparr>c_signatures := []\<rparr>) ([u ''a''] @ [u ''b'']) = Inr ()"
    by (rule verify_consistency_extension [OF cp])
  have "cp\<lparr>c_signatures := []\<rparr> = cp" using build_checkpoint_Inr [OF cp] by simp
  then show ?thesis using consistency_detects_forks [OF cp ok] ok cp by simp
qed

lemma consistency_accepts_extensions_witness:
  "\<exists>cp. build_checkpoint [u ''a''] (lit ''log'') PNone None = Inr cp \<and>
     verify_consistency (cp\<lparr>c_signatures := []\<rparr>) [u ''a'', u ''b''] = Inr ()"
proof -
  obtain cp where cp: "build_checkpoint [u ''a''] (lit ''log'') PNone None = Inr cp"
    by (auto simp: build_checkpoint_def merkle_root_def leaf_hash_def canonical_eval bind_simps)
  show ?thesis using consistency_accepts_extensions [OF cp, of "[]" "[u ''b'']"] cp by simp
qed

definition example_cp :: Checkpoint where
  "example_cp = \<lparr>c_tree_size = 1, c_root_hash = lit ''r'', c_published_at = lit ''2025-02-01T00:00:00Z'',
     c_log_id = lit ''log'', c_prev_root_hash = PNone, c_signatures = [], c_schema = CHECKPOINT_SCHEMA\<rparr>"

lemma example_cp_signable: "\<exists>m. checkpoint_signable example_cp = Inr m"
  by (simp add: checkpoint_signable_def example_cp_def signed_dict_def signed_items_def canonical_eval bind_simps)

lemma checkpoint_envelope_separation_witness:
  "\<exists>m m'. checkpoint_signable example_cp = Inr m \<and>
     signable_bytes (envelope_of DECISION_PAYLOAD_TYPE [] []) = Inr m' \<and> m \<noteq> m'"
proof -
  obtain m where m: "checkpoint_signable example_cp = Inr m" using example_cp_signable by blast
  obtain m' where m': "signable_bytes (envelope_of DECISION_PAYLOAD_TYPE [] []) = Inr m'"
    by (simp add: envelope_of_signable DECISION_PAYLOAD_TYPE_def canonical_eval)
  show ?thesis using checkpoint_envelope_separation [OF m m'] m m' by blast
qed

definition example_log_key :: KeyRef where
  "example_log_key = to_key_ref \<lparr>m_scheme = ED25519, m_public = [7]\<rparr> (u ''log-owner'') (u ''2025-01-01T00:00:00Z'') None
     (u ''log'') None"

lemma example_log_key_valid: "valid_at example_log_key (lit ''2025-02-01T00:00:00Z'') = Inr True"
  using example_instants
  by (simp add: valid_at_window [of _ _ 63873964800000000] timed_def in_window_def example_log_key_def to_key_ref_def)

lemma checkpoint_signers_witness:
  "\<exists>cp. verify_checkpoint (default_registry echo_crypto) cp [(k_keyid example_log_key, example_log_key)] =
     Inr [k_owner_id example_log_key] \<and> c_signatures cp \<noteq> []"
proof -
  obtain m where m: "checkpoint_signable example_cp = Inr m" using example_cp_signable by blast
  let ?sig = "envelope_sig (k_keyid example_log_key) ([7] @ m)"
  let ?cp = "example_cp\<lparr>c_signatures := [?sig]\<rparr>"
  have "check_sig (default_registry echo_crypto) example_log_key ?sig m = Inr ()"
    using check_sig_Ed25519 [OF echo_correct, of "[7]" "u ''log-owner''" "u ''2025-01-01T00:00:00Z''" None "u ''log''" None
        "k_keyid example_log_key" m]
    by (simp add: example_log_key_def echo_crypto_def)
  moreover note example_log_key_valid
  ultimately have v: "verify_checkpoint (default_registry echo_crypto) ?cp [(k_keyid example_log_key, example_log_key)] =
      Inr [k_owner_id example_log_key]"
    using m by (intro verify_one_log_sig) (simp_all add: example_cp_def scoped_to_def example_log_key_def to_key_ref_def)
  show ?thesis using checkpoint_signers [OF v] v by (intro exI [of _ ?cp]) auto
qed

lemma signed_checkpoint_verifies_witness:
  "\<exists>cp'. sign_checkpoint_async example_cp (Ed25519Signer echo_crypto [7]) () = (Inr cp', ()) \<and>
     verify_checkpoint (default_registry echo_crypto) cp' [(k_keyid example_log_key, example_log_key)] =
       Inr [u ''log-owner'']"
proof -
  obtain m where m: "checkpoint_signable example_cp = Inr m" using example_cp_signable by blast
  obtain cp' where s: "sign_checkpoint_async example_cp (Ed25519Signer echo_crypto [7]) () = (Inr cp', ())"
    using m by (simp add: sign_checkpoint_async_def sign_with_def Ed25519Signer_def mbind_def mlift_def mret_def
        append_sig)
  have k: "example_log_key = to_key_ref \<lparr>m_scheme = ED25519, m_public = priv_public_raw echo_crypto [7]\<rparr>
      (u ''log-owner'') (u ''2025-01-01T00:00:00Z'') None (u ''log'') None"
    by (simp add: example_log_key_def echo_crypto_def)
  show ?thesis
    using signed_checkpoint_verifies [OF echo_correct s _ k, of "[(k_keyid example_log_key, example_log_key)]"]
      s example_log_key_valid
    by (simp add: example_cp_def example_log_key_def to_key_ref_def scoped_to_def)
qed

end

