(* ===== verification/Stores.thy ===== *)
theory Stores
  imports Chain Projection Checkpoints
begin

section \<open>The storage protocols\<close>

text \<open>
  \<^verbatim>\<open>src/approvo/stores/base.py\<close>.  A store is a record of its operations over a world \<open>'s\<close>, which
  holds the database and whatever else the process shares.  The MUSTs of the docstrings are the
  assumptions of the locales: \<open>event_store_contract\<close> for a log that other processes write to as
  well, \<open>single_writer\<close> for one that nobody else writes to, \<open>projection_contract\<close> and
  \<open>idempotency_contract\<close>.
\<close>

record Reservation =
  rs_won :: bool
  rs_fingerprint :: pstr
  rs_response :: pyval

record 's event_store =
  es_log_id :: pstr
  es_head :: "('s, exn, LedgerEntry option) eff"
  es_append :: "LedgerEntry \<Rightarrow> ('s, exn, unit) eff"
  es_get_by_seq :: "int \<Rightarrow> ('s, exn, LedgerEntry option) eff"
  es_events_for_request :: "pyval \<Rightarrow> ('s, exn, LedgerEntry list) eff"
  es_scan :: "int \<Rightarrow> int option \<Rightarrow> ('s, exn, LedgerEntry list \<times> exn option) eff"
  es_leaf_hashes :: "int option \<Rightarrow> ('s, exn, pstr list) eff"
  es_latest_checkpoint :: "('s, exn, Checkpoint option) eff"

text \<open>
  \<open>es_scan\<close> returns what the iterator yields and, when it fails part of the way, the exception
  that ends it.
\<close>

record 's projection_store =
  pj_upsert :: "RequestView \<Rightarrow> ('s, exn, unit) eff"
  pj_get :: "pyval \<Rightarrow> ('s, exn, RequestView option) eff"
  pj_query :: "RequestQuery \<Rightarrow> ('s, exn, RequestView Page) eff"
  pj_clear :: "('s, exn, unit) eff"

record 's idempotency_store =
  id_reserve :: "pyval \<Rightarrow> pstr \<Rightarrow> ('s, exn, Reservation) eff"
  id_complete :: "pyval \<Rightarrow> pyval \<Rightarrow> ('s, exn, unit) eff"
  id_release :: "pyval \<Rightarrow> ('s, exn, unit) eff"

definition NullProjectionStore :: "'s projection_store" where
  "NullProjectionStore =
     \<lparr>pj_upsert = (\<lambda>view. mret ()), pj_get = (\<lambda>request_id. mret None),
      pj_query = (\<lambda>query. mret \<lparr>pg_items = [], pg_next_cursor = None\<rparr>), pj_clear = mret ()\<rparr>"

subsection \<open>What every database can hold\<close>

text \<open>JSON without floats comes back as it was stored; a tuple would come back as an array.\<close>

fun tuple_free :: "pyval \<Rightarrow> bool" where
  "tuple_free (PTuple _) = False"
| "tuple_free (PList xs) = list_all tuple_free xs"
| "tuple_free (PDict kvs) = list_all (\<lambda>(k, v). tuple_free v) kvs"
| "tuple_free _ = True"

definition storable :: "pyval \<Rightarrow> bool" where
  "storable v \<longleftrightarrow> jsonable v \<and> wf_val v \<and> tuple_free v"

lemma storable_atom [simp]: "storable (PStr s)" "storable (PInt n)" "storable PNone" "storable (PBool b)"
  by (simp_all add: storable_def)

text \<open>An entry as the protocol types it: a request id that is a string or none, and JSON beside it.\<close>

definition simple_id :: "pyval \<Rightarrow> bool" where
  "simple_id v \<longleftrightarrow> (case v of PNone \<Rightarrow> True | PStr _ \<Rightarrow> True | _ \<Rightarrow> False)"

definition simple_entry :: "LedgerEntry \<Rightarrow> bool" where
  "simple_entry e \<longleftrightarrow> simple_id (e_request_id e) \<and> storable (e_recorded_at e) \<and> storable (e_payload e)"

subsection \<open>The contract of an event store\<close>

definition last_of :: "LedgerEntry list \<Rightarrow> LedgerEntry option" where
  "last_of xs = (if xs = [] then None else Some (last xs))"

definition last_published :: "LedgerEntry list \<Rightarrow> exn + Checkpoint option" where
  "last_published xs = (case filter (\<lambda>e. e_event_type e = u ''checkpoint.published'') xs of
       [] \<Rightarrow> Inr None
     | e # es \<Rightarrow> sbind (Checkpoint_from_dict (e_payload (last (e # es)))) (\<lambda>cp. Inr (Some cp)))"

abbreviation intact :: "LedgerEntry list \<Rightarrow> bool" where
  "intact \<equiv> chained 0 ZERO_HASH"

text \<open>
  \<open>log s\<close> is the log in the world \<open>s\<close> and \<open>env xs ys\<close> says that other writers may take it
  from \<open>xs\<close> to \<open>ys\<close>: they only append, and keep an intact chain intact.  An operation sees one
  moment between the world before and the world after it.  A store refuses a slot that is taken, so
  an append at or before the end of the log that is seen succeeds only at the end; nothing is said of
  an append that would leave a gap.  An append that fails writes nothing.
\<close>

locale event_store_contract =
  fixes es :: "'s event_store" and log :: "'s \<Rightarrow> LedgerEntry list"
    and env :: "LedgerEntry list \<Rightarrow> LedgerEntry list \<Rightarrow> bool" and ok :: "'s \<Rightarrow> bool"
  assumes env_refl: "env xs xs"
    and env_trans: "env xs ys \<Longrightarrow> env ys zs \<Longrightarrow> env xs zs"
    and env_prefix: "env xs ys \<Longrightarrow> prefix xs ys"
    and env_intact: "env xs ys \<Longrightarrow> intact xs \<Longrightarrow> intact ys"
    and head: "ok s \<Longrightarrow> es_head es s = (rh, t) \<Longrightarrow>
      ok t \<and> (\<exists>xs. env (log s) xs \<and> env xs (log t) \<and> (\<forall>h. rh = Inr h \<longrightarrow> h = last_of xs))"
    and append_done: "ok s \<Longrightarrow> hashable (e_request_id e) \<Longrightarrow> 0 \<le> e_seq e \<Longrightarrow> e_seq e \<le> int (length (log s)) \<Longrightarrow>
      es_append es e s = (Inr v, t) \<Longrightarrow> ok t \<and> (\<exists>xs. env (log s) xs \<and> e_seq e = int (length xs) \<and> env (xs @ [e]) (log t))"
    and append_failed: "ok s \<Longrightarrow> hashable (e_request_id e) \<Longrightarrow> es_append es e s = (Inl x, t) \<Longrightarrow> ok t \<and> env (log s) (log t)"
    and get_by_seq: "ok s \<Longrightarrow> es_get_by_seq es n s = (rg, t) \<Longrightarrow>
      ok t \<and> (\<exists>xs. env (log s) xs \<and> env xs (log t) \<and>
        (\<forall>e. rg = Inr e \<longrightarrow> e = (if 0 \<le> n \<and> n < int (length xs) then Some (xs ! nat n) else None)))"
    and events_for_request: "ok s \<Longrightarrow> es_events_for_request es rid s = (re, t) \<Longrightarrow>
      ok t \<and> (\<exists>xs. env (log s) xs \<and> env xs (log t) \<and>
        (\<forall>ys. re = Inr ys \<longrightarrow> hashable rid \<and>
           (ys = filter (\<lambda>e. e_request_id e = rid) xs \<or> \<not> truthy rid \<and> ys = [])))"
    and scan: "ok s \<Longrightarrow> es_scan es start limit s = (rs, t) \<Longrightarrow>
      ok t \<and> (\<exists>xs. env (log s) xs \<and> env xs (log t) \<and>
        (\<forall>ys f. rs = Inr (ys, f) \<longrightarrow> 0 \<le> start \<longrightarrow>
           prefix ys (drop (nat start) xs) \<and>
           (f = None \<longrightarrow> (case limit of None \<Rightarrow> ys = drop (nat start) xs
                            | Some n \<Rightarrow> 0 < n \<longrightarrow> ys = take (nat n) (drop (nat start) xs)))))"
    and leaf_hashes: "ok s \<Longrightarrow> es_leaf_hashes es up_to s = (rl, t) \<Longrightarrow>
      ok t \<and> (\<exists>xs. env (log s) xs \<and> env xs (log t) \<and>
        (\<forall>hs. rl = Inr hs \<longrightarrow> (case up_to of None \<Rightarrow> hs = map e_entry_hash xs
                                | Some n \<Rightarrow> 0 \<le> n \<longrightarrow> hs = slice_to (map e_entry_hash xs) n)))"
    and latest_checkpoint: "ok s \<Longrightarrow> es_latest_checkpoint es s = (rc, t) \<Longrightarrow>
      ok t \<and> (\<exists>xs. env (log s) xs \<and> env xs (log t) \<and>
        (\<forall>c. rc = Inr c \<longrightarrow> last_published xs = Inr c))"
begin

text \<open>
  \<open>grows P xs ys\<close>: the log went from \<open>xs\<close> to \<open>ys\<close> by steps of other writers and by appends of
  entries that \<open>P\<close> allows at that point.
\<close>

inductive grows :: "(LedgerEntry list \<Rightarrow> LedgerEntry \<Rightarrow> bool) \<Rightarrow> LedgerEntry list \<Rightarrow> LedgerEntry list \<Rightarrow> bool"
  for P where
  others: "env xs ys \<Longrightarrow> grows P xs ys"
| add: "grows P xs ys \<Longrightarrow> P ys e \<Longrightarrow> env (ys @ [e]) zs \<Longrightarrow> grows P xs zs"

lemma grows_refl: "grows P xs xs"
  by (rule others) (rule env_refl)

lemma grows_env: "grows P xs ys \<Longrightarrow> env ys zs \<Longrightarrow> grows P xs zs"
  by (induction rule: grows.induct) (auto intro: others add env_trans)

lemma env_grows: "env xs ys \<Longrightarrow> grows P ys zs \<Longrightarrow> grows P xs zs"
  by (rotate_tac, induction rule: grows.induct) (auto intro: others add env_trans)

lemma grows_trans: "grows P ys zs \<Longrightarrow> grows P xs ys \<Longrightarrow> grows P xs zs"
  by (induction rule: grows.induct) (auto intro: add grows_env)

lemma grows_prefix: "grows P xs ys \<Longrightarrow> prefix xs ys"
proof (induction rule: grows.induct)
  case (add xs ys e zs)
  then have "prefix ys zs" using env_prefix append_prefixD by blast
  with add.IH show ?case by (rule prefix_order.trans)
qed (rule env_prefix)

lemma grows_mono: "grows P xs ys \<Longrightarrow> (\<And>zs e. P zs e \<Longrightarrow> Q zs e) \<Longrightarrow> grows Q xs ys"
  by (induction rule: grows.induct) (auto intro: others grows.add)

text \<open>A property of logs that other writers keep and allowed appends keep is kept.\<close>

lemma grows_invariant:
  assumes "grows P xs ys" "I xs" "\<And>zs ws. env zs ws \<Longrightarrow> I zs \<Longrightarrow> I ws" "\<And>zs e. P zs e \<Longrightarrow> I zs \<Longrightarrow> I (zs @ [e])"
  shows "I ys"
  using assms(1,2) by (induction rule: grows.induct) (use assms(3,4) in blast)+

text \<open>
  What an operation may do to the log once \<open>base\<close> is a part of it: whatever it returns or raises,
  the world stays good, the chain intact, and the log grew only by what \<open>P\<close> allows.
\<close>

definition holds ::
  "LedgerEntry list \<Rightarrow> (LedgerEntry list \<Rightarrow> LedgerEntry \<Rightarrow> bool) \<Rightarrow> ('s, exn, 'a) eff \<Rightarrow> bool" where
  "holds base P m \<longleftrightarrow> (\<forall>s r t. ok s \<longrightarrow> intact (log s) \<longrightarrow> prefix base (log s) \<longrightarrow> m s = (r, t) \<longrightarrow>
     ok t \<and> intact (log t) \<and> grows P (log s) (log t))"

lemma holdsI:
  "(\<And>s r t. ok s \<Longrightarrow> intact (log s) \<Longrightarrow> prefix base (log s) \<Longrightarrow> m s = (r, t) \<Longrightarrow>
      ok t \<and> intact (log t) \<and> grows P (log s) (log t)) \<Longrightarrow> holds base P m"
  unfolding holds_def by blast

lemma holdsD:
  assumes "holds base P m" "ok s" "intact (log s)" "prefix base (log s)" "m s = (r, t)"
  shows "ok t" "intact (log t)" "grows P (log s) (log t)" "prefix base (log t)"
proof -
  show "ok t" "intact (log t)" and g: "grows P (log s) (log t)" using assms unfolding holds_def by blast+
  show "prefix base (log t)" using assms(4) grows_prefix [OF g] by (rule prefix_order.trans)
qed

text \<open>Anything but an append: time may pass, and nothing else happens to the log.\<close>

definition quiet :: "('s, exn, 'a) eff \<Rightarrow> bool" where
  "quiet m \<longleftrightarrow> (\<forall>s r t. ok s \<longrightarrow> m s = (r, t) \<longrightarrow> ok t \<and> env (log s) (log t))"

lemma quiet_holds [intro]: "quiet m \<Longrightarrow> holds base P m"
  by (rule holdsI) (auto simp: quiet_def intro: others env_intact)

lemma quiet_simps [intro, simp]: "quiet (mret x)" "quiet (mraise e)" "quiet (mlift q)"
  by (auto simp: quiet_def mret_def mraise_def mlift_def env_refl)

lemma quiet_mbind [intro!]: "quiet m \<Longrightarrow> (\<And>x. quiet (f x)) \<Longrightarrow> quiet (mbind m f)"
proof -
  assume m: "quiet m" and f: "\<And>x. quiet (f x)"
  have "ok t \<and> env (log s) (log t)" if s: "ok s" and run: "mbind m f s = (r, t)" for s r t
  proof -
    obtain q s' where q: "m s = (q, s')" by (cases "m s")
    then have s': "ok s'" "env (log s) (log s')" using m s unfolding quiet_def by blast+
    show ?thesis
    proof (cases q)
      case (Inr x)
      then have "f x s' = (r, t)" using run q by (simp add: mbind_def)
      then have "ok t" "env (log s') (log t)" using f s'(1) unfolding quiet_def by blast+
      then show ?thesis using s'(2) env_trans by blast
    qed (use run q s' in \<open>simp add: mbind_def\<close>)
  qed
  then show "quiet (mbind m f)" unfolding quiet_def by blast
qed

lemma quiet_mcatch [intro!]: "quiet m \<Longrightarrow> (\<And>e. quiet (h e)) \<Longrightarrow> quiet (mcatch m h)"
proof -
  assume m: "quiet m" and h: "\<And>e. quiet (h e)"
  have "ok t \<and> env (log s) (log t)" if s: "ok s" and run: "mcatch m h s = (r, t)" for s r t
  proof -
    obtain q s' where q: "m s = (q, s')" by (cases "m s")
    then have s': "ok s'" "env (log s) (log s')" using m s unfolding quiet_def by blast+
    show ?thesis
    proof (cases q)
      case (Inl e)
      then have "h e s' = (r, t)" using run q by (simp add: mcatch_def)
      then have "ok t" "env (log s') (log t)" using h s'(1) unfolding quiet_def by blast+
      then show ?thesis using s'(2) env_trans by blast
    qed (use run q s' in \<open>simp add: mcatch_def\<close>)
  qed
  then show "quiet (mcatch m h)" unfolding quiet_def by blast
qed

lemma quiet_mfor [intro!]: "(\<And>x b. quiet (body x b)) \<Longrightarrow> quiet (mfor xs body acc)"
  by (induction xs arbitrary: acc) auto

lemma quiet_cases [intro!]:
  "quiet a \<Longrightarrow> quiet b \<Longrightarrow> quiet (if c then a else b)"
  "(z = None \<Longrightarrow> quiet a) \<Longrightarrow> (\<And>x. z = Some x \<Longrightarrow> quiet (f x)) \<Longrightarrow> quiet (case_option a f z)"
  "(\<And>x y. quiet (g x y)) \<Longrightarrow> quiet (case_prod g w)"
  "(\<And>x. quiet (h x)) \<Longrightarrow> (\<And>x. quiet (k x)) \<Longrightarrow> quiet (case_sum h k v)"
  by (auto split: option.split prod.split sum.split)

lemma quiet_read:
  assumes "\<And>s r t. ok s \<Longrightarrow> m s = (r, t) \<Longrightarrow> ok t \<and> (\<exists>xs. env (log s) xs \<and> env xs (log t) \<and> Q xs r)"
  shows "quiet m"
  unfolding quiet_def using assms env_trans by blast

lemma quiet_reads [intro, simp]:
  "quiet (es_head es)" "quiet (es_get_by_seq es n)" "quiet (es_events_for_request es rid)"
  "quiet (es_scan es start limit)" "quiet (es_leaf_hashes es up_to)" "quiet (es_latest_checkpoint es)"
  by (rule quiet_read, rule head get_by_seq events_for_request scan leaf_hashes latest_checkpoint, assumption+)+

lemma holds_mbind_read:
  assumes "holds base P m"
    and "\<And>s x t. ok s \<Longrightarrow> prefix base (log s) \<Longrightarrow> m s = (Inr x, t) \<Longrightarrow> \<exists>base'. prefix base' (log t) \<and> holds base' P (f x)"
  shows "holds base P (mbind m f)"
proof (rule holdsI)
  fix s r t assume s: "ok s" "intact (log s)" "prefix base (log s)" and run: "mbind m f s = (r, t)"
  obtain q s' where m: "m s = (q, s')" by (cases "m s")
  note h = holdsD [OF assms(1) s m]
  show "ok t \<and> intact (log t) \<and> grows P (log s) (log t)"
  proof (cases q)
    case (Inr x)
    then obtain base' where b: "prefix base' (log s')" "holds base' P (f x)" using assms(2) s m by blast
    have "f x s' = (r, t)" using run m Inr by (simp add: mbind_def)
    from holdsD [OF b(2) h(1,2) b(1) this] h(3) show ?thesis using grows_trans by blast
  qed (use run m h in \<open>simp add: mbind_def\<close>)
qed

lemma holds_mbind [intro!]:
  assumes "holds base P m" "\<And>x. holds base P (f x)"
  shows "holds base P (mbind m f)"
proof (rule holdsI)
  fix s r t assume s: "ok s" "intact (log s)" "prefix base (log s)" and run: "mbind m f s = (r, t)"
  obtain q s' where m: "m s = (q, s')" by (cases "m s")
  note h = holdsD [OF assms(1) s m]
  show "ok t \<and> intact (log t) \<and> grows P (log s) (log t)"
  proof (cases q)
    case (Inr x)
    then have "f x s' = (r, t)" using run m by (simp add: mbind_def)
    from holdsD [OF assms(2) h(1,2,4) this] h(3) show ?thesis using grows_trans by blast
  qed (use run m h in \<open>simp add: mbind_def\<close>)
qed

lemma holds_mcatch [intro!]:
  assumes "holds base P m" "\<And>e. holds base P (h e)"
  shows "holds base P (mcatch m h)"
proof (rule holdsI)
  fix s r t assume s: "ok s" "intact (log s)" "prefix base (log s)" and run: "mcatch m h s = (r, t)"
  obtain q s' where m: "m s = (q, s')" by (cases "m s")
  note d = holdsD [OF assms(1) s m]
  show "ok t \<and> intact (log t) \<and> grows P (log s) (log t)"
  proof (cases q)
    case (Inl e)
    then have "h e s' = (r, t)" using run m by (simp add: mcatch_def)
    from holdsD [OF assms(2) d(1,2,4) this] d(3) show ?thesis using grows_trans by blast
  qed (use run m d in \<open>simp add: mcatch_def\<close>)
qed

lemma holds_mfor [intro!]: "(\<And>x b. holds base P (body x b)) \<Longrightarrow> holds base P (mfor xs body acc)"
  by (induction xs arbitrary: acc) auto

lemma holds_cases [intro!]:
  "holds base P a \<Longrightarrow> holds base P b \<Longrightarrow> holds base P (if c then a else b)"
  "(z = None \<Longrightarrow> holds base P a) \<Longrightarrow> (\<And>x. z = Some x \<Longrightarrow> holds base P (f x)) \<Longrightarrow> holds base P (case_option a f z)"
  by (auto split: option.split)

text \<open>The optimistic append: an entry made for a head that was read lands exactly after that head.\<close>

lemma append_lands:
  assumes ok: "ok s" and intact: "intact xs" and seen: "env xs (log s)"
    and entry: "next_entry (last_of xs) ty pl t rid = Inr e" and rid: "hashable rid" and app: "es_append es e s = (Inr v, s')"
  shows "ok s' \<and> xs = log s \<and> intact (xs @ [e]) \<and> env (xs @ [e]) (log s')"
proof -
  have new: "intact (xs @ [e])"
    using next_entry_log [OF intact] entry by (simp add: last_of_def split: if_splits)
  then have seq: "e_seq e = int (length xs)" by (simp add: chained_append)
  have "length xs \<le> length (log s)" using prefix_length_le env_prefix [OF seen] by blast
  with seq obtain ys where ys: "ok s'" "env (log s) ys" "e_seq e = int (length ys)" "env (ys @ [e]) (log s')"
    using append_done [OF ok _ _ _ app] next_entry_Inr [OF entry] rid by auto
  then have len: "length ys = length xs" using seq by simp
  have p: "prefix xs (log s)" "prefix (log s) ys" using env_prefix seen ys(2) by blast+
  then have "prefix xs ys" by (rule prefix_order.trans)
  with len have "xs = ys" by (auto simp: prefix_def)
  with p have "xs = log s" "ys = log s" using prefix_order.antisym by blast+
  then show ?thesis using ys new by simp
qed

end

text \<open>A log with one writer: nothing happens to it but what the caller does, and no operation fails.\<close>

locale single_writer = event_store_contract es log "(=)" ok
  for es :: "'s event_store" and log :: "'s \<Rightarrow> LedgerEntry list" and ok :: "'s \<Rightarrow> bool" +
  assumes head_total: "ok s \<Longrightarrow> \<exists>h t. es_head es s = (Inr h, t)"
    and append_total: "ok s \<Longrightarrow> hashable (e_request_id e) \<Longrightarrow> e_seq e = int (length (log s)) \<Longrightarrow> \<exists>t. es_append es e s = (Inr (), t)"
    and append_conflict: "ok s \<Longrightarrow> hashable (e_request_id e) \<Longrightarrow> 0 \<le> e_seq e \<Longrightarrow> e_seq e < int (length (log s)) \<Longrightarrow> \<exists>t. es_append es e s = (Inl LedgerConflict, t)"
    and events_total: "ok s \<Longrightarrow> hashable rid \<Longrightarrow> \<exists>ys t. es_events_for_request es rid s = (Inr ys, t)"
    and scan_none: "ok s \<Longrightarrow> 0 \<le> start \<Longrightarrow> es_scan es start (Some 0) s = (Inr (ys, None), t) \<Longrightarrow> ys = []"
    and leaf_hashes_end: "ok s \<Longrightarrow> n < 0 \<Longrightarrow> es_leaf_hashes es (Some n) s = (Inr hs, t) \<Longrightarrow>
      hs = slice_to (map e_entry_hash (log s)) n"
begin

lemma leaf_hashes_slice:
  "ok s \<Longrightarrow> es_leaf_hashes es (Some n) s = (Inr hs, t) \<Longrightarrow> ok t \<and> log t = log s \<and> hs = slice_to (map e_entry_hash (log s)) n"
  using leaf_hashes [of s "Some n" "Inr hs" t] leaf_hashes_end [of s n hs t] by (cases "n < 0") auto

lemma head_reads: "ok s \<Longrightarrow> \<exists>t. es_head es s = (Inr (last_of (log s)), t) \<and> ok t \<and> log t = log s"
  using head head_total by metis

lemma events_read:
  assumes "ok s" "hashable rid" "truthy rid"
  shows "\<exists>t. es_events_for_request es rid s = (Inr (filter (\<lambda>e. e_request_id e = rid) (log s)), t) \<and> ok t \<and> log t = log s"
  using events_total [OF assms(1,2)] events_for_request [OF assms(1)] assms(3) by metis

lemma append_extends:
  assumes "ok s" "hashable (e_request_id e)" "e_seq e = int (length (log s))"
  shows "\<exists>t. es_append es e s = (Inr (), t) \<and> ok t \<and> log t = log s @ [e]"
  using append_total [OF assms] append_done [OF assms(1,2)] assms(3)
  by (metis dual_order.refl of_nat_0_le_iff)

end

subsection \<open>Projections and idempotency\<close>

text \<open>
  \<open>views s\<close> is the stored view of each request.  An upsert replaces it unless the stored one is
  further along the log.
\<close>

locale projection_contract =
  fixes pj :: "'s projection_store" and views :: "'s \<Rightarrow> pstr \<Rightarrow> RequestView option"
  assumes upsert: "pj_upsert pj v s = (Inr w, t) \<Longrightarrow>
      views t = (case views s (v_request_id v) of
          Some old \<Rightarrow> if v_last_seq v < v_last_seq old then views s else (views s)(v_request_id v \<mapsto> v)
        | None \<Rightarrow> (views s)(v_request_id v \<mapsto> v))"
    and upsert_failed: "pj_upsert pj v s = (Inl x, t) \<Longrightarrow> views t = views s"
    and view_of: "pj_get pj (PStr rid) s = (Inr found, t) \<Longrightarrow> found = views s rid \<and> views t = views s"
    and clear: "pj_clear pj s = (Inr w, t) \<Longrightarrow> views t = Map.empty"
begin

text \<open>How far along the log the view of a request is; \<open>- 1\<close> without one.\<close>

definition reached :: "'s \<Rightarrow> pstr \<Rightarrow> int" where
  "reached s rid = (case views s rid of None \<Rightarrow> - 1 | Some v \<Rightarrow> max (- 1) (v_last_seq v))"

lemma upsert_forwards: "pj_upsert pj v s = (r, t) \<Longrightarrow> reached s rid \<le> reached t rid"
  using upsert upsert_failed by (cases r) (auto simp: reached_def split: option.splits if_splits)

lemma upserts_forwards:
  "mfor vs (\<lambda>v _. pj_upsert pj v) () s = (r, t) \<Longrightarrow> reached s rid \<le> reached t rid"
proof (induction vs arbitrary: s)
  case (Cons v vs)
  obtain q s' where q: "pj_upsert pj v s = (q, s')" by (cases "pj_upsert pj v s")
  show ?case
  proof (cases q)
    case (Inr w)
    then have "mfor vs (\<lambda>v _. pj_upsert pj v) () s' = (r, t)" using Cons.prems q by (simp add: mbind_def)
    with Cons.IH upsert_forwards [OF q, of rid] show ?thesis by (meson order_trans)
  qed (use Cons.prems upsert_forwards [OF q] q in \<open>simp add: mbind_def\<close>)
qed (simp add: mret_def)

end

text \<open>\<open>slots s\<close> is what is stored under each key: a fingerprint and the response, \<open>None\<close> until complete.\<close>

locale idempotency_contract =
  fixes idem :: "'s idempotency_store" and slots :: "'s \<Rightarrow> pyval \<Rightarrow> (pstr \<times> pyval) option"
  assumes reserve: "hashable key \<Longrightarrow> \<exists>t. id_reserve idem key fp s =
      (case slots s key of
         None \<Rightarrow> (Inr \<lparr>rs_won = True, rs_fingerprint = fp, rs_response = PNone\<rparr>, t)
       | Some (fp', resp) \<Rightarrow>
           (if fp' \<noteq> fp then (Inl IdempotencyConflict, t)
            else (Inr \<lparr>rs_won = False, rs_fingerprint = fp, rs_response = resp\<rparr>, t))) \<and>
      slots t = (case slots s key of None \<Rightarrow> (slots s)(key \<mapsto> (fp, PNone)) | Some sl \<Rightarrow> slots s)"
    and complete: "hashable key \<Longrightarrow> slots s key = Some (fp, resp0) \<Longrightarrow>
      \<exists>t. id_complete idem key resp s = (Inr (), t) \<and> slots t = (slots s)(key \<mapsto> (fp, resp))"
    and release: "hashable key \<Longrightarrow> \<exists>t. id_release idem key s = (Inr (), t) \<and> slots t = (slots s)(key := None)"
begin

text \<open>One winner: a reservation is won only on a free key, and the key is taken from then on.\<close>

lemma reserve_won:
  assumes "hashable key" "id_reserve idem key fp s = (Inr rv, t)"
  shows "rs_won rv \<longleftrightarrow> slots s key = None" "slots t key \<noteq> None"
  using reserve [OF assms(1), of fp s] assms(2) by (auto split: option.splits if_splits)

lemma second_reserve_loses:
  assumes "hashable key" "id_reserve idem key fp s = (Inr rv, s')" "id_reserve idem key fp' s' = (Inr rv', t)"
  shows "\<not> rs_won rv'"
  using reserve_won [OF assms(1,2)] reserve_won [OF assms(1,3)] by simp

end

end
