(* ===== verification/Service.thy ===== *)
theory Service
  imports Stores
begin

section \<open>The approval service\<close>

text \<open>
  \<^verbatim>\<open>src/approvo/service.py\<close>.  \<open>ApprovalService\<close> is the record of what the constructor is given;
  each coroutine is a function of it that runs in the world \<open>'s\<close> of the injected stores, clock and
  signing backend.  \<open>sv_sleep\<close> is the back-off between two attempts to append, during which other
  tasks run.  A log line of \<open>verify\<close> is a \<open>Check\<close> (\<open>Models\<close>).
\<close>

subsection \<open>Signing contexts\<close>

datatype SigningPurpose = DECISION | CHECKPOINT

record SigningContext =
  sc_log_id :: pyval
  sc_purpose :: SigningPurpose
  sc_kind :: pyval
  sc_policy_id :: pyval
  sc_approver_id :: pyval

text \<open>What the service uses of an injected \<open>SigningService\<close>.\<close>

record 's signing =
  sn_sign_decision :: "Decision \<Rightarrow> SigningContext \<Rightarrow> ('s, exn, pyval) eff"
  sn_sign_checkpoint :: "Checkpoint \<Rightarrow> ('s, exn, Checkpoint) eff"

datatype 's projections = NoProjections | Projections "'s projection_store"

record ('s, 'k) ApprovalService =
  sv_events :: "'s event_store"
  sv_key_dir :: KeyDirectory
  sv_identities :: Identities
  sv_policy :: "pyval \<Rightarrow> exn + Policy"
  sv_projections :: "'s projections"
  sv_idempotency :: "'s idempotency_store option"
  sv_now :: "('s, exn, pstr) eff"
  sv_signing :: "'s signing option"
  sv_log_signer :: "'s signer option"
  sv_append_attempts :: int
  sv_challenge_ttl :: int
  sv_max_clock_skew :: int
  sv_sleep :: "nat \<Rightarrow> ('s, exn, unit) eff"
  sv_registry :: "'k registry"
  sv_runtime :: runtime

definition DEFAULT_APPEND_ATTEMPTS :: int where
  "DEFAULT_APPEND_ATTEMPTS = 8"

definition DEFAULT_CHALLENGE_TTL :: int where
  "DEFAULT_CHALLENGE_TTL = 10 * 60 * 1000000"

definition DEFAULT_CLOCK_SKEW :: int where
  "DEFAULT_CLOCK_SKEW = 5 * 60 * 1000000"

text \<open>The projection store of the service; without one it is the null store.\<close>

definition projections_of :: "('s, 'k) ApprovalService \<Rightarrow> 's projection_store" where
  "projections_of sv = (case sv_projections sv of NoProjections \<Rightarrow> NullProjectionStore | Projections p \<Rightarrow> p)"

definition log_id_of :: "('s, 'k) ApprovalService \<Rightarrow> pyval" where
  "log_id_of sv = PStr (es_log_id (sv_events sv))"

definition identity_known :: "('s, 'k) ApprovalService \<Rightarrow> pyval \<Rightarrow> exn + bool" where
  "identity_known sv approver_id =
     (if sv_identities sv = [] then Inr True
      else sbind (identities_get (sv_identities sv) approver_id) (\<lambda>i. Inr (i \<noteq> None)))"

subsection \<open>Internals\<close>

abbreviation ev :: "string \<Rightarrow> LedgerEntry \<Rightarrow> bool" where
  "ev ty e \<equiv> e_event_type e = u ty"

text \<open>\<open>_append\<close>: attempt \<open>i\<close>, with \<open>n\<close> attempts left.\<close>

fun append_from ::
  "('s, 'k) ApprovalService \<Rightarrow> pstr \<Rightarrow> pyval \<Rightarrow> pyval \<Rightarrow> pyval \<Rightarrow> nat \<Rightarrow> nat \<Rightarrow> ('s, exn, LedgerEntry) eff" where
  "append_from sv event_type payload at_time rid i 0 = mraise AssertionError"
| "append_from sv event_type payload at_time rid i (Suc n) =
     mbind (es_head (sv_events sv)) (\<lambda>prev.
     mbind (mlift (next_entry prev event_type payload at_time rid)) (\<lambda>entry.
     mcatch (mbind (es_append (sv_events sv) entry) (\<lambda>_. mret entry))
       (\<lambda>e. if isinstance e LedgerConflict then
              (if n = 0 then mraise ConcurrencyExhausted
               else mbind (sv_sleep sv i) (\<lambda>_. append_from sv event_type payload at_time rid (Suc i) n))
            else mraise e)))"

definition append_event ::
  "('s, 'k) ApprovalService \<Rightarrow> pstr \<Rightarrow> pyval \<Rightarrow> pyval \<Rightarrow> pyval \<Rightarrow> ('s, exn, LedgerEntry) eff" where
  "append_event sv event_type payload at_time rid =
     append_from sv event_type payload at_time rid 0 (nat (sv_append_attempts sv))"

definition created_request :: "LedgerEntry list \<Rightarrow> exn + ApprovalRequest option" where
  "created_request es = (case find (ev ''request.created'') es of
       None \<Rightarrow> Inr None
     | Some e \<Rightarrow> sbind (Request_from_dict (e_payload e)) (\<lambda>r. Inr (Some r)))"

definition load_request :: "('s, 'k) ApprovalService \<Rightarrow> pyval \<Rightarrow> ('s, exn, ApprovalRequest option) eff" where
  "load_request sv rid =
     mbind (es_events_for_request (sv_events sv) rid) (\<lambda>es. mlift (created_request es))"

definition require_request :: "('s, 'k) ApprovalService \<Rightarrow> pyval \<Rightarrow> ('s, exn, ApprovalRequest) eff" where
  "require_request sv rid = mbind (load_request sv rid) (\<lambda>r.
     case r of None \<Rightarrow> mraise RequestNotFound | Some request \<Rightarrow> mret request)"

definition decision_of :: "pyval \<Rightarrow> exn + Decision" where
  "decision_of envelope = sbind (unwrap_payload envelope) Decision_from_dict"

definition authorized :: "('s, 'k) ApprovalService \<Rightarrow> pyval \<Rightarrow> Decision \<Rightarrow> exn + bool" where
  "authorized sv envelope d =
     sbind (identity_known sv (d_approver_id d)) (\<lambda>known.
     decision_authorized (sv_registry sv) envelope (d_approver_id d) (log_id_of sv) (sv_key_dir sv)
       (d_decided_at d) known)"

fun authorized_decisions :: "('s, 'k) ApprovalService \<Rightarrow> LedgerEntry list \<Rightarrow> exn + Decision list" where
  "authorized_decisions sv [] = Inr []"
| "authorized_decisions sv (e # es) =
     (if \<not> ev ''decision.recorded'' e then authorized_decisions sv es
      else sbind (decision_of (e_payload e)) (\<lambda>d.
           sbind (authorized sv (e_payload e) d) (\<lambda>ok.
           sbind (authorized_decisions sv es) (\<lambda>out. Inr (if ok then d # out else out)))))"

definition decisions_for :: "('s, 'k) ApprovalService \<Rightarrow> ApprovalRequest \<Rightarrow> ('s, exn, Decision list) eff" where
  "decisions_for sv request =
     mbind (mlift (request_id request)) (\<lambda>rid.
     mbind (es_events_for_request (sv_events sv) (PStr rid)) (\<lambda>es. mlift (authorized_decisions sv es)))"

definition recompute ::
  "('s, 'k) ApprovalService \<Rightarrow> ApprovalRequest \<Rightarrow> pyval \<Rightarrow> ('s, exn, Record) eff" where
  "recompute sv request at_time =
     mbind (mlift (sv_policy sv (r_policy_id request))) (\<lambda>policy.
     mbind (mlift (policy_digest policy)) (\<lambda>digest.
     if PStr digest \<noteq> r_policy_digest request then mraise PolicyMismatch
     else mbind (decisions_for sv request) (\<lambda>decisions.
          mbind (mlift (evaluate (sv_runtime sv) request decisions policy (sv_identities sv) at_time)) (\<lambda>result.
          mret \<lparr>rec_request = request, rec_decisions = decisions, rec_status = p_status result,
                rec_policy_result = result\<rparr>))))"

fun last_status :: "pyval \<Rightarrow> LedgerEntry list \<Rightarrow> exn + pyval" where
  "last_status st [] = Inr st"
| "last_status st (e # es) =
     (if ev ''status.changed'' e then sbind (getdef (e_payload e) ''status'' PNone) (\<lambda>st'. last_status st' es)
      else last_status st es)"

definition last_recorded_status :: "('s, 'k) ApprovalService \<Rightarrow> pyval \<Rightarrow> ('s, exn, pyval) eff" where
  "last_recorded_status sv rid =
     mbind (es_events_for_request (sv_events sv) rid) (\<lambda>es. mlift (last_status PNone es))"

definition project ::
  "('s, 'k) ApprovalService \<Rightarrow> ApprovalRequest \<Rightarrow> pyval \<Rightarrow> int \<Rightarrow> Record option \<Rightarrow> ('s, exn, unit) eff" where
  "project sv request at_time last_seq record_given =
     (case sv_projections sv of NoProjections \<Rightarrow> mret ()
      | Projections store \<Rightarrow>
          mbind (case record_given of Some r \<Rightarrow> mret r | None \<Rightarrow> recompute sv request at_time) (\<lambda>record.
          mbind (mlift (sv_policy sv (r_policy_id request))) (\<lambda>policy.
          mbind (mlift (build_view record policy (sv_identities sv) last_seq at_time)) (\<lambda>view.
          pj_upsert store view))))"

subsection \<open>Requests\<close>

definition new_request ::
  "pyval \<Rightarrow> pyval \<Rightarrow> pyval \<Rightarrow> pyval \<Rightarrow> pyval \<Rightarrow> pyval \<Rightarrow> pstr \<Rightarrow> pstr \<Rightarrow> ApprovalRequest" where
  "new_request kind subject requested_by policy_id not_valid_after nonce digest now =
     \<lparr>r_kind = kind, r_subject = subject, r_requested_by = requested_by, r_policy_id = policy_id,
      r_policy_digest = PStr digest, r_created_at = PStr now, r_not_valid_after = not_valid_after,
      r_nonce = (if truthy nonce then nonce else lit ''''), r_schema = REQUEST_SCHEMA\<rparr>"

definition create_request ::
  "('s, 'k) ApprovalService \<Rightarrow> pyval \<Rightarrow> pyval \<Rightarrow> pyval \<Rightarrow> pyval \<Rightarrow> pyval \<Rightarrow> pyval \<Rightarrow>
   ('s, exn, ApprovalRequest) eff" where
  "create_request sv kind subject requested_by policy_id not_valid_after nonce =
     mbind (mlift (sv_policy sv policy_id)) (\<lambda>policy.
     mbind (mlift (validate_subject policy subject)) (\<lambda>_.
     mbind (mlift (policy_digest policy)) (\<lambda>digest.
     mbind (sv_now sv) (\<lambda>now.
     let request = new_request kind subject requested_by policy_id not_valid_after nonce digest now
     in mbind (mlift (request_id request)) (\<lambda>rid.
        mbind (load_request sv (PStr rid)) (\<lambda>existing.
        case existing of Some r \<Rightarrow> mret r
        | None \<Rightarrow>
            mbind (mlift (Request_to_dict request)) (\<lambda>payload.
            mbind (append_event sv (u ''request.created'') payload (PStr now) (PStr rid)) (\<lambda>entry.
            mbind (project sv request (PStr now) (e_seq entry) None) (\<lambda>_. mret request)))))))))"

subsection \<open>Decisions\<close>

definition default_key :: "runtime \<Rightarrow> pyval \<Rightarrow> pyval \<Rightarrow> pyval \<Rightarrow> pyval" where
  "default_key R rid approver_id verdict =
     PStr (py_str R rid @ u '':'' @ py_str R approver_id @ u '':'' @ py_str R verdict)"

definition get_status :: "('s, 'k) ApprovalService \<Rightarrow> pyval \<Rightarrow> ('s, exn, Record) eff" where
  "get_status sv rid =
     mbind (require_request sv rid) (\<lambda>request.
     mbind (sv_now sv) (\<lambda>now. recompute sv request (PStr now)))"

definition status_payload :: "pstr \<Rightarrow> Record \<Rightarrow> pyval" where
  "status_payload rid record = PDict (items
     [(''request_id'', PStr rid), (''status'', PStr (rec_status record)),
      (''policy_result'', PolicyResult_to_dict (rec_policy_result record))])"

definition record_decision ::
  "('s, 'k) ApprovalService \<Rightarrow> ApprovalRequest \<Rightarrow> Decision \<Rightarrow> pyval \<Rightarrow> ('s, exn, Record) eff" where
  "record_decision sv request decision envelope =
     mbind (append_event sv (u ''decision.recorded'') envelope (d_decided_at decision) (d_request_id decision)) (\<lambda>entry.
     mbind (sv_now sv) (\<lambda>now.
     mbind (recompute sv request (PStr now)) (\<lambda>record.
     mbind (if rec_status record \<noteq> u ''pending'' then
              mbind (mlift (request_id request)) (\<lambda>rid.
              mbind (sv_now sv) (\<lambda>now'.
              mbind (append_event sv (u ''status.changed'') (status_payload rid record) (PStr now') (PStr rid))
                (\<lambda>status_entry. mret (e_seq status_entry))))
            else mret (e_seq entry)) (\<lambda>last_seq.
     mbind (sv_now sv) (\<lambda>now''.
     mbind (project sv request (PStr now'') last_seq (Some record)) (\<lambda>_. mret record))))))"

text \<open>The decision inside a submitted envelope; what is malformed is a bad signature.\<close>

definition parse_decision :: "pyval \<Rightarrow> exn + Decision" where
  "parse_decision envelope = (case decision_of envelope of
       Inl e \<Rightarrow> Inl (if isinstance_any e [KeyError, ValueError, TypeError] then SignatureInvalid else e)
     | Inr d \<Rightarrow> Inr d)"

text \<open>The checks before anything is recorded.\<close>

definition admissible ::
  "('s, 'k) ApprovalService \<Rightarrow> ApprovalRequest \<Rightarrow> Decision \<Rightarrow> pyval \<Rightarrow> pstr \<Rightarrow> exn + unit" where
  "admissible sv request decision envelope now =
     sbind (parse_rfc3339 (d_decided_at decision)) (\<lambda>decided.
     sbind (sbind (parse_rfc3339 (PStr now)) (\<lambda>n. dt_add n (sv_max_clock_skew sv))) (\<lambda>latest_ok.
     sbind (dt_less latest_ok decided) (\<lambda>future.
     if future then Inl SignatureInvalid
     else sbind (sbind (parse_rfc3339 (r_not_valid_after request)) (\<lambda>n. dt_add n (sv_max_clock_skew sv))) (\<lambda>closes.
          sbind (dt_less closes decided) (\<lambda>closed.
          if closed then Inl ChallengeExpired
          else sbind (authorized sv envelope decision) (\<lambda>ok. ensure ok SignatureInvalid))))))"

text \<open>Recording under an idempotency key: the winner of the reservation records, the others only read.\<close>

definition decision_key :: "runtime \<Rightarrow> Decision \<Rightarrow> pyval" where
  "decision_key R d =
     (if truthy (d_idempotency_key d) then d_idempotency_key d
      else default_key R (d_request_id d) (d_approver_id d) (d_verdict d))"

definition record_once ::
  "('s, 'k) ApprovalService \<Rightarrow> ApprovalRequest \<Rightarrow> Decision \<Rightarrow> pyval \<Rightarrow> ('s, exn, Record) eff" where
  "record_once sv request decision envelope =
     mbind (mlift (canonical_hash (Decision_to_dict decision))) (\<lambda>fingerprint.
     case sv_idempotency sv of
       None \<Rightarrow> record_decision sv request decision envelope
     | Some idem \<Rightarrow>
         let key = decision_key (sv_runtime sv) decision
         in mbind (id_reserve idem key fingerprint) (\<lambda>reservation.
            if \<not> rs_won reservation then
              (if rs_response reservation = PNone then get_status sv (d_request_id decision)
               else mbind (mlift (subscr (rs_response reservation) ''request_id'')) (get_status sv))
            else
              mbind (mcatch (record_decision sv request decision envelope)
                       (\<lambda>e. mbind (id_release idem key) (\<lambda>_. mraise e))) (\<lambda>record.
              mbind (id_complete idem key (PDict (items [(''request_id'', d_request_id decision)])))
                (\<lambda>_. mret record))))"

definition check_and_record ::
  "('s, 'k) ApprovalService \<Rightarrow> pyval \<Rightarrow> Decision \<Rightarrow> ApprovalRequest \<Rightarrow> ('s, exn, Record) eff" where
  "check_and_record sv envelope decision request =
     mbind (mlift (context_digest request)) (\<lambda>cx.
     if d_context_digest decision \<noteq> PStr cx then mraise SignatureInvalid
     else
       mbind (sv_now sv) (\<lambda>now.
       mbind (mlift (admissible sv request decision envelope now)) (\<lambda>_.
       record_once sv request decision envelope)))"

definition submit_signed_decision :: "('s, 'k) ApprovalService \<Rightarrow> pyval \<Rightarrow> ('s, exn, Record) eff" where
  "submit_signed_decision sv envelope =
     mbind (mlift (parse_decision envelope)) (\<lambda>decision.
     mbind (require_request sv (d_request_id decision)) (\<lambda>request.
     check_and_record sv envelope decision request))"

definition new_decision ::
  "runtime \<Rightarrow> pyval \<Rightarrow> pstr \<Rightarrow> pyval \<Rightarrow> pyval \<Rightarrow> pstr \<Rightarrow> pyval \<Rightarrow> pyval \<Rightarrow> pyval \<Rightarrow> Decision" where
  "new_decision R rid cx verdict approver_id decided_at comment idempotency_key authn =
     \<lparr>d_request_id = rid, d_context_digest = PStr cx, d_verdict = verdict, d_approver_id = approver_id,
      d_decided_at = PStr decided_at, d_comment = comment,
      d_idempotency_key = (if truthy idempotency_key then idempotency_key
                           else default_key R rid approver_id verdict),
      d_authn = authn, d_schema = DECISION_SCHEMA\<rparr>"

definition submit_decision ::
  "('s, 'k) ApprovalService \<Rightarrow> pyval \<Rightarrow> pyval \<Rightarrow> pyval \<Rightarrow> 's signer option \<Rightarrow> pyval \<Rightarrow> pyval \<Rightarrow> pyval \<Rightarrow>
   ('s, exn, Record) eff" where
  "submit_decision sv rid approver_id verdict sg comment idempotency_key authn =
     mbind (require_request sv rid) (\<lambda>request.
     mbind (sv_now sv) (\<lambda>decided_at.
     mbind (mlift (context_digest request)) (\<lambda>cx.
     let decision = new_decision (sv_runtime sv) rid cx verdict approver_id decided_at comment
                      idempotency_key authn
     in mbind (case sg of
                 Some s \<Rightarrow> wrap_async (Decision_to_dict decision) DECISION_PAYLOAD_TYPE [s]
               | None \<Rightarrow> (case sv_signing sv of
                   Some sn \<Rightarrow> sn_sign_decision sn decision
                     \<lparr>sc_log_id = log_id_of sv, sc_purpose = DECISION, sc_kind = r_kind request,
                      sc_policy_id = r_policy_id request, sc_approver_id = approver_id\<rparr>
                 | None \<Rightarrow> mraise SignatureInvalid))
          (submit_signed_decision sv))))"

definition prepare_decision ::
  "('s, 'k) ApprovalService \<Rightarrow> pyval \<Rightarrow> pyval \<Rightarrow> pyval \<Rightarrow> pyval \<Rightarrow> pyval \<Rightarrow> ('s, exn, DecisionChallenge) eff" where
  "prepare_decision sv rid approver_id verdict comment idempotency_key =
     mbind (require_request sv rid) (\<lambda>request.
     mbind (sv_now sv) (\<lambda>decided_at.
     mbind (mlift (context_digest request)) (\<lambda>cx.
     let decision = new_decision (sv_runtime sv) rid cx verdict approver_id decided_at comment
                      idempotency_key PNone
     in mbind (mlift (canonical_bytes (Decision_to_dict decision))) (\<lambda>body.
        mbind (mlift (pae (PStr DECISION_PAYLOAD_TYPE) body)) (\<lambda>signable.
        mbind (mlift (sbind (sbind (parse_rfc3339 (PStr decided_at)) (\<lambda>t. dt_add t (sv_challenge_ttl sv)))
                        (to_rfc3339 (sv_runtime sv)))) (\<lambda>expires_at.
        mret \<lparr>ch_request_id = rid, ch_approver_id = approver_id, ch_verdict = verdict,
              ch_payload_type = PStr DECISION_PAYLOAD_TYPE, ch_payload_b64 = PStr (b64encode body),
              ch_pae_b64 = PStr (b64encode signable), ch_decided_at = PStr decided_at,
              ch_expires_at = PStr expires_at, ch_idempotency_key = d_idempotency_key decision\<rparr>))))))"

definition envelope_from_challenge :: "DecisionChallenge \<Rightarrow> pyval list \<Rightarrow> pyval" where
  "envelope_from_challenge challenge signatures = PDict (items
     [(''payloadType'', ch_payload_type challenge), (''payload'', ch_payload_b64 challenge),
      (''signatures'', PList signatures)])"

subsection \<open>Reads\<close>

definition get_view :: "('s, 'k) ApprovalService \<Rightarrow> pyval \<Rightarrow> ('s, exn, RequestView option) eff" where
  "get_view sv rid = pj_get (projections_of sv) rid"

definition query_views :: "('s, 'k) ApprovalService \<Rightarrow> RequestQuery option \<Rightarrow> ('s, exn, RequestView Page) eff" where
  "query_views sv q = pj_query (projections_of sv) (case q of Some r \<Rightarrow> r | None \<Rightarrow> default_query)"

text \<open>\<open>ids[i : i + n] for i in range(0, len(ids), n)\<close>\<close>

function batches :: "nat \<Rightarrow> 'a list \<Rightarrow> 'a list list" where
  "batches n xs = (if n = 0 \<or> xs = [] then [] else take n xs # batches n (drop n xs))"
  by pat_completeness auto
termination
  by (relation "measure (\<lambda>(n, xs). length xs)") auto

declare batches.simps [simp del]

lemma concat_batches: "0 < n \<Longrightarrow> concat (batches n xs) = xs"
  by (induction n xs rule: batches.induct) (subst batches.simps, simp)

definition created_ids :: "LedgerEntry list \<Rightarrow> pyval list" where
  "created_ids es =
     map e_request_id (filter (\<lambda>e. ev ''request.created'' e \<and> truthy (e_request_id e)) es)"

definition rebuild_one :: "('s, 'k) ApprovalService \<Rightarrow> pyval \<Rightarrow> pyval \<Rightarrow> int \<Rightarrow> ('s, exn, int) eff" where
  "rebuild_one sv now rid rebuilt =
     mbind (load_request sv rid) (\<lambda>found.
     case found of None \<Rightarrow> mret rebuilt
     | Some request \<Rightarrow>
         mbind (es_events_for_request (sv_events sv) rid) (\<lambda>es.
         mbind (project sv request now (if es = [] then 0 else Max (set (map e_seq es))) None) (\<lambda>_.
         mret (rebuilt + 1))))"

definition rebuild_projections :: "('s, 'k) ApprovalService \<Rightarrow> int \<Rightarrow> ('s, exn, int) eff" where
  "rebuild_projections sv batch_size =
     mbind (pj_clear (projections_of sv)) (\<lambda>_.
     mbind (es_scan (sv_events sv) 0 None) (\<lambda>(es, failed).
     case failed of Some e \<Rightarrow> mraise e
     | None \<Rightarrow>
         mbind (sv_now sv) (\<lambda>now.
         if batch_size = 0 then mraise ValueError
         else mfor (batches (nat batch_size) (created_ids es)) (\<lambda>batch. mfor batch (rebuild_one sv (PStr now))) 0)))"

subsection \<open>Checkpoints and verification\<close>

definition checkpoint :: "('s, 'k) ApprovalService \<Rightarrow> ('s, exn, Checkpoint) eff" where
  "checkpoint sv =
     mbind (es_leaf_hashes (sv_events sv) None) (\<lambda>leaves.
     mbind (es_latest_checkpoint (sv_events sv)) (\<lambda>previous.
     mbind (sv_now sv) (\<lambda>now.
     mbind (mlift (build_checkpoint leaves (log_id_of sv) (PStr now) previous)) (\<lambda>unsigned.
     mbind (case sv_signing sv of
              Some sn \<Rightarrow> sn_sign_checkpoint sn unsigned
            | None \<Rightarrow> (case sv_log_signer sv of
                Some sg \<Rightarrow> sign_checkpoint_async unsigned sg
              | None \<Rightarrow> mraise SignatureInvalid)) (\<lambda>cp.
     mbind (append_event sv (u ''checkpoint.published'') (Checkpoint_to_dict cp) (c_published_at cp) PNone)
       (\<lambda>_. mret cp))))))"

text \<open>What the loop over the segment collects, and the exception that stops it.\<close>

fun collect :: "LedgerEntry list \<Rightarrow> (pyval \<times> Decision) list \<times> pyval list \<times> exn option" where
  "collect [] = ([], [], None)"
| "collect (e # es) =
     (if ev ''decision.recorded'' e then
        (case decision_of (e_payload e) of
           Inl x \<Rightarrow> ([], [], Some x)
         | Inr d \<Rightarrow> (case collect es of (ds, ids, f) \<Rightarrow> ((e_payload e, d) # ds, ids, f)))
      else if ev ''request.created'' e \<and> truthy (e_request_id e) then
        (case collect es of (ds, ids, f) \<Rightarrow> (ds, e_request_id e # ids, f))
      else collect es)"

record walk =
  wk_checks :: "Check list"
  wk_last_seq :: int
  wk_decisions :: "(pyval \<times> Decision) list"
  wk_requests :: "pyval list"

definition chk :: "bool \<Rightarrow> description \<Rightarrow> Check" where
  "chk b descr = \<lparr>ck_ok = b, ck_description = descr\<rparr>"

definition walk_segment ::
  "int \<Rightarrow> pstr \<Rightarrow> exn + (LedgerEntry list \<times> exn option) \<Rightarrow> walk" where
  "walk_segment from_seq expected_prev scanned =
     (let (es, failed) = (case scanned of Inl x \<Rightarrow> ([], Some x) | Inr r \<Rightarrow> r);
          (decisions, requests, bad) = collect es;
          verdict = (case bad of Some x \<Rightarrow> Inl x
                     | None \<Rightarrow> (case failed of Some x \<Rightarrow> Inl x
                               | None \<Rightarrow> verify_segment es from_seq expected_prev))
      in (case verdict of
            Inl x \<Rightarrow> \<lparr>wk_checks = [chk False (Hash_chain_error x)], wk_last_seq = from_seq - 1,
                     wk_decisions = decisions, wk_requests = requests\<rparr>
          | Inr (last_seq, _) \<Rightarrow>
              \<lparr>wk_checks = [chk True (Hash_chain_intact from_seq last_seq)], wk_last_seq = last_seq,
               wk_decisions = decisions, wk_requests = requests\<rparr>))"

definition verify_published :: "('s, 'k) ApprovalService \<Rightarrow> ('s, exn, Check list) eff" where
  "verify_published sv =
     mbind (es_latest_checkpoint (sv_events sv)) (\<lambda>published.
     case published of None \<Rightarrow> mret []
     | Some cp \<Rightarrow>
         mbind (es_leaf_hashes (sv_events sv) (Some (c_tree_size cp))) (\<lambda>leaves.
         mbind (mlift (merkle_root leaves)) (\<lambda>root.
         mret [case verify_checkpoint (sv_registry sv) cp (sv_key_dir sv) of
                 Inr signers \<Rightarrow> chk True (Checkpoint_signed_by signers)
               | Inl x \<Rightarrow> chk False (Checkpoint_signature_error x),
               chk (PStr root = c_root_hash cp) (Merkle_root_matches (c_tree_size cp))])))"

definition verify_trusted :: "('s, 'k) ApprovalService \<Rightarrow> Checkpoint option \<Rightarrow> ('s, exn, Check list) eff" where
  "verify_trusted sv trusted_checkpoint =
     (case trusted_checkpoint of None \<Rightarrow> mret []
      | Some cp \<Rightarrow>
          mcatch
            (mbind (mlift (verify_checkpoint (sv_registry sv) cp (sv_key_dir sv))) (\<lambda>_.
             mbind (es_leaf_hashes (sv_events sv) (Some (c_tree_size cp))) (\<lambda>leaves.
             mbind (mlift (verify_consistency cp leaves)) (\<lambda>_.
             mret [chk True Extends_pinned_checkpoint]))))
            (\<lambda>x. mret [chk False (Pinned_checkpoint_error x)]))"

definition verify_decision ::
  "('s, 'k) ApprovalService \<Rightarrow> pyval \<times> Decision \<Rightarrow> Check list \<Rightarrow> ('s, exn, Check list) eff" where
  "verify_decision sv ed checks = (case ed of (envelope, decision) \<Rightarrow>
     mbind (load_request sv (d_request_id decision)) (\<lambda>found.
     case found of
       None \<Rightarrow> mret (checks @ [chk False (Decision_unknown_request (d_request_id decision))])
     | Some request \<Rightarrow>
         mbind (mlift (context_digest request)) (\<lambda>cx.
         mbind (mlift (verify_envelope (sv_registry sv) envelope (sv_key_dir sv) (d_decided_at decision))) (\<lambda>signers.
         mbind (mlift (authorized sv envelope decision)) (\<lambda>ok.
         mret (checks @
           [chk (d_context_digest decision = PStr cx)
              (Decision_bound (d_approver_id decision) (d_request_id decision)),
            chk ok (Decision_signature (d_approver_id decision)
              (d_approver_id decision \<in> set (map PStr signers)))]))))))"

definition verify_status ::
  "('s, 'k) ApprovalService \<Rightarrow> pyval \<Rightarrow> pyval \<Rightarrow> Check list \<Rightarrow> ('s, exn, Check list) eff" where
  "verify_status sv now rid checks =
     mbind (load_request sv rid) (\<lambda>found.
     case found of None \<Rightarrow> mret checks
     | Some request \<Rightarrow>
         mbind (mcatch (mbind (recompute sv request now) (\<lambda>r. mret (Inr r)))
                  (\<lambda>e. if isinstance e UnknownPolicy then mret (Inl (chk True (Status_not_checked rid)))
                       else if isinstance e PolicyMismatch then mret (Inl (chk False (Policy_mismatch e)))
                       else mraise e)) (\<lambda>outcome.
         case outcome of Inl c \<Rightarrow> mret (checks @ [c])
         | Inr recomputed \<Rightarrow>
             mbind (last_recorded_status sv rid) (\<lambda>recorded.
             mret (checks @
               [chk (recorded = PNone \<or> recorded = PStr (rec_status recomputed) \<or>
                     rec_status recomputed = u ''expired'')
                  (Status_reproducible rid (rec_status recomputed))]))))"

definition verify_log ::
  "('s, 'k) ApprovalService \<Rightarrow> Checkpoint option \<Rightarrow> int \<Rightarrow> int option \<Rightarrow> ('s, exn, VerificationReport) eff" where
  "verify_log sv trusted_checkpoint from_seq limit =
     mbind (es_get_by_seq (sv_events sv) from_seq) (\<lambda>first.
     let expected_prev = (case first of Some e \<Rightarrow> e_prev_hash e | None \<Rightarrow> ZERO_HASH) in
     mbind (\<lambda>s. case es_scan (sv_events sv) from_seq limit s of
                  (r, t) \<Rightarrow> (Inr (walk_segment from_seq expected_prev r), t)) (\<lambda>wk.
     mbind (verify_published sv) (\<lambda>published_checks.
     mbind (verify_trusted sv trusted_checkpoint) (\<lambda>trusted_checks.
     mbind (mfor (wk_decisions wk) (verify_decision sv)
              (wk_checks wk @ published_checks @ trusted_checks)) (\<lambda>decision_checks.
     mbind (sv_now sv) (\<lambda>now.
     mbind (mfor (wk_requests wk) (verify_status sv (PStr now)) decision_checks) (\<lambda>checks.
     mret \<lparr>vr_checks = checks, vr_from_seq = from_seq, vr_to_seq = max (wk_last_seq wk) from_seq\<rparr>)))))))"

end
