(* ===== verification/Guarantees.thy ===== *)
theory Guarantees
  imports Service
begin

section \<open>What the service may write\<close>

text \<open>
  The client side of the store contracts.  \<open>backed\<close> is what stands behind a recorded decision: an
  authorized envelope, bound to the request the log holds.  \<open>legit\<close> is what the service may append:
  an entry that extends the intact chain and, if it records a decision, is backed.  The locale
  \<open>approval_service\<close> assumes the event store's contract and that nothing else the service is given
  writes to the log; inside it, every call of the service is shown to append legitimate entries only,
  however other writers interleave.
\<close>

definition backed :: "('s, 'k) ApprovalService \<Rightarrow> LedgerEntry list \<Rightarrow> LedgerEntry \<Rightarrow> bool" where
  "backed sv xs e \<longleftrightarrow>
     (\<exists>d request cx. decision_of (e_payload e) = Inr d \<and> e_request_id e = d_request_id d \<and>
        created_request (filter (\<lambda>x. e_request_id x = d_request_id d) xs) = Inr (Some request) \<and>
        context_digest request = Inr cx \<and> d_context_digest d = PStr cx \<and>
        authorized sv (e_payload e) d = Inr True)"

definition legit :: "('s, 'k) ApprovalService \<Rightarrow> LedgerEntry list \<Rightarrow> LedgerEntry \<Rightarrow> bool" where
  "legit sv xs e \<longleftrightarrow> intact (xs @ [e]) \<and> (ev ''decision.recorded'' e \<longrightarrow> backed sv xs e)"

lemma created_request_prefix:
  "prefix xs ys \<Longrightarrow> created_request (filter P xs) = Inr (Some r) \<Longrightarrow> created_request (filter P ys) = Inr (Some r)"
proof -
  have "find Q as = Some a \<Longrightarrow> find Q (as @ bs) = Some a" for Q as bs and a :: LedgerEntry
    by (induction as) auto
  then show "prefix xs ys \<Longrightarrow> created_request (filter P xs) = Inr (Some r) \<Longrightarrow>
      created_request (filter P ys) = Inr (Some r)"
    by (auto simp: prefix_def created_request_def split: option.splits)
qed

lemma backed_prefix: "prefix xs ys \<Longrightarrow> backed sv xs e \<Longrightarrow> backed sv ys e"
  unfolding backed_def using created_request_prefix by blast

text \<open>Every recorded decision of a log is backed by what came before it.\<close>

definition all_backed :: "('s, 'k) ApprovalService \<Rightarrow> LedgerEntry list \<Rightarrow> bool" where
  "all_backed sv xs \<longleftrightarrow>
     (\<forall>i<length xs. ev ''decision.recorded'' (xs ! i) \<longrightarrow> backed sv (take i xs) (xs ! i))"

lemma all_backed_snoc:
  "all_backed sv (xs @ [e]) \<longleftrightarrow> all_backed sv xs \<and> (ev ''decision.recorded'' e \<longrightarrow> backed sv xs e)"
  by (auto simp: all_backed_def nth_append less_Suc_eq)

text \<open>The same of the decisions that are not known to be somebody else's: \<open>V\<close> tells what others write.\<close>

definition backed_unless :: "(LedgerEntry \<Rightarrow> bool) \<Rightarrow> ('s, 'k) ApprovalService \<Rightarrow> LedgerEntry list \<Rightarrow> bool" where
  "backed_unless V sv xs \<longleftrightarrow>
     (\<forall>i<length xs. ev ''decision.recorded'' (xs ! i) \<longrightarrow> V (xs ! i) \<or> backed sv (take i xs) (xs ! i))"

lemma backed_unless_snoc:
  "backed_unless V sv (xs @ [e]) \<longleftrightarrow> backed_unless V sv xs \<and> (ev ''decision.recorded'' e \<longrightarrow> V e \<or> backed sv xs e)"
  by (auto simp: backed_unless_def nth_append less_Suc_eq)

lemma backed_unless_joined:
  assumes "prefix xs ys" "list_all V (drop (length xs) ys)" "backed_unless V sv xs"
  shows "backed_unless V sv ys"
proof -
  obtain zs where ys: "ys = xs @ zs" using assms(1) by (auto simp: prefix_def)
  have "list_all V zs \<Longrightarrow> backed_unless V sv (xs @ zs)"
    using assms(3) by (induction zs rule: rev_induct) (simp_all add: backed_unless_snoc flip: append_assoc)
  then show ?thesis using assms(2) by (simp add: ys)
qed

lemma all_backed_unless:
  "all_backed sv xs \<Longrightarrow> backed_unless V sv xs"
  "backed_unless V sv xs \<Longrightarrow> \<forall>e\<in>set xs. ev ''decision.recorded'' e \<longrightarrow> \<not> V e \<Longrightarrow> all_backed sv xs"
  by (auto simp: all_backed_def backed_unless_def)

subsection \<open>The calls of the service\<close>

datatype 's call =
    Create pyval pyval pyval pyval pyval pyval
  | Submit pyval pyval pyval "'s signer option" pyval pyval pyval
  | Prepare pyval pyval pyval pyval pyval
  | SubmitSigned pyval
  | GetStatus pyval
  | GetView pyval
  | QueryViews "RequestQuery option"
  | Rebuild int
  | PublishCheckpoint
  | Verify "Checkpoint option" int "int option"

definition forget :: "('s, exn, 'a) eff \<Rightarrow> ('s, exn, unit) eff" where
  "forget m = mbind m (\<lambda>_. mret ())"

fun handle :: "('s, 'k) ApprovalService \<Rightarrow> 's call \<Rightarrow> ('s, exn, unit) eff" where
  "handle sv (Create kind subject by policy_id nva nonce) = forget (create_request sv kind subject by policy_id nva nonce)"
| "handle sv (Submit rid a v sg c k authn) = forget (submit_decision sv rid a v sg c k authn)"
| "handle sv (Prepare rid a v c k) = forget (prepare_decision sv rid a v c k)"
| "handle sv (SubmitSigned envelope) = forget (submit_signed_decision sv envelope)"
| "handle sv (GetStatus rid) = forget (get_status sv rid)"
| "handle sv (GetView rid) = forget (get_view sv rid)"
| "handle sv (QueryViews q) = forget (query_views sv q)"
| "handle sv (Rebuild n) = forget (rebuild_projections sv n)"
| "handle sv PublishCheckpoint = forget (checkpoint sv)"
| "handle sv (Verify cp n limit) = forget (verify_log sv cp n limit)"

text \<open>A service that handles one call after another, whatever each raises.\<close>

definition serve :: "('s, 'k) ApprovalService \<Rightarrow> 's call list \<Rightarrow> 's \<Rightarrow> 's" where
  "serve sv cs s = foldl (\<lambda>s c. snd (handle sv c s)) s cs"

subsection \<open>The guarantee\<close>

locale approval_service = event_store_contract "sv_events sv" log env ok
  for sv :: "('s, 'k) ApprovalService" and log :: "'s \<Rightarrow> LedgerEntry list"
    and env :: "LedgerEntry list \<Rightarrow> LedgerEntry list \<Rightarrow> bool" and ok :: "'s \<Rightarrow> bool" +
  assumes now_quiet: "quiet (sv_now sv)"
    and sleep_quiet: "quiet (sv_sleep sv i)"
    and projections_quiet: "sv_projections sv = Projections p \<Longrightarrow>
      quiet (pj_upsert p v) \<and> quiet (pj_get p rid) \<and> quiet (pj_query p q) \<and> quiet (pj_clear p)"
    and idempotency_quiet: "sv_idempotency sv = Some m \<Longrightarrow>
      quiet (id_reserve m key fp) \<and> quiet (id_complete m key resp) \<and> quiet (id_release m key)"
    and signing_quiet: "sv_signing sv = Some sn \<Longrightarrow>
      quiet (sn_sign_decision sn d cx) \<and> quiet (sn_sign_checkpoint sn cp)"
    and log_signer_quiet: "sv_log_signer sv = Some sg \<Longrightarrow> quiet (sg_sign sg data)"
begin

lemma quiet_projections [intro, simp]:
  "quiet (pj_upsert (projections_of sv) v)" "quiet (pj_get (projections_of sv) rid)"
  "quiet (pj_query (projections_of sv) q)" "quiet (pj_clear (projections_of sv))"
  using projections_quiet by (auto simp: projections_of_def NullProjectionStore_def split: projections.split)

lemma quiet_load [intro, simp]: "quiet (load_request sv rid)" "quiet (require_request sv rid)"
  unfolding require_request_def load_request_def by (auto split: option.split)

lemma quiet_recompute [intro, simp]:
  "quiet (decisions_for sv request)" "quiet (recompute sv request t)" "quiet (get_status sv rid)"
  "quiet (last_recorded_status sv rid)"
  unfolding get_status_def recompute_def decisions_for_def last_recorded_status_def
  by (auto simp: now_quiet)

lemma quiet_project [intro, simp]: "quiet (project sv request t n rec)"
  unfolding project_def using projections_quiet by (auto split: projections.split option.split)

lemma quiet_prepare [intro, simp]: "quiet (prepare_decision sv rid a v c k)"
  unfolding prepare_decision_def Let_def by (auto simp: now_quiet)

lemma quiet_rebuild [intro, simp]: "quiet (rebuild_projections sv n)"
  unfolding rebuild_projections_def rebuild_one_def by (auto simp: now_quiet split: option.split prod.split)

lemma quiet_scanned: "quiet (\<lambda>s. case es_scan (sv_events sv) n limit s of (r, t) \<Rightarrow> (Inr (f r), t))"
  using quiet_reads(4) [of n limit] unfolding quiet_def by (fastforce split: prod.splits)

lemma quiet_verify [intro, simp]: "quiet (verify_log sv cp n limit)"
  unfolding verify_log_def Let_def
  by (intro quiet_mbind quiet_reads quiet_scanned quiet_mfor now_quiet quiet_simps)
    (auto simp: verify_published_def verify_trusted_def verify_decision_def verify_status_def
      split: option.split sum.split prod.split)

subsection \<open>Appending\<close>

text \<open>One attempt: it fails without writing, lands its entry after the head it read, or goes on to \<open>h\<close>.\<close>

definition attempt :: "pstr \<Rightarrow> pyval \<Rightarrow> pyval \<Rightarrow> pyval \<Rightarrow> (exn \<Rightarrow> ('s, exn, LedgerEntry) eff) \<Rightarrow> ('s, exn, LedgerEntry) eff" where
  "attempt ty pl t0 rid h = mbind (es_head (sv_events sv)) (\<lambda>prev. mbind (mlift (next_entry prev ty pl t0 rid))
     (\<lambda>e. mcatch (mbind (es_append (sv_events sv) e) (\<lambda>_. mret e)) h))"

definition landed :: "pstr \<Rightarrow> pyval \<Rightarrow> pyval \<Rightarrow> pyval \<Rightarrow> LedgerEntry \<Rightarrow> 's \<Rightarrow> 's \<Rightarrow> bool" where
  "landed ty pl t0 rid e s t \<longleftrightarrow> ok t \<and> (\<exists>xs. env (log s) xs \<and> next_entry (last_of xs) ty pl t0 rid = Inr e \<and>
     intact (xs @ [e]) \<and> env (xs @ [e]) (log t))"

lemma attempt_outcome:
  assumes s: "ok s" "intact (log s)" and rid: "hashable rid" and run: "attempt ty pl t0 rid h s = (r, t)"
  obtains (failed) x where "r = Inl x" "ok t" "env (log s) (log t)"
    | (wrote) e where "r = Inr e" "landed ty pl t0 rid e s t"
    | (conflict) x s' where "ok s'" "env (log s) (log s')" "h x s' = (r, t)"
proof -
  obtain q s1 where hd: "es_head (sv_events sv) s = (q, s1)" by (cases "es_head (sv_events sv) s")
  then obtain xs where xs: "ok s1" "env (log s) xs" "env xs (log s1)" "\<forall>h. q = Inr h \<longrightarrow> h = last_of xs"
    using head [OF s(1) hd] by blast
  have i: "intact xs" using xs(2) env_intact s(2) by blast
  have e1: "env (log s) (log s1)" using xs(2,3) env_trans by blast
  consider (read) x where "q = Inl x \<or> q = Inr (last_of xs) \<and> next_entry (last_of xs) ty pl t0 rid = Inl x"
    | (made) e where "q = Inr (last_of xs)" "next_entry (last_of xs) ty pl t0 rid = Inr e"
    using xs(4) by (cases q; cases "next_entry (last_of xs) ty pl t0 rid") auto
  then show thesis
  proof cases
    case read
    then have "t = s1 \<and> r = Inl x"
      using run hd by (auto simp: attempt_def mbind_def mlift_def mraise_def)
    then show thesis using failed xs(1) e1 by blast
  next
    case made
    obtain v s2 where app: "es_append (sv_events sv) e s1 = (v, s2)" by (cases "es_append (sv_events sv) e s1")
    show thesis
    proof (cases v)
      case (Inr w)
      then have rt: "t = s2" "r = Inr e"
        using run hd made app by (simp_all add: attempt_def mbind_def mlift_def mcatch_def mret_def)
      have "ok s2" "xs = log s1" "intact (xs @ [e])" "env (xs @ [e]) (log s2)"
        using append_lands [OF xs(1) i(1) xs(3) made(2) rid] app Inr by blast+
      then have "landed ty pl t0 rid e s t" unfolding landed_def rt using xs(2) made(2) by blast
      then show thesis using wrote rt(2) by blast
    next
      case (Inl x)
      then have hx: "h x s2 = (r, t)" using run hd made app by (simp add: attempt_def mbind_def mlift_def mcatch_def)
      have s2: "ok s2" "env (log s1) (log s2)"
        using append_failed [OF xs(1) _ app [unfolded Inl]] rid next_entry_Inr [OF made(2)] by auto
      then show thesis using conflict [OF _ _ hx] env_trans [OF e1] by blast
    qed
  qed
qed

lemma holds_attempt:
  assumes P: "\<And>zs e. prefix base zs \<Longrightarrow> intact (zs @ [e]) \<Longrightarrow> e_event_type e = ty \<Longrightarrow> e_payload e = pl \<Longrightarrow>
      e_request_id e = rid \<Longrightarrow> P zs e"
    and rid: "hashable rid" and h: "\<And>e. holds base P (h e)"
  shows "holds base P (attempt ty pl t0 rid h)"
proof (rule holdsI)
  fix s r t
  assume s: "ok s" "intact (log s)" "prefix base (log s)" and run: "attempt ty pl t0 rid h s = (r, t)"
  show "ok t \<and> intact (log t) \<and> grows P (log s) (log t)"
  proof (cases rule: attempt_outcome [OF s(1,2) rid run, case_names failed wrote conflict])
    case failed
    then show ?thesis using others env_intact s(2) by blast
  next
    case (wrote e)
    then obtain xs where xs: "ok t" "env (log s) xs" "next_entry (last_of xs) ty pl t0 rid = Inr e" "intact (xs @ [e])"
      "env (xs @ [e]) (log t)" by (auto simp: landed_def)
    have "prefix base xs" using s(3) env_prefix [OF xs(2)] by (rule prefix_order.trans)
    then have "P xs e" using P xs(4) next_entry_Inr [OF xs(3)] by blast
    then show ?thesis using add [OF others [OF xs(2)] _ xs(5)] xs(1,4,5) env_intact by blast
  next
    case (conflict x s')
    have pre: "prefix base (log s')" using s(3) env_prefix [OF conflict(2)] by (rule prefix_order.trans)
    note t = holdsD [OF h conflict(1) env_intact [OF conflict(2) s(2)] pre conflict(3)]
    from t env_grows [OF conflict(2) t(3)] show ?thesis by blast
  qed
qed

lemma append_from_attempt:
  "append_from sv ty pl t0 rid i (Suc n) = attempt ty pl t0 rid
     (\<lambda>e. if isinstance e LedgerConflict then
            (if n = 0 then mraise ConcurrencyExhausted
             else mbind (sv_sleep sv i) (\<lambda>_. append_from sv ty pl t0 rid (Suc i) n))
          else mraise e)"
  by (simp add: attempt_def)

text \<open>Appending writes exactly one entry when it returns, and none of its own when it raises.\<close>

lemma append_outcome:
  assumes "ok s" "intact (log s)" "hashable rid" "append_event sv ty pl t0 rid s = (r, t)"
  shows "case r of Inr e \<Rightarrow> landed ty pl t0 rid e s t | Inl x \<Rightarrow> ok t \<and> env (log s) (log t)"
proof -
  have land: "env (log s) (log s') \<Longrightarrow> landed ty pl t0 rid e s' t \<Longrightarrow> landed ty pl t0 rid e s t" for s s' t e
    unfolding landed_def using env_trans by blast
  have "case r of Inr e \<Rightarrow> landed ty pl t0 rid e s t | Inl x \<Rightarrow> ok t \<and> env (log s) (log t)"
    if "ok s" "intact (log s)" "append_from sv ty pl t0 rid i n s = (r, t)" for i n s
    using that
  proof (induction n arbitrary: i s)
    case 0
    then show ?case by (auto simp: mraise_def env_refl)
  next
    case (Suc n)
    show ?case
    proof (cases rule: attempt_outcome [OF Suc.prems(1,2) assms(3) Suc.prems(3) [unfolded append_from_attempt],
          case_names failed wrote conflict])
      case (conflict x s')
      show ?thesis
      proof (cases "isinstance x LedgerConflict \<and> n \<noteq> 0")
        case True
        obtain q s2 where sl: "sv_sleep sv i s' = (q, s2)" by (cases "sv_sleep sv i s'")
        have s2: "ok s2" "env (log s') (log s2)" using sleep_quiet sl conflict(1) unfolding quiet_def by blast+
        have e2: "env (log s) (log s2)" using conflict(2) s2(2) env_trans by blast
        show ?thesis
        proof (cases q)
          case (Inl y)
          then show ?thesis using conflict(3) True sl s2 e2 by (auto simp: mbind_def)
        next
          case (Inr w)
          then have "append_from sv ty pl t0 rid (Suc i) n s2 = (r, t)" using conflict(3) True sl by (simp add: mbind_def)
          from Suc.IH [OF s2(1) env_intact [OF e2 Suc.prems(2)] this] show ?thesis
            using land [OF e2] env_trans [OF e2] by (auto split: sum.splits)
        qed
      qed (use conflict in \<open>auto simp: mraise_def split: if_splits\<close>)
    qed simp_all
  qed
  from this [OF assms(1,2)] assms(4) show ?thesis by (simp add: append_event_def)
qed

lemma holds_append:
  assumes "\<And>zs e. prefix base zs \<Longrightarrow> intact (zs @ [e]) \<Longrightarrow> e_event_type e = ty \<Longrightarrow> e_payload e = pl \<Longrightarrow>
      e_request_id e = rid \<Longrightarrow> P zs e" "hashable rid"
  shows "holds base P (append_event sv ty pl t rid)"
proof -
  have "holds base P (append_from sv ty pl t rid i n)" for i n
  proof (induction n arbitrary: i)
    case (Suc n)
    have "holds base P (if isinstance e LedgerConflict
        then (if n = 0 then mraise ConcurrencyExhausted
              else mbind (sv_sleep sv i) (\<lambda>_. append_from sv ty pl t rid (Suc i) n)) else mraise e)" for e
      using Suc.IH by (auto simp: sleep_quiet)
    then show ?case unfolding append_from_attempt using assms by (intro holds_attempt)
  qed auto
  then show ?thesis by (simp add: append_event_def)
qed

lemma holds_append_plain:
  "ty \<noteq> ''decision.recorded'' \<Longrightarrow> hashable rid \<Longrightarrow> holds base (legit sv) (append_event sv (u ty) pl t rid)"
  by (rule holds_append) (simp add: legit_def)

subsection \<open>The mutating calls\<close>

lemma holds_create: "holds base (legit sv) (create_request sv kind subject by policy_id nva nonce)"
  unfolding create_request_def Let_def
  by (intro holds_mbind) (auto simp: now_quiet intro: holds_append_plain split: option.split)

lemma holds_checkpoint: "holds base (legit sv) (checkpoint sv)"
  unfolding checkpoint_def sign_checkpoint_async_def sign_with_def using signing_quiet log_signer_quiet
  by (auto simp: now_quiet intro: holds_append_plain)

text \<open>What \<open>require_request\<close> saw stays in the log.\<close>

lemma require_request_sees:
  assumes "ok s" "prefix base (log s)" "require_request sv rid s = (Inr request, t)"
  shows "\<exists>xs. hashable rid \<and> prefix base xs \<and> prefix xs (log t) \<and>
    created_request (filter (\<lambda>x. e_request_id x = rid) xs) = Inr (Some request)"
proof -
  obtain es where es: "es_events_for_request (sv_events sv) rid s = (Inr es, t)"
    "created_request es = Inr (Some request)"
    using assms(3) by (auto simp: require_request_def load_request_def bind_simps run_simps split: option.splits)
  obtain xs where xs: "env (log s) xs" "env xs (log t)"
    "es = filter (\<lambda>x. e_request_id x = rid) xs \<or> \<not> truthy rid \<and> es = []" "hashable rid"
    using events_for_request [OF assms(1) es(1)] by blast
  moreover have "es \<noteq> []" using es(2) by (auto simp: created_request_def)
  moreover have "prefix base xs" "prefix xs (log t)"
    using assms(2) env_prefix xs(1,2) by (blast intro: prefix_order.trans)+
  ultimately show ?thesis using es(2) by blast
qed

lemma holds_record_decision:
  assumes "decision_of envelope = Inr d" "authorized sv envelope d = Inr True"
    and "created_request (filter (\<lambda>x. e_request_id x = d_request_id d) base) = Inr (Some request)"
    and "context_digest request = Inr cx" "d_context_digest d = PStr cx" "hashable (d_request_id d)"
  shows "holds base (legit sv) (record_decision sv request d envelope)"
proof -
  have "holds base (legit sv) (append_event sv (u ''decision.recorded'') envelope (d_decided_at d) (d_request_id d))"
  proof (rule holds_append)
    fix zs e assume e: "prefix base zs" "intact (zs @ [e])" "e_payload e = envelope" "e_request_id e = d_request_id d"
    then have "backed sv zs e"
      unfolding backed_def using assms created_request_prefix by (metis (no_types, lifting))
    then show "legit sv zs e" using e(2) by (simp add: legit_def)
  qed (rule assms(6))
  then show ?thesis
    unfolding record_decision_def
    by (intro holds_mbind) (auto simp: now_quiet intro: holds_append_plain)
qed

lemma holds_record_once:
  assumes "holds base (legit sv) (record_decision sv request d envelope)"
  shows "holds base (legit sv) (record_once sv request d envelope)"
  unfolding record_once_def Let_def using assms idempotency_quiet
  by (auto split: option.split intro!: holds_mbind holds_mcatch)

lemma holds_check_and_record:
  assumes d: "decision_of envelope = Inr d"
    and r: "created_request (filter (\<lambda>x. e_request_id x = d_request_id d) base) = Inr (Some request)"
    and h: "hashable (d_request_id d)"
  shows "holds base (legit sv) (check_and_record sv envelope d request)"
proof (cases "context_digest request")
  case (Inr cx)
  show ?thesis
  proof (cases "d_context_digest d = PStr cx")
    case True
    have b: "holds base (legit sv) (mbind (mlift (admissible sv request d envelope now)) (\<lambda>_. record_once sv request d envelope))"
      for now
    proof (cases "admissible sv request d envelope now")
      case a: (Inr v)
      then have "authorized sv envelope d = Inr True" by (auto simp: admissible_def bind_simps split: if_splits)
      then show ?thesis
        using holds_record_once [OF holds_record_decision [OF d _ r Inr True h]] by auto
    qed auto
    have "check_and_record sv envelope d request = mbind (sv_now sv)
        (\<lambda>now. mbind (mlift (admissible sv request d envelope now)) (\<lambda>_. record_once sv request d envelope))"
      by (simp add: check_and_record_def Inr True)
    then show ?thesis using holds_mbind [OF quiet_holds [OF now_quiet] b] by simp
  qed (use Inr in \<open>auto simp: check_and_record_def\<close>)
qed (auto simp: check_and_record_def)

lemma holds_submit_signed: "holds base (legit sv) (submit_signed_decision sv envelope)"
proof (cases "decision_of envelope")
  case (Inr d)
  then have "submit_signed_decision sv envelope =
      mbind (require_request sv (d_request_id d)) (check_and_record sv envelope d)"
    by (simp add: submit_signed_decision_def parse_decision_def)
  moreover have "holds base (legit sv) (mbind (require_request sv (d_request_id d)) (check_and_record sv envelope d))"
    by (rule holds_mbind_read) (use require_request_sees holds_check_and_record [OF Inr] in blast)+
  ultimately show ?thesis by simp
qed (auto simp: submit_signed_decision_def parse_decision_def)

lemma holds_submit:
  assumes "\<And>s data. sg = Some s \<Longrightarrow> quiet (sg_sign s data)"
  shows "holds base (legit sv) (submit_decision sv rid a v sg c k authn)"
proof -
  have wrap: "quiet (wrap_async payload ty [s])" if "sg = Some s" for s payload ty
    unfolding wrap_async_def sign_with_def mfor.simps using assms [OF that] by auto
  show ?thesis
    unfolding submit_decision_def Let_def using signing_quiet
    by (auto simp: now_quiet wrap intro: holds_submit_signed)
qed

text \<open>Every call, and so every sequence of calls.\<close>

fun quiet_call :: "'s call \<Rightarrow> bool" where
  "quiet_call (Submit rid a v sg c k authn) \<longleftrightarrow> (case sg of None \<Rightarrow> True | Some s \<Rightarrow> (\<forall>data. quiet (sg_sign s data)))"
| "quiet_call c = True"

lemma holds_handle: "quiet_call c \<Longrightarrow> holds [] (legit sv) (handle sv c)"
  by (cases c) (auto simp: forget_def get_view_def query_views_def holds_create holds_checkpoint holds_submit_signed
      intro!: holds_mbind holds_submit split: option.splits)

lemma serve_grows:
  assumes "\<forall>c\<in>set cs. quiet_call c" "ok s" "intact (log s)"
  shows "ok (serve sv cs s) \<and> intact (log (serve sv cs s)) \<and> grows (legit sv) (log s) (log (serve sv cs s))"
  using assms
proof (induction cs rule: rev_induct)
  case (snoc c cs)
  let ?m = "serve sv cs s"
  have m: "ok ?m" "intact (log ?m)" "grows (legit sv) (log s) (log ?m)" using snoc by simp_all
  obtain r t where run: "handle sv c ?m = (r, t)" by (cases "handle sv c ?m")
  have "holds [] (legit sv) (handle sv c)" using snoc.prems(1) holds_handle by simp
  from holdsD [OF this m(1,2) _ run] have t: "ok t" "intact (log t)" "grows (legit sv) (log ?m) (log t)" by simp_all
  moreover have "serve sv (cs @ [c]) s = t" using run by (simp add: serve_def)
  ultimately show ?case using grows_trans [OF t(3) m(3)] by simp
qed (simp add: serve_def grows_refl)

text \<open>Every recorded decision that the others did not write is backed.\<close>

lemma grows_backed:
  assumes "grows (legit sv) xs ys" "backed_unless V sv xs" "\<And>zs ws. env zs ws \<Longrightarrow> list_all V (drop (length zs) ws)"
  shows "backed_unless V sv ys"
  using assms(1,2)
  by (rule grows_invariant [where I = "backed_unless V sv"])
    (auto simp: backed_unless_snoc legit_def dest: env_prefix assms(3) intro: backed_unless_joined)

subsection \<open>Losing a reservation\<close>

text \<open>
  A decision whose idempotency key is taken is not recorded again: with a world \<open>I\<close> in which every
  reservation of the key is lost or refused, submitting is only reading.
\<close>

lemma submit_signed_loses:
  assumes idem: "sv_idempotency sv = Some idem" and d: "decision_of envelope = Inr d"
    and steps: "\<And>s r t. I s \<Longrightarrow> require_request sv (d_request_id d) s = (r, t) \<Longrightarrow> I t"
      "\<And>s r t. I s \<Longrightarrow> sv_now sv s = (r, t) \<Longrightarrow> I t"
    and lost: "\<And>s rv t. I s \<Longrightarrow> id_reserve idem (decision_key (sv_runtime sv) d) fp s = (Inr rv, t) \<Longrightarrow> \<not> rs_won rv"
    and fp: "canonical_hash (Decision_to_dict d) = Inr fp"
    and s: "ok s" "I s" and run: "submit_signed_decision sv envelope s = (r, t)"
  shows "ok t \<and> env (log s) (log t)"
proof -
  have once: "ok t \<and> env (log s) (log t)" if s: "ok s" "I s" and run: "record_once sv request d envelope s = (r, t)"
    for request s t and r :: "exn + Record"
  proof -
    obtain q s' where q: "id_reserve idem (decision_key (sv_runtime sv) d) fp s = (q, s')" by fastforce
    have s': "ok s'" "env (log s) (log s')" using idempotency_quiet [OF idem] s(1) q unfolding quiet_def by blast+
    show ?thesis
    proof (cases q)
      case (Inr rv)
      have "quiet (if rs_response rv = PNone then get_status sv (d_request_id d)
          else mbind (mlift (subscr (rs_response rv) ''request_id'')) (get_status sv))" by auto
      moreover have "(if rs_response rv = PNone then get_status sv (d_request_id d)
          else mbind (mlift (subscr (rs_response rv) ''request_id'')) (get_status sv)) s' = (r, t)"
        using run fp idem q Inr lost [OF s(2)] by (auto simp: record_once_def Let_def mbind_run split: if_splits)
      ultimately show ?thesis using s' env_trans unfolding quiet_def by blast
    qed (use run fp idem q s' in \<open>auto simp: record_once_def Let_def mbind_run\<close>)
  qed
  obtain q s1 where q: "require_request sv (d_request_id d) s = (q, s1)" by fastforce
  have s1: "ok s1" "env (log s) (log s1)" "I s1"
    using quiet_load(2) s q steps(1) unfolding quiet_def by blast+
  have sub: "submit_signed_decision sv envelope = mbind (require_request sv (d_request_id d)) (check_and_record sv envelope d)"
    by (simp add: submit_signed_decision_def parse_decision_def d)
  show ?thesis
  proof (cases q)
    case (Inr request)
    then have c: "check_and_record sv envelope d request s1 = (r, t)" using run q sub by (simp add: mbind_run)
    obtain n s2 where n: "sv_now sv s1 = (n, s2)" by fastforce
    have s2: "ok s2" "env (log s1) (log s2)" "I s2" using now_quiet s1 n steps(2) unfolding quiet_def by blast+
    have "ok t \<and> env (log s1) (log t)"
    proof (cases "record_once sv request d envelope s2 = (r, t)")
      case True
      then show ?thesis using once [OF s2(1,3)] s2(2) env_trans by blast
    next
      case False
      then have "t = s1 \<or> t = s2"
        using c n by (auto simp: check_and_record_def mbind_def mlift_def mraise_def split: sum.splits if_splits)
      then show ?thesis using s1(1) s2 env_refl by blast
    qed
    then show ?thesis using s1(2) env_trans by blast
  qed (use run q sub s1 in \<open>simp add: mbind_run\<close>)
qed

subsection \<open>Checkpoints\<close>

text \<open>A published checkpoint stays consistent with the log it was published in, however that grows.\<close>

lemma checkpoint_consistent:
  assumes s: "ok s" "sv_signing sv = None" "intact (log s)" and run: "checkpoint sv s = (Inr cp, t)" and later: "prefix (log t) ys"
  shows "verify_consistency cp (map e_entry_hash ys) = Inr ()"
proof -
  obtain leaves s1 previous s2 now s3 unsigned sg s4 e where r:
    "es_leaf_hashes (sv_events sv) None s = (Inr leaves, s1)" "es_latest_checkpoint (sv_events sv) s1 = (Inr previous, s2)"
    "sv_now sv s2 = (Inr now, s3)" "build_checkpoint leaves (log_id_of sv) (PStr now) previous = Inr unsigned"
    "sv_log_signer sv = Some sg" "sign_checkpoint_async unsigned sg s3 = (Inr cp, s4)"
    "append_event sv (u ''checkpoint.published'') (Checkpoint_to_dict cp) (c_published_at cp) PNone s4 = (Inr e, t)"
    using run s(2) by (auto simp: checkpoint_def mbind_eq_Inr mlift_run mret_run mraise_run split: option.splits)
  obtain xs where xs: "env xs (log s1)" "leaves = map e_entry_hash xs" "ok s1" using leaf_hashes [OF s(1) r(1)] by auto
  have quiet: "quiet (sign_checkpoint_async unsigned sg)"
    unfolding sign_checkpoint_async_def sign_with_def using log_signer_quiet [OF r(5)] by auto
  have s4: "ok s4" "env (log s1) (log s4)"
    using xs(3) quiet_reads(6) now_quiet quiet r(2,3,6) env_trans unfolding quiet_def by metis+
  have "env (log s) (log s1)" using quiet_reads(5) s(1) r(1) unfolding quiet_def by blast
  then have i4: "intact (log s4)" using env_intact [OF _ s(3)] env_trans s4(2) by blast
  have "holds [] (\<lambda>_ _. True)
      (append_event sv (u ''checkpoint.published'') (Checkpoint_to_dict cp) (c_published_at cp) PNone)"
    by (rule holds_append) simp_all
  from holdsD(3) [OF this s4(1) i4 _ r(7)] have "prefix (log s4) (log t)" using grows_prefix by simp
  then have "prefix xs ys" using xs(1) s4(2) later env_prefix by (meson prefix_order.trans)
  then obtain zs where zs: "ys = xs @ zs" by (auto simp: prefix_def)
  have "cp = unsigned\<lparr>c_signatures := c_signatures cp\<rparr>"
    using r(6) by (auto simp: sign_checkpoint_async_def mbind_eq_Inr mlift_run mret_run append_sig)
  then show ?thesis using verify_consistency_extension [OF r(4), of "c_signatures cp" "map e_entry_hash zs"] zs xs(2) by simp
qed

end

end
