(* ===== verification/Behaviour.thy ===== *)
theory Behaviour
  imports Guarantees
begin

section \<open>What the service does on a log of its own\<close>

text \<open>
  With one writer the operations of the service are functions of the log: \<open>sole_service\<close> assumes the
  single-writer contract, a clock that answers and at least one attempt to append.  The lemmas say
  what each operation reads and writes; with them come the idempotence of requests, the meaning of
  an approval, the replay of decisions, and what a clean verification report proves.
\<close>

text \<open>The status of a request, as a function of the log.\<close>

abbreviation entries_of :: "pyval \<Rightarrow> LedgerEntry list \<Rightarrow> LedgerEntry list" where
  "entries_of rid xs \<equiv> filter (\<lambda>e. e_request_id e = rid) xs"

definition recomputed ::
  "('s, 'k) ApprovalService \<Rightarrow> LedgerEntry list \<Rightarrow> ApprovalRequest \<Rightarrow> pyval \<Rightarrow> exn + Record" where
  "recomputed sv xs request at_time =
     sbind (sv_policy sv (r_policy_id request)) (\<lambda>policy.
     sbind (policy_digest policy) (\<lambda>digest.
     sbind (ensure (PStr digest = r_policy_digest request) PolicyMismatch) (\<lambda>_.
     sbind (request_id request) (\<lambda>rid.
     sbind (authorized_decisions sv (entries_of (PStr rid) xs)) (\<lambda>decisions.
     sbind (evaluate (sv_runtime sv) request decisions policy (sv_identities sv) at_time) (\<lambda>result.
     Inr \<lparr>rec_request = request, rec_decisions = decisions, rec_status = p_status result,
          rec_policy_result = result\<rparr>))))))"

definition status_in :: "('s, 'k) ApprovalService \<Rightarrow> LedgerEntry list \<Rightarrow> pstr \<Rightarrow> pyval \<Rightarrow> exn + Record" where
  "status_in sv xs now rid =
     sbind (created_request (entries_of rid xs)) (\<lambda>found.
     case found of None \<Rightarrow> Inl RequestNotFound
     | Some request \<Rightarrow> recomputed sv xs request (PStr now))"

lemma authorized_decisions_set:
  "authorized_decisions sv es = Inr ds \<Longrightarrow>
     d \<in> set ds \<longleftrightarrow> (\<exists>e\<in>set es. ev ''decision.recorded'' e \<and> decision_of (e_payload e) = Inr d \<and>
       authorized sv (e_payload e) d = Inr True)"
proof (induction es arbitrary: ds)
  case (Cons e es)
  show ?case
  proof (cases "ev ''decision.recorded'' e")
    case True
    then obtain d' b out where "decision_of (e_payload e) = Inr d'" "authorized sv (e_payload e) d' = Inr b"
      "authorized_decisions sv es = Inr out" "ds = (if b then d' # out else out)"
      using Cons.prems by (auto simp: sbind_eq_Inr)
    then show ?thesis using Cons.IH True by auto
  qed (use Cons in auto)
qed simp

lemma request_id_nonempty: "request_id r = Inr rid \<Longrightarrow> truthy (PStr rid) \<and> hashable (PStr rid)"
  by (auto simp: request_id_def dest: canonical_hash_length)

lemma created_request_snoc:
  assumes "created_request (filter P xs) = Inr None" "P e" "ev ''request.created'' e" "Request_from_dict (e_payload e) = Inr r"
  shows "created_request (filter P (xs @ [e])) = Inr (Some r)"
proof -
  have "find Q as = None \<Longrightarrow> find Q (as @ [a]) = (if Q a then Some a else None)" for Q as and a :: LedgerEntry
    by (induction as) auto
  then show ?thesis using assms by (auto simp: created_request_def bind_simps split: option.splits)
qed

text \<open>What stands behind an approval: an entry of the log with a decision that says so, signed.\<close>

definition approves ::
  "('s, 'k) ApprovalService \<Rightarrow> LedgerEntry list \<Rightarrow> ApprovalRequest \<Rightarrow> Policy \<Rightarrow> pstr \<Rightarrow> LedgerEntry \<Rightarrow> Decision \<Rightarrow> bool" where
  "approves sv xs request policy a e d \<longleftrightarrow>
     e \<in> set xs \<and> ev ''decision.recorded'' e \<and> decision_of (e_payload e) = Inr d \<and>
     d_approver_id d = PStr a \<and> d_verdict d = lit ''approve'' \<and>
     (\<exists>cx. context_digest request = Inr cx \<and> d_context_digest d = PStr cx) \<and>
     allowed policy (sv_identities sv) a \<and> \<not> (separation_of_duties policy \<and> PStr a = r_requested_by request)"

text \<open>A signature the approver answers for: by a key of the approver, or by a decision issuer of this log.\<close>

definition signed_for :: "('s, 'k) ApprovalService \<Rightarrow> pyval \<Rightarrow> Decision \<Rightarrow> pstr \<Rightarrow> bool" where
  "signed_for sv envelope d a \<longleftrightarrow>
     (\<exists>key. has_signature (sv_registry sv) envelope (sv_key_dir sv) (d_decided_at d) key \<and>
        (k_key_use key = u ''approver'' \<and> k_owner_id key = a \<or>
         k_key_use key = u ''decision_issuer'' \<and> scoped_to key (log_id_of sv)))"

lemma authorized_signed:
  assumes "kd_wf (sv_key_dir sv)" "authorized sv envelope d = Inr True" "d_approver_id d = PStr a"
  shows "signed_for sv envelope d a"
proof -
  obtain known where "decision_authorized (sv_registry sv) envelope (d_approver_id d) (log_id_of sv)
      (sv_key_dir sv) (d_decided_at d) known = Inr True"
    using assms(2) by (auto simp: authorized_def bind_simps)
  from decision_authorized_Inr [OF assms(1) this] show ?thesis
    using assms(3) by (auto simp: signed_for_def may_sign_def)
qed

lemma status_in_Inr:
  assumes "status_in sv xs now rid = Inr rec"
  obtains request policy dg qid ds res where "created_request (entries_of rid xs) = Inr (Some request)"
    "sv_policy sv (r_policy_id request) = Inr policy" "policy_digest policy = Inr dg" "r_policy_digest request = PStr dg"
    "request_id request = Inr qid" "authorized_decisions sv (entries_of (PStr qid) xs) = Inr ds"
    "evaluate (sv_runtime sv) request ds policy (sv_identities sv) (PStr now) = Inr res"
    "rec = \<lparr>rec_request = request, rec_decisions = ds, rec_status = p_status res, rec_policy_result = res\<rparr>"
  using assms that unfolding status_in_def recomputed_def
  by (auto simp: bind_simps split: option.splits)

lemma approval_means:
  assumes wf: "kd_wf (sv_key_dir sv)" and s: "status_in sv xs now rid = Inr rec" and ap: "rec_status rec = u ''approved''"
  shows "\<exists>policy as. sv_policy sv (r_policy_id (rec_request rec)) = Inr policy \<and>
    (\<exists>dg. policy_digest policy = Inr dg \<and> r_policy_digest (rec_request rec) = PStr dg) \<and>
    as = p_satisfied_by (rec_policy_result rec) \<and> distinct as \<and> threshold policy \<le> int (length as) \<and>
    (\<forall>r\<in>set (require_distinct_roles policy). \<exists>a\<in>set as. holds_role (sv_identities sv) r a) \<and>
    (\<forall>a\<in>set as. \<exists>e d. approves sv xs (rec_request rec) policy a e d \<and> signed_for sv (e_payload e) d a)"
proof -
  obtain request policy dg qid ds res where g: "sv_policy sv (r_policy_id request) = Inr policy"
    "policy_digest policy = Inr dg" "r_policy_digest request = PStr dg"
    "authorized_decisions sv (entries_of (PStr qid) xs) = Inr ds"
    "evaluate (sv_runtime sv) request ds policy (sv_identities sv) (PStr now) = Inr res"
    "rec = \<lparr>rec_request = request, rec_decisions = ds, rec_status = p_status res, rec_policy_result = res\<rparr>"
    by (rule status_in_Inr [OF s])
  then have st: "p_status res = u ''approved''" using ap by simp
  obtain deadline cx cs where w: "weighs (sv_runtime sv) request ds policy (sv_identities sv) deadline cx cs"
    "distinct (p_satisfied_by res)" "\<forall>a. a \<in> set (p_satisfied_by res) \<longleftrightarrow> stands cs ''approve'' a"
    "threshold policy \<le> int (length (p_satisfied_by res))"
    "\<forall>r\<in>set (require_distinct_roles policy). \<exists>a\<in>set (p_satisfied_by res). holds_role (sv_identities sv) r a"
    by (rule evaluate_approved [OF g(5) st])
  have "\<exists>e d. approves sv xs request policy a e d \<and> signed_for sv (e_payload e) d a" if "a \<in> set (p_satisfied_by res)" for a
  proof -
    have "stands cs ''approve'' a" using w(3) that by simp
    then obtain d where d: "map_of (latest cs) a = Some d" "d_verdict d = lit ''approve''"
      unfolding stands_def by (elim exE conjE)
    then have "d \<in> set cs" "voice_of d = a" using latest_Some(1,2) by blast+
    then have c: "d \<in> set ds" "counted request policy (sv_identities sv) cx deadline d" "context_digest request = Inr cx"
      using w(1) by (auto simp: weighs_def)
    then have a: "d_approver_id d = PStr a" "allowed policy (sv_identities sv) a" "d_context_digest d = PStr cx"
      "\<not> (separation_of_duties policy \<and> PStr a = r_requested_by request)"
      using \<open>voice_of d = a\<close> by (auto simp: counted_def voice_of_def)
    obtain e where e: "e \<in> set xs" "ev ''decision.recorded'' e" "decision_of (e_payload e) = Inr d"
      "authorized sv (e_payload e) d = Inr True"
      using c(1) authorized_decisions_set [OF g(4)] by auto
    then have "approves sv xs request policy a e d" using d(2) a c(3) by (simp add: approves_def)
    then show ?thesis using authorized_signed [OF wf e(4) a(1)] by blast
  qed
  then show ?thesis using g w by simp
qed

text \<open>
  A status that is returned is the status in some log between the world before and the world after: the
  request that was read stays in the log, and the decisions are read once.
\<close>

context approval_service
begin

lemma recompute_at:
  assumes "ok s" "recompute sv request at_time s = (Inr rec, t)"
  shows "\<exists>xs. env (log s) xs \<and> env xs (log t) \<and> recomputed sv xs request at_time = Inr rec"
proof -
  obtain policy digest ds result rid es where r: "sv_policy sv (r_policy_id request) = Inr policy"
    "policy_digest policy = Inr digest" "ensure (PStr digest = r_policy_digest request) PolicyMismatch = Inr ()"
    "request_id request = Inr rid" "es_events_for_request (sv_events sv) (PStr rid) s = (Inr es, t)"
    "authorized_decisions sv es = Inr ds"
    "evaluate (sv_runtime sv) request ds policy (sv_identities sv) at_time = Inr result"
    "rec = \<lparr>rec_request = request, rec_decisions = ds, rec_status = p_status result, rec_policy_result = result\<rparr>"
    using assms(2) by (auto simp: recompute_def decisions_for_def bind_simps run_simps ensure_def split: if_splits)
  obtain xs where xs: "env (log s) xs" "env xs (log t)" "es = entries_of (PStr rid) xs \<or> \<not> truthy (PStr rid) \<and> es = []"
    using events_for_request [OF assms(1) r(5)] by blast
  then have "es = entries_of (PStr rid) xs" using request_id_nonempty [OF r(4)] by simp
  then have "recomputed sv xs request at_time = Inr rec" using r by (simp add: recomputed_def)
  then show ?thesis using xs(1,2) by blast
qed

lemma get_status_at:
  assumes "ok s" "get_status sv rid s = (Inr rec, t)"
  shows "\<exists>xs now. env (log s) xs \<and> env xs (log t) \<and> status_in sv xs now rid = Inr rec"
proof -
  obtain request s1 now s2 where r: "require_request sv rid s = (Inr request, s1)" "sv_now sv s1 = (Inr now, s2)"
    "recompute sv request (PStr now) s2 = (Inr rec, t)"
    using assms(2) by (auto simp: get_status_def mbind_eq_Inr)
  have s1: "ok s1" "env (log s) (log s1)" using quiet_load(2) assms(1) r(1) unfolding quiet_def by blast+
  have s2: "ok s2" "env (log s1) (log s2)" using now_quiet s1(1) r(2) unfolding quiet_def by blast+
  obtain ys where ys: "prefix ys (log s1)" "created_request (entries_of rid ys) = Inr (Some request)"
    using require_request_sees [OF assms(1) _ r(1), of "[]"] by auto
  obtain xs where xs: "env (log s2) xs" "env xs (log t)" "recomputed sv xs request (PStr now) = Inr rec"
    using recompute_at [OF s2(1) r(3)] by blast
  have "prefix ys xs" using ys(1) env_prefix [OF s2(2)] env_prefix [OF xs(1)] by (meson prefix_order.trans)
  then have "created_request (entries_of rid xs) = Inr (Some request)" using ys(2) by (rule created_request_prefix)
  then have "status_in sv xs now rid = Inr rec" using xs(3) by (simp add: status_in_def)
  then show ?thesis using s1(2) s2(2) xs(1,2) env_trans by blast
qed

end

locale sole_service = approval_service sv log "(=)" ok + single_writer "sv_events sv" log ok
  for sv :: "('s, 'k) ApprovalService" and log :: "'s \<Rightarrow> LedgerEntry list" and ok :: "'s \<Rightarrow> bool" +
  assumes now_total: "ok s \<Longrightarrow> \<exists>now t. sv_now sv s = (Inr now, t)"
    and attempts: "0 < sv_append_attempts sv"
begin

lemma quiet_same: "quiet m \<Longrightarrow> ok s \<Longrightarrow> m s = (r, t) \<Longrightarrow> ok t \<and> log t = log s"
  unfolding quiet_def by metis

abbreviation about :: "pyval \<Rightarrow> 's \<Rightarrow> LedgerEntry list" where
  "about rid s \<equiv> entries_of rid (log s)"

lemma now_reads: "ok s \<Longrightarrow> \<exists>now t. sv_now sv s = (Inr now, t) \<and> ok t \<and> log t = log s"
  using now_total quiet_same [OF now_quiet] by blast

lemma load_request_reads:
  assumes "ok s" "hashable rid" "truthy rid"
  shows "\<exists>t. load_request sv rid s = (created_request (about rid s), t) \<and> ok t \<and> log t = log s"
  using events_read [OF assms] by (auto simp: load_request_def mbind_run mlift_run)

lemma append_writes:
  assumes "ok s" "intact (log s)" "hashable rid"
  shows "\<exists>t. append_event sv ty pl at_time rid s = (next_entry (last_of (log s)) ty pl at_time rid, t) \<and> ok t \<and>
    log t = (case next_entry (last_of (log s)) ty pl at_time rid of Inl _ \<Rightarrow> log s | Inr e \<Rightarrow> log s @ [e])"
proof -
  obtain n where n: "nat (sv_append_attempts sv) = Suc n"
    using attempts by (cases "nat (sv_append_attempts sv)") auto
  obtain s1 where h: "es_head (sv_events sv) s = (Inr (last_of (log s)), s1)" "ok s1" "log s1 = log s"
    using head_reads [OF assms(1)] by blast
  show ?thesis
  proof (cases "next_entry (last_of (log s)) ty pl at_time rid")
    case (Inl x)
    then show ?thesis using h by (simp add: append_event_def n mbind_run mlift_run mraise_run)
  next
    case (Inr e)
    have "intact (log s @ [e])"
      using next_entry_log [OF assms(2)] Inr by (simp add: last_of_def split: if_splits)
    then have "e_seq e = int (length (log s1))" by (simp add: chained_append h(3))
    moreover have "hashable (e_request_id e)" using next_entry_Inr(6) [OF Inr] assms(3) by simp
    ultimately obtain t where "es_append (sv_events sv) e s1 = (Inr (), t)" "ok t" "log t = log s @ [e]"
      using append_extends [OF h(2)] h(3) by metis
    then show ?thesis
      using h Inr by (simp add: append_event_def n mbind_run mlift_run mcatch_def mret_run)
  qed
qed

subsection \<open>Creating requests\<close>

text \<open>However the call returns, the request it returns is the one the log holds under its id.\<close>

lemma create_request_stored:
  assumes s: "ok s" "intact (log s)" and run: "create_request sv kind subject by policy_id nva nonce s = (Inr r, t)"
  shows "\<exists>policy dg now rid. sv_policy sv policy_id = Inr policy \<and> policy_digest policy = Inr dg \<and>
    request_id (new_request kind subject by policy_id nva nonce dg now) = Inr rid \<and>
    created_request (about (PStr rid) t) = Inr (Some r)"
proof -
  obtain policy dg now s1 where p: "sv_policy sv policy_id = Inr policy" "policy_digest policy = Inr dg"
    "sv_now sv s = (Inr now, s1)"
    and rest: "(let request = new_request kind subject by policy_id nva nonce dg now
      in mbind (mlift (request_id request)) (\<lambda>rid.
        mbind (load_request sv (PStr rid)) (\<lambda>existing.
        case existing of Some r \<Rightarrow> mret r
        | None \<Rightarrow>
            mbind (mlift (Request_to_dict request)) (\<lambda>payload.
            mbind (append_event sv (u ''request.created'') payload (PStr now) (PStr rid)) (\<lambda>entry.
            mbind (project sv request (PStr now) (e_seq entry) None) (\<lambda>_. mret request)))))) s1 = (Inr r, t)"
    using run unfolding create_request_def by (auto simp: mbind_eq_Inr mlift_run)
  let ?req = "new_request kind subject by policy_id nva nonce dg now"
  have s1: "ok s1" "log s1 = log s" using quiet_same [OF now_quiet s(1) p(3)] by simp_all
  obtain rid found s2 where rid: "request_id ?req = Inr rid"
    and found: "load_request sv (PStr rid) s1 = (Inr found, s2)"
    and after: "(case found of Some r \<Rightarrow> mret r
        | None \<Rightarrow>
            mbind (mlift (Request_to_dict ?req)) (\<lambda>payload.
            mbind (append_event sv (u ''request.created'') payload (PStr now) (PStr rid)) (\<lambda>entry.
            mbind (project sv ?req (PStr now) (e_seq entry) None) (\<lambda>_. mret ?req)))) s2 = (Inr r, t)"
    using rest by (auto simp: Let_def mbind_eq_Inr mlift_run)
  have s2: "ok s2" "log s2 = log s" "created_request (about (PStr rid) s) = Inr found"
    using load_request_reads [OF s1(1), of "PStr rid"] request_id_nonempty [OF rid] found s1(2) by auto
  have "created_request (about (PStr rid) t) = Inr (Some r)"
  proof (cases found)
    case (Some r')
    then show ?thesis using after s2 by (simp add: mret_run)
  next
    case None
    then obtain payload e s3 where e: "Request_to_dict ?req = Inr payload"
      "append_event sv (u ''request.created'') payload (PStr now) (PStr rid) s2 = (Inr e, s3)"
      "project sv ?req (PStr now) (e_seq e) None s3 = (Inr (), t)" "r = ?req"
      using after by (auto simp: mbind_eq_Inr mlift_run mret_run)
    have w: "next_entry (last_of (log s2)) (u ''request.created'') payload (PStr now) (PStr rid) = Inr e" "ok s3"
      "log s3 = log s2 @ [e]"
      using append_writes [OF s2(1), of "PStr rid" "u ''request.created''" payload "PStr now"] s2(2) s(2) e(2)
      by (auto split: sum.splits)
    have "log t = log s @ [e]" using quiet_same [OF quiet_project w(2) e(3)] w(3) s2(2) by simp
    then show ?thesis
      using created_request_snoc [of "\<lambda>e. e_request_id e = PStr rid" "log s" e r] s2(3) None next_entry_Inr [OF w(1)]
        Request_roundtrip [OF e(1)] e(4)
      by simp
  qed
  then show ?thesis using p rid by blast
qed

lemma create_request_again:
  assumes s: "ok s" "intact (log s)" and first: "create_request sv kind subject by policy_id nva nonce s = (Inr r, t)"
    and later: "ok s'" "prefix (log t) (log s')"
    and again: "create_request sv kind subject by policy_id nva nonce s' = (q, t')"
  shows "q = Inr r \<and> log t' = log s'"
proof -
  obtain policy dg now rid where f: "sv_policy sv policy_id = Inr policy" "policy_digest policy = Inr dg"
    "request_id (new_request kind subject by policy_id nva nonce dg now) = Inr rid"
    "created_request (about (PStr rid) t) = Inr (Some r)"
    using create_request_stored [OF s first] by blast
  have valid: "validate_subject policy subject = Inr ()"
    using first f(1) by (auto simp: create_request_def mbind_eq_Inr mlift_run)
  obtain now' s1 where n: "sv_now sv s' = (Inr now', s1)" "ok s1" "log s1 = log s'"
    using now_reads [OF later(1)] by blast
  have same: "request_id (new_request kind subject by policy_id nva nonce dg now') = Inr rid"
    using f(3) by (simp add: request_id_def identity_dict_def identity_items_def new_request_def)
  obtain s2 where l: "load_request sv (PStr rid) s1 = (created_request (about (PStr rid) s1), s2)" "log s2 = log s'"
    using load_request_reads [OF n(2), of "PStr rid"] request_id_nonempty [OF f(3)] n(3) by auto
  have "created_request (about (PStr rid) s1) = Inr (Some r)"
    using created_request_prefix [OF later(2) f(4)] n(3) by simp
  then show ?thesis
    using again f(1,2) valid n same l by (simp add: create_request_def mbind_def mlift_def Let_def mret_def)
qed

subsection \<open>Status\<close>

lemma recompute_reads:
  assumes "ok s"
  shows "\<exists>t. recompute sv request at_time s = (recomputed sv (log s) request at_time, t) \<and> ok t \<and> log t = log s"
proof -
  have "fst (recompute sv request at_time s) = recomputed sv (log s) request at_time"
  proof (cases "request_id request")
    case (Inr rid)
    obtain t where "es_events_for_request (sv_events sv) (PStr rid) s = (Inr (about (PStr rid) s), t)"
      using events_read [OF assms, of "PStr rid"] request_id_nonempty [OF Inr] by auto
    with Inr show ?thesis
      by (simp add: recompute_def recomputed_def decisions_for_def mbind_def mlift_def mraise_def mret_def sbind_def
          ensure_def split: sum.split)
  qed (simp add: recompute_def recomputed_def decisions_for_def mbind_def mlift_def mraise_def sbind_def
      ensure_def split: sum.split)
  then show ?thesis using quiet_same [OF quiet_recompute(2) assms] by (metis prod.collapse)
qed

lemma get_status_reads:
  assumes "ok s" "hashable rid" "truthy rid"
  shows "\<exists>now t. get_status sv rid s = (status_in sv (log s) now rid, t) \<and> ok t \<and> log t = log s"
proof -
  obtain s1 where s1: "load_request sv rid s = (created_request (about rid s), s1)" "ok s1" "log s1 = log s"
    using load_request_reads [OF assms] by blast
  obtain now s2 where s2: "sv_now sv s1 = (Inr now, s2)" "ok s2" "log s2 = log s" using now_reads [OF s1(2)] s1(3) by auto
  have "fst (get_status sv rid s) = status_in sv (log s) now rid"
  proof (cases "created_request (about rid s)")
    case (Inr found)
    show ?thesis
    proof (cases found)
      case (Some request)
      then show ?thesis
        using recompute_reads [OF s2(2), of request "PStr now"] Inr s1(1) s2
        by (auto simp: get_status_def require_request_def status_in_def mbind_def mret_def)
    qed (use Inr s1(1) in \<open>simp add: get_status_def require_request_def status_in_def mbind_def mraise_def\<close>)
  qed (use s1(1) in \<open>simp add: get_status_def require_request_def status_in_def mbind_def\<close>)
  then show ?thesis using quiet_same [OF quiet_recompute(3) assms(1)] by (metis prod.collapse)
qed

lemma get_status_Inr:
  assumes "ok s" "get_status sv rid s = (Inr rec, t)"
  shows "\<exists>now. status_in sv (log s) now rid = Inr rec"
proof -
  obtain request s1 now s2 where r: "require_request sv rid s = (Inr request, s1)" "sv_now sv s1 = (Inr now, s2)"
    "recompute sv request (PStr now) s2 = (Inr rec, t)"
    using assms(2) by (auto simp: get_status_def mbind_eq_Inr)
  obtain xs where xs: "prefix (log s) xs" "prefix xs (log s1)" "created_request (entries_of rid xs) = Inr (Some request)"
    using require_request_sees [OF assms(1) _ r(1)] by blast
  have s1: "ok s1" "log s1 = log s" using quiet_same [OF quiet_load(2) assms(1) r(1)] by simp_all
  then have "xs = log s" using xs(1,2) prefix_order.antisym by metis
  moreover have "ok s2" "log s2 = log s" using quiet_same [OF now_quiet s1(1) r(2)] s1(2) by simp_all
  ultimately show ?thesis
    using xs(3) recompute_reads [of s2 request "PStr now"] r(3) by (auto simp: status_in_def)
qed

subsection \<open>Recording\<close>

text \<open>Once the decision is on the log it stays there, whatever happens afterwards; at most a change of
  status follows it.\<close>

lemma record_decision_lands:
  assumes s: "ok s" "intact (log s)" "hashable (d_request_id d)"
    and e: "next_entry (last_of (log s)) (u ''decision.recorded'') envelope (d_decided_at d) (d_request_id d) = Inr e"
    and run: "record_decision sv request d envelope s = (r, t)"
  shows "\<exists>ys. log t = log s @ e # ys \<and> length ys \<le> 1 \<and> (\<forall>y\<in>set ys. ev ''status.changed'' y)"
proof -
  define rest where "rest = (\<lambda>last_seq rec. mbind (sv_now sv) (\<lambda>now''. mbind (project sv request (PStr now'') last_seq (Some rec)) (\<lambda>_. mret rec)))"
  define status where "status = (\<lambda>rec. if rec_status rec \<noteq> u ''pending'' then
              mbind (mlift (request_id request)) (\<lambda>rid.
              mbind (sv_now sv) (\<lambda>now'.
              mbind (append_event sv (u ''status.changed'') (status_payload rid rec) (PStr now') (PStr rid))
                (\<lambda>status_entry. mret (e_seq status_entry))))
            else mret (e_seq e))"
  obtain s1 where s1: "append_event sv (u ''decision.recorded'') envelope (d_decided_at d) (d_request_id d) s = (Inr e, s1)"
    "ok s1" "log s1 = log s @ [e]"
    using append_writes [OF s, of "u ''decision.recorded''" envelope "d_decided_at d"] e by auto
  have i1: "intact (log s1)" using next_entry_log [OF s(2)] e s1(3) by (simp add: last_of_def split: if_splits)
  have k: "record_decision sv request d envelope s =
      mbind (sv_now sv) (\<lambda>now. mbind (recompute sv request (PStr now)) (\<lambda>rec. mbind (status rec) (\<lambda>n. rest n rec))) s1"
    using s1(1) by (simp add: record_decision_def mbind_run status_def rest_def)
  have quiet_rest: "quiet (rest n rec)" for n rec unfolding rest_def by (auto simp: now_quiet)
  have st: "ok w \<and> (\<exists>ys. log w = log v @ ys \<and> length ys \<le> 1 \<and> (\<forall>y\<in>set ys. ev ''status.changed'' y))"
    if v: "ok v" "intact (log v)" and m: "status rec v = (q, w)" for rec v q w
  proof (cases "rec_status rec \<noteq> u ''pending'' \<and> (\<exists>rid. request_id request = Inr rid)")
    case True
    then obtain rid where rid: "request_id request = Inr rid" by blast
    obtain now v1 where n: "sv_now sv v = (Inr now, v1)" "ok v1" "log v1 = log v" using now_reads [OF v(1)] by blast
    obtain v2 where a: "append_event sv (u ''status.changed'') (status_payload rid rec) (PStr now) (PStr rid) v1
        = (next_entry (last_of (log v1)) (u ''status.changed'') (status_payload rid rec) (PStr now) (PStr rid), v2)" "ok v2"
      "log v2 = (case next_entry (last_of (log v1)) (u ''status.changed'') (status_payload rid rec) (PStr now) (PStr rid) of
         Inl _ \<Rightarrow> log v1 | Inr e \<Rightarrow> log v1 @ [e])"
      using append_writes [OF n(2), of "PStr rid" "u ''status.changed''" "status_payload rid rec" "PStr now"] n(3) v(2) by auto
    have "w = v2" using m True rid n(1) a(1) by (auto simp: status_def mbind_def mlift_def mret_def split: sum.splits)
    then show ?thesis using a(2,3) n(3) next_entry_Inr
      by (cases "next_entry (last_of (log v1)) (u ''status.changed'') (status_payload rid rec) (PStr now) (PStr rid)") auto
  next
    case False
    then have "w = v"
      using m by (cases "request_id request") (auto simp: status_def mbind_def mlift_def mret_def mraise_def split: if_splits)
    then show ?thesis using v(1) by simp
  qed
  obtain now s2 where n: "sv_now sv s1 = (Inr now, s2)" "ok s2" "log s2 = log s1" using now_reads [OF s1(2)] by blast
  obtain q s3 where q: "recompute sv request (PStr now) s2 = (q, s3)" by fastforce
  have s3: "ok s3" "log s3 = log s1" using quiet_same [OF quiet_recompute(2) n(2) q] n(3) by simp_all
  show ?thesis
  proof (cases q)
    case (Inl x)
    then have "t = s3" using run k n(1) q by (simp add: mbind_run)
    then show ?thesis using s3(2) s1(3) by auto
  next
    case (Inr rec)
    obtain q' s4 where q': "status rec s3 = (q', s4)" by fastforce
    have s4: "ok s4" "\<exists>ys. log s4 = log s3 @ ys \<and> length ys \<le> 1 \<and> (\<forall>y\<in>set ys. ev ''status.changed'' y)"
      using st [OF s3(1) _ q'] s3(2) i1 by simp_all
    have "log t = log s4"
    proof (cases q')
      case (Inr n')
      then have "rest n' rec s4 = (r, t)" using run k n(1) q \<open>q = Inr rec\<close> q' by (simp add: mbind_run)
      then show ?thesis using quiet_same [OF quiet_rest s4(1)] by blast
    qed (use run k n(1) q Inr q' in \<open>simp add: mbind_run\<close>)
    then show ?thesis using s4(2) s3(2) s1(3) by auto
  qed
qed

end

end
