(* ===== verification/Verification.thy ===== *)
theory Verification
  imports Behaviour
begin

section \<open>What a clean verification report proves\<close>

text \<open>
  \<open>verify_log\<close> reads the log and reports; \<open>audited\<close> is what a report without failures means for the
  segment it walked.  The soundness lemma is proved by following the walk: the chain of the segment
  (\<open>walk_ok\<close>), the decisions and the recorded statuses in it (\<open>checks_sound\<close> over the loop), the
  published and the pinned checkpoint.  \<open>pinned_history\<close> puts it together with the Merkle tree and the
  hash chain: what was seen when the pinned checkpoint was made is still in the log, unchanged.
\<close>

definition decision_checked :: "('s, 'k) ApprovalService \<Rightarrow> LedgerEntry list \<Rightarrow> pyval \<Rightarrow> Decision \<Rightarrow> bool" where
  "decision_checked sv xs envelope d \<longleftrightarrow>
     (\<exists>request cx. created_request (entries_of (d_request_id d) xs) = Inr (Some request) \<and>
        context_digest request = Inr cx \<and> d_context_digest d = PStr cx \<and> authorized sv envelope d = Inr True)"

definition status_checked :: "('s, 'k) ApprovalService \<Rightarrow> LedgerEntry list \<Rightarrow> pstr \<Rightarrow> pyval \<Rightarrow> bool" where
  "status_checked sv xs now rid \<longleftrightarrow> (case created_request (entries_of rid xs) of
       Inl _ \<Rightarrow> False
     | Inr None \<Rightarrow> True
     | Inr (Some request) \<Rightarrow> (case recomputed sv xs request (PStr now) of
           Inl x \<Rightarrow> isinstance x UnknownPolicy
         | Inr rec \<Rightarrow> (case last_status PNone (entries_of rid xs) of
               Inl _ \<Rightarrow> False
             | Inr st \<Rightarrow> st = PNone \<or> st = PStr (rec_status rec) \<or> rec_status rec = u ''expired'')))"

definition checkpoint_reproduces :: "('s, 'k) ApprovalService \<Rightarrow> LedgerEntry list \<Rightarrow> Checkpoint \<Rightarrow> bool" where
  "checkpoint_reproduces sv xs cp \<longleftrightarrow>
     (\<exists>signers. verify_checkpoint (sv_registry sv) cp (sv_key_dir sv) = Inr signers) \<and>
     (\<exists>root. merkle_root (slice_to (map e_entry_hash xs) (c_tree_size cp)) = Inr root \<and> PStr root = c_root_hash cp)"

definition pinned_consistent :: "('s, 'k) ApprovalService \<Rightarrow> LedgerEntry list \<Rightarrow> Checkpoint \<Rightarrow> bool" where
  "pinned_consistent sv xs cp \<longleftrightarrow>
     (\<exists>signers. verify_checkpoint (sv_registry sv) cp (sv_key_dir sv) = Inr signers) \<and>
     verify_consistency cp (slice_to (map e_entry_hash xs) (c_tree_size cp)) = Inr ()"

definition segment_of :: "int \<Rightarrow> int option \<Rightarrow> LedgerEntry list \<Rightarrow> LedgerEntry list" where
  "segment_of from_seq limit xs = (case limit of None \<Rightarrow> drop (nat from_seq) xs
     | Some l \<Rightarrow> take (nat l) (drop (nat from_seq) xs))"

text \<open>The hash the segment is anchored on: the one its own first entry names.\<close>

definition anchor :: "int \<Rightarrow> LedgerEntry list \<Rightarrow> pstr" where
  "anchor from_seq xs = (if from_seq < int (length xs) then e_prev_hash (xs ! nat from_seq) else ZERO_HASH)"

definition audited ::
  "('s, 'k) ApprovalService \<Rightarrow> LedgerEntry list \<Rightarrow> Checkpoint option \<Rightarrow> int \<Rightarrow> int option \<Rightarrow> bool" where
  "audited sv xs trusted from_seq limit \<longleftrightarrow>
     chained from_seq (anchor from_seq xs) (segment_of from_seq limit xs) \<and>
     (\<forall>e\<in>set (segment_of from_seq limit xs). ev ''decision.recorded'' e \<longrightarrow>
        (\<exists>d. decision_of (e_payload e) = Inr d \<and> decision_checked sv xs (e_payload e) d)) \<and>
     (\<exists>now. \<forall>e\<in>set (segment_of from_seq limit xs). ev ''request.created'' e \<and> truthy (e_request_id e) \<longrightarrow>
        status_checked sv xs now (e_request_id e)) \<and>
     (\<forall>cp. last_published xs = Inr (Some cp) \<longrightarrow> checkpoint_reproduces sv xs cp) \<and>
     (\<forall>cp. trusted = Some cp \<longrightarrow> pinned_consistent sv xs cp)"

subsection \<open>The walk\<close>

lemma collect_all:
  "collect es = (ds, ids, None) \<Longrightarrow>
     (\<forall>e\<in>set es. ev ''decision.recorded'' e \<longrightarrow> (\<exists>d. decision_of (e_payload e) = Inr d \<and> (e_payload e, d) \<in> set ds)) \<and>
     (\<forall>e\<in>set es. ev ''request.created'' e \<and> truthy (e_request_id e) \<longrightarrow> e_request_id e \<in> set ids)"
proof (induction es arbitrary: ds ids)
  case (Cons e es)
  obtain ds' ids' f where rec: "collect es = (ds', ids', f)" by (cases "collect es")
  show ?case
  proof (cases "ev ''decision.recorded'' e")
    case True
    then have "f = None" "\<exists>d. decision_of (e_payload e) = Inr d \<and> ds = (e_payload e, d) # ds'" "ids = ids'"
      using Cons.prems rec by (auto split: sum.splits)
    then show ?thesis using Cons.IH rec True by auto
  next
    case False
    then show ?thesis using Cons.prems rec Cons.IH by (auto split: if_splits)
  qed
qed simp

lemma collect_truthy: "collect es = (ds, ids, f) \<Longrightarrow> \<forall>rid\<in>set ids. truthy rid"
  by (induction es arbitrary: ds ids f) (auto split: if_splits sum.splits prod.splits)

lemma walk_truthy: "\<forall>rid\<in>set (wk_requests (walk_segment n p scanned)). truthy rid"
proof -
  obtain es failed where sc: "(case scanned of Inl x \<Rightarrow> ([], Some x) | Inr r \<Rightarrow> r) = (es, failed)" by fastforce
  obtain ds ids bad where c: "collect es = (ds, ids, bad)" by (cases "collect es")
  then have "wk_requests (walk_segment n p scanned) = ids"
    using sc by (simp add: walk_segment_def split: sum.split prod.split)
  then show ?thesis using collect_truthy [OF c] by simp
qed

lemma walk_ok:
  assumes "list_all ck_ok (wk_checks (walk_segment n p scanned))"
  obtains es where "scanned = Inr (es, None)" "chained n p es"
    "collect es = (wk_decisions (walk_segment n p scanned), wk_requests (walk_segment n p scanned), None)"
proof -
  obtain es failed where sc: "(case scanned of Inl x \<Rightarrow> ([], Some x) | Inr r \<Rightarrow> r) = (es, failed)" by fastforce
  obtain ds ids bad where c: "collect es = (ds, ids, bad)" by (cases "collect es")
  have w: "bad = None \<and> failed = None \<and> (\<exists>m h. verify_segment es n p = Inr (m, h))"
    using assms sc c by (auto simp: walk_segment_def chk_def split: option.splits sum.splits)
  then obtain m h where v: "verify_segment es n p = Inr (m, h)" by blast
  then have "chained n p es" by (simp add: verify_segment_chained)
  moreover have "scanned = Inr (es, None)" using sc w by (auto split: sum.splits)
  moreover have "wk_decisions (walk_segment n p scanned) = ds" "wk_requests (walk_segment n p scanned) = ids"
    using sc c w v by (simp_all add: walk_segment_def)
  ultimately show thesis using that c w by blast
qed

subsection \<open>A pinned checkpoint pins the history\<close>

lemma audited_pinned:
  assumes audit: "audited sv xs (Some (cp\<lparr>c_signatures := sigs\<rparr>)) 0 None"
    and built: "build_checkpoint (map e_entry_hash old) log_id t prev = Inr cp" and old: "chained 0 p old"
  shows "map entry_norm (take (length old) xs) = map entry_norm old \<or>
    collides (merkle_msgs (map e_entry_hash (take (length old) xs))) (merkle_msgs (map e_entry_hash old)) \<or>
    (\<exists>i<length old. collision (cbytes (core_dict (xs ! i))) (cbytes (core_dict (old ! i))))"
proof (cases "old = [] \<or> collides (merkle_msgs (map e_entry_hash (take (length old) xs))) (merkle_msgs (map e_entry_hash old))")
  case False
  have size: "c_tree_size cp = int (length old)" using build_checkpoint_Inr [OF built] by auto
  have "verify_consistency (cp\<lparr>c_signatures := sigs\<rparr>) (map e_entry_hash (take (length old) xs)) = Inr ()"
    using audit size by (simp add: audited_def pinned_consistent_def slice_to_def take_map)
  from verify_consistency_fork [OF built this] False
  have same: "map e_entry_hash (take (length old) xs) = map e_entry_hash old" by (simp add: take_map)
  then have len: "length (take (length old) xs) = length old" by (metis length_map)
  have "chained 0 (anchor 0 xs) xs" using audit by (simp add: audited_def segment_of_def)
  then have "chained 0 (anchor 0 xs) (take (length old) xs)" by (rule chained_take)
  moreover have "end_hash (anchor 0 xs) (take (length old) xs) = end_hash p old"
  proof -
    have ne: "old \<noteq> []" "take (length old) xs \<noteq> []" using len False by auto
    then show ?thesis
      using arg_cong [OF same, of last] last_map [of "take (length old) xs" e_entry_hash] last_map [of old e_entry_hash]
      by (simp add: end_hash_def del: take_eq_Nil)
  qed
  moreover have "take (length old) xs \<noteq> []" using len False by auto
  ultimately have "map entry_norm (take (length old) xs) = map entry_norm old \<or>
      (\<exists>i<length old. collision (cbytes (core_dict (take (length old) xs ! i))) (cbytes (core_dict (old ! i))))"
    using chain_binds [OF _ old len] len by metis
  then show ?thesis by auto
qed auto

context sole_service
begin

text \<open>A loop that adds checks: if all it adds hold, what each step checks holds.\<close>

definition adds_checks ::
  "(Check list \<Rightarrow> ('s, exn, Check list) eff) \<Rightarrow> (LedgerEntry list \<Rightarrow> bool) \<Rightarrow> bool" where
  "adds_checks body P \<longleftrightarrow> (\<forall>b s r t. ok s \<longrightarrow> body b s = (Inr r, t) \<longrightarrow>
     ok t \<and> log t = log s \<and> (\<exists>cs. r = b @ cs \<and> (list_all ck_ok cs \<longrightarrow> P (log s))))"

lemma adds_checksI:
  assumes "\<And>b. quiet (body b)"
    and "\<And>b s r t. ok s \<Longrightarrow> body b s = (Inr r, t) \<Longrightarrow> \<exists>cs. r = b @ cs \<and> (list_all ck_ok cs \<longrightarrow> P (log s))"
  shows "adds_checks body P"
  unfolding adds_checks_def using assms quiet_same by metis

lemma mfor_adds:
  "(\<And>x. x \<in> set xs \<Longrightarrow> adds_checks (body x) (P x)) \<Longrightarrow> adds_checks (mfor xs body) (\<lambda>l. \<forall>x\<in>set xs. P x l)"
proof (induction xs)
  case Nil
  then show ?case by (simp add: adds_checks_def mret_def)
next
  case (Cons x xs)
  have x: "adds_checks (body x) (P x)" and xs: "adds_checks (mfor xs body) (\<lambda>l. \<forall>x\<in>set xs. P x l)"
    using Cons by simp_all
  show ?case
    unfolding adds_checks_def
  proof (intro allI impI)
    fix b s r t assume s: "ok s" and run: "mfor (x # xs) body b s = (Inr r, t)"
    obtain q s' where q: "body x b s = (Inr q, s')" "mfor xs body q s' = (Inr r, t)" using run by (auto simp: mbind_eq_Inr)
    obtain cs where c: "ok s'" "log s' = log s" "q = b @ cs" "list_all ck_ok cs \<longrightarrow> P x (log s)"
      using x s q(1) unfolding adds_checks_def by blast
    obtain cs' where c': "ok t" "log t = log s'" "r = q @ cs'" "list_all ck_ok cs' \<longrightarrow> (\<forall>x\<in>set xs. P x (log s'))"
      using xs c(1) q(2) unfolding adds_checks_def by blast
    show "ok t \<and> log t = log s \<and> (\<exists>cs. r = b @ cs \<and> (list_all ck_ok cs \<longrightarrow> (\<forall>x\<in>set (x # xs). P x (log s))))"
      using c c' by simp
  qed
qed

text \<open>A request that is found is the one the log holds.\<close>

lemma load_request_found:
  assumes "ok s" "load_request sv rid s = (Inr (Some request), t)"
  shows "hashable rid \<and> created_request (about rid s) = Inr (Some request) \<and> ok t \<and> log t = log s"
proof -
  have run: "require_request sv rid s = (Inr request, t)"
    using assms(2) by (simp add: require_request_def mbind_def mret_def)
  obtain xs where "hashable rid" "prefix (log s) xs" "prefix xs (log t)" "created_request (entries_of rid xs) = Inr (Some request)"
    using require_request_sees [OF assms(1) _ run] by blast
  moreover have "ok t \<and> log t = log s" using quiet_same [OF quiet_load(2) assms(1) run] .
  ultimately show ?thesis by (metis prefix_order.antisym)
qed

lemma verify_decision_adds:
  "adds_checks (verify_decision sv (envelope, d)) (\<lambda>l. decision_checked sv l envelope d)"
proof (rule adds_checksI)
  show "quiet (verify_decision sv (envelope, d) b)" for b
    unfolding verify_decision_def by (auto split: option.split)
  fix b s r t assume s: "ok s" and run: "verify_decision sv (envelope, d) b s = (Inr r, t)"
  obtain found s' where f: "load_request sv (d_request_id d) s = (Inr found, s')"
    using run by (auto simp: verify_decision_def mbind_eq_Inr)
  show "\<exists>cs. r = b @ cs \<and> (list_all ck_ok cs \<longrightarrow> decision_checked sv (log s) envelope d)"
  proof (cases found)
    case None
    then show ?thesis using run f by (auto simp: verify_decision_def mbind_run mret_def chk_def)
  next
    case (Some request)
    obtain cx good descr where c: "context_digest request = Inr cx" "authorized sv envelope d = Inr good"
      "r = b @ [chk (d_context_digest d = PStr cx) (Decision_bound (d_approver_id d) (d_request_id d)), chk good descr]"
      using run Some f by (auto simp: verify_decision_def mbind_run mbind_eq_Inr mlift_run mret_def)
    have "created_request (about (d_request_id d) s) = Inr (Some request)"
      using load_request_found [OF s] f Some by blast
    then show ?thesis using c by (auto simp: decision_checked_def chk_def)
  qed
qed

lemma last_recorded_reads:
  assumes "ok s" "hashable rid" "truthy rid" "last_recorded_status sv rid s = (Inr st, t)"
  shows "last_status PNone (about rid s) = Inr st"
  using assms(4) events_read [OF assms(1-3)] by (auto simp: last_recorded_status_def mbind_eq_Inr mlift_run)

lemma verify_status_adds:
  assumes "truthy rid"
  shows "adds_checks (verify_status sv (PStr now) rid) (\<lambda>l. status_checked sv l now rid)"
proof (rule adds_checksI)
  show "quiet (verify_status sv (PStr now) rid b)" for b
    unfolding verify_status_def by (auto split: option.split sum.split)
  fix b s r t assume s: "ok s" and run: "verify_status sv (PStr now) rid b s = (Inr r, t)"
  let ?m = "\<lambda>request. mcatch (mbind (recompute sv request (PStr now)) (\<lambda>r. mret (Inr r)))
                  (\<lambda>e. if isinstance e UnknownPolicy then mret (Inl (chk True (Status_not_checked rid)))
                       else if isinstance e PolicyMismatch then mret (Inl (chk False (Policy_mismatch e)))
                       else mraise e)"
  obtain found s1 where f: "load_request sv rid s = (Inr found, s1)" using run by (auto simp: verify_status_def mbind_eq_Inr)
  show "\<exists>cs. r = b @ cs \<and> (list_all ck_ok cs \<longrightarrow> status_checked sv (log s) now rid)"
  proof (cases found)
    case None
    have "created_request (about rid s) = Inr None"
    proof -
      obtain es where es: "es_events_for_request (sv_events sv) rid s = (Inr es, s1)" "created_request es = Inr None"
        using f None by (auto simp: load_request_def mbind_eq_Inr mlift_run)
      then show ?thesis using events_for_request [OF s es(1)] assms by auto
    qed
    then show ?thesis using run f None by (simp add: verify_status_def mbind_def mret_def status_checked_def)
  next
    case (Some request)
    have l: "hashable rid" "created_request (about rid s) = Inr (Some request)" "ok s1" "log s1 = log s"
      using load_request_found [OF s] f Some by blast+
    obtain s2 where rc: "recompute sv request (PStr now) s1 = (recomputed sv (log s) request (PStr now), s2)" "ok s2" "log s2 = log s"
      using recompute_reads [OF l(3)] l(4) by metis
    show ?thesis
    proof (cases "recomputed sv (log s) request (PStr now)")
      case (Inl x)
      then have "(\<exists>descr. isinstance x UnknownPolicy \<and> r = b @ [chk True descr]) \<or> (\<exists>descr. r = b @ [chk False descr])"
        using run f Some rc
        by (auto simp: verify_status_def mbind_def mcatch_def mret_def mraise_def split: if_splits)
      then show ?thesis using l(2) Inl by (auto simp: status_checked_def chk_def)
    next
      case (Inr rec)
      then obtain st where st: "last_recorded_status sv rid s2 = (Inr st, t)"
        "r = b @ [chk (st = PNone \<or> st = PStr (rec_status rec) \<or> rec_status rec = u ''expired'')
                  (Status_reproducible rid (rec_status rec))]"
        using run f Some rc by (auto simp: verify_status_def mbind_def mcatch_def mret_def split: sum.splits prod.splits)
      have "last_status PNone (about rid s) = Inr st" using last_recorded_reads [OF rc(2) l(1) assms st(1)] rc(3) by simp
      then show ?thesis using st(2) l(2) Inr by (auto simp: status_checked_def chk_def)
    qed
  qed
qed

lemma verify_published_reads:
  assumes "ok s" "verify_published sv s = (Inr cs, t)" "list_all ck_ok cs" "last_published (log s) = Inr (Some cp)"
  shows "checkpoint_reproduces sv (log s) cp"
proof -
  obtain q s1 where c: "es_latest_checkpoint (sv_events sv) s = (Inr q, s1)" using assms(2)
    by (auto simp: verify_published_def mbind_eq_Inr)
  then have s1: "q = Some cp" "ok s1" "log s1 = log s" using latest_checkpoint [OF assms(1) c] assms(4) by auto
  then obtain leaves s2 root where l: "es_leaf_hashes (sv_events sv) (Some (c_tree_size cp)) s1 = (Inr leaves, s2)"
    "merkle_root leaves = Inr root"
    "cs = [case verify_checkpoint (sv_registry sv) cp (sv_key_dir sv) of
                 Inr signers \<Rightarrow> chk True (Checkpoint_signed_by signers)
               | Inl x \<Rightarrow> chk False (Checkpoint_signature_error x),
               chk (PStr root = c_root_hash cp) (Merkle_root_matches (c_tree_size cp))]"
    using assms(2) c by (auto simp: verify_published_def mbind_eq_Inr mlift_run mret_run)
  have "leaves = slice_to (map e_entry_hash (log s)) (c_tree_size cp)" using leaf_hashes_slice [OF s1(2) l(1)] s1(3) by auto
  then show ?thesis using l(2,3) assms(3) by (auto simp: checkpoint_reproduces_def chk_def split: sum.splits)
qed

lemma verify_trusted_reads:
  assumes "ok s" "verify_trusted sv (Some cp) s = (Inr cs, t)" "list_all ck_ok cs"
  shows "pinned_consistent sv (log s) cp"
proof -
  obtain signers leaves s1 where v: "verify_checkpoint (sv_registry sv) cp (sv_key_dir sv) = Inr signers"
    "es_leaf_hashes (sv_events sv) (Some (c_tree_size cp)) s = (Inr leaves, s1)" "verify_consistency cp leaves = Inr ()"
    using assms(2,3)
    by (auto simp: verify_trusted_def mcatch_def mbind_def mlift_def mret_def chk_def split: sum.splits prod.splits)
  have "leaves = slice_to (map e_entry_hash (log s)) (c_tree_size cp)" using leaf_hashes_slice [OF assms(1) v(2)] by auto
  then show ?thesis using v by (auto simp: pinned_consistent_def)
qed

lemma quiet_parts:
  "quiet (verify_published sv)" "quiet (verify_trusted sv tc)"
  unfolding verify_published_def verify_trusted_def by (auto split: option.split sum.split)

text \<open>The steps of \<open>verify\<close>, each in a world with the same log.\<close>

lemma verify_log_steps:
  assumes s: "ok s" and run: "verify_log sv trusted n limit s = (Inr rep, t)"
  obtains first s1 scanned s2 pc s3 tc s4 dc s5 now s6 where
    "es_get_by_seq (sv_events sv) n s = (Inr first, s1)" "es_scan (sv_events sv) n limit s1 = (scanned, s2)"
    "verify_published sv s2 = (Inr pc, s3)" "verify_trusted sv trusted s3 = (Inr tc, s4)"
    "let w = walk_segment n (case first of Some e \<Rightarrow> e_prev_hash e | None \<Rightarrow> ZERO_HASH) scanned
     in mfor (wk_decisions w) (verify_decision sv) (wk_checks w @ pc @ tc) s4 = (Inr dc, s5) \<and>
        mfor (wk_requests w) (verify_status sv (PStr now)) dc s6 = (Inr (vr_checks rep), t)"
    "\<forall>x\<in>{s1, s2, s3, s4, s5, s6}. ok x \<and> log x = log s"
proof -
  define wk where "wk first scanned = walk_segment n (case first of Some e \<Rightarrow> e_prev_hash e | None \<Rightarrow> ZERO_HASH) scanned"
    for first :: "LedgerEntry option" and scanned
  obtain first s1 where f: "es_get_by_seq (sv_events sv) n s = (Inr first, s1)"
    using run unfolding verify_log_def by (auto simp: mbind_eq_Inr)
  obtain scanned s2 where sc: "es_scan (sv_events sv) n limit s1 = (scanned, s2)" by fastforce
  obtain pc s3 tc s4 dc s5 now s6 where r: "es_get_by_seq (sv_events sv) n s = (Inr first, s1)"
    "es_scan (sv_events sv) n limit s1 = (scanned, s2)"
    "verify_published sv s2 = (Inr pc, s3)" "verify_trusted sv trusted s3 = (Inr tc, s4)"
    "mfor (wk_decisions (wk first scanned)) (verify_decision sv) (wk_checks (wk first scanned) @ pc @ tc) s4 = (Inr dc, s5)"
    "sv_now sv s5 = (Inr now, s6)"
    "mfor (wk_requests (wk first scanned)) (verify_status sv (PStr now)) dc s6 = (Inr (vr_checks rep), t)"
    using run f sc unfolding verify_log_def Let_def wk_def
    by (auto simp: mbind_run mbind_eq_Inr mret_run)
  have qd: "quiet (mfor xs (verify_decision sv) b)" for xs b
    unfolding verify_decision_def by (auto split: option.split)
  have 1: "ok s1 \<and> log s1 = log s" using quiet_same [OF quiet_reads(2) s r(1)] .
  then have 2: "ok s2 \<and> log s2 = log s" using quiet_same [OF quiet_reads(4) _ r(2)] by simp
  then have 3: "ok s3 \<and> log s3 = log s" using quiet_same [OF quiet_parts(1) _ r(3)] by simp
  then have 4: "ok s4 \<and> log s4 = log s" using quiet_same [OF quiet_parts(2) _ r(4)] by simp
  then have 5: "ok s5 \<and> log s5 = log s" using quiet_same [OF qd _ r(5)] by simp
  then have 6: "ok s6 \<and> log s6 = log s" using quiet_same [OF now_quiet _ r(6)] by simp
  show thesis
    by (rule that [of first s1 scanned s2 pc s3 tc s4 dc s5 now s6])
      (use r 1 2 3 4 5 6 in \<open>simp_all add: wk_def Let_def\<close>)
qed

lemma verify_sound:
  assumes s: "ok s" and run: "verify_log sv trusted n limit s = (Inr rep, t)" and clean: "report_ok rep"
    and args: "0 \<le> n" "\<forall>l. limit = Some l \<longrightarrow> 0 \<le> l"
  shows "audited sv (log s) trusted n limit"
proof -
  obtain first s1 scanned s2 pc s3 tc s4 dc s5 now s6 where
    r: "es_get_by_seq (sv_events sv) n s = (Inr first, s1)" "es_scan (sv_events sv) n limit s1 = (scanned, s2)"
    "verify_published sv s2 = (Inr pc, s3)" "verify_trusted sv trusted s3 = (Inr tc, s4)"
    and loops: "let w = walk_segment n (case first of Some e \<Rightarrow> e_prev_hash e | None \<Rightarrow> ZERO_HASH) scanned
     in mfor (wk_decisions w) (verify_decision sv) (wk_checks w @ pc @ tc) s4 = (Inr dc, s5) \<and>
        mfor (wk_requests w) (verify_status sv (PStr now)) dc s6 = (Inr (vr_checks rep), t)"
    and same: "\<forall>x\<in>{s1, s2, s3, s4, s5, s6}. ok x \<and> log x = log s"
    by (rule verify_log_steps [OF s run])
  define p where "p = (case first of Some e \<Rightarrow> e_prev_hash e | None \<Rightarrow> ZERO_HASH)"
  define w where "w = walk_segment n p scanned"
  have anchor: "p = anchor n (log s)"
    using get_by_seq [OF s r(1)] args(1) by (auto simp: p_def anchor_def)
  have loop: "mfor (wk_decisions w) (verify_decision sv) (wk_checks w @ pc @ tc) s4 = (Inr dc, s5)"
    "mfor (wk_requests w) (verify_status sv (PStr now)) dc s6 = (Inr (vr_checks rep), t)"
    using loops by (simp_all add: w_def p_def Let_def)
  have "adds_checks (mfor (wk_decisions w) (verify_decision sv))
      (\<lambda>l. \<forall>x\<in>set (wk_decisions w). decision_checked sv l (fst x) (snd x))"
  proof (rule mfor_adds)
    fix x :: "pyval \<times> Decision"
    show "adds_checks (verify_decision sv x) (\<lambda>l. decision_checked sv l (fst x) (snd x))"
      using verify_decision_adds by (cases x) simp
  qed
  then obtain cs where cs: "dc = (wk_checks w @ pc @ tc) @ cs"
    "list_all ck_ok cs \<longrightarrow> (\<forall>x\<in>set (wk_decisions w). decision_checked sv (log s) (fst x) (snd x))"
    using loop(1) same unfolding adds_checks_def by (metis insertCI)
  have "adds_checks (mfor (wk_requests w) (verify_status sv (PStr now))) (\<lambda>l. \<forall>rid\<in>set (wk_requests w). status_checked sv l now rid)"
    using walk_truthy unfolding w_def by (intro mfor_adds verify_status_adds) blast
  then obtain ws where ws: "vr_checks rep = dc @ ws"
    "list_all ck_ok ws \<longrightarrow> (\<forall>rid\<in>set (wk_requests w). status_checked sv (log s) now rid)"
    using loop(2) same unfolding adds_checks_def by (metis insertCI)
  then have ok: "list_all ck_ok (wk_checks w)" "list_all ck_ok pc" "list_all ck_ok tc" "list_all ck_ok cs"
    and st: "\<forall>rid\<in>set (wk_requests w). status_checked sv (log s) now rid"
    using clean cs(1) by (auto simp: report_ok_def)
  obtain es where es: "scanned = Inr (es, None)" "chained n p es" "collect es = (wk_decisions w, wk_requests w, None)"
    using walk_ok [OF ok(1) [unfolded w_def]] unfolding w_def by blast
  note c = collect_all [OF es(3)]
  have seg: "es = segment_of n limit (log s)"
  proof (cases "limit = Some 0")
    case True
    have "es_scan (sv_events sv) n (Some 0) s1 = (Inr (es, None), s2)" using r(2) es(1) True by simp
    then have "es = []" using scan_none same(1) args(1) by blast
    then show ?thesis by (simp add: segment_of_def True)
  next
    case False
    then show ?thesis
      using scan [of s1 n limit scanned s2] r(2) es(1) same args by (auto simp: segment_of_def split: option.splits)
  qed
  show ?thesis
    unfolding audited_def seg [symmetric] anchor [symmetric]
    using es(2) c cs(2) st ok verify_published_reads [of s2 pc s3] verify_trusted_reads [of s3 _ tc s4] r(3,4) same
    by fastforce
qed

end

end
