(* ===== verification/MemStore.thy ===== *)
theory MemStore
  imports Verification
begin

section \<open>In-memory stores\<close>

text \<open>
  \<^verbatim>\<open>tests/memory_stores.py\<close>: the reference implementation the conformance suite runs against, and
  the model every contract of \<open>Stores\<close> is discharged on.  The world \<open>mem\<close> is the process: the
  entries with their index by request, the views, the reserved keys and the clock.  \<open>m_others\<close> is
  what other writers of the log append before each of the next operations on it (a burst per
  operation): with an empty schedule the store has one writer, with any schedule it is one store
  shared by several services.  A request id is compared as a value, so the ids 1 and true are not
  identified; every id the library stores is a string or absent.
\<close>

record mem =
  m_entries :: "LedgerEntry list"
  m_by_request :: "(pyval \<times> int list) list"
  m_views :: "(pstr \<times> RequestView) list"
  m_idem :: "(pyval \<times> pstr \<times> pyval) list"
  m_now :: pstr
  m_others :: "(pstr \<times> pyval \<times> pyval \<times> pyval) list list"

text \<open>\<open>xs[i]\<close> and \<open>xs[a:b]\<close>\<close>

definition py_index :: "'a list \<Rightarrow> int \<Rightarrow> exn + 'a" where
  "py_index xs i =
     (if 0 \<le> i \<and> i < int (length xs) then Inr (xs ! nat i)
      else if - int (length xs) \<le> i \<and> i < 0 then Inr (xs ! nat (int (length xs) + i))
      else Inl IndexError)"

definition py_slice :: "'a list \<Rightarrow> int \<Rightarrow> int \<Rightarrow> 'a list" where
  "py_slice xs a b =
     (let n = int (length xs); clip = (\<lambda>i. if i < 0 then max 0 (i + n) else min i n)
      in take (nat (clip b - clip a)) (drop (nat (clip a)) xs))"

subsection \<open>The event store\<close>

definition mem_index :: "pyval \<Rightarrow> int \<Rightarrow> (pyval \<times> int list) list \<Rightarrow> (pyval \<times> int list) list" where
  "mem_index rid n ix = AList.update rid ((case map_of ix rid of None \<Rightarrow> [] | Some ns \<Rightarrow> ns) @ [n]) ix"

definition mem_append :: "LedgerEntry \<Rightarrow> (mem, exn, unit) eff" where
  "mem_append e s =
     (if e_seq e \<noteq> int (length (m_entries s)) then (Inl LedgerConflict, s)
      else (let s' = s\<lparr>m_entries := m_entries s @ [e]\<rparr> in
        if \<not> truthy (e_request_id e) then (Inr (), s')
        else if \<not> hashable (e_request_id e) then (Inl TypeError, s')
        else (Inr (), s'\<lparr>m_by_request := mem_index (e_request_id e) (e_seq e) (m_by_request s)\<rparr>)))"

definition mem_head :: "(mem, exn, LedgerEntry option) eff" where
  "mem_head s = (Inr (last_of (m_entries s)), s)"

definition mem_get_by_seq :: "int \<Rightarrow> (mem, exn, LedgerEntry option) eff" where
  "mem_get_by_seq n s =
     (Inr (if 0 \<le> n \<and> n < int (length (m_entries s)) then Some (m_entries s ! nat n) else None), s)"

definition mem_events :: "pyval \<Rightarrow> (mem, exn, LedgerEntry list) eff" where
  "mem_events rid s =
     (if \<not> hashable rid then (Inl TypeError, s)
      else (smap (py_index (m_entries s)) (case map_of (m_by_request s) rid of None \<Rightarrow> [] | Some ns \<Rightarrow> ns), s))"

definition mem_scan :: "int \<Rightarrow> int option \<Rightarrow> (mem, exn, LedgerEntry list \<times> exn option) eff" where
  "mem_scan start limit s =
     (let n = int (length (m_entries s));
          stop = (case limit of None \<Rightarrow> n | Some l \<Rightarrow> min (start + l) n)
      in (Inr (py_slice (m_entries s) start stop, None), s))"

definition mem_leaf_hashes :: "int option \<Rightarrow> (mem, exn, pstr list) eff" where
  "mem_leaf_hashes up_to s =
     (let hashes = map e_entry_hash (m_entries s)
      in (Inr (case up_to of None \<Rightarrow> hashes | Some n \<Rightarrow> slice_to hashes n), s))"

definition mem_latest_checkpoint :: "(mem, exn, Checkpoint option) eff" where
  "mem_latest_checkpoint s =
     ((case find (ev ''checkpoint.published'') (rev (m_entries s)) of
         None \<Rightarrow> Inr None
       | Some e \<Rightarrow> sbind (Checkpoint_from_dict (e_payload e)) (\<lambda>cp. Inr (Some cp))), s)"

text \<open>What the other writers do before an operation: one burst, each entry made for the current head.\<close>

definition other_append :: "pstr \<times> pyval \<times> pyval \<times> pyval \<Rightarrow> mem \<Rightarrow> mem" where
  "other_append w s = (case w of (ty, payload, at_time, rid) \<Rightarrow>
     (case next_entry (last_of (m_entries s)) ty payload at_time rid of
        Inl _ \<Rightarrow> s
      | Inr e \<Rightarrow> if hashable rid then snd (mem_append e s) else s))"

definition others_act :: "mem \<Rightarrow> mem" where
  "others_act s = (case m_others s of [] \<Rightarrow> s
     | burst # rest \<Rightarrow> foldl (\<lambda>s w. other_append w s) (s\<lparr>m_others := rest\<rparr>) burst)"

definition busy :: "(mem, exn, 'a) eff \<Rightarrow> (mem, exn, 'a) eff" where
  "busy m s = m (others_act s)"

definition memory_events :: "pstr \<Rightarrow> mem event_store" where
  "memory_events l =
     \<lparr>es_log_id = l, es_head = busy mem_head, es_append = (\<lambda>e. busy (mem_append e)),
      es_get_by_seq = (\<lambda>n. busy (mem_get_by_seq n)), es_events_for_request = (\<lambda>rid. busy (mem_events rid)),
      es_scan = (\<lambda>start limit. busy (mem_scan start limit)),
      es_leaf_hashes = (\<lambda>up_to. busy (mem_leaf_hashes up_to)),
      es_latest_checkpoint = busy mem_latest_checkpoint\<rparr>"

text \<open>\<open>from_entries\<close>: loaded as they are.\<close>

definition from_entries :: "LedgerEntry list \<Rightarrow> pstr \<Rightarrow> mem" where
  "from_entries es now =
     \<lparr>m_entries = es,
      m_by_request = foldl (\<lambda>ix e. if truthy (e_request_id e) then mem_index (e_request_id e) (e_seq e) ix else ix) [] es,
      m_views = [], m_idem = [], m_now = now, m_others = []\<rparr>"

subsection \<open>Projections and idempotency\<close>

definition mem_upsert :: "RequestView \<Rightarrow> (mem, exn, unit) eff" where
  "mem_upsert v s = (case map_of (m_views s) (v_request_id v) of
       Some current \<Rightarrow> if v_last_seq v < v_last_seq current then (Inr (), s)
                       else (Inr (), s\<lparr>m_views := AList.update (v_request_id v) v (m_views s)\<rparr>)
     | None \<Rightarrow> (Inr (), s\<lparr>m_views := AList.update (v_request_id v) v (m_views s)\<rparr>))"

definition mem_view :: "pyval \<Rightarrow> (mem, exn, RequestView option) eff" where
  "mem_view rid s = (case rid of PStr r \<Rightarrow> (Inr (map_of (m_views s) r), s)
     | v \<Rightarrow> (if hashable v then Inr None else Inl TypeError, s))"

definition mem_clear :: "(mem, exn, unit) eff" where
  "mem_clear s = (Inr (), s\<lparr>m_views := []\<rparr>)"

text \<open>
  The filters of a query, and one page of the views, the newest first.  \<open>created_at\<close> is sorted as
  the string it is; a cursor is a decimal offset.
\<close>

fun field_get :: "pyval \<Rightarrow> pyval \<Rightarrow> exn + pyval" where
  "field_get (PDict kvs) k = Inr (case map_of kvs k of None \<Rightarrow> PNone | Some v \<Rightarrow> v)"
| "field_get _ k = Inl AttributeError"

definition keep :: "bool \<Rightarrow> ('a \<Rightarrow> bool) \<Rightarrow> 'a list \<Rightarrow> 'a list" where
  "keep active P xs = (if active then filter P xs else xs)"

definition nonempty :: "'a list option \<Rightarrow> bool" where
  "nonempty x \<longleftrightarrow> (case x of None \<Rightarrow> False | Some xs \<Rightarrow> xs \<noteq> [])"

fun subject_matches :: "(pyval \<times> pyval) list \<Rightarrow> pyval \<Rightarrow> exn + bool" where
  "subject_matches [] subject = Inr True"
| "subject_matches ((k, v) # kvs) subject =
     sbind (field_get subject k) (\<lambda>w. if w = v then subject_matches kvs subject else Inr False)"

definition matching :: "RequestQuery \<Rightarrow> RequestView list \<Rightarrow> exn + RequestView list" where
  "matching q vs =
     (let vs1 = keep (nonempty (q_status q)) (\<lambda>v. v_status v \<in> set (the (q_status q))) vs;
          vs2 = keep (nonempty (q_kind q)) (\<lambda>v. v_kind v = PStr (the (q_kind q))) vs1;
          vs3 = keep (nonempty (q_requested_by q)) (\<lambda>v. v_requested_by v = PStr (the (q_requested_by q))) vs2;
          vs4 = keep (nonempty (q_awaiting q)) (\<lambda>v. the (q_awaiting q) \<in> set (v_pending_for v)) vs3
      in if nonempty (q_subject_match q) then
           sbind (smap (\<lambda>v. subject_matches (the (q_subject_match q)) (v_subject v)) vs4) (\<lambda>bs.
           Inr (map fst (filter snd (zip vs4 bs))))
         else Inr vs4)"

definition cursor_offset :: "pstr option \<Rightarrow> exn + int" where
  "cursor_offset c = (case c of None \<Rightarrow> Inr 0
     | Some s \<Rightarrow> if s = [] then Inr 0
                 else if list_all is_digit s then Inr (int (digits_val 0 s)) else Inl ValueError)"

definition mem_query :: "RequestQuery \<Rightarrow> (mem, exn, RequestView Page) eff" where
  "mem_query q s =
     (let newest = rev (sort_key (\<lambda>v. str_of (v_created_at v)) (rev (map snd (m_views s))))
      in (sbind (matching q newest) (\<lambda>vs.
          sbind (cursor_offset (q_cursor q)) (\<lambda>offset.
          Inr \<lparr>pg_items = py_slice vs offset (offset + q_limit q),
               pg_next_cursor = (if offset + q_limit q < int (length vs)
                                 then Some (int_repr (offset + q_limit q)) else None)\<rparr>)), s))"

definition memory_projections :: "mem projection_store" where
  "memory_projections = \<lparr>pj_upsert = mem_upsert, pj_get = mem_view, pj_query = mem_query, pj_clear = mem_clear\<rparr>"

definition mem_reserve :: "pyval \<Rightarrow> pstr \<Rightarrow> (mem, exn, Reservation) eff" where
  "mem_reserve key fp s =
     (if \<not> hashable key then (Inl TypeError, s)
      else (case map_of (m_idem s) key of
          None \<Rightarrow> (Inr \<lparr>rs_won = True, rs_fingerprint = fp, rs_response = PNone\<rparr>,
                  s\<lparr>m_idem := AList.update key (fp, PNone) (m_idem s)\<rparr>)
        | Some (fp', resp) \<Rightarrow>
            if fp' \<noteq> fp then (Inl IdempotencyConflict, s)
            else (Inr \<lparr>rs_won = False, rs_fingerprint = fp, rs_response = resp\<rparr>, s)))"

definition mem_complete :: "pyval \<Rightarrow> pyval \<Rightarrow> (mem, exn, unit) eff" where
  "mem_complete key resp s =
     (if \<not> hashable key then (Inl TypeError, s)
      else (case map_of (m_idem s) key of None \<Rightarrow> (Inl KeyError, s)
        | Some (fp, _) \<Rightarrow> (Inr (), s\<lparr>m_idem := AList.update key (fp, resp) (m_idem s)\<rparr>)))"

definition mem_release :: "pyval \<Rightarrow> (mem, exn, unit) eff" where
  "mem_release key s =
     (if \<not> hashable key then (Inl TypeError, s) else (Inr (), s\<lparr>m_idem := AList.delete key (m_idem s)\<rparr>))"

definition memory_idempotency :: "mem idempotency_store" where
  "memory_idempotency = \<lparr>id_reserve = mem_reserve, id_complete = mem_complete, id_release = mem_release\<rparr>"

subsection \<open>The index is right\<close>

definition index_ok :: "mem \<Rightarrow> bool" where
  "index_ok s \<longleftrightarrow> (\<forall>rid. case map_of (m_by_request s) rid of
       None \<Rightarrow> truthy rid \<longrightarrow> filter (\<lambda>e. e_request_id e = rid) (m_entries s) = []
     | Some ns \<Rightarrow> truthy rid \<and> smap (py_index (m_entries s)) ns = Inr (filter (\<lambda>e. e_request_id e = rid) (m_entries s)) \<and>
         (\<forall>n\<in>set ns. 0 \<le> n \<and> n < int (length (m_entries s))))"

lemma index_ok_append:
  assumes "index_ok s" "hashable (e_request_id e)" "mem_append e s = (r, t)"
  shows "index_ok t"
proof (cases "e_seq e = int (length (m_entries s))")
  case True
  have grow: "smap (py_index (m_entries s @ [e])) ns = smap (py_index (m_entries s)) ns"
    if "\<forall>n\<in>set ns. 0 \<le> n \<and> n < int (length (m_entries s))" for ns
    using that by (induction ns) (auto simp: py_index_def nth_append)
  show ?thesis
  proof (cases "truthy (e_request_id e)")
    case truthy: True
    have t: "m_entries t = m_entries s @ [e]" "m_by_request t = mem_index (e_request_id e) (e_seq e) (m_by_request s)"
      using assms(2,3) True truthy by (auto simp: mem_append_def Let_def)
    have new: "py_index (m_entries s @ [e]) (int (length (m_entries s))) = Inr e"
      by (simp add: py_index_def)
    show ?thesis
      unfolding index_ok_def
    proof
      fix rid
      show "case map_of (m_by_request t) rid of
          None \<Rightarrow> PyVal.truthy rid \<longrightarrow> filter (\<lambda>e. e_request_id e = rid) (m_entries t) = []
        | Some ns \<Rightarrow> PyVal.truthy rid \<and> smap (py_index (m_entries t)) ns = Inr (filter (\<lambda>e. e_request_id e = rid) (m_entries t)) \<and>
            (\<forall>n\<in>set ns. 0 \<le> n \<and> n < int (length (m_entries t)))"
        using assms(1) [unfolded index_ok_def, rule_format, of rid] truthy True new
        by (auto simp: t mem_index_def update_conv' grow smap_append split: option.splits) fastforce
    qed
  next
    case False
    then have t: "m_entries t = m_entries s @ [e]" "m_by_request t = m_by_request s"
      using assms(3) True by (auto simp: mem_append_def Let_def)
    show ?thesis
      unfolding index_ok_def
    proof
      fix rid
      show "case map_of (m_by_request t) rid of
          None \<Rightarrow> PyVal.truthy rid \<longrightarrow> filter (\<lambda>e. e_request_id e = rid) (m_entries t) = []
        | Some ns \<Rightarrow> PyVal.truthy rid \<and> smap (py_index (m_entries t)) ns = Inr (filter (\<lambda>e. e_request_id e = rid) (m_entries t)) \<and>
            (\<forall>n\<in>set ns. 0 \<le> n \<and> n < int (length (m_entries t)))"
        using assms(1) [unfolded index_ok_def, rule_format, of rid] False
        by (cases "rid = e_request_id e") (auto simp: t grow less_SucI split: option.splits)
    qed
  qed
qed (use assms in \<open>simp add: mem_append_def\<close>)

text \<open>
  What the others do: they append entries of their own, each made for the head it follows.  \<open>W\<close> says
  which writes the schedule may hold; \<open>joined W\<close> relates the logs before and after some of them.
\<close>

type_synonym posting = "pstr \<times> pyval \<times> pyval \<times> pyval"

definition entry_for :: "posting \<Rightarrow> LedgerEntry list \<Rightarrow> exn + LedgerEntry" where
  "entry_for w xs = (case w of (ty, payload, at_time, rid) \<Rightarrow> next_entry (last_of xs) ty payload at_time rid)"

inductive joined :: "(posting \<Rightarrow> bool) \<Rightarrow> LedgerEntry list \<Rightarrow> LedgerEntry list \<Rightarrow> bool" for W where
  same: "joined W xs xs"
| step: "joined W xs ys \<Longrightarrow> W w \<Longrightarrow> entry_for w ys = Inr e \<Longrightarrow> joined W xs (ys @ [e])"

definition busy_ok :: "(posting \<Rightarrow> bool) \<Rightarrow> mem \<Rightarrow> bool" where
  "busy_ok W s \<longleftrightarrow> index_ok s \<and> (\<forall>burst\<in>set (m_others s). \<forall>w\<in>set burst. W w)"

lemma joined_trans: "joined W ys zs \<Longrightarrow> joined W xs ys \<Longrightarrow> joined W xs zs"
  by (induction rule: joined.induct) (auto intro: joined.step)

lemma joined_prefix: "joined W xs ys \<Longrightarrow> prefix xs ys"
  by (induction rule: joined.induct) (auto intro: prefix_order.trans)

lemma joined_intact: "joined W xs ys \<Longrightarrow> intact xs \<Longrightarrow> intact ys"
proof (induction rule: joined.induct)
  case (step xs ys w e)
  then show ?case using next_entry_log [of ys] by (auto simp: entry_for_def last_of_def split: prod.splits if_splits)
qed

lemma joined_None: "joined (\<lambda>w. False) xs ys \<longleftrightarrow> ys = xs"
  by (auto intro: joined.same elim: joined.cases)

lemma other_append_ok:
  assumes s: "index_ok s" and W: "W w"
  shows "index_ok (other_append w s) \<and> joined W (m_entries s) (m_entries (other_append w s)) \<and>
    m_others (other_append w s) = m_others s"
proof -
  obtain ty payload at_time rid where w: "w = (ty, payload, at_time, rid)" by (cases w) auto
  show ?thesis
  proof (cases "next_entry (last_of (m_entries s)) ty payload at_time rid")
    case (Inr e)
    show ?thesis
    proof (cases "hashable rid")
      case True
      obtain r t where t: "mem_append e s = (r, t)" by (cases "mem_append e s")
      have "index_ok t" using index_ok_append [OF s _ t] next_entry_Inr(6) [OF Inr] True by simp
      moreover have "m_entries t = m_entries s \<or> m_entries t = m_entries s @ [e]" "m_others t = m_others s"
        using t by (auto simp: mem_append_def Let_def split: if_splits)
      moreover have "joined W (m_entries s) (m_entries s @ [e])"
        using joined.step [OF joined.same, of W w "m_entries s" e] W Inr by (simp add: w entry_for_def)
      ultimately show ?thesis by (auto simp: other_append_def w Inr True t joined.same)
    qed (simp add: other_append_def w Inr s joined.same)
  qed (simp add: other_append_def w s joined.same)
qed

lemma burst_ok:
  "index_ok s \<Longrightarrow> \<forall>w\<in>set ws. W w \<Longrightarrow> index_ok (foldl (\<lambda>s w. other_append w s) s ws) \<and>
     joined W (m_entries s) (m_entries (foldl (\<lambda>s w. other_append w s) s ws)) \<and>
     m_others (foldl (\<lambda>s w. other_append w s) s ws) = m_others s"
proof (induction ws arbitrary: s)
  case (Cons w ws)
  have "W w" using Cons.prems by simp
  note w = other_append_ok [where W = W, OF Cons.prems(1) this]
  show ?case using Cons.IH [of "other_append w s"] Cons.prems w joined_trans by auto
qed (simp add: joined.same)

lemma others_act_ok: "busy_ok W s \<Longrightarrow> busy_ok W (others_act s) \<and> joined W (m_entries s) (m_entries (others_act s))"
proof (cases "m_others s")
  case (Cons burst rest)
  assume s: "busy_ok W s"
  then have "index_ok (s\<lparr>m_others := rest\<rparr>)" by (simp add: busy_ok_def index_ok_def cong: option.case_cong)
  from burst_ok [OF this, of burst W] show ?thesis using s by (simp add: others_act_def Cons busy_ok_def)
qed (simp add: others_act_def joined.same)

lemma others_idle [simp]: "m_others s = [] \<Longrightarrow> others_act s = s"
  by (simp add: others_act_def)

subsection \<open>The contracts hold\<close>

lemma index_ok_events:
  assumes "index_ok s" "hashable rid"
  shows "mem_events rid s = (Inr (if truthy rid then filter (\<lambda>e. e_request_id e = rid) (m_entries s) else []), s)"
  using assms(1) [unfolded index_ok_def, rule_format, of rid] assms(2)
  by (auto simp: mem_events_def split: option.splits)

lemma py_slice_from:
  assumes "0 \<le> a"
  shows "prefix (py_slice xs a b) (drop (nat a) xs)"
    and "b = int (length xs) \<Longrightarrow> py_slice xs a b = drop (nat a) xs"
    and "0 \<le> l \<Longrightarrow> b = min (a + l) (int (length xs)) \<Longrightarrow> py_slice xs a b = take (nat l) (drop (nat a) xs)"
proof -
  have d: "drop (nat (min a (int (length xs)))) xs = drop (nat a) xs"
    by (cases "a \<le> int (length xs)") (auto simp: min_def)
  show "prefix (py_slice xs a b) (drop (nat a) xs)"
    using assms d by (auto simp: py_slice_def Let_def take_is_prefix)
  show "b = int (length xs) \<Longrightarrow> py_slice xs a b = drop (nat a) xs"
    using assms d by (auto simp: py_slice_def Let_def)
  show "0 \<le> l \<Longrightarrow> b = min (a + l) (int (length xs)) \<Longrightarrow> py_slice xs a b = take (nat l) (drop (nat a) xs)"
  proof (cases "a + l \<le> int (length xs)")
    case True
    assume "0 \<le> l" "b = min (a + l) (int (length xs))"
    then have "py_slice xs a b = take (nat (a + l - a)) (drop (nat a) xs)"
      using assms True by (simp add: py_slice_def Let_def min_def)
    then show ?thesis by simp
  next
    case False
    assume b: "0 \<le> l" "b = min (a + l) (int (length xs))"
    then have "py_slice xs a b = drop (nat a) xs"
      using False assms d by (auto simp: py_slice_def Let_def min_def)
    moreover have "length (drop (nat a) xs) \<le> nat l" using False by simp
    ultimately show ?thesis by simp
  qed
qed

lemma latest_is_published: "mem_latest_checkpoint s = (last_published (m_entries s), s)"
proof -
  have "find P (rev xs) = (case filter P xs of [] \<Rightarrow> None | y # ys \<Rightarrow> Some (last (y # ys)))" for P and xs :: "LedgerEntry list"
    by (induction xs rule: rev_induct) (auto split: list.splits)
  then show ?thesis by (simp add: mem_latest_checkpoint_def last_published_def split: list.split)
qed

lemma read_law:
  assumes "busy_ok W s" "busy m s = (r, t)" "\<And>s'. index_ok s' \<Longrightarrow> m s' = (f s', s')" "Q (m_entries t) (f t)"
  shows "busy_ok W t \<and> (\<exists>xs. joined W (m_entries s) xs \<and> joined W xs (m_entries t) \<and> Q xs r)"
proof -
  note o = others_act_ok [OF assms(1)]
  then have "t = others_act s" "r = f t" using assms(2,3) by (auto simp: busy_def busy_ok_def)
  then show ?thesis using o assms(4) joined.same by blast
qed

lemma append_joins:
  assumes "busy_ok W s" "hashable (e_request_id e)" "busy (mem_append e) s = (r, t)"
  shows "busy_ok W t"
    and "r = Inr v \<Longrightarrow> \<exists>xs. joined W (m_entries s) xs \<and> e_seq e = int (length xs) \<and> m_entries t = xs @ [e]"
    and "r = Inl x \<Longrightarrow> joined W (m_entries s) (m_entries t) \<and> x = LedgerConflict"
proof -
  note o = others_act_ok [OF assms(1)]
  have run: "mem_append e (others_act s) = (r, t)" using assms(3) by (simp add: busy_def)
  have "m_others t = m_others (others_act s)" using run by (auto simp: mem_append_def Let_def split: if_splits)
  then show "busy_ok W t" using index_ok_append [OF _ assms(2) run] o by (simp add: busy_ok_def)
  show "r = Inr v \<Longrightarrow> \<exists>xs. joined W (m_entries s) xs \<and> e_seq e = int (length xs) \<and> m_entries t = xs @ [e]"
    using run o assms(2) by (auto simp: mem_append_def Let_def split: if_splits)
  show "r = Inl x \<Longrightarrow> joined W (m_entries s) (m_entries t) \<and> x = LedgerConflict"
    using run o assms(2) by (auto simp: mem_append_def Let_def split: if_splits)
qed

lemmas memory_events_simps = memory_events_def event_store.simps

interpretation shared: event_store_contract "memory_events l" m_entries "joined W" "busy_ok W"
  for l :: pstr and W :: "posting \<Rightarrow> bool"
proof (unfold_locales, goal_cases)
  case (5 s rh t)
  then show ?case
    by (intro read_law [where m = mem_head and f = "\<lambda>s. Inr (last_of (m_entries s))"])
      (simp_all add: memory_events_simps mem_head_def)
next
  case (6 s e v t)
  then have run: "busy (mem_append e) s = (Inr v, t)" by (simp add: memory_events_simps)
  from append_joins(1) [OF 6(1,2) run] append_joins(2) [OF 6(1,2) run refl] show ?case using joined.same by metis
next
  case (7 s e x t)
  then show ?case using append_joins(1) [of W s e "Inl x" t] append_joins(3) [of W s e "Inl x" t x] by (simp add: memory_events_simps)
next
  case (8 s n rg t)
  then show ?case
    by (intro read_law [where m = "mem_get_by_seq n" and
          f = "\<lambda>s. Inr (if 0 \<le> n \<and> n < int (length (m_entries s)) then Some (m_entries s ! nat n) else None)"])
      (simp_all add: memory_events_simps mem_get_by_seq_def)
next
  case (9 s rid re t)
  show ?case
  proof (cases "hashable rid")
    case True
    with 9 show ?thesis
      by (intro read_law [where m = "mem_events rid" and
            f = "\<lambda>s. Inr (if truthy rid then filter (\<lambda>e. e_request_id e = rid) (m_entries s) else [])"])
        (simp_all add: memory_events_simps index_ok_events)
  next
    case False
    with 9 show ?thesis
      by (intro read_law [where m = "mem_events rid" and f = "\<lambda>s. Inl TypeError"])
        (simp_all add: memory_events_simps mem_events_def)
  qed
next
  case (10 s start limit rs t)
  let ?stop = "\<lambda>s. case limit of None \<Rightarrow> int (length (m_entries s)) | Some l \<Rightarrow> min (start + l) (int (length (m_entries s)))"
  from 10 show ?case
    by (intro read_law [where m = "mem_scan start limit" and f = "\<lambda>s. Inr (py_slice (m_entries s) start (?stop s), None)"])
      (auto simp: memory_events_simps mem_scan_def Let_def py_slice_from split: option.split)
next
  case (11 s up_to rl t)
  then show ?case
    by (intro read_law [where m = "mem_leaf_hashes up_to" and
          f = "\<lambda>s. Inr (case up_to of None \<Rightarrow> map e_entry_hash (m_entries s) | Some n \<Rightarrow> slice_to (map e_entry_hash (m_entries s)) n)"])
      (auto simp: memory_events_simps mem_leaf_hashes_def Let_def split: option.split)
next
  case (12 s rc t)
  then show ?case
    by (intro read_law [where m = mem_latest_checkpoint and f = "\<lambda>s. last_published (m_entries s)"])
      (simp_all add: memory_events_simps latest_is_published)
qed (auto intro: joined.same joined_trans joined_prefix joined_intact)

text \<open>Without other writers it is a log of one writer.\<close>

definition alone :: "mem \<Rightarrow> bool" where
  "alone s \<longleftrightarrow> index_ok s \<and> m_others s = []"

lemma alone_busy [simp]: "alone s \<Longrightarrow> busy m s = m s"
  by (simp add: alone_def busy_def)

lemma alone_read: "alone s \<Longrightarrow> busy m s = (r, t) \<Longrightarrow> (\<And>s'. index_ok s' \<Longrightarrow> m s' = (f s', s')) \<Longrightarrow>
    Q (m_entries s) (f s) \<Longrightarrow> alone t \<and> (\<exists>xs. m_entries s = xs \<and> xs = m_entries t \<and> Q xs r)"
  by (auto simp: alone_def busy_def)

lemma alone_append:
  assumes "alone s" "hashable (e_request_id e)"
  shows "\<exists>t. mem_append e s = ((if e_seq e = int (length (m_entries s)) then Inr () else Inl LedgerConflict), t) \<and>
    alone t \<and> m_entries t = (if e_seq e = int (length (m_entries s)) then m_entries s @ [e] else m_entries s)"
proof -
  obtain r t where t: "mem_append e s = (r, t)" by (cases "mem_append e s")
  then have "index_ok t" using index_ok_append assms by (auto simp: alone_def)
  then show ?thesis using t assms by (auto simp: mem_append_def Let_def alone_def split: if_splits)
qed

interpretation sole: single_writer "memory_events l" m_entries alone
  for l :: pstr
proof (unfold_locales, goal_cases)
  case (5 s rh t)
  then show ?case
    by (intro alone_read [where m = mem_head and f = "\<lambda>s. Inr (last_of (m_entries s))"])
      (auto simp add: memory_events_simps mem_head_def)
next
  case (6 s e v t)
  then show ?case using alone_append [of s e] by (auto simp: memory_events_simps split: if_splits)
next
  case (7 s e x t)
  then show ?case using alone_append [of s e] by (auto simp: memory_events_simps split: if_splits)
next
  case (8 s n rg t)
  then show ?case
    by (intro alone_read [where m = "mem_get_by_seq n" and
          f = "\<lambda>s. Inr (if 0 \<le> n \<and> n < int (length (m_entries s)) then Some (m_entries s ! nat n) else None)"])
      (auto simp: memory_events_simps mem_get_by_seq_def split: if_splits)
next
  case (9 s rid re t)
  show ?case
  proof (cases "hashable rid")
    case True
    with 9 show ?thesis
      by (intro alone_read [where m = "mem_events rid" and
            f = "\<lambda>s. Inr (if truthy rid then filter (\<lambda>e. e_request_id e = rid) (m_entries s) else [])"])
        (auto simp: memory_events_simps index_ok_events)
  next
    case False
    with 9 show ?thesis
      by (intro alone_read [where m = "mem_events rid" and f = "\<lambda>s. Inl TypeError"])
        (auto simp: memory_events_simps mem_events_def)
  qed
next
  case (10 s start limit rs t)
  let ?stop = "\<lambda>s. case limit of None \<Rightarrow> int (length (m_entries s)) | Some l \<Rightarrow> min (start + l) (int (length (m_entries s)))"
  from 10 show ?case
    by (intro alone_read [where m = "mem_scan start limit" and f = "\<lambda>s. Inr (py_slice (m_entries s) start (?stop s), None)"])
      (auto simp: memory_events_simps mem_scan_def Let_def py_slice_from split: option.split)
next
  case (11 s up_to rl t)
  then show ?case
    by (intro alone_read [where m = "mem_leaf_hashes up_to" and
          f = "\<lambda>s. Inr (case up_to of None \<Rightarrow> map e_entry_hash (m_entries s) | Some n \<Rightarrow> slice_to (map e_entry_hash (m_entries s)) n)"])
      (auto simp: memory_events_simps mem_leaf_hashes_def Let_def split: option.split)
next
  case (12 s rc t)
  then show ?case
    by (intro alone_read [where m = mem_latest_checkpoint and f = "\<lambda>s. last_published (m_entries s)"])
      (auto simp: memory_events_simps latest_is_published)
next
  case (13 s)
  then show ?case by (simp add: memory_events_simps mem_head_def)
next
  case (14 s e)
  then show ?case using alone_append [of s e] by (auto simp: memory_events_simps)
next
  case (15 s e)
  then show ?case using alone_append [of s e] by (auto simp: memory_events_simps)
next
  case (16 s rid)
  then show ?case by (simp add: memory_events_simps index_ok_events alone_def busy_def)
next
  case (17 s start ys t)
  then show ?case by (auto simp: memory_events_simps mem_scan_def py_slice_def Let_def)
next
  case (18 s n hs t)
  then show ?case by (auto simp: memory_events_simps mem_leaf_hashes_def Let_def)
qed auto

interpretation mem_projections: projection_contract memory_projections "\<lambda>s. map_of (m_views s)"
  by unfold_locales
    (auto simp: memory_projections_def mem_upsert_def mem_view_def mem_clear_def update_conv' fun_eq_iff
      split: option.splits if_splits)

interpretation mem_idempotency: idempotency_contract memory_idempotency "\<lambda>s key. map_of (m_idem s) key"
proof (unfold_locales, goal_cases)
  case (1 key fp s)
  then show ?case
    by (auto simp: memory_idempotency_def mem_reserve_def update_conv' fun_eq_iff split: option.split)
next
  case (2 s key fp resp0 resp)
  then show ?case
    by (auto simp: memory_idempotency_def mem_complete_def update_conv' fun_eq_iff)
next
  case (3 key s)
  then show ?case
    by (auto simp: memory_idempotency_def mem_release_def delete_conv' fun_eq_iff)
qed

subsection \<open>The service on these stores\<close>

definition memory_service ::
  "('k, 'p) crypto \<Rightarrow> 'p \<Rightarrow> pstr \<Rightarrow> KeyDirectory \<Rightarrow> Identities \<Rightarrow> PolicyStore \<Rightarrow> runtime \<Rightarrow> (mem, 'k) ApprovalService" where
  "memory_service C log_key l kd ids ps R =
     \<lparr>sv_events = memory_events l, sv_key_dir = kd, sv_identities = ids, sv_policy = policy_store_get ps,
      sv_projections = Projections memory_projections, sv_idempotency = Some memory_idempotency,
      sv_now = (\<lambda>s. (Inr (m_now s), s)), sv_signing = None, sv_log_signer = Some (Ed25519Signer C log_key),
      sv_append_attempts = DEFAULT_APPEND_ATTEMPTS, sv_challenge_ttl = DEFAULT_CHALLENGE_TTL,
      sv_max_clock_skew = DEFAULT_CLOCK_SKEW, sv_sleep = (\<lambda>i. busy (mret ())),
      sv_registry = default_registry C, sv_runtime = R\<rparr>"

lemma mem_keeps_log:
  "mem_upsert v s = (r, t) \<Longrightarrow> m_entries t = m_entries s \<and> m_by_request t = m_by_request s \<and> m_others t = m_others s"
  "mem_view rid s = (r1, t) \<Longrightarrow> t = s"
  "mem_query q s = (r2, t) \<Longrightarrow> t = s"
  "mem_clear s = (r3, t) \<Longrightarrow> m_entries t = m_entries s \<and> m_by_request t = m_by_request s \<and> m_others t = m_others s"
  "mem_reserve key fp s = (r4, t) \<Longrightarrow> m_entries t = m_entries s \<and> m_by_request t = m_by_request s \<and> m_others t = m_others s"
  "mem_complete key resp s = (r5, t) \<Longrightarrow> m_entries t = m_entries s \<and> m_by_request t = m_by_request s \<and> m_others t = m_others s"
  "mem_release key s = (r6, t) \<Longrightarrow> m_entries t = m_entries s \<and> m_by_request t = m_by_request s \<and> m_others t = m_others s"
  by (auto simp: mem_upsert_def mem_view_def mem_query_def mem_clear_def mem_reserve_def mem_complete_def mem_release_def
      Let_def split: option.splits if_splits pyval.splits)

lemma index_ok_same: "m_entries t = m_entries s \<and> m_by_request t = m_by_request s \<and> m_others t = m_others s \<Longrightarrow>
    index_ok t = index_ok s"
  by (simp add: index_ok_def cong: option.case_cong)

lemma shared_quiet:
  "(\<And>s r t. m s = (r, t) \<Longrightarrow> m_entries t = m_entries s \<and> m_by_request t = m_by_request s \<and> m_others t = m_others s) \<Longrightarrow>
     shared.quiet W m"
  unfolding shared.quiet_def busy_ok_def using index_ok_same joined.same by metis

interpretation mem: approval_service "memory_service C log_key l kd ids ps R" m_entries "joined W" "busy_ok W"
  for C :: "('k, 'p) crypto" and log_key l kd ids ps R W
proof (rule approval_service.intro, goal_cases)
  case 1
  show ?case using shared.event_store_contract_axioms [of l W] by (simp add: memory_service_def)
next
  case 2
  have pure: "shared.quiet W m" if "\<And>s. snd (m s) = s" for m :: "(mem, exn, 'x) eff"
    unfolding shared.quiet_def using that joined.same by (metis snd_conv)
  show ?case
  proof (rule approval_service_axioms.intro, goal_cases)
    case 1
    show ?case by (rule pure) (simp add: memory_service_def)
  next
    case (2 i)
    show ?case unfolding shared.quiet_def by (auto simp: memory_service_def busy_def mret_def dest: others_act_ok)
  next
    case (3 p v rid q)
    then show ?case
      by (auto simp: memory_service_def memory_projections_def intro!: shared_quiet dest: mem_keeps_log)
  next
    case (4 m key fp resp)
    then show ?case
      by (auto simp: memory_service_def memory_idempotency_def intro!: shared_quiet dest: mem_keeps_log)
  next
    case (6 sg data)
    show ?case by (rule pure) (use 6 in \<open>auto simp: memory_service_def Ed25519Signer_def mret_def\<close>)
  qed (simp add: memory_service_def)
qed

text \<open>With an empty schedule it is the only writer, and \<open>Behaviour\<close> applies.\<close>

lemma alone_quiet: "shared.quiet (\<lambda>w. True) m \<Longrightarrow> (\<And>s r t. m s = (r, t) \<Longrightarrow> m_entries t = m_entries s \<and> m_others t = m_others s) \<Longrightarrow>
    sole.quiet m"
  unfolding shared.quiet_def sole.quiet_def alone_def busy_ok_def by (metis empty_iff empty_set)

interpretation solo: sole_service "memory_service C log_key l kd ids ps R" m_entries alone
  for C :: "('k, 'p) crypto" and log_key l kd ids ps R
proof (intro sole_service.intro approval_service.intro, goal_cases)
  case 1
  show ?case using sole.event_store_contract_axioms [of l] by (simp add: memory_service_def)
next
  case 2
  let ?sv = "memory_service C log_key l kd ids ps R"
  show ?case
  proof (rule approval_service_axioms.intro, goal_cases)
    case 1
    show ?case by (rule alone_quiet [OF mem.now_quiet]) (simp add: memory_service_def)
  next
    case (2 i)
    show ?case unfolding sole.quiet_def by (auto simp: memory_service_def mret_def)
  next
    case (3 p v rid q)
    then show ?case
      by (auto simp: memory_service_def memory_projections_def intro!: alone_quiet shared_quiet dest: mem_keeps_log)
  next
    case (4 m key fp resp)
    then show ?case
      by (auto simp: memory_service_def memory_idempotency_def intro!: alone_quiet shared_quiet dest: mem_keeps_log)
  next
    case (6 sg data)
    show ?case
      by (rule alone_quiet [OF mem.log_signer_quiet [OF 6]])
        (use 6 in \<open>auto simp: memory_service_def Ed25519Signer_def mret_def\<close>)
  qed (simp add: memory_service_def)
next
  case 3
  show ?case using sole.single_writer_axioms [of l] by (simp add: memory_service_def)
next
  case 4
  show ?case by unfold_locales (simp_all add: memory_service_def DEFAULT_APPEND_ATTEMPTS_def)
qed

end
