(* ===== verification/Ceremony.thy ===== *)
theory Ceremony
  imports Service
begin

section \<open>The detached signing ceremony\<close>

text \<open>
  \<open>prepare_decision\<close> hands out bytes, the approver's client signs them with a key of its own, and
  \<open>envelope_from_challenge\<close> puts the signatures back into an envelope.  \<open>ceremony_envelope\<close> says the
  envelope carries the decision the challenge was for and is signed over the very bytes that were
  handed out; \<open>ceremony_authorized\<close> that a signature by an Ed25519 key of the approver makes it an
  authorized decision.
\<close>

lemma norm_lookup:
  assumes "distinct (map fst kvs)"
  shows "subscr (norm (PDict kvs)) k = (case map_of kvs (lit k) of None \<Rightarrow> Inl KeyError | Some v \<Rightarrow> Inr (norm v))"
    "getdef (norm (PDict kvs)) k dflt = Inr (case map_of kvs (lit k) of None \<Rightarrow> dflt | Some v \<Rightarrow> norm v)"
proof -
  have "map_of (map (\<lambda>(k, v). (k, norm v)) xs) k = map_option norm (map_of xs k)" for xs :: pydict and k
    by (induction xs) auto
  then have "map_of (map (\<lambda>(k, v). (k, norm v)) (key_sort kvs)) k = map_option norm (map_of kvs k)" for k
    using assms by (simp add: map_of_key_sort)
  then show "subscr (norm (PDict kvs)) k = (case map_of kvs (lit k) of None \<Rightarrow> Inl KeyError | Some v \<Rightarrow> Inr (norm v))"
    "getdef (norm (PDict kvs)) k dflt = Inr (case map_of kvs (lit k) of None \<Rightarrow> dflt | Some v \<Rightarrow> norm v)"
    by (simp_all split: option.split)
qed

text \<open>A decision whose fields are strings is read back as it was written.\<close>

definition plain :: "Decision \<Rightarrow> bool" where
  "plain d \<longleftrightarrow> (\<forall>v\<in>{d_request_id d, d_context_digest d, d_verdict d, d_approver_id d, d_decided_at d, d_comment d,
     d_idempotency_key d, d_schema d}. \<exists>s. v = PStr s) \<and> d_authn d = PNone"

lemma Decision_dict_keys: "distinct (map fst (items (
     [(''schema'', d_schema d), (''request_id'', d_request_id d),
      (''context_digest'', d_context_digest d), (''verdict'', d_verdict d),
      (''approver_id'', d_approver_id d), (''decided_at'', d_decided_at d),
      (''comment'', d_comment d), (''idempotency_key'', d_idempotency_key d)]
     @ (if d_authn d = PNone then [] else [(''authn'', d_authn d)]))))"
  by (simp add: items_def)

lemma plain_norm: "plain d \<Longrightarrow> Decision_from_dict (norm (Decision_to_dict d)) = Inr d"
  unfolding Decision_to_dict_def Decision_from_dict_def norm_lookup [OF Decision_dict_keys]
  by (auto simp: plain_def items_def)

lemma plain_wf: "plain d \<Longrightarrow> wf_val (Decision_to_dict d)"
  using Decision_dict_keys [of d] by (auto simp: Decision_to_dict_def plain_def items_def)

lemma plain_new:
  "plain (new_decision R (PStr rid) cx (PStr v) (PStr a) now (PStr c) (PStr k) PNone)"
  by (simp add: plain_def new_decision_def default_key_def)

lemma prepare_decision_Inr:
  assumes "prepare_decision sv rid a v c k s = (Inr ch, t)"
  obtains request now cx body m s1 where "require_request sv rid s = (Inr request, s1)" "sv_now sv s1 = (Inr now, t)"
    "context_digest request = Inr cx"
    "canonical_bytes (Decision_to_dict (new_decision (sv_runtime sv) rid cx v a now c k PNone)) = Inr body"
    "pae (PStr DECISION_PAYLOAD_TYPE) body = Inr m" "ch_payload_type ch = PStr DECISION_PAYLOAD_TYPE"
    "ch_payload_b64 ch = PStr (b64encode body)" "ch_pae_b64 ch = PStr (b64encode m)" "ch_decided_at ch = PStr now"
    "ch_request_id ch = rid" "ch_approver_id ch = a" "ch_verdict ch = v"
  using assms that unfolding prepare_decision_def Let_def
  by (auto simp: mbind_eq_Inr mlift_run mret_run simp del: pae.simps)

lemma ceremony_envelope:
  assumes "prepare_decision sv (PStr rid) (PStr a) (PStr v) (PStr c) (PStr k) s = (Inr ch, t)"
  shows "\<exists>request s1 cx now m. require_request sv (PStr rid) s = (Inr request, s1) \<and> context_digest request = Inr cx \<and>
    ch_decided_at ch = PStr now \<and> b64decode (ch_pae_b64 ch) = Inr m \<and>
    signable_bytes (envelope_from_challenge ch sigs) = Inr m \<and>
    decision_of (envelope_from_challenge ch sigs) =
      Inr (new_decision (sv_runtime sv) (PStr rid) cx (PStr v) (PStr a) now (PStr c) (PStr k) PNone)"
proof -
  obtain request now cx body m s1 where p: "require_request sv (PStr rid) s = (Inr request, s1)"
    "context_digest request = Inr cx"
    "canonical_bytes (Decision_to_dict (new_decision (sv_runtime sv) (PStr rid) cx (PStr v) (PStr a) now (PStr c) (PStr k) PNone))
      = Inr body"
    "pae (PStr DECISION_PAYLOAD_TYPE) body = Inr m" "ch_payload_type ch = PStr DECISION_PAYLOAD_TYPE"
    "ch_payload_b64 ch = PStr (b64encode body)" "ch_pae_b64 ch = PStr (b64encode m)" "ch_decided_at ch = PStr now"
    by (rule prepare_decision_Inr [OF assms])
  have env: "envelope_from_challenge ch sigs = envelope_of DECISION_PAYLOAD_TYPE body sigs"
    by (simp add: envelope_from_challenge_def envelope_of_def p)
  have "decision_of (envelope_from_challenge ch sigs) =
      Inr (new_decision (sv_runtime sv) (PStr rid) cx (PStr v) (PStr a) now (PStr c) (PStr k) PNone)"
    unfolding decision_of_def env using envelope_of_unwrap [OF p(3) plain_wf [OF plain_new]] plain_norm [OF plain_new]
    by simp
  then show ?thesis using p by (simp add: env envelope_of_signable del: pae.simps)
qed

lemma ceremony_authorized:
  assumes prep: "prepare_decision sv (PStr rid) (PStr a) (PStr v) (PStr c) (PStr k) s = (Inr ch, t)"
    and m: "b64decode (ch_pae_b64 ch) = Inr m"
    and key: "ed_correct C key" "sv_registry sv = default_registry C"
      "kref = public_key_ref (Ed25519Signer C key) a nb na (u ''approver'') ids"
      "map_of (sv_key_dir sv) (k_keyid kref) = Some kref" "valid_at kref (ch_decided_at ch) = Inr True"
    and env: "env = envelope_from_challenge ch [envelope_sig (k_keyid kref) (priv_sign C key m)]"
  shows "\<exists>d. decision_of env = Inr d \<and> d_approver_id d = PStr a \<and> d_verdict d = PStr v \<and> authorized sv env d = Inr True"
proof -
  obtain request s1 cx now where e: "ch_decided_at ch = PStr now" "signable_bytes env = Inr m"
    "decision_of env = Inr (new_decision (sv_runtime sv) (PStr rid) cx (PStr v) (PStr a) now (PStr c) (PStr k) PNone)"
    using ceremony_envelope [OF prep] m unfolding env by fastforce
  let ?d = "new_decision (sv_runtime sv) (PStr rid) cx (PStr v) (PStr a) now (PStr c) (PStr k) PNone"
  obtain known where known: "identity_known sv (PStr a) = Inr known"
    by (cases "identity_known sv (PStr a)") (auto simp: identity_known_def identities_get_def split: if_splits)
  have "verified_signatures (default_registry C) env (sv_key_dir sv) (PStr now) = Inr [vs_of kref]"
  proof (rule verified_one)
    show "check_sig (default_registry C) kref (envelope_sig (k_keyid kref) (priv_sign C key m)) m = Inr ()"
      using check_sig_Ed25519 [OF key(1)] by (simp add: key(3) public_key_ref_def Ed25519Signer_def)
  qed (use key(4,5) e in \<open>simp_all add: env envelope_from_challenge_def\<close>)
  moreover have "k_key_use kref = u ''approver''" "k_owner_id kref = a"
    by (simp_all add: key(3) public_key_ref_def to_key_ref_def)
  ultimately have "authorized sv env ?d = Inr True"
    by (simp add: authorized_def new_decision_def known decision_authorized_def key(2) vs_of_def)
  then show ?thesis using e(3) by (auto simp: new_decision_def)
qed

end
