(* ===== verification/Promises.thy ===== *)
theory Promises
  imports MemStore Ceremony
begin

section \<open>What the service promises\<close>

text \<open>
  The service on the reference stores, with a log that any number of other writers append to
  (\<open>busy_ok W\<close>: the schedule of the others holds writes that \<open>W\<close> allows) or that it has for itself
  (\<open>alone\<close>).  Every promise is a fact of the interpretations in \<open>MemStore\<close>, written out over the
  operations of the service.
\<close>

lemma memory_service_fields [simp]:
  "sv_events (memory_service C lk l kd ids ps R) = memory_events l" "sv_key_dir (memory_service C lk l kd ids ps R) = kd"
  "sv_identities (memory_service C lk l kd ids ps R) = ids" "sv_policy (memory_service C lk l kd ids ps R) = policy_store_get ps"
  "sv_idempotency (memory_service C lk l kd ids ps R) = Some memory_idempotency"
  "sv_now (memory_service C lk l kd ids ps R) = (\<lambda>s. (Inr (m_now s), s))" "sv_signing (memory_service C lk l kd ids ps R) = None"
  "sv_log_signer (memory_service C lk l kd ids ps R) = Some (Ed25519Signer C lk)"
  "sv_registry (memory_service C lk l kd ids ps R) = default_registry C" "sv_runtime (memory_service C lk l kd ids ps R) = R"
  "sv_challenge_ttl (memory_service C lk l kd ids ps R) = DEFAULT_CHALLENGE_TTL"
  "sv_max_clock_skew (memory_service C lk l kd ids ps R) = DEFAULT_CLOCK_SKEW"
  "sv_projections (memory_service C lk l kd ids ps R) = Projections memory_projections"
  by (simp_all add: memory_service_def)

text \<open>Reading leaves the world of a service that has the log for itself as it is.\<close>

definition unchanged :: "mem \<Rightarrow> mem \<Rightarrow> bool" where
  "unchanged s t \<longleftrightarrow> (alone s \<longrightarrow> t = s)"

lemma unchanged_order [simp]: "reflp unchanged" "transp unchanged"
  by (auto simp: unchanged_def intro!: reflpI transpI)

lemma mem_reads:
  assumes "alone s"
  shows "es_events_for_request (memory_events l) rid s =
      (if hashable rid then Inr (if truthy rid then entries_of rid (m_entries s) else []) else Inl TypeError, s)"
proof -
  have "index_ok s" "m_others s = []" using assms by (simp_all add: alone_def)
  then show ?thesis
    using index_ok_events [of s rid] by (cases "hashable rid") (simp_all add: memory_events_simps busy_def mem_events_def)
qed

lemma unchanged_events: "keeps unchanged (es_events_for_request (memory_events l) rid)"
  by (rule keepsI) (auto simp: unchanged_def mem_reads)

lemma recompute_unchanged:
  "keeps unchanged (recompute (memory_service C lk l kd ids ps R) request at_time)"
  unfolding recompute_def decisions_for_def
  by (auto intro!: keeps_mbind unchanged_events)

text \<open>A call whose signer, if it brings one, does nothing but sign.\<close>

fun plain_call :: "'s call \<Rightarrow> bool" where
  "plain_call (Submit rid a v sg c k authn) \<longleftrightarrow>
     (case sg of None \<Rightarrow> True | Some signer \<Rightarrow> \<forall>data s. snd (sg_sign signer data s) = s)"
| "plain_call c = True"

lemma plain_quiet: "plain_call c \<Longrightarrow> mem.quiet_call W c"
  by (cases c rule: plain_call.cases) (auto simp: shared.quiet_def joined.same split: option.splits, (metis snd_conv joined.same)+)

text \<open>What the others post, and which posting an entry is.\<close>

definition posted :: "mem \<Rightarrow> posting set" where
  "posted s = set (concat (m_others s))"

definition posting_of :: "LedgerEntry \<Rightarrow> posting" where
  "posting_of e = (e_event_type e, e_payload e, e_recorded_at e, e_request_id e)"

lemma busy_posted: "index_ok s \<Longrightarrow> busy_ok (\<lambda>w. w \<in> posted s) s"
  by (auto simp: busy_ok_def posted_def)

lemma entry_for_posting: "entry_for w xs = Inr e \<Longrightarrow> posting_of e = w"
  using next_entry_Inr by (auto simp: entry_for_def posting_of_def split: prod.splits)

lemma joined_posted: "joined W xs ys \<Longrightarrow> list_all (\<lambda>e. W (posting_of e)) (drop (length xs) ys)"
proof (induction rule: joined.induct)
  case (step xs ys w e)
  then show ?case using prefix_length_le [OF joined_prefix [OF step(1)]] entry_for_posting [OF step(3)] by simp
qed simp

text \<open>C1: evidence.  Whatever calls the service handles, and whatever other writers post to the same log
  between its operations, each posting made for the head it follows, the chain stays intact, no entry is
  lost or changed, and every recorded decision that is not a posting of the others is backed: by an
  envelope authorized for the approver it names, bound to the request the log already held under the id
  it is recorded under.  What the others record as decisions is theirs to answer for.\<close>

theorem service_keeps_evidence:
  assumes "\<forall>c\<in>set cs. plain_call c" "index_ok s" "intact (m_entries s)"
    and "backed_unless (\<lambda>e. posting_of e \<in> posted s) (memory_service C lk l kd ids ps R) (m_entries s)"
  shows "intact (m_entries (serve (memory_service C lk l kd ids ps R) cs s)) \<and>
    prefix (m_entries s) (m_entries (serve (memory_service C lk l kd ids ps R) cs s)) \<and>
    backed_unless (\<lambda>e. posting_of e \<in> posted s) (memory_service C lk l kd ids ps R)
      (m_entries (serve (memory_service C lk l kd ids ps R) cs s))"
proof -
  let ?sv = "memory_service C lk l kd ids ps R" and ?W = "\<lambda>w. w \<in> posted s"
  have cs: "\<forall>c\<in>set cs. mem.quiet_call ?W c" using assms(1) plain_quiet by blast
  have g: "intact (m_entries (serve ?sv cs s))" "shared.grows ?W (legit ?sv) (m_entries s) (m_entries (serve ?sv cs s))"
    using mem.serve_grows [OF cs busy_posted [OF assms(2)] assms(3), where C = C and log_key = lk and l = l and kd = kd and
        ids = ids and ps = ps and R = R]
    by simp_all
  have "backed_unless (\<lambda>e. posting_of e \<in> posted s) ?sv (m_entries (serve ?sv cs s))"
    by (rule mem.grows_backed [OF g(2) assms(4)]) (rule joined_posted)
  then show ?thesis using g mem.grows_prefix [OF g(2)] by blast
qed

text \<open>C12: appending.  Under contention an append that returns wrote its entry exactly once, right after
  the head it was made for, and whatever else is in the log afterwards was written by others; an append
  that raises wrote nothing.\<close>

theorem append_lands_once:
  assumes "busy_ok W s" "intact (m_entries s)" "hashable rid"
    and "append_event (memory_service C lk l kd ids ps R) ty payload at_time rid s = (r, t)"
  shows "case r of
      Inr e \<Rightarrow> \<exists>xs. joined W (m_entries s) xs \<and> next_entry (last_of xs) ty payload at_time rid = Inr e \<and>
        intact (xs @ [e]) \<and> joined W (xs @ [e]) (m_entries t)
    | Inl x \<Rightarrow> joined W (m_entries s) (m_entries t)"
  using mem.append_outcome [OF assms] by (auto simp: mem.landed_def split: sum.splits)

text \<open>C13: creating a request is idempotent.  Called again with the same arguments, on any later state of
  the log, it returns the request that was created and writes nothing.\<close>

theorem create_request_idempotent:
  assumes "alone s" "intact (m_entries s)"
    and "create_request (memory_service C lk l kd ids ps R) kind subject by policy_id nva nonce s = (Inr request, t)"
    and "alone s'" "prefix (m_entries t) (m_entries s')"
    and "create_request (memory_service C lk l kd ids ps R) kind subject by policy_id nva nonce s' = (q, t')"
  shows "q = Inr request \<and> m_entries t' = m_entries s'"
  using solo.create_request_again [OF assms] .

lemma get_status_pure:
  assumes "alone s" "hashable rid" "truthy rid"
  shows "get_status (memory_service C lk l kd ids ps R) rid s =
    (status_in (memory_service C lk l kd ids ps R) (m_entries s) (m_now s) rid, s)"
proof -
  let ?sv = "memory_service C lk l kd ids ps R"
  have "recompute ?sv request at_time s = (recomputed ?sv (m_entries s) request at_time, s)" for request at_time
    using solo.recompute_reads [OF assms(1), of C lk l kd ids ps R request at_time]
      keepsD [OF recompute_unchanged] assms(1) by (fastforce simp: unchanged_def)
  then show ?thesis
    using assms
    by (simp add: get_status_def require_request_def load_request_def mem_reads status_in_def mbind_def mlift_def mret_def
        mraise_def sbind_def split: sum.split option.split)
qed

text \<open>C33: the status is a function of the log.  \<open>get_status\<close> returns what \<open>status_in\<close> computes from the
  entries and the time, and changes nothing.\<close>

theorem get_status_refines:
  assumes "alone s" "hashable rid" "truthy rid"
  shows "get_status (memory_service C lk l kd ids ps R) rid s =
    (status_in (memory_service C lk l kd ids ps R) (m_entries s) (m_now s) rid, s)"
  by (rule get_status_pure [OF assms])

text \<open>C5: what an approval means.  When the status of a request is approved, the policy it was created
  under is unchanged, at least as many different people as the threshold asks are listed, every role that
  must be represented is, and for each of them the log holds a decision to approve, bound to the body of
  the request, by someone the policy allows and separation of duties does not bar, in an envelope with
  a valid signature by a key of that person or by a decision issuer scoped to this log.\<close>

theorem approval_is_evidenced:
  assumes "kd_wf kd" "alone s" "get_status (memory_service C lk l kd ids ps R) rid s = (Inr rec, t)"
    and "rec_status rec = u ''approved''"
  shows "\<exists>policy dg. policy_store_get ps (r_policy_id (rec_request rec)) = Inr policy \<and>
    policy_digest policy = Inr dg \<and> r_policy_digest (rec_request rec) = PStr dg \<and>
    distinct (p_satisfied_by (rec_policy_result rec)) \<and>
    threshold policy \<le> int (length (p_satisfied_by (rec_policy_result rec))) \<and>
    (\<forall>r\<in>set (require_distinct_roles policy). \<exists>a\<in>set (p_satisfied_by (rec_policy_result rec)). holds_role ids r a) \<and>
    (\<forall>a\<in>set (p_satisfied_by (rec_policy_result rec)). \<exists>e d.
       approves (memory_service C lk l kd ids ps R) (m_entries s) (rec_request rec) policy a e d \<and>
       signed_for (memory_service C lk l kd ids ps R) (e_payload e) d a)"
proof -
  obtain now where "status_in (memory_service C lk l kd ids ps R) (m_entries s) now rid = Inr rec"
    using solo.get_status_Inr [OF assms(2,3)] by blast
  from approval_means [OF _ this assms(4)] show ?thesis using assms(1) by auto
qed

text \<open>C6: a clean report.  When verification reports no failure, the segment it walked is chained and every
  decision in it is authorized and bound to its request.  For every request created in it, either its policy
  is not available, or its status was recomputed, and the last status on record is none, or the recomputed
  one, or the recomputed one is expired.  The published checkpoint is signed and reproduced by the log, and
  the pinned checkpoint is signed and consistent with it.\<close>

theorem clean_report_audits:
  assumes "alone s" "verify_log (memory_service C lk l kd ids ps R) trusted n limit s = (Inr rep, t)"
    and "report_ok rep" "0 \<le> n" "\<forall>k. limit = Some k \<longrightarrow> 0 \<le> k"
  shows "audited (memory_service C lk l kd ids ps R) (m_entries s) trusted n limit"
  using solo.verify_sound [OF assms] .

text \<open>C7: tamper evidence end to end.  Someone pins a checkpoint of the log they saw.  If a later full
  verification against it is clean, all they saw is still there, entry for entry, or two messages that
  were hashed collide under SHA-256.\<close>

theorem pinned_checkpoint_protects_history:
  assumes "build_checkpoint (map e_entry_hash old) log_id at_time prev = Inr cp" "chained 0 p old"
    and "alone s" "report_ok rep"
    and "verify_log (memory_service C lk l kd ids ps R) (Some (cp\<lparr>c_signatures := sigs\<rparr>)) 0 None s = (Inr rep, t)"
  shows "map entry_norm (take (length old) (m_entries s)) = map entry_norm old \<or>
    collides (merkle_msgs (map e_entry_hash (take (length old) (m_entries s)))) (merkle_msgs (map e_entry_hash old)) \<or>
    (\<exists>i<length old. collision (cbytes (core_dict (m_entries s ! i))) (cbytes (core_dict (old ! i))))"
  using audited_pinned [OF solo.verify_sound [OF assms(3,5,4)] assms(1,2)] by simp

text \<open>C19: a checkpoint the service publishes is consistent with the log from then on, however it grows.\<close>

theorem published_checkpoint_holds:
  assumes "busy_ok W s" "intact (m_entries s)" "checkpoint (memory_service C lk l kd ids ps R) s = (Inr cp, t)"
    and "prefix (m_entries t) ys"
  shows "verify_consistency cp (map e_entry_hash ys) = Inr ()"
  using mem.checkpoint_consistent [OF assms(1) _ assms(2,3,4)] by simp

text \<open>C18: the detached ceremony.  What the approver's client is given to sign is what the envelope is
  verified over: with an Ed25519 key of the approver that is valid at the time of the challenge, the
  signature over the bytes of the challenge makes the assembled envelope an authorized decision by that
  approver, with the verdict that was asked for.\<close>

theorem detached_ceremony_authorizes:
  assumes "prepare_decision sv (PStr rid) (PStr a) (PStr v) (PStr c) (PStr k) s = (Inr ch, t)"
    and "b64decode (ch_pae_b64 ch) = Inr m"
    and "ed_correct C key" "sv_registry sv = default_registry C"
    and "kref = public_key_ref (Ed25519Signer C key) a nb na (u ''approver'') ids"
    and "map_of (sv_key_dir sv) (k_keyid kref) = Some kref" "valid_at kref (ch_decided_at ch) = Inr True"
    and "env = envelope_from_challenge ch [envelope_sig (k_keyid kref) (priv_sign C key m)]"
  shows "\<exists>d. decision_of env = Inr d \<and> d_approver_id d = PStr a \<and> d_verdict d = PStr v \<and> authorized sv env d = Inr True"
  using assms by (rule ceremony_authorized)

subsection \<open>Retries\<close>

text \<open>Only the idempotency store changes what is reserved, and nothing turns the clock.\<close>

definition same_slots :: "mem \<Rightarrow> mem \<Rightarrow> bool" where
  "same_slots s t \<longleftrightarrow> m_idem t = m_idem s \<and> m_now t = m_now s"

lemma same_slots_order [simp]: "reflp same_slots" "transp same_slots"
  by (auto simp: same_slots_def intro!: reflpI transpI)

lemma append_slots: "same_slots s (snd (mem_append e s))"
  by (simp add: mem_append_def Let_def same_slots_def)

lemma others_slots: "same_slots s (others_act s)"
proof -
  have "same_slots s (foldl (\<lambda>s w. other_append w s) s ws)" for s ws
    using append_slots
    by (induction ws arbitrary: s) (fastforce simp: same_slots_def other_append_def split: prod.split sum.split)+
  then show ?thesis by (auto simp: others_act_def same_slots_def split: list.split)
qed

lemma busy_slots: "(\<And>s. same_slots s (snd (m s))) \<Longrightarrow> keeps same_slots (busy m)"
  using others_slots by (simp add: keeps_def same_slots_def busy_def)

lemma events_slots [simp, intro]:
  "keeps same_slots (es_events_for_request (memory_events l) rid)" "keeps same_slots (es_head (memory_events l))"
  "keeps same_slots (es_append (memory_events l) e)"
  unfolding memory_events_simps
  by (auto intro!: busy_slots append_slots simp: mem_events_def mem_head_def) (auto simp: same_slots_def)

lemma append_event_slots: "keeps same_slots (append_event (memory_service C lk l kd ids ps R) ty payload at_time rid)"
proof -
  have "keeps same_slots (append_from (memory_service C lk l kd ids ps R) ty payload at_time rid i n)" for i n
  proof (induction n arbitrary: i)
    case (Suc n)
    have "keeps same_slots (sv_sleep (memory_service C lk l kd ids ps R) i)" for i
      by (auto simp: memory_service_def mret_def same_slots_def intro!: busy_slots)
    with Suc show ?case by (auto intro!: keeps_mbind keeps_mcatch keeps_if)
  qed simp
  then show ?thesis by (simp add: append_event_def)
qed

lemma reads_slots:
  "keeps same_slots (require_request (memory_service C lk l kd ids ps R) rid)"
  "keeps same_slots (recompute (memory_service C lk l kd ids ps R) request at_time)"
  unfolding require_request_def load_request_def recompute_def decisions_for_def
  by (auto intro!: keeps_mbind split: option.split)

lemma project_slots: "keeps same_slots (project (memory_service C lk l kd ids ps R) request at_time n rec)"
proof -
  have "keeps same_slots (mem_upsert v)" for v
    by (simp add: keeps_def same_slots_def mem_upsert_def split: option.split)
  moreover have "sv_projections (memory_service C lk l kd ids ps R) = Projections memory_projections"
    by (simp add: memory_service_def)
  ultimately show ?thesis
    by (auto simp: project_def memory_projections_def intro!: keeps_mbind reads_slots split: option.split)
qed

lemma now_slots: "keeps same_slots (sv_now (memory_service C lk l kd ids ps R))"
  by (simp add: keeps_def same_slots_def)

lemma record_decision_slots: "keeps same_slots (record_decision (memory_service C lk l kd ids ps R) request d envelope)"
  unfolding record_decision_def
  by (auto intro!: keeps_mbind keeps_if append_event_slots reads_slots project_slots now_slots simp del: memory_service_fields)

lemma get_status_slots: "keeps same_slots (get_status (memory_service C lk l kd ids ps R) rid)"
  unfolding get_status_def
  by (auto intro!: keeps_mbind reads_slots now_slots simp del: memory_service_fields)

lemma reserve_takes:
  assumes "mem_reserve key fp s = (Inr rv, t)"
  shows "hashable key" "map_of (m_idem t) key \<noteq> None" "rs_won rv \<longleftrightarrow> map_of (m_idem s) key = None"
  using assms by (auto simp: mem_reserve_def update_conv' split: if_splits option.splits)

text \<open>After a submission that returned, the key of the decision is taken.\<close>

lemma record_once_takes:
  assumes "record_once (memory_service C lk l kd ids ps R) request d envelope s = (Inr rec, t)"
  shows "\<exists>fp. canonical_hash (Decision_to_dict d) = Inr fp \<and> hashable (decision_key R d) \<and>
    map_of (m_idem t) (decision_key R d) \<noteq> None"
proof -
  let ?sv = "memory_service C lk l kd ids ps R" and ?key = "decision_key R d"
  obtain fp rv s1 where fp: "canonical_hash (Decision_to_dict d) = Inr fp" and rv: "mem_reserve ?key fp s = (Inr rv, s1)"
    using assms by (auto simp: record_once_def Let_def mbind_eq_Inr mlift_run memory_idempotency_def)
  have "map_of (m_idem t) ?key \<noteq> None"
  proof (cases "rs_won rv")
    case True
    obtain rec' s2 where "id_complete memory_idempotency ?key (PDict (items [(''request_id'', d_request_id d)])) s2 = (Inr (), t)"
      using assms fp rv True
      by (auto simp: record_once_def Let_def mbind_eq_Inr mlift_run mret_run memory_idempotency_def mbind_run)
    then show ?thesis
      by (auto simp: memory_idempotency_def mem_complete_def update_conv' split: if_splits option.splits)
  next
    case False
    let ?m = "if rs_response rv = PNone then get_status ?sv (d_request_id d)
        else mbind (mlift (subscr (rs_response rv) ''request_id'')) (get_status ?sv)"
    have "?m s1 = (Inr rec, t)"
      using assms fp rv False by (simp add: record_once_def Let_def memory_idempotency_def mbind_run mlift_run)
    moreover have "keeps same_slots ?m" by (auto intro!: keeps_if keeps_mbind get_status_slots)
    ultimately have "m_idem t = m_idem s1" by (auto dest: keepsD simp: same_slots_def)
    then show ?thesis using reserve_takes(2) [OF rv] by simp
  qed
  then show ?thesis using fp reserve_takes(1) [OF rv] by blast
qed

lemma submitted_taken:
  assumes "submit_signed_decision (memory_service C lk l kd ids ps R) envelope s = (Inr rec, t)"
  shows "\<exists>d fp. decision_of envelope = Inr d \<and> canonical_hash (Decision_to_dict d) = Inr fp \<and>
    hashable (decision_key R d) \<and> map_of (m_idem t) (decision_key R d) \<noteq> None"
proof -
  obtain d request s1 where d: "parse_decision envelope = Inr d"
    and c: "check_and_record (memory_service C lk l kd ids ps R) envelope d request s1 = (Inr rec, t)"
    using assms by (auto simp: submit_signed_decision_def mbind_eq_Inr mlift_run)
  have "decision_of envelope = Inr d" using d by (auto simp: parse_decision_def split: sum.splits)
  moreover obtain s2 where once: "record_once (memory_service C lk l kd ids ps R) request d envelope s2 = (Inr rec, t)"
    using c by (auto simp: check_and_record_def mbind_eq_Inr mlift_run mraise_run split: if_splits)
  ultimately show ?thesis using record_once_takes [OF once] by blast
qed

text \<open>C14: retries.  A decision whose submission returned is recorded once: submitting the envelope again,
  with other writers at work on the log, writes nothing.\<close>

theorem retry_records_nothing:
  assumes "submit_signed_decision (memory_service C lk l kd ids ps R) envelope s = (Inr rec, t)" "busy_ok W t"
    and "submit_signed_decision (memory_service C lk l kd ids ps R) envelope t = (q, t')"
  shows "joined W (m_entries t) (m_entries t')"
proof -
  let ?sv = "memory_service C lk l kd ids ps R"
  obtain d fp where d: "decision_of envelope = Inr d" "canonical_hash (Decision_to_dict d) = Inr fp"
    "map_of (m_idem t) (decision_key R d) \<noteq> None"
    using submitted_taken [OF assms(1)] by blast
  have idem: "sv_idempotency ?sv = Some memory_idempotency" by simp
  have "busy_ok W t' \<and> joined W (m_entries t) (m_entries t')"
  proof (rule mem.submit_signed_loses [OF idem d(1) _ _ _ d(2) assms(2) _ assms(3)])
    fix s t :: mem and r :: "exn + ApprovalRequest"
    assume "map_of (m_idem s) (decision_key R d) \<noteq> None"
    then show "require_request ?sv (d_request_id d) s = (r, t) \<Longrightarrow> map_of (m_idem t) (decision_key R d) \<noteq> None"
      using keepsD [OF reads_slots(1)] by (fastforce simp: same_slots_def)
  qed (use d(3) reserve_takes(3) in \<open>auto simp: memory_idempotency_def\<close>)
  then show ?thesis by blast
qed

text \<open>one winner.  Of two reservations of one key, the second is lost or refused, whatever it is for;
  and a key that was won for one decision is refused to a decision with another content.\<close>

theorem one_reservation_wins:
  assumes "id_reserve memory_idempotency key fp s = (Inr rv, t)"
    and "id_reserve memory_idempotency key fp' t = (q, t')"
  shows "(\<forall>rv'. q = Inr rv' \<longrightarrow> \<not> rs_won rv') \<and> (rs_won rv \<and> fp' \<noteq> fp \<longrightarrow> q = Inl IdempotencyConflict)"
proof -
  have h: "hashable key" using assms(1) reserve_takes(1) by (simp add: memory_idempotency_def)
  have "\<not> rs_won rv'" if "q = Inr rv'" for rv'
    using mem_idempotency.second_reserve_loses [OF h assms(1) assms(2) [unfolded that]] .
  moreover have "rs_won rv \<and> fp' \<noteq> fp \<Longrightarrow> q = Inl IdempotencyConflict"
    using assms h by (auto simp: memory_idempotency_def mem_reserve_def update_conv' split: option.splits if_splits)
  ultimately show ?thesis by blast
qed

text \<open>the read model never moves backwards, whatever views are put in, in whatever order.\<close>

theorem projections_move_forwards:
  assumes "mfor vs (\<lambda>v _. pj_upsert memory_projections v) () s = (r, t)" "map_of (m_views s) rid = Some old"
    and "0 \<le> v_last_seq old"
  shows "\<exists>new. map_of (m_views t) rid = Some new \<and> v_last_seq old \<le> v_last_seq new"
  using mem_projections.upserts_forwards [OF assms(1), of rid] assms(2,3)
  by (auto simp: mem_projections.reached_def split: option.splits)

subsection \<open>Recording a decision\<close>

text \<open>A submission that passes every check, up to the recording.\<close>

definition acceptable :: "(mem, 'k) ApprovalService \<Rightarrow> pyval \<Rightarrow> Decision \<Rightarrow> ApprovalRequest \<Rightarrow> mem \<Rightarrow> bool" where
  "acceptable sv envelope d request s \<longleftrightarrow>
     decision_of envelope = Inr d \<and> hashable (d_request_id d) \<and> truthy (d_request_id d) \<and>
     created_request (entries_of (d_request_id d) (m_entries s)) = Inr (Some request) \<and>
     (\<exists>cx. context_digest request = Inr cx \<and> d_context_digest d = PStr cx) \<and>
     admissible sv request d envelope (m_now s) = Inr () \<and> (\<exists>fp. canonical_hash (Decision_to_dict d) = Inr fp) \<and>
     hashable (decision_key (sv_runtime sv) d) \<and> map_of (m_idem s) (decision_key (sv_runtime sv) d) = None"

lemma submit_acceptable:
  assumes s: "alone s" and acc: "acceptable (memory_service C lk l kd ids ps R) envelope d request s"
    and run: "submit_signed_decision (memory_service C lk l kd ids ps R) envelope s = (r, t)"
  obtains s1 q s2 where "alone s1" "m_entries s1 = m_entries s" "m_now s1 = m_now s"
    "record_decision (memory_service C lk l kd ids ps R) request d envelope s1 = (q, s2)"
    "m_entries t = m_entries s2" "\<forall>x. q = Inl x \<longrightarrow> r = Inl x \<and> map_of (m_idem t) (decision_key R d) = None"
    "\<forall>rec. q = Inr rec \<longrightarrow> r = Inr rec" "alone s2 \<longrightarrow> alone t"
proof -
  let ?sv = "memory_service C lk l kd ids ps R" and ?key = "decision_key R d"
  have a: "decision_of envelope = Inr d" "hashable (d_request_id d)" "truthy (d_request_id d)"
    "created_request (entries_of (d_request_id d) (m_entries s)) = Inr (Some request)"
    "admissible ?sv request d envelope (m_now s) = Inr ()" "hashable ?key" "map_of (m_idem s) ?key = None"
    using acc by (simp_all add: acceptable_def)
  obtain cx fp where cx: "context_digest request = Inr cx" "d_context_digest d = PStr cx"
    and fp: "canonical_hash (Decision_to_dict d) = Inr fp"
    using acc by (auto simp: acceptable_def)
  have "require_request ?sv (d_request_id d) s = (Inr request, s)"
    using a(2-4) s by (simp add: require_request_def load_request_def mem_reads mbind_def mlift_def mret_def)
  then have once: "record_once ?sv request d envelope s = (r, t)"
    using run a(1,5) cx by (simp add: submit_signed_decision_def parse_decision_def check_and_record_def mbind_run mlift_run)
  define s1 where "s1 = s\<lparr>m_idem := AList.update ?key (fp, PNone) (m_idem s)\<rparr>"
  have s1: "alone s1" "m_entries s1 = m_entries s" "m_now s1 = m_now s"
    using s by (simp_all add: alone_def s1_def index_ok_def cong: option.case_cong)
  have won: "mem_reserve ?key fp s = (Inr \<lparr>rs_won = True, rs_fingerprint = fp, rs_response = PNone\<rparr>, s1)"
    using a(6,7) by (simp add: mem_reserve_def s1_def)
  obtain q s2 where q: "record_decision ?sv request d envelope s1 = (q, s2)" by fastforce
  have rest: "mbind (mcatch (record_decision ?sv request d envelope)
                       (\<lambda>e. mbind (mem_release ?key) (\<lambda>_. mraise e))) (\<lambda>record.
              mbind (mem_complete ?key (PDict (items [(''request_id'', d_request_id d)])))
                (\<lambda>_. mret record)) s1 = (r, t)"
    using once fp won by (simp add: record_once_def Let_def memory_idempotency_def mbind_run mlift_run)
  show thesis
  proof (cases q)
    case (Inl x)
    then have "t = s2\<lparr>m_idem := AList.delete ?key (m_idem s2)\<rparr>" "r = Inl x"
      using rest q a(6) by (simp_all add: mbind_def mcatch_def mem_release_def mraise_def)
    then show thesis using that [OF s1 q] Inl
      by (simp add: delete_conv' alone_def index_ok_def cong: option.case_cong)
  next
    case (Inr rec)
    have "m_idem s2 = m_idem s1" using keepsD [OF record_decision_slots q] by (simp add: same_slots_def)
    then have "t = s2\<lparr>m_idem := AList.update ?key (fp, PDict (items [(''request_id'', d_request_id d)])) (m_idem s2)\<rparr> \<and> r = Inr rec"
      using rest q a(6) Inr by (simp add: mbind_def mcatch_def mem_complete_def mret_def s1_def update_conv')
    then show thesis using that [OF s1 q] Inr
      by (simp add: alone_def index_ok_def cong: option.case_cong)
  qed
qed

text \<open>C10: what passes every check is recorded.  When a submission passes the checks, its envelope is on the
  log when the call comes back, whether it returns or raises, followed at most by the change of status
  it brings about.\<close>

theorem acceptable_decision_is_recorded:
  assumes "alone s" "intact (m_entries s)" "acceptable (memory_service C lk l kd ids ps R) envelope d request s"
    and "next_entry (last_of (m_entries s)) (u ''decision.recorded'') envelope (d_decided_at d) (d_request_id d) = Inr e"
    and "submit_signed_decision (memory_service C lk l kd ids ps R) envelope s = (r, t)"
  shows "\<exists>ys. m_entries t = m_entries s @ e # ys \<and> length ys \<le> 1 \<and> (\<forall>y\<in>set ys. ev ''status.changed'' y)"
proof -
  obtain s1 q s2 where s1: "alone s1" "m_entries s1 = m_entries s" "m_entries t = m_entries s2"
    "record_decision (memory_service C lk l kd ids ps R) request d envelope s1 = (q, s2)"
    by (rule submit_acceptable [OF assms(1,3,5)])
  have "hashable (d_request_id d)" using assms(3) by (simp add: acceptable_def)
  with solo.record_decision_lands [OF s1(1) _ _ _ s1(4)] show ?thesis using assms(2,4) s1(2,3) by simp
qed

text \<open>C15: the policy is checked after the decision is written.  When the policy changed since the request
  pinned it, submitting a decision raises \<open>PolicyMismatch\<close>, but the decision is on the log, and its
  idempotency key is free again, so that a retry records it once more.\<close>

theorem stale_policy_still_records:
  assumes "alone s" "intact (m_entries s)" "acceptable (memory_service C lk l kd ids ps R) envelope d request s"
    and "next_entry (last_of (m_entries s)) (u ''decision.recorded'') envelope (d_decided_at d) (d_request_id d) = Inr e"
    and "policy_store_get ps (r_policy_id request) = Inr policy" "policy_digest policy = Inr h"
    and "r_policy_digest request \<noteq> PStr h"
    and "submit_signed_decision (memory_service C lk l kd ids ps R) envelope s = (r, t)"
  shows "r = Inl PolicyMismatch \<and> m_entries t = m_entries s @ [e] \<and> map_of (m_idem t) (decision_key R d) = None"
proof -
  let ?sv = "memory_service C lk l kd ids ps R"
  obtain s1 q s2 where s1: "alone s1" "m_entries s1 = m_entries s" "m_now s1 = m_now s"
    "record_decision ?sv request d envelope s1 = (q, s2)" "m_entries t = m_entries s2"
    and raised: "\<forall>x. q = Inl x \<longrightarrow> r = Inl x \<and> map_of (m_idem t) (decision_key R d) = None"
    by (rule submit_acceptable [OF assms(1,3,8)])
  have h: "hashable (d_request_id d)" using assms(3) by (simp add: acceptable_def)
  obtain s3 where a: "append_event ?sv (u ''decision.recorded'') envelope (d_decided_at d) (d_request_id d) s1 = (Inr e, s3)"
    "alone s3" "m_entries s3 = m_entries s @ [e]"
    using solo.append_writes [OF s1(1) _ h, of C lk l kd ids ps R "u ''decision.recorded''" envelope "d_decided_at d"]
      assms(2,4) s1(2) by auto
  obtain s4 where rc: "recompute ?sv request (PStr (m_now s3)) s3 = (Inl PolicyMismatch, s4)" "m_entries s4 = m_entries s3"
    using solo.recompute_reads [OF a(2), of C lk l kd ids ps R request "PStr (m_now s3)"] assms(5-7)
    by (auto simp: recomputed_def)
  have "q = Inl PolicyMismatch" "s2 = s4"
    using s1(4) a(1) rc(1) by (simp_all add: record_decision_def mbind_run)
  then show ?thesis using raised s1(5) a(3) rc(2) by simp
qed

end
