(* ===== verification/Encodable.thy ===== *)
theory Encodable
  imports Chain
begin

section \<open>When the canonical encoding succeeds\<close>

text \<open>
  \<open>canonical_bytes\<close> raises on a value it cannot represent and on a string UTF-8 cannot.  A value is
  \<open>writable\<close> when neither is inside it; then there is an encoding, and so a hash.  Digests, base64 and
  ASCII literals are writable.
\<close>

abbreviation clean :: "pstr \<Rightarrow> bool" where
  "clean \<equiv> list_all encodable"

fun writable :: "pyval \<Rightarrow> bool" where
  "writable (PStr s) = clean s"
| "writable (PList xs) = list_all writable xs"
| "writable (PTuple xs) = list_all writable xs"
| "writable (PDict kvs) = list_all (\<lambda>(k, v). (case k of PStr s \<Rightarrow> clean s | _ \<Rightarrow> False) \<and> writable v) kvs"
| "writable (PFloat t) = False"
| "writable (PObj t) = False"
| "writable _ = True"

lemma ascii_clean: "\<forall>c\<in>set s. c < 128 \<Longrightarrow> clean s"
  by (auto simp: list_all_iff encodable_def surrogate_def)

lemma clean_append [simp]: "clean (xs @ ys) \<longleftrightarrow> clean xs \<and> clean ys"
  by simp

lemma clean_u: "\<forall>c\<in>set s. of_char c < (128 :: nat) \<Longrightarrow> clean (u s)"
  by (rule ascii_clean) (auto simp: u_def)

lemma clean_int_repr: "clean (int_repr i)"
  by (rule ascii_clean) (auto simp: int_repr_def is_digit_def dest!: nat_repr_digits split: if_splits)

lemma clean_join: "clean sep \<Longrightarrow> \<forall>x\<in>set xs. clean x \<Longrightarrow> clean (join sep xs)"
  by (induction sep xs rule: join.induct) auto

lemma clean_hex_pad: "clean (hex_pad n c)"
proof (induction n arbitrary: c)
  case (Suc n)
  have "hex_digit (c mod 16) < 128" using mod_less_divisor [of 16 c] by (simp add: hex_digit_def del: mod_less_divisor)
  then show ?case using Suc by (simp add: encodable_def surrogate_def)
qed simp

lemma clean_json_str: "clean s \<Longrightarrow> clean (json_str s)"
proof (induction s)
  case (Cons c s)
  have "clean (esc_char c)"
    using Cons.prems clean_hex_pad by (auto simp: esc_char_def encodable_def surrogate_def)
  then show ?case using Cons by (simp add: json_str_def)
qed (simp add: json_str_def encodable_def surrogate_def)

lemma clean_brackets: "clean [44]" "clean [58]" "clean [91]" "clean [93]" "clean [123]" "clean [125]"
  by (simp_all add: encodable_def surrogate_def)

lemma writable_dumps: "writable v \<Longrightarrow> jsonable v \<and> clean (dumps v)"
proof (induction v rule: dumps.induct)
  case (2 t)
  then show ?case by (simp add: clean_u)
next
  case (6 xs)
  then show ?case using clean_brackets clean_join [of "[44]" "map dumps xs"] by (auto simp: list_all_iff)
next
  case (7 xs)
  then show ?case using clean_brackets clean_join [of "[44]" "map dumps xs"] by (auto simp: list_all_iff)
next
  case (8 kvs)
  have kv: "(\<exists>s. k = PStr s \<and> clean s) \<and> jsonable v \<and> clean (dumps v)" if "(k, v) \<in> set kvs" for k v
    using 8 that by (auto simp: list_all_iff split: pyval.splits)
  then have "\<forall>x\<in>set (map (\<lambda>(k, v). json_str (str_of k) @ [58] @ dumps v) (key_sort kvs)). clean x"
    using clean_json_str clean_brackets(2) by fastforce
  moreover have "jsonable (PDict kvs)" using kv by (fastforce simp: list_all_iff)
  ultimately show ?case using clean_brackets clean_join [of "[44]"] by simp
qed (simp_all add: clean_u clean_int_repr clean_json_str)

lemma writable_canonical: "writable v \<Longrightarrow> \<exists>bs. canonical_bytes v = Inr bs"
  using writable_dumps by (simp add: canonical_bytes_Inr utf8_encode_def)

lemma writable_hash: "writable v \<Longrightarrow> \<exists>h. canonical_hash v = Inr h"
  using writable_canonical by (auto simp: canonical_hash_Inr)

lemma clean_hex: "clean (to_hex bs)"
  by (rule ascii_clean) (auto dest: to_hex_char_bounds)

lemma clean_hash: "canonical_hash v = Inr h \<Longrightarrow> clean h"
proof -
  assume "canonical_hash v = Inr h"
  then obtain bs where h: "h = u ''sha256:'' @ to_hex bs" by (auto simp: canonical_hash_Inr sha256_hex_def)
  show ?thesis by (simp add: h clean_u clean_hex)
qed

lemma clean_b64: "clean (b64encode bs)"
proof -
  have "\<forall>n\<in>set (from_bytes bs). n < 256" by (auto dest: from_bytes_bound)
  then show ?thesis using b64_enc_ascii [of "from_bytes bs"] ascii_clean by (auto simp: b64encode_def list_all_iff)
qed

text \<open>So an entry can be made of them.\<close>

lemma entry_made:
  "writable pl \<Longrightarrow> writable t \<Longrightarrow> writable rid \<Longrightarrow> clean ty \<Longrightarrow> (\<forall>e. prev = Some e \<longrightarrow> clean (e_entry_hash e)) \<Longrightarrow>
     \<exists>e. next_entry prev ty pl t rid = Inr e \<and> clean (e_entry_hash e)"
proof -
  assume a: "writable pl" "writable t" "writable rid" "clean ty" "\<forall>e. prev = Some e \<longrightarrow> clean (e_entry_hash e)"
  have z: "clean ZERO_HASH" by (simp add: ZERO_HASH_def clean_u) (simp add: list_all_iff encodable_def surrogate_def)
  let ?c = "\<lparr>e_seq = (case prev of Some p \<Rightarrow> e_seq p + 1 | None \<Rightarrow> 0), e_recorded_at = t,
      e_prev_hash = (case prev of Some p \<Rightarrow> e_entry_hash p | None \<Rightarrow> ZERO_HASH),
      e_event_type = ty, e_request_id = rid, e_payload = pl, e_entry_hash = []\<rparr>"
  have "writable (core_dict ?c)"
    using a z by (simp add: core_dict_def core_items_def clean_u split: option.split)
  then obtain h where h: "canonical_hash (core_dict ?c) = Inr h" using writable_hash by blast
  then show ?thesis using clean_hash [OF h] by (simp add: next_entry_def sealed_def)
qed

end
