(* ===== verification/Scenario.thy ===== *)
theory Scenario
  imports Promises Encodable
begin

section \<open>A run of the service\<close>

text \<open>
  One request, one decision by Al with a key of Al's own, on a log with one writer: the inputs the
  promises are applied to.  Digests are not computed: \<open>writable\<close> says the values have one, and the
  definitions name it.  The digest the request pins is a parameter, so that the policy can be the one
  that was pinned or another.
\<close>

lemma named: "\<exists>x. e = Inr x \<Longrightarrow> e = Inr (projr e)"
  by auto

lemmas writing = clean_u clean_b64

subsection \<open>The request\<close>

definition pinned :: pstr where
  "pinned = projr (policy_digest example_policy)"

lemma pinned: "policy_digest example_policy = Inr pinned"
  unfolding pinned_def
  by (rule named, unfold policy_digest_def, rule writable_hash)
    (simp add: Policy_to_dict_def example_policy_def strs_def writing)

lemma pinned_clean: "clean pinned"
  using clean_hash pinned by (simp add: policy_digest_def)

definition req :: "pstr \<Rightarrow> ApprovalRequest" where
  "req p = asked\<lparr>r_policy_digest := PStr p\<rparr>"

lemmas req_defs = req_def asked_def example_request_def

definition qid :: "pstr \<Rightarrow> pstr" where
  "qid p = projr (request_id (req p))"

definition bodyd :: "pstr \<Rightarrow> pstr" where
  "bodyd p = projr (context_digest (req p))"

lemma qid: "clean p \<Longrightarrow> request_id (req p) = Inr (qid p)"
  unfolding qid_def
  by (rule named, unfold request_id_def, rule writable_hash)
    (simp add: identity_dict_def identity_items_def req_defs writing)

lemma bodyd: "clean p \<Longrightarrow> context_digest (req p) = Inr (bodyd p)"
  unfolding bodyd_def
  by (rule named, unfold context_digest_def, rule writable_hash)
    (simp add: context_dict_def identity_items_def req_defs writing)

lemma qid_clean: "clean p \<Longrightarrow> clean (qid p)" and bodyd_clean: "clean p \<Longrightarrow> clean (bodyd p)"
  using clean_hash qid bodyd unfolding request_id_def context_digest_def by blast+

lemma qid_truthy: "clean p \<Longrightarrow> truthy (PStr (qid p)) \<and> hashable (PStr (qid p))"
  using request_id_nonempty qid by blast

definition payload :: "pstr \<Rightarrow> pyval" where
  "payload p = projr (Request_to_dict (req p))"

lemma payload: "clean p \<Longrightarrow> Request_to_dict (req p) = Inr (payload p)"
  unfolding payload_def by (rule named) (simp add: Request_to_dict_def qid)

lemma payload_writable: "clean p \<Longrightarrow> writable (payload p)"
proof -
  assume p: "clean p"
  have "payload p = PDict (items (identity_items (req p) @ [(''created_at'', r_created_at (req p)), (''request_id'', PStr (qid p))]))"
    using payload [OF p] by (simp add: Request_to_dict_def qid [OF p])
  then show ?thesis using qid_clean [OF p] p by (simp add: identity_items_def req_defs writing)
qed

definition t0 :: pstr where "t0 = u ''2025-01-01T00:00:00Z''"
definition t1 :: pstr where "t1 = u ''2025-01-01T12:00:00Z''"

subsection \<open>The log with the request\<close>

definition e0 :: "pstr \<Rightarrow> LedgerEntry" where
  "e0 p = projr (next_entry None (u ''request.created'') (payload p) (PStr t0) (PStr (qid p)))"

lemma e0:
  assumes "clean p"
  shows "next_entry None (u ''request.created'') (payload p) (PStr t0) (PStr (qid p)) = Inr (e0 p)" "clean (e_entry_hash (e0 p))"
proof -
  obtain e where e: "next_entry None (u ''request.created'') (payload p) (PStr t0) (PStr (qid p)) = Inr e" "clean (e_entry_hash e)"
    using entry_made [of "payload p" "PStr t0" "PStr (qid p)" "u ''request.created''" None] assms
    by (auto simp: payload_writable qid_clean t0_def writing)
  then show "next_entry None (u ''request.created'') (payload p) (PStr t0) (PStr (qid p)) = Inr (e0 p)" "clean (e_entry_hash (e0 p))"
    by (simp_all add: e0_def)
qed

lemma e0_fields:
  assumes "clean p"
  shows "intact [e0 p]" "e_event_type (e0 p) = u ''request.created''" "e_payload (e0 p) = payload p"
    "e_request_id (e0 p) = PStr (qid p)" "e_seq (e0 p) = 0"
  using next_entry_genesis [OF e0(1) [OF assms]] next_entry_Inr [OF e0(1) [OF assms]] by simp_all

lemma e0_request:
  assumes "clean p"
  shows "created_request (entries_of (PStr (qid p)) (e0 p # es)) = Inr (Some (req p))"
  using Request_roundtrip [OF payload [OF assms]] by (simp add: created_request_def e0_fields [OF assms])

text \<open>Entries loaded as they are.\<close>

lemma from_entries_snoc:
  "e_seq e = int (length es) \<Longrightarrow> hashable (e_request_id e) \<Longrightarrow>
     mem_append e (from_entries es now) = (Inr (), from_entries (es @ [e]) now)"
  by (simp add: mem_append_def from_entries_def Let_def)

lemma from_entries_ok:
  "intact es \<Longrightarrow> \<forall>e\<in>set es. hashable (e_request_id e) \<Longrightarrow> index_ok (from_entries es now)"
proof (induction es rule: rev_induct)
  case (snoc e es)
  then have "e_seq e = int (length es)" by (simp add: chained_append)
  then show ?case
    using index_ok_append [OF _ _ from_entries_snoc] snoc by (auto simp: chained_append)
qed (simp add: index_ok_def from_entries_def)

lemma from_entries_alone:
  "intact es \<Longrightarrow> \<forall>e\<in>set es. hashable (e_request_id e) \<Longrightarrow> alone (from_entries es now)"
  using from_entries_ok by (simp add: alone_def from_entries_def)

lemma from_entries_fields [simp]: "m_entries (from_entries es now) = es" "m_now (from_entries es now) = now"
  "m_idem (from_entries es now) = []"
  by (simp_all add: from_entries_def)

text \<open>The service: Al's key is in the directory, nobody is on the roster.\<close>

abbreviation ex_service :: "KeyDirectory \<Rightarrow> (mem, bytes) ApprovalService" where
  "ex_service kd \<equiv> memory_service echo_crypto [7] (u ''log'') kd [] [(u ''p'', example_policy)] utc_runtime"

abbreviation al_dir :: KeyDirectory where
  "al_dir \<equiv> [(k_keyid example_ref, example_ref)]"

definition w0 :: "pstr \<Rightarrow> mem" where
  "w0 p = from_entries [e0 p] t1"

lemma w0: "clean p \<Longrightarrow> alone (w0 p)" "m_entries (w0 p) = [e0 p]" "m_now (w0 p) = t1" "m_idem (w0 p) = []"
  using from_entries_alone [of "[e0 p]"] e0_fields(1,4) by (auto simp: w0_def)

subsection \<open>Al decides\<close>

definition vote :: "pstr \<Rightarrow> Decision" where
  "vote p = new_decision utc_runtime (PStr (qid p)) (bodyd p) (lit ''approve'') (lit ''al'') t1 (lit '''') (lit ''k'') PNone"

lemma vote_writable: "clean p \<Longrightarrow> writable (Decision_to_dict (vote p))"
  by (simp add: Decision_to_dict_def vote_def new_decision_def qid_clean bodyd_clean t1_def writing)

definition challenge :: "pstr \<Rightarrow> DecisionChallenge" where
  "challenge p = projr (fst (prepare_decision (ex_service al_dir) (PStr (qid p)) (lit ''al'') (lit ''approve'') (lit '''') (lit ''k'') (w0 p)))"

lemma requires:
  assumes "clean p" "alone s" "m_entries s = e0 p # es"
  shows "require_request (ex_service kd) (PStr (qid p)) s = (Inr (req p), s)"
  using assms qid_truthy [OF assms(1)] e0_request [OF assms(1)]
  by (simp add: require_request_def load_request_def mem_reads mbind_def mlift_def mret_def)

lemma expiry: "\<exists>e. sbind (sbind (parse_rfc3339 (PStr t1)) (\<lambda>t. dt_add t DEFAULT_CHALLENGE_TTL)) (to_rfc3339 utc_runtime) = Inr e"
proof -
  have "parse_rfc3339 (PStr t1) = Inr \<lparr>local_us = 63871329600000000, utcoff = Some 0\<rparr>"
    by (simp add: time_eval t1_def)
  then show ?thesis
    by (simp add: DEFAULT_CHALLENGE_TTL_def dt_add_def to_rfc3339_def astimezone_utc_def MAX_US_def bind_simps Let_def US_DAY_def
        del: parse_rfc3339.simps)
qed

lemma challenge:
  assumes "clean p"
  shows "prepare_decision (ex_service al_dir) (PStr (qid p)) (lit ''al'') (lit ''approve'') (lit '''') (lit ''k'') (w0 p) =
    (Inr (challenge p), w0 p)"
proof -
  obtain body where b: "canonical_bytes (Decision_to_dict (vote p)) = Inr body"
    using writable_canonical [OF vote_writable [OF assms]] by blast
  obtain m where m: "pae (PStr DECISION_PAYLOAD_TYPE) body = Inr m"
    by (simp add: DECISION_PAYLOAD_TYPE_def canonical_eval)
  obtain e where e: "sbind (sbind (parse_rfc3339 (PStr t1)) (\<lambda>t. dt_add t DEFAULT_CHALLENGE_TTL)) (to_rfc3339 utc_runtime) = Inr e"
    using expiry by blast
  note r = requires [OF assms w0(1) [OF assms], of "[]"]
  have "\<exists>ch. prepare_decision (ex_service al_dir) (PStr (qid p)) (lit ''al'') (lit ''approve'') (lit '''') (lit ''k'') (w0 p) = (Inr ch, w0 p)"
    using r b m e w0(2,3)
    by (simp add: prepare_decision_def mbind_def mlift_def mret_def bodyd [OF assms] Let_def vote_def
        del: pae.simps parse_rfc3339.simps)
  then show ?thesis by (auto simp: challenge_def)
qed

definition al_env :: "pstr \<Rightarrow> pyval" where
  "al_env p = envelope_from_challenge (challenge p)
     [envelope_sig (k_keyid example_ref) (priv_sign echo_crypto [7] (projr (b64decode (ch_pae_b64 (challenge p)))))]"

lemma t1_instant: "instant t1 = Some 63871329600000000"
  by (simp add: instant_def t1_def time_eval)

lemma al_key_valid: "valid_at example_ref (PStr t1) = Inr True"
  using example_instants t1_instant
  by (simp add: valid_at_window [of _ _ 63871329600000000] timed_def in_window_def example_ref_def
      public_key_ref_def to_key_ref_def)

lemma al_env:
  assumes "clean p"
  shows "decision_of (al_env p) = Inr (vote p)" "authorized (ex_service al_dir) (al_env p) (vote p) = Inr True"
proof -
  obtain request s1 cx now m where c: "require_request (ex_service al_dir) (PStr (qid p)) (w0 p) = (Inr request, s1)"
    "context_digest request = Inr cx" "ch_decided_at (challenge p) = PStr now" "b64decode (ch_pae_b64 (challenge p)) = Inr m"
    "decision_of (al_env p) = Inr (new_decision utc_runtime (PStr (qid p)) cx (lit ''approve'') (lit ''al'') now (lit '''') (lit ''k'') PNone)"
    using ceremony_envelope [OF challenge [OF assms], where sigs = "[envelope_sig (k_keyid example_ref)
        (priv_sign echo_crypto [7] (projr (b64decode (ch_pae_b64 (challenge p)))))]"]
    unfolding al_env_def [symmetric] memory_service_fields by (elim exE conjE)
  have "request = req p" using c(1) requires [OF assms w0(1) [OF assms] w0(2)] by simp
  moreover have now: "ch_decided_at (challenge p) = PStr t1"
  proof -
    obtain request' now' s2 where "require_request (ex_service al_dir) (PStr (qid p)) (w0 p) = (Inr request', s2)"
      "sv_now (ex_service al_dir) s2 = (Inr now', w0 p)" "ch_decided_at (challenge p) = PStr now'"
      by (rule prepare_decision_Inr [OF challenge [OF assms]])
    then show ?thesis using w0(3) [of p] by auto
  qed
  ultimately show d: "decision_of (al_env p) = Inr (vote p)"
    using c bodyd [OF assms] by (simp add: vote_def)
  have "\<exists>d. decision_of (al_env p) = Inr d \<and> d_approver_id d = PStr (u ''al'') \<and> d_verdict d = PStr (u ''approve'') \<and>
      authorized (ex_service al_dir) (al_env p) d = Inr True"
    using al_key_valid c(4) now
    by (intro ceremony_authorized [OF challenge [OF assms] _ echo_correct _ example_ref_def]) (simp_all add: al_env_def)
  then show "authorized (ex_service al_dir) (al_env p) (vote p) = Inr True" using d by simp
qed

lemma al_env_writable: "clean p \<Longrightarrow> writable (al_env p)"
proof -
  assume p: "clean p"
  obtain body where b: "ch_payload_type (challenge p) = PStr DECISION_PAYLOAD_TYPE" "ch_payload_b64 (challenge p) = PStr (b64encode body)"
    by (rule prepare_decision_Inr [OF challenge [OF p]])
  have "clean (k_keyid example_ref)"
    by (simp add: example_ref_def public_key_ref_def Ed25519Signer_def to_key_ref_def m_keyid_def keyid_for_def clean_hex)
  then show ?thesis
    using b by (simp add: al_env_def envelope_from_challenge_def envelope_sig_def DECISION_PAYLOAD_TYPE_def writing)
qed

text \<open>The log with the decision.\<close>

definition e1 :: "pstr \<Rightarrow> LedgerEntry" where
  "e1 p = projr (next_entry (Some (e0 p)) (u ''decision.recorded'') (al_env p) (PStr t1) (PStr (qid p)))"

lemma e1:
  assumes "clean p"
  shows "next_entry (Some (e0 p)) (u ''decision.recorded'') (al_env p) (PStr t1) (PStr (qid p)) = Inr (e1 p)"
    "clean (e_entry_hash (e1 p))"
proof -
  obtain e where e: "next_entry (Some (e0 p)) (u ''decision.recorded'') (al_env p) (PStr t1) (PStr (qid p)) = Inr e"
    "clean (e_entry_hash e)"
    using entry_made [of "al_env p" "PStr t1" "PStr (qid p)" "u ''decision.recorded''" "Some (e0 p)"] assms
    by (auto simp: al_env_writable qid_clean t1_def e0(2) writing)
  then show "next_entry (Some (e0 p)) (u ''decision.recorded'') (al_env p) (PStr t1) (PStr (qid p)) = Inr (e1 p)"
    "clean (e_entry_hash (e1 p))"
    by (simp_all add: e1_def)
qed

lemma e1_fields:
  assumes "clean p"
  shows "intact [e0 p, e1 p]" "e_event_type (e1 p) = u ''decision.recorded''" "e_payload (e1 p) = al_env p"
    "e_request_id (e1 p) = PStr (qid p)"
  using next_entry_log [of "[e0 p]" _ _ _ _ "e1 p"] e0_fields(1) [OF assms] e1(1) [OF assms] next_entry_Inr [OF e1(1) [OF assms]]
  by simp_all

lemma al_decision:
  assumes "clean p"
  shows "authorized_decisions (ex_service al_dir) [e0 p, e1 p] = Inr [vote p]"
  using e0_fields(2) [OF assms] e1_fields(2,3) [OF assms] al_env [OF assms] by simp

subsection \<open>What the evidence gives\<close>

lemma t1_parses: "parse_rfc3339 (PStr t1) = Inr \<lparr>local_us = 63871329600000000, utcoff = Some 0\<rparr>"
  by (simp add: t1_def time_eval)

lemma req_deadline: "deadline_of (req p) example_policy = Inr \<lparr>local_us = 63871372800000000, utcoff = Some 0\<rparr>"
  using asked_deadline by (simp add: deadline_of_def req_def)

lemma vote_counted:
  assumes "clean p"
  shows "objection utc_runtime (req p) example_policy [] (bodyd p) \<lparr>local_us = 63871372800000000, utcoff = Some 0\<rparr> (vote p) = Inr None"
  using t1_parses
  by (simp add: objection_def vote_def new_decision_def eligible_def example_policy_def dt_less_def dt_cmp_def req_defs
      del: parse_rfc3339.simps)

definition approval :: PolicyResult where
  "approval = \<lparr>p_status = u ''approved'', p_satisfied_by = [u ''al''],
     p_reasons = [u ''threshold '' @ int_repr 1 @ u '' met by: al'']\<rparr>"

lemma al_approves:
  "conclude utc_runtime r example_policy [] now deadline [] (latest [vote p]) = Inr approval"
  by (simp add: conclude_def Let_def voting_def vote_def new_decision_def roles_satisfied_def example_policy_def u_def
      latest_def by_time_def approval_def)

lemma evaluates_approved:
  assumes "clean p"
  shows "evaluate utc_runtime (req p) [vote p] example_policy [] (PStr t1) = Inr approval"
  using vote_counted [OF assms] t1_parses req_deadline bodyd [OF assms]
  by (simp add: evaluate_def al_approves del: parse_rfc3339.simps)

lemma approval_status: "p_status approval = u ''approved''" "p_satisfied_by approval = [u ''al'']"
  by (simp_all add: approval_def)

definition record_of :: "pstr \<Rightarrow> Record" where
  "record_of p = \<lparr>rec_request = req p, rec_decisions = [vote p], rec_status = u ''approved'', rec_policy_result = approval\<rparr>"

lemma evidence:
  "recomputed (ex_service al_dir) [e0 pinned, e1 pinned] (req pinned) (PStr t1) = Inr (record_of pinned)"
  using pinned qid [OF pinned_clean] al_decision [OF pinned_clean] e0_fields(4) [OF pinned_clean] e1_fields(4) [OF pinned_clean]
    evaluates_approved [OF pinned_clean]
  by (simp add: recomputed_def req_defs policy_store_get_def record_of_def approval_status)

definition w1 :: mem where
  "w1 = from_entries [e0 pinned, e1 pinned] t1"

lemma w1: "alone w1" "m_entries w1 = [e0 pinned, e1 pinned]" "m_now w1 = t1"
  using from_entries_alone [of "[e0 pinned, e1 pinned]"] e1_fields(1,4) [OF pinned_clean] e0_fields(4) [OF pinned_clean]
  by (auto simp: w1_def)

lemma w1_status: "get_status (ex_service al_dir) (PStr (qid pinned)) w1 = (Inr (record_of pinned), w1)"
  using qid_truthy [OF pinned_clean] e0_request [OF pinned_clean] evidence
  by (simp add: get_status_pure [OF w1(1)] w1(2,3) status_in_def del: filter.simps)

subsection \<open>Al's envelope is acceptable\<close>

lemma al_admissible:
  assumes "clean p"
  shows "admissible (ex_service al_dir) (req p) (vote p) (al_env p) t1 = Inr ()"
proof -
  have c: "parse_rfc3339 (r_not_valid_after (req p)) = Inr \<lparr>local_us = 63871372800000000, utcoff = Some 0\<rparr>"
    by (simp add: req_defs time_eval)
  have d: "d_decided_at (vote p) = PStr t1" by (simp add: vote_def new_decision_def)
  show ?thesis
    using c t1_parses al_env(2) [OF assms]
    by (simp add: admissible_def d DEFAULT_CLOCK_SKEW_def dt_add_def MAX_US_def US_DAY_def dt_less_def dt_cmp_def
        del: parse_rfc3339.simps)
qed

lemma vote_fields [simp]: "d_request_id (vote p) = PStr (qid p)" "d_decided_at (vote p) = PStr t1"
  "d_context_digest (vote p) = PStr (bodyd p)" "decision_key R (vote p) = lit ''k''"
  by (simp_all add: vote_def new_decision_def decision_key_def)

lemma al_acceptable: "clean p \<Longrightarrow> acceptable (ex_service al_dir) (al_env p) (vote p) (req p) (w0 p)"
  using al_env(1) qid_truthy e0_request [of p "[]"] bodyd al_admissible writable_hash [OF vote_writable]
  by (simp add: acceptable_def w0(2-4) del: filter.simps)

lemma w0_last: "last_of (m_entries (w0 p)) = Some (e0 p)"
  by (simp add: w0(2) last_of_def)

lemma acceptable_decision_is_recorded_witness:
  "\<exists>r t ys. submit_signed_decision (ex_service al_dir) (al_env pinned) (w0 pinned) = (r, t) \<and>
     m_entries t = [e0 pinned] @ e1 pinned # ys"
proof -
  obtain r t where t: "submit_signed_decision (ex_service al_dir) (al_env pinned) (w0 pinned) = (r, t)" by fastforce
  show ?thesis
    using acceptable_decision_is_recorded [OF w0(1) _ al_acceptable _ t, of "e1 pinned"] pinned_clean
      e0_fields(1) [OF pinned_clean] e1(1) [OF pinned_clean] t
    by (auto simp: w0(2) w0_last last_of_def)
qed

lemma stale_policy_still_records_witness:
  "\<exists>t. submit_signed_decision (ex_service al_dir) (al_env (u ''old'')) (w0 (u ''old'')) = (Inl PolicyMismatch, t) \<and>
     m_entries t = [e0 (u ''old''), e1 (u ''old'')]"
proof -
  have p: "clean (u ''old'')" by (simp add: clean_u)
  obtain r t where t: "submit_signed_decision (ex_service al_dir) (al_env (u ''old'')) (w0 (u ''old'')) = (r, t)" by fastforce
  have ps: "policy_store_get [(u ''p'', example_policy)] (r_policy_id (req (u ''old''))) = Inr example_policy"
    by (simp add: req_defs policy_store_get_def)
  have ne: "r_policy_digest (req (u ''old'')) \<noteq> PStr pinned"
  proof -
    have "length pinned = 71" using canonical_hash_length pinned unfolding policy_digest_def by blast
    moreover have "length (u ''old'') = 3" by simp
    ultimately have "u ''old'' \<noteq> pinned" by force
    then show ?thesis by (simp add: req_def)
  qed
  show ?thesis
    using stale_policy_still_records [OF w0(1) _ al_acceptable _ ps pinned ne t, of "e1 (u ''old'')"] p
      e0_fields(1) [OF p] e1(1) [OF p] t
    by (auto simp: w0(2) w0_last last_of_def)
qed

lemma approval_is_evidenced_witness:
  "\<exists>e d. e \<in> set [e0 pinned, e1 pinned] \<and> decision_of (e_payload e) = Inr d \<and> signed_for (ex_service al_dir) (e_payload e) d (u ''al'')"
proof -
  have kd: "kd_wf al_dir" by (simp add: kd_wf_def)
  have "rec_status (record_of pinned) = u ''approved''" by (simp add: record_of_def)
  from approval_is_evidenced [OF kd w1(1) w1_status this] show ?thesis
    by (auto simp: record_of_def approval_status w1(2) approves_def)
qed

lemma get_status_refines_witness:
  "get_status (ex_service al_dir) (PStr (qid pinned)) w1 =
     (status_in (ex_service al_dir) [e0 pinned, e1 pinned] t1 (PStr (qid pinned)), w1)"
proof -
  have "hashable (PStr (qid pinned))" "truthy (PStr (qid pinned))" using qid_truthy [OF pinned_clean] by simp_all
  from get_status_refines [OF w1(1) this] show ?thesis by (simp only: w1(2,3))
qed

lemma detached_ceremony_authorizes_witness:
  "\<exists>d. decision_of (al_env pinned) = Inr d \<and> authorized (ex_service al_dir) (al_env pinned) d = Inr True"
proof -
  obtain m where m: "b64decode (ch_pae_b64 (challenge pinned)) = Inr m"
    using ceremony_envelope [OF challenge [OF pinned_clean]] by blast
  have now: "ch_decided_at (challenge pinned) = PStr t1"
  proof -
    obtain request' now' s2 where "require_request (ex_service al_dir) (PStr (qid pinned)) (w0 pinned) = (Inr request', s2)"
      "sv_now (ex_service al_dir) s2 = (Inr now', w0 pinned)" "ch_decided_at (challenge pinned) = PStr now'"
      by (rule prepare_decision_Inr [OF challenge [OF pinned_clean]])
    then show ?thesis using w0(3) [of pinned] by auto
  qed
  have "\<exists>d. decision_of (al_env pinned) = Inr d \<and> d_approver_id d = PStr (u ''al'') \<and> d_verdict d = PStr (u ''approve'') \<and>
      authorized (ex_service al_dir) (al_env pinned) d = Inr True"
    by (rule detached_ceremony_authorizes [OF challenge [OF pinned_clean] m echo_correct _ example_ref_def])
      (simp_all add: al_env_def m now al_key_valid)
  then show ?thesis by blast
qed

subsection \<open>The calls return\<close>

definition waiting :: "pstr \<Rightarrow> Record" where
  "waiting p = \<lparr>rec_request = req p, rec_decisions = [], rec_status = u ''pending'',
     rec_policy_result = \<lparr>p_status = u ''pending'', p_satisfied_by = [], p_reasons = [u ''0/1 approvals'']\<rparr>\<rparr>"

lemma t0_parses: "parse_rfc3339 (PStr t0) = Inr \<lparr>local_us = 63871286400000000, utcoff = Some 0\<rparr>"
  by (simp add: t0_def time_eval)

lemma evidence_waiting:
  assumes "t = t0 \<or> t = t1"
  shows "recomputed (ex_service kd) [e0 pinned] (req pinned) (PStr t) = Inr (waiting pinned)"
proof -
  obtain now where now: "parse_rfc3339 (PStr t) = Inr now" "dt_less \<lparr>local_us = 63871372800000000, utcoff = Some 0\<rparr> now = Inr False"
    using assms t0_parses t1_parses by (auto simp: dt_less_def dt_cmp_def simp del: parse_rfc3339.simps)
  then have "evaluate utc_runtime (req pinned) [] example_policy [] (PStr t) = Inr (rec_policy_result (waiting pinned))"
    using req_deadline bodyd [OF pinned_clean]
    by (simp add: evaluate_def del: parse_rfc3339.simps)
      (simp add: conclude_def Let_def latest_def by_time_def voting_def example_policy_def waiting_def u_def roles_satisfied_def
        int_repr_def nat_repr.simps)
  moreover have "authorized_decisions (ex_service kd) (entries_of (PStr (qid pinned)) [e0 pinned]) = Inr []"
    using e0_fields(2) [OF pinned_clean] by simp
  ultimately show ?thesis
    using pinned qid [OF pinned_clean]
    by (simp add: recomputed_def req_defs policy_store_get_def del: filter.simps) (simp add: waiting_def req_defs)
qed

lemma appends:
  assumes "alone s" "intact (m_entries s)" "next_entry (last_of (m_entries s)) ty pl at_time rid = Inr e" "hashable rid"
  shows "\<exists>t. append_event (ex_service kd) ty pl at_time rid s = (Inr e, t) \<and> alone t \<and> m_entries t = m_entries s @ [e] \<and> m_now t = m_now s"
  using solo.append_writes [OF assms(1,2,4), of echo_crypto "[7]" "u ''log''" kd "[]" "[(u ''p'', example_policy)]" utc_runtime ty pl at_time]
    assms(3) keepsD [OF append_event_slots] by (fastforce simp: same_slots_def)

lemma upserts: "alone s \<Longrightarrow> \<exists>t. mem_upsert v s = (Inr (), t) \<and> alone t \<and> m_entries t = m_entries s \<and> m_now t = m_now s"
  by (auto simp: mem_upsert_def alone_def index_ok_def split: option.splits cong: option.case_cong)

lemma views: "rec \<in> {waiting pinned, record_of pinned} \<Longrightarrow> \<exists>v. build_view rec example_policy [] n (PStr t) = Inr v"
  using qid [OF pinned_clean]
  by (auto simp: build_view_def Let_def decided_set_def waiting_def record_of_def vote_def new_decision_def)

lemma projects:
  assumes "alone s" "rec \<in> {waiting pinned, record_of pinned}"
  shows "\<exists>t. project (ex_service kd) (req pinned) (PStr now) n (Some rec) s = (Inr (), t) \<and> alone t \<and> m_entries t = m_entries s \<and>
    m_now t = m_now s"
proof -
  obtain v where v: "build_view rec example_policy [] n (PStr now) = Inr v" using views [OF assms(2)] by blast
  have "policy_store_get [(u ''p'', example_policy)] (r_policy_id (req pinned)) = Inr example_policy"
    by (simp add: req_defs policy_store_get_def)
  then show ?thesis using v upserts [OF assms(1), of v]
    by (auto simp: project_def mbind_def mlift_def mret_def memory_projections_def)
qed

lemma recomputes: "alone s \<Longrightarrow> recompute (ex_service kd) request at_time s = (recomputed (ex_service kd) (m_entries s) request at_time, s)"
  using solo.recompute_reads [of s echo_crypto "[7]" "u ''log''" kd "[]" "[(u ''p'', example_policy)]" utc_runtime request at_time]
    keepsD [OF recompute_unchanged] by (fastforce simp: unchanged_def)

definition subj :: pyval where "subj = PDict (items [(''v'', PInt 1)])"

lemma creates:
  "\<exists>t. create_request (ex_service al_dir) (lit ''deploy'') subj (lit ''zed'') (lit ''p'') (lit ''2025-01-02T00:00:00Z'') PNone
     (from_entries [] t0) = (Inr (req pinned), t) \<and> alone t"
proof -
  let ?s = "from_entries [] t0"
  have s: "alone ?s" using from_entries_alone [of "[]"] by simp
  have new: "new_request (lit ''deploy'') subj (lit ''zed'') (lit ''p'') (lit ''2025-01-02T00:00:00Z'') PNone pinned t0 = req pinned"
    by (simp add: new_request_def req_defs subj_def t0_def)
  have pol: "policy_store_get [(u ''p'', example_policy)] (lit ''p'') = Inr example_policy" "validate_subject example_policy subj = Inr ()"
    by (simp_all add: policy_store_get_def subj_def validate_subject_dict example_policy_def)
  have load: "load_request (ex_service al_dir) (PStr (qid pinned)) ?s = (Inr None, ?s)"
    using s by (simp add: load_request_def mem_reads mbind_def mlift_def created_request_def)
  obtain s1 where s1: "append_event (ex_service al_dir) (u ''request.created'') (payload pinned) (PStr t0) (PStr (qid pinned)) ?s
      = (Inr (e0 pinned), s1)" "alone s1" "m_entries s1 = [e0 pinned]" "m_now s1 = t0"
    using appends [OF s _ , of "u ''request.created''" "payload pinned" "PStr t0" "PStr (qid pinned)" "e0 pinned" al_dir] e0(1) [OF pinned_clean]
    by (auto simp: last_of_def)
  obtain v where v: "build_view (waiting pinned) example_policy [] 0 (PStr t0) = Inr v" using views by blast
  have "policy_store_get [(u ''p'', example_policy)] (r_policy_id (req pinned)) = Inr example_policy"
    by (simp add: req_defs policy_store_get_def)
  then obtain t where "project (ex_service al_dir) (req pinned) (PStr t0) 0 None s1 = (Inr (), t)" "alone t"
    using v upserts [OF s1(2), of v] recomputes [OF s1(2)] evidence_waiting [of t0] s1(3)
    by (auto simp: project_def mbind_def mlift_def mret_def memory_projections_def)
  then show ?thesis
    using pol pinned new qid [OF pinned_clean] load payload [OF pinned_clean] s1(1) e0_fields(5) [OF pinned_clean]
    by (simp add: create_request_def mbind_def mlift_def mret_def Let_def)
qed

lemma create_request_idempotent_witness:
  "\<exists>t t'. create_request (ex_service al_dir) (lit ''deploy'') subj (lit ''zed'') (lit ''p'') (lit ''2025-01-02T00:00:00Z'') PNone t =
     (Inr (req pinned), t') \<and> m_entries t' = m_entries t"
proof -
  let ?c = "create_request (ex_service al_dir) (lit ''deploy'') subj (lit ''zed'') (lit ''p'') (lit ''2025-01-02T00:00:00Z'') PNone"
  have s: "alone (from_entries [] t0)" using from_entries_alone [of "[]"] by simp
  obtain t where t: "?c (from_entries [] t0) = (Inr (req pinned), t)" "alone t" using creates by blast
  obtain q t' where t': "?c t = (q, t')" by fastforce
  show ?thesis using create_request_idempotent [OF s _ t(1) t(2) _ t'] t' by auto
qed

lemma status_made:
  assumes "alone s" "intact (m_entries s)" "m_entries s = xs @ [e1 pinned]"
  shows "\<exists>e t. append_event (ex_service kd) (u ''status.changed'') (status_payload (qid pinned) (record_of pinned)) (PStr t1)
      (PStr (qid pinned)) s = (Inr e, t) \<and> alone t \<and> m_now t = m_now s"
proof -
  have "writable (status_payload (qid pinned) (record_of pinned))"
    using qid_clean [OF pinned_clean]
    by (simp add: status_payload_def record_of_def PolicyResult_to_dict_def approval_def strs_def clean_int_repr writing)
  then obtain e where "next_entry (last_of (m_entries s)) (u ''status.changed'') (status_payload (qid pinned) (record_of pinned))
      (PStr t1) (PStr (qid pinned)) = Inr e"
    using entry_made [of "status_payload (qid pinned) (record_of pinned)" "PStr t1" "PStr (qid pinned)" "u ''status.changed''"
        "last_of (m_entries s)"] qid_clean [OF pinned_clean] e1(2) [OF pinned_clean] assms(3)
    by (auto simp: t1_def last_of_def writing)
  from appends [OF assms(1,2) this, of kd] show ?thesis by auto
qed

lemma al_recorded:
  assumes "alone s" "m_entries s = [e0 pinned]" "m_now s = t1"
  shows "\<exists>t. record_decision (ex_service al_dir) (req pinned) (vote pinned) (al_env pinned) s = (Inr (record_of pinned), t) \<and> alone t"
proof -
  obtain s1 where s1: "append_event (ex_service al_dir) (u ''decision.recorded'') (al_env pinned) (PStr t1) (PStr (qid pinned)) s
      = (Inr (e1 pinned), s1)" "alone s1" "m_entries s1 = [e0 pinned, e1 pinned]" "m_now s1 = t1"
    using appends [OF assms(1), of "u ''decision.recorded''" "al_env pinned" "PStr t1" "PStr (qid pinned)" "e1 pinned" al_dir]
      e0_fields(1) [OF pinned_clean] e1(1) [OF pinned_clean] assms(2,3) by (auto simp: last_of_def)
  obtain e s2 where s2: "append_event (ex_service al_dir) (u ''status.changed'') (status_payload (qid pinned) (record_of pinned)) (PStr t1)
      (PStr (qid pinned)) s1 = (Inr e, s2)" "alone s2" "m_now s2 = t1"
    using status_made [OF s1(2), of "[e0 pinned]" al_dir] s1(3,4) e1_fields(1) [OF pinned_clean] by auto
  obtain t where t: "project (ex_service al_dir) (req pinned) (PStr t1) (e_seq e) (Some (record_of pinned)) s2 = (Inr (), t)" "alone t"
    using projects [OF s2(2)] by blast
  have "rec_status (record_of pinned) \<noteq> u ''pending''" by (simp add: record_of_def)
  then have "record_decision (ex_service al_dir) (req pinned) (vote pinned) (al_env pinned) s = (Inr (record_of pinned), t)"
    using s1 s2 t(1) recomputes [OF s1(2)] evidence qid [OF pinned_clean]
    by (simp add: record_decision_def mbind_def mlift_def mret_def)
  then show ?thesis using t(2) by blast
qed

lemma al_submits:
  "\<exists>t. submit_signed_decision (ex_service al_dir) (al_env pinned) (w0 pinned) = (Inr (record_of pinned), t) \<and> busy_ok W t"
proof -
  obtain r t where t: "submit_signed_decision (ex_service al_dir) (al_env pinned) (w0 pinned) = (r, t)" by fastforce
  obtain s1 q s2 where s1: "alone s1" "m_entries s1 = m_entries (w0 pinned)" "m_now s1 = m_now (w0 pinned)"
    "record_decision (ex_service al_dir) (req pinned) (vote pinned) (al_env pinned) s1 = (q, s2)"
    and r: "\<forall>rec. q = Inr rec \<longrightarrow> r = Inr rec" "alone s2 \<longrightarrow> alone t"
    by (rule submit_acceptable [OF w0(1) [OF pinned_clean] al_acceptable [OF pinned_clean] t])
  have "q = Inr (record_of pinned)" "alone s2"
    using al_recorded [OF s1(1)] s1(2-4) w0(2,3) by auto
  then show ?thesis using t r by (auto simp: alone_def busy_ok_def)
qed

lemma retry_records_nothing_witness:
  "\<exists>t q t'. submit_signed_decision (ex_service al_dir) (al_env pinned) t = (q, t') \<and> m_entries t' = m_entries t"
proof -
  obtain t where t: "submit_signed_decision (ex_service al_dir) (al_env pinned) (w0 pinned) = (Inr (record_of pinned), t)"
    "busy_ok (\<lambda>w. False) t"
    using al_submits by blast
  obtain q t' where t': "submit_signed_decision (ex_service al_dir) (al_env pinned) t = (q, t')" by fastforce
  show ?thesis using retry_records_nothing [OF t t'] t' by (auto simp: joined_None)
qed

subsection \<open>Verification returns\<close>

lemma w0_reads:
  assumes "clean p"
  shows "es_get_by_seq (memory_events l) 0 (w0 p) = (Inr (Some (e0 p)), w0 p)"
    "es_scan (memory_events l) 0 None (w0 p) = (Inr ([e0 p], None), w0 p)"
    "es_latest_checkpoint (memory_events l) (w0 p) = (Inr None, w0 p)"
    "es_leaf_hashes (memory_events l) None (w0 p) = (Inr [e_entry_hash (e0 p)], w0 p)"
    "es_leaf_hashes (memory_events l) (Some 1) (w0 p) = (Inr [e_entry_hash (e0 p)], w0 p)"
  using w0(1) [OF assms] w0(2) e0_fields(2) [OF assms]
  by (simp_all add: memory_events_simps mem_get_by_seq_def mem_scan_def mem_latest_checkpoint_def mem_leaf_hashes_def
      py_slice_def Let_def slice_to_def)

lemma w0_walk:
  assumes "clean p"
  shows "walk_segment 0 (e_prev_hash (e0 p)) (Inr ([e0 p], None)) =
    \<lparr>wk_checks = [chk True (Hash_chain_intact 0 0)], wk_last_seq = 0, wk_decisions = [], wk_requests = [PStr (qid p)]\<rparr>"
proof -
  have "verify_segment [e0 p] 0 (e_prev_hash (e0 p)) = Inr (0, e_entry_hash (e0 p))"
    using e0_fields(1) [OF assms] by (simp add: verify_segment_chained end_hash_def)
  then show ?thesis
    using e0_fields(2,4) [OF assms] qid_truthy [OF assms] by (simp add: walk_segment_def)
qed

lemma w0_verifies:
  assumes "verify_trusted (ex_service kd) tc (w0 pinned) = (Inr cs, w0 pinned)" "list_all ck_ok cs"
  shows "\<exists>rep t. verify_log (ex_service kd) tc 0 None (w0 pinned) = (Inr rep, t) \<and> report_ok rep"
proof -
  note p = pinned_clean
  have load: "load_request (ex_service kd) (PStr (qid pinned)) (w0 pinned) = (Inr (Some (req pinned)), w0 pinned)"
    using qid_truthy [OF p] e0_request [OF p, of "[]"] w0(1) [OF p]
    by (simp add: load_request_def mem_reads mbind_def mlift_def w0(2) del: filter.simps)
  have last: "last_recorded_status (ex_service kd) (PStr (qid pinned)) (w0 pinned) = (Inr PNone, w0 pinned)"
    using qid_truthy [OF p] w0(1) [OF p] e0_fields(2,4) [OF p]
    by (simp add: last_recorded_status_def mem_reads mbind_def mlift_def w0(2))
  have st: "verify_status (ex_service kd) (PStr t1) (PStr (qid pinned)) b (w0 pinned) =
      (Inr (b @ [chk True (Status_reproducible (PStr (qid pinned)) (rec_status (waiting pinned)))]), w0 pinned)" for b
    using load last recomputes [OF w0(1) [OF p]] evidence_waiting [of t1]
    by (simp add: verify_status_def mbind_def mcatch_def mret_def w0(2))
  have pub: "verify_published (ex_service kd) (w0 pinned) = (Inr [], w0 pinned)"
    by (simp add: verify_published_def mbind_def mret_def w0_reads [OF p])
  show ?thesis
    using assms st pub
    by (simp add: verify_log_def mbind_def mret_def Let_def w0_reads [OF p] w0_walk [OF p] w0(3) report_ok_def chk_def)
qed

lemma clean_report_audits_witness:
  "\<exists>rep t. verify_log (ex_service al_dir) None 0 None (w0 pinned) = (Inr rep, t) \<and> report_ok rep \<and>
     audited (ex_service al_dir) [e0 pinned] None 0 None"
proof -
  have "verify_trusted (ex_service al_dir) None (w0 pinned) = (Inr [], w0 pinned)" by (simp add: verify_trusted_def mret_def)
  from w0_verifies [OF this] obtain rep t where
    r: "verify_log (ex_service al_dir) None 0 None (w0 pinned) = (Inr rep, t)" "report_ok rep" by auto
  show ?thesis using clean_report_audits [OF w0(1) [OF pinned_clean] r] r by (auto simp: w0(2))
qed

text \<open>A checkpoint of the log with the request, signed with a log key.\<close>

abbreviation log_dir :: KeyDirectory where
  "log_dir \<equiv> [(k_keyid example_log_key, example_log_key)]"

definition head0 :: Checkpoint where
  "head0 = projr (build_checkpoint [e_entry_hash (e0 pinned)] (lit ''log'') (PStr t1) None)"

lemma head0: "build_checkpoint [e_entry_hash (e0 pinned)] (lit ''log'') (PStr t1) None = Inr head0"
  unfolding head0_def
  by (rule named) (use e0(2) [OF pinned_clean] in \<open>simp add: build_checkpoint_def merkle_root_def leaf_hash_def utf8_encode_def\<close>)

lemma head0_fields: "c_tree_size head0 = 1" "c_published_at head0 = PStr t1" "c_log_id head0 = lit ''log''" "c_signatures head0 = []"
  using build_checkpoint_Inr [OF head0] by auto

lemma head0_writable: "writable (signed_dict head0)"
proof -
  obtain root where "merkle_root [e_entry_hash (e0 pinned)] = Inr root" "c_root_hash head0 = PStr root"
    using build_checkpoint_Inr [OF head0] by blast
  then have "\<exists>x. c_root_hash head0 = PStr x \<and> clean x" by (auto simp: merkle_root_Inr clean_u clean_hex)
  moreover have "c_schema head0 = CHECKPOINT_SCHEMA" "c_prev_root_hash head0 = PNone"
    using head0 unfolding build_checkpoint_def sbind_eq_Inr by (metis (no_types, lifting) Checkpoint.select_convs(5,7) option.simps(4) sum.inject(2))+
  ultimately show ?thesis
    by (auto simp: signed_dict_def signed_items_def head0_fields t1_def writing)
qed

definition sig0 :: pyval where
  "sig0 = envelope_sig (k_keyid example_log_key) ([7] @ projr (checkpoint_signable head0))"

lemma signable0: "checkpoint_signable head0 = Inr (projr (checkpoint_signable head0))"
  by (rule named) (use writable_canonical [OF head0_writable] in \<open>auto simp: checkpoint_signable_def\<close>)

lemma head0_verifies:
  "verify_checkpoint (default_registry echo_crypto) (head0\<lparr>c_signatures := [sig0]\<rparr>) log_dir = Inr [u ''log-owner'']"
proof -
  have "check_sig (default_registry echo_crypto) example_log_key sig0 (projr (checkpoint_signable head0)) = Inr ()"
    using check_sig_Ed25519 [OF echo_correct, of "[7]" "u ''log-owner''" "u ''2025-01-01T00:00:00Z''" None "u ''log''" None
        "k_keyid example_log_key" "projr (checkpoint_signable head0)"]
    by (simp add: example_log_key_def echo_crypto_def sig0_def)
  moreover have "valid_at example_log_key (PStr t1) = Inr True"
    using example_instants t1_instant
    by (simp add: valid_at_window [of _ _ 63871329600000000] timed_def in_window_def example_log_key_def to_key_ref_def)
  ultimately have "verify_checkpoint (default_registry echo_crypto) (head0\<lparr>c_signatures := [sig0]\<rparr>) log_dir =
      Inr [k_owner_id example_log_key]"
    unfolding sig0_def using signable0
    by (intro verify_one_log_sig) (simp_all add: head0_fields scoped_to_def example_log_key_def to_key_ref_def)
  then show ?thesis by (simp add: example_log_key_def to_key_ref_def)
qed

lemma pinned_checkpoint_protects_history_witness:
  "\<exists>rep t. verify_log (ex_service log_dir) (Some (head0\<lparr>c_signatures := [sig0]\<rparr>)) 0 None (w0 pinned) = (Inr rep, t) \<and>
     report_ok rep \<and> (map entry_norm (take 1 [e0 pinned]) = map entry_norm [e0 pinned] \<or>
       collides (merkle_msgs [e_entry_hash (e0 pinned)]) (merkle_msgs [e_entry_hash (e0 pinned)]) \<or>
       collision (cbytes (core_dict (e0 pinned))) (cbytes (core_dict (e0 pinned))))"
proof -
  have "verify_consistency (head0\<lparr>c_signatures := [sig0]\<rparr>) ([e_entry_hash (e0 pinned)] @ []) = Inr ()"
    by (rule verify_consistency_extension [OF head0])
  then have "verify_trusted (ex_service log_dir) (Some (head0\<lparr>c_signatures := [sig0]\<rparr>)) (w0 pinned) =
      (Inr [chk True Extends_pinned_checkpoint], w0 pinned)"
    using head0_verifies w0_reads(5) [OF pinned_clean]
    by (simp add: verify_trusted_def mcatch_def mbind_def mlift_def mret_def head0_fields)
  from w0_verifies [OF this] obtain rep t where
    r: "verify_log (ex_service log_dir) (Some (head0\<lparr>c_signatures := [sig0]\<rparr>)) 0 None (w0 pinned) = (Inr rep, t)" "report_ok rep"
    by (auto simp: chk_def)
  have b: "build_checkpoint (map e_entry_hash [e0 pinned]) (lit ''log'') (PStr t1) None = Inr head0" using head0 by simp
  show ?thesis
    using pinned_checkpoint_protects_history [OF b e0_fields(1) [OF pinned_clean] w0(1) [OF pinned_clean] r(2,1)] r
    by (auto simp: w0(2))
qed

lemma published_checkpoint_holds_witness:
  "\<exists>cp t. checkpoint (ex_service al_dir) (w0 pinned) = (Inr cp, t) \<and> verify_consistency cp (map e_entry_hash (m_entries t)) = Inr ()"
proof -
  obtain m where m: "checkpoint_signable head0 = Inr m" using signable0 by blast
  have log_id: "es_log_id (memory_events l) = l" for l by (simp add: memory_events_def)
  let ?kid = "keyid_for (priv_public_raw echo_crypto [7])"
  let ?cp = "head0\<lparr>c_signatures := [envelope_sig ?kid (priv_sign echo_crypto [7] m)]\<rparr>"
  have sign: "sign_checkpoint_async head0 (Ed25519Signer echo_crypto [7]) (w0 pinned) = (Inr ?cp, w0 pinned)"
    using m head0_fields(4)
    by (simp add: sign_checkpoint_async_def Ed25519Signer_def sign_with_def mbind_def mlift_def mret_def append_sig)
  have "writable (Checkpoint_to_dict ?cp)"
    using head0_writable
    by (simp add: signed_dict_def Checkpoint_to_dict_def signed_items_def envelope_sig_def keyid_for_def clean_hex writing)
  then obtain e where e: "next_entry (Some (e0 pinned)) (u ''checkpoint.published'') (Checkpoint_to_dict ?cp) (PStr t1) PNone = Inr e"
    using entry_made [of "Checkpoint_to_dict ?cp" "PStr t1" PNone "u ''checkpoint.published''" "Some (e0 pinned)"] e0(2) [OF pinned_clean]
    by (auto simp: t1_def writing)
  obtain t where t: "append_event (ex_service al_dir) (u ''checkpoint.published'') (Checkpoint_to_dict ?cp) (PStr t1) PNone (w0 pinned) = (Inr e, t)"
    using appends [OF w0(1) [OF pinned_clean], of "u ''checkpoint.published''" "Checkpoint_to_dict ?cp" "PStr t1" PNone e al_dir]
      e e0_fields(1) [OF pinned_clean] w0_last [of pinned] by (auto simp: w0(2))
  have run: "checkpoint (ex_service al_dir) (w0 pinned) = (Inr ?cp, t)"
    using head0 sign t head0_fields(2)
    by (simp add: checkpoint_def mbind_def mlift_def mret_def w0_reads [OF pinned_clean] w0(3) log_id_of_def log_id)
  have "busy_ok (\<lambda>w. False) (w0 pinned)" using w0(1) [OF pinned_clean] by (simp add: alone_def busy_ok_def)
  from published_checkpoint_holds [OF this _ run, of "m_entries t"] show ?thesis
    using run e0_fields(1) [OF pinned_clean] by (auto simp: w0(2))
qed

subsection \<open>Other writers\<close>

text \<open>Somebody else adds a note before the next operation on the log.\<close>

definition memo :: posting where
  "memo = (u ''note'', PNone, lit ''2025-01-01T00:00:00Z'', PNone)"

definition wn :: mem where
  "wn = (w0 pinned)\<lparr>m_others := [[memo]]\<rparr>"

lemma wn: "busy_ok (\<lambda>w. w = memo) wn" "m_entries wn = [e0 pinned]" "intact (m_entries wn)"
  using w0(1) [OF pinned_clean] e0_fields(1) [OF pinned_clean]
  by (simp_all add: wn_def busy_ok_def alone_def index_ok_def w0(2) cong: option.case_cong)

lemma service_keeps_evidence_witness:
  "intact (m_entries (serve (ex_service al_dir) [SubmitSigned (al_env pinned), GetStatus (PStr (qid pinned)), PublishCheckpoint] wn)) \<and>
   prefix [e0 pinned] (m_entries (serve (ex_service al_dir) [SubmitSigned (al_env pinned), GetStatus (PStr (qid pinned)), PublishCheckpoint] wn)) \<and>
   backed_unless (\<lambda>e. posting_of e = memo) (ex_service al_dir)
     (m_entries (serve (ex_service al_dir) [SubmitSigned (al_env pinned), GetStatus (PStr (qid pinned)), PublishCheckpoint] wn))"
proof -
  have "posted wn = {memo}" by (simp add: wn_def posted_def)
  moreover have "index_ok wn" using wn(1) by (simp add: busy_ok_def)
  moreover have "backed_unless (\<lambda>e. posting_of e = memo) (ex_service al_dir) [e0 pinned]"
    using e0_fields(2) [OF pinned_clean] by (simp add: backed_unless_def)
  ultimately show ?thesis
    using service_keeps_evidence [OF _ _ wn(3), where kd = al_dir and C = echo_crypto and lk = "[7]" and l = "u ''log''"
        and ids = "[]" and ps = "[(u ''p'', example_policy)]" and R = utc_runtime
        and cs = "[SubmitSigned (al_env pinned), GetStatus (PStr (qid pinned)), PublishCheckpoint]"]
    by (simp add: wn(2))
qed

lemma append_lands_once_witness:
  "\<exists>r t. append_event (ex_service al_dir) (u ''memo'') PNone (PStr t1) PNone wn = (r, t) \<and>
     (case r of
        Inr e \<Rightarrow> \<exists>xs. joined (\<lambda>w. w = memo) [e0 pinned] xs \<and> next_entry (last_of xs) (u ''memo'') PNone (PStr t1) PNone = Inr e \<and>
          intact (xs @ [e]) \<and> joined (\<lambda>w. w = memo) (xs @ [e]) (m_entries t)
      | Inl x \<Rightarrow> joined (\<lambda>w. w = memo) [e0 pinned] (m_entries t))"
proof -
  obtain r t where run: "append_event (ex_service al_dir) (u ''memo'') PNone (PStr t1) PNone wn = (r, t)" by fastforce
  show ?thesis using append_lands_once [OF wn(1,3) _ run, unfolded wn(2)] run by (intro exI conjI) simp_all
qed

subsection \<open>The other stores\<close>

lemma one_reservation_wins_witness:
  "\<exists>rv t. id_reserve memory_idempotency (lit ''k'') (u ''a'') (from_entries [] t1) = (Inr rv, t) \<and> rs_won rv \<and>
     fst (id_reserve memory_idempotency (lit ''k'') (u ''b'') t) = Inl IdempotencyConflict"
proof -
  obtain rv t where r: "id_reserve memory_idempotency (lit ''k'') (u ''a'') (from_entries [] t1) = (Inr rv, t)" "rs_won rv"
    by (simp add: memory_idempotency_def mem_reserve_def)
  obtain q t' where q: "id_reserve memory_idempotency (lit ''k'') (u ''b'') t = (q, t')" by fastforce
  show ?thesis using one_reservation_wins [OF r(1) q] r q by (simp add: u_def)
qed

lemma projections_move_forwards_witness:
  "\<exists>v t. v_last_seq v = 0 \<and> (\<exists>new. map_of (m_views t) (v_request_id v) = Some new \<and> 0 \<le> v_last_seq new) \<and>
     mfor [v\<lparr>v_last_seq := 1\<rparr>, v] (\<lambda>v _. pj_upsert memory_projections v) () ((from_entries [] t1)\<lparr>m_views := [(v_request_id v, v)]\<rparr>) = (Inr (), t)"
proof -
  obtain v where v: "build_view pending_record example_policy example_roster 0 PNone = Inr v" using pending_view by blast
  then have n: "v_last_seq v = 0" by (simp add: build_view_fields)
  let ?s = "(from_entries [] t1)\<lparr>m_views := [(v_request_id v, v)]\<rparr>"
  obtain t where t: "mfor [v\<lparr>v_last_seq := 1\<rparr>, v] (\<lambda>v _. pj_upsert memory_projections v) () ?s = (Inr (), t)"
    using n by (simp add: memory_projections_def mem_upsert_def mbind_def mret_def)
  show ?thesis using projections_move_forwards [OF t, of "v_request_id v" v] t n by auto
qed

end
