(* ===== verification/Providers.thy ===== *)
theory Providers
  imports Verifier "HOL-Library.Sublist"
begin

section \<open>Key providers\<close>

text \<open>
  \<^verbatim>\<open>src/approvo/crypto/keyprovider.py\<close>.  A provider turns a key reference into a signer that is
  ready to sign and into its public key.  \<open>provider_contract\<close> says what the rest of the library
  relies on: the two agree, and what the signer signs verifies under the key.  It is interpreted on the
  in-memory and the environment provider and on a composite of providers that keep it.
\<close>

subsection \<open>Key references\<close>

text \<open>\<open>s.partition(sep)\<close> for a separator that is not empty; \<open>None\<close> when it does not occur.\<close>

fun py_partition :: "'a list \<Rightarrow> 'a list \<Rightarrow> ('a list \<times> 'a list) option" where
  "py_partition sep [] = None"
| "py_partition sep (x # xs) =
     (if prefix sep (x # xs) then Some ([], drop (length sep) (x # xs))
      else map_option (\<lambda>(a, b). (x # a, b)) (py_partition sep xs))"

definition parse_key_ref :: "pstr \<Rightarrow> exn + pstr \<times> pstr" where
  "parse_key_ref key_ref = (case py_partition (u ''://'') key_ref of
       None \<Rightarrow> Inl KeyProviderError
     | Some (scheme, rest) \<Rightarrow> Inr (scheme, rest))"

lemma py_partition_Some: "py_partition sep xs = Some (a, b) \<Longrightarrow> xs = a @ sep @ b"
  by (induction xs arbitrary: a) (auto split: if_splits simp: prefix_def)

lemma py_partition_None: "sep \<noteq> [] \<Longrightarrow> py_partition sep xs = None \<longleftrightarrow> \<not> sublist sep xs"
  by (induction xs) (auto simp: sublist_Cons_right)

lemma py_partition_first:
  assumes "c \<notin> set a"
  shows "py_partition (c # sep) (a @ (c # sep) @ b) = Some (a, b)"
  using assms by (induction a) (auto simp: prefix_def)

lemma parse_key_ref_made [simp]:
  "of_char CHR '':'' \<notin> set scheme \<Longrightarrow> parse_key_ref (scheme @ u ''://'' @ rest) = Inr (scheme, rest)"
  using py_partition_first [of "of_char CHR '':''" scheme "u ''//''" rest] by (simp add: parse_key_ref_def u_def)

lemma parse_key_ref_Inr: "parse_key_ref r = Inr (scheme, rest) \<Longrightarrow> r = scheme @ u ''://'' @ rest"
  by (auto simp: parse_key_ref_def split: option.splits dest: py_partition_Some)

subsection \<open>Providers\<close>

record KeyDescriptor =
  ds_key_ref :: pstr
  ds_public :: PublicKeyMaterial
  ds_label :: "pstr option"

record 's key_provider =
  kp_schemes :: "pstr list"
  kp_get_signer :: "pstr \<Rightarrow> ('s, exn, 's signer) eff"
  kp_get_public_key :: "pstr \<Rightarrow> ('s, exn, PublicKeyMaterial) eff"
  kp_list_keys :: "('s, exn, KeyDescriptor list) eff"
  kp_self_test :: "pstr \<Rightarrow> ('s, exn, unit) eff"

text \<open>\<open>_BaseProvider\<close>.  The nonce comes from the operating system.\<close>

definition verifies :: "'k registry \<Rightarrow> PublicKeyMaterial \<Rightarrow> bytes \<Rightarrow> bytes \<Rightarrow> exn + unit" where
  "verifies reg pub sig msg = sbind (get_scheme reg (m_scheme pub)) (\<lambda>s. s_verify s (m_public pub) sig msg)"

definition base_list_keys :: "('s, exn, KeyDescriptor list) eff" where
  "base_list_keys = mraise NotImplementedError"

definition base_self_test ::
  "'k registry \<Rightarrow> ('s, exn, bytes) eff \<Rightarrow> (pstr \<Rightarrow> ('s, exn, 's signer) eff) \<Rightarrow> pstr \<Rightarrow> ('s, exn, unit) eff" where
  "base_self_test reg token_bytes get_signer key_ref =
     mbind (get_signer key_ref) (\<lambda>signer.
     mbind token_bytes (\<lambda>nonce.
     mbind (sign_with signer nonce) (\<lambda>(sig, _).
     let pub = sg_public_material signer
     in mcatch (mlift (verifies reg pub sig nonce))
          (\<lambda>e. if isinstance e PyException then mraise KeyProviderError else mraise e))))"

subsubsection \<open>Keys in memory\<close>

text \<open>The keys live in the world; \<open>keys_of\<close> finds them there.\<close>

type_synonym 'p keyring = "(pstr \<times> 'p) list"

definition im_add :: "pstr \<Rightarrow> 'p \<Rightarrow> 'p keyring \<Rightarrow> pstr \<times> 'p keyring" where
  "im_add name signer keys = (u ''memory://'' @ name, AList.update name signer keys)"

text \<open>\<open>generate\<close>, with the key the package draws.\<close>

definition im_generate :: "pstr \<Rightarrow> 'p \<Rightarrow> 'p keyring \<Rightarrow> pstr \<times> 'p keyring" where
  "im_generate name fresh keys = (u ''memory://'' @ name, AList.update name fresh keys)"

definition im_get :: "('k, 'p) crypto \<Rightarrow> 'p keyring \<Rightarrow> pstr \<Rightarrow> exn + 's signer" where
  "im_get C keys key_ref =
     sbind (parse_key_ref key_ref) (\<lambda>(_, name).
     case map_of keys name of None \<Rightarrow> Inl KeyProviderError | Some key \<Rightarrow> Inr (Ed25519Signer C key))"

definition im_get_signer :: "('k, 'p) crypto \<Rightarrow> ('s \<Rightarrow> 'p keyring) \<Rightarrow> pstr \<Rightarrow> ('s, exn, 's signer) eff" where
  "im_get_signer C keys_of key_ref s = (im_get C (keys_of s) key_ref, s)"

definition im_get_public_key :: "('k, 'p) crypto \<Rightarrow> ('s \<Rightarrow> 'p keyring) \<Rightarrow> pstr \<Rightarrow> ('s, exn, PublicKeyMaterial) eff" where
  "im_get_public_key C keys_of key_ref s =
     (sbind (im_get C (keys_of s) key_ref) (\<lambda>sg. Inr (sg_public_material (sg :: 's signer))), s)"

definition im_list_keys :: "('k, 'p) crypto \<Rightarrow> ('s \<Rightarrow> 'p keyring) \<Rightarrow> ('s, exn, KeyDescriptor list) eff" where
  "im_list_keys C keys_of s =
     (Inr (map (\<lambda>(n, key). \<lparr>ds_key_ref = u ''memory://'' @ n,
                 ds_public = sg_public_material (Ed25519Signer C key :: 's signer), ds_label = Some n\<rparr>) (keys_of s)), s)"

definition InMemoryKeyProvider ::
  "('k, 'p) crypto \<Rightarrow> 'k registry \<Rightarrow> ('s, exn, bytes) eff \<Rightarrow> ('s \<Rightarrow> 'p keyring) \<Rightarrow> 's key_provider" where
  "InMemoryKeyProvider C reg token_bytes keys_of =
     \<lparr>kp_schemes = [u ''memory''], kp_get_signer = im_get_signer C keys_of,
      kp_get_public_key = im_get_public_key C keys_of, kp_list_keys = im_list_keys C keys_of,
      kp_self_test = base_self_test reg token_bytes (im_get_signer C keys_of)\<rparr>"

subsubsection \<open>Keys in files\<close>

text \<open>
  The file system is a parameter; paths are strings, and what two strings name the same file is its
  business.  \<open>fresh_seed\<close> is the private half of a key the package generates.
\<close>

record 's files =
  fs_exists :: "pstr \<Rightarrow> ('s, exn, bool) eff"
  fs_read_text :: "pstr \<Rightarrow> ('s, exn, pstr) eff"
  fs_mkdir_parent :: "pstr \<Rightarrow> ('s, exn, unit) eff"
  fs_touch :: "pstr \<Rightarrow> ('s, exn, unit) eff"
  fs_write_text :: "pstr \<Rightarrow> pstr \<Rightarrow> ('s, exn, unit) eff"

text \<open>\<open>s.strip()\<close>\<close>

definition py_space :: "nat \<Rightarrow> bool" where
  "py_space c \<longleftrightarrow> (9 \<le> c \<and> c \<le> 13) \<or> (28 \<le> c \<and> c \<le> 32) \<or> c \<in> {133, 160, 5760, 8232, 8233, 8239, 8287, 12288} \<or>
     (8192 \<le> c \<and> c \<le> 8202)"

definition py_strip :: "pstr \<Rightarrow> pstr" where
  "py_strip s = rev (dropWhile py_space (rev (dropWhile py_space s)))"

definition signer_from_file :: "('k, 'p) crypto \<Rightarrow> 's files \<Rightarrow> pstr \<Rightarrow> ('s, exn, 's signer) eff" where
  "signer_from_file C fs path =
     mbind (fs_read_text fs path) (\<lambda>text.
     mbind (mlift (from_hex (py_strip text))) (\<lambda>seed. mlift (Ed25519Signer_from_private_bytes C seed)))"

definition signer_save :: "'s files \<Rightarrow> pstr \<Rightarrow> bytes \<Rightarrow> ('s, exn, unit) eff" where
  "signer_save fs path seed = mbind (fs_touch fs path) (\<lambda>_. fs_write_text fs path (to_hex seed))"

definition lf_path :: "pstr option \<Rightarrow> pstr \<Rightarrow> exn + pstr" where
  "lf_path root key_ref =
     sbind (parse_key_ref key_ref) (\<lambda>(_, rest).
     if prefix (u ''/'') rest then Inr rest
     else (case root of None \<Rightarrow> Inl KeyProviderError
           | Some r \<Rightarrow> Inr (r @ u ''/'' @ rest @ u ''.key'')))"

definition lf_ensure :: "'s files \<Rightarrow> ('s, exn, bytes) eff \<Rightarrow> pstr option \<Rightarrow> pstr \<Rightarrow> ('s, exn, pstr) eff" where
  "lf_ensure fs fresh_seed root key_ref =
     mbind (mlift (lf_path root key_ref)) (\<lambda>path.
     mbind (fs_exists fs path) (\<lambda>there.
     if there then mret key_ref
     else mbind (fs_mkdir_parent fs path) (\<lambda>_.
          mbind fresh_seed (\<lambda>seed.
          mbind (signer_save fs path seed) (\<lambda>_. mret key_ref)))))"

definition lf_get_signer :: "('k, 'p) crypto \<Rightarrow> 's files \<Rightarrow> pstr option \<Rightarrow> pstr \<Rightarrow> ('s, exn, 's signer) eff" where
  "lf_get_signer C fs root key_ref =
     mbind (mlift (lf_path root key_ref)) (\<lambda>path.
     mbind (fs_exists fs path) (\<lambda>there.
     if \<not> there then mraise KeyProviderError
     else mcatch (signer_from_file C fs path)
            (\<lambda>e. if isinstance_any e [ValueError, OSError] then mraise KeyProviderError else mraise e)))"

text \<open>\<open>(await self.get_signer(key_ref)).public_material()\<close>\<close>

definition public_of :: "('s, exn, 's signer) eff \<Rightarrow> ('s, exn, PublicKeyMaterial) eff" where
  "public_of m = mbind m (\<lambda>signer. mret (sg_public_material signer))"

definition LocalFileKeyProvider ::
  "('k, 'p) crypto \<Rightarrow> 'k registry \<Rightarrow> ('s, exn, bytes) eff \<Rightarrow> 's files \<Rightarrow> pstr option \<Rightarrow> 's key_provider" where
  "LocalFileKeyProvider C reg token_bytes fs root =
     \<lparr>kp_schemes = [u ''file''], kp_get_signer = lf_get_signer C fs root,
      kp_get_public_key = (\<lambda>key_ref. public_of (lf_get_signer C fs root key_ref)), kp_list_keys = base_list_keys,
      kp_self_test = base_self_test reg token_bytes (lf_get_signer C fs root)\<rparr>"

subsubsection \<open>Keys in the environment\<close>

definition env_seed :: "(pstr \<times> pstr) list \<Rightarrow> pstr \<Rightarrow> exn + bytes" where
  "env_seed environ key_ref =
     sbind (parse_key_ref key_ref) (\<lambda>(_, var).
     case map_of environ var of
       None \<Rightarrow> Inl KeyProviderError
     | Some raw \<Rightarrow> if raw = [] then Inl KeyProviderError
         else (case from_hex (py_strip raw) of
                 Inl e \<Rightarrow> Inl (if isinstance e ValueError then KeyProviderError else e)
               | Inr seed \<Rightarrow> Inr seed))"

definition env_get_signer :: "('k, 'p) crypto \<Rightarrow> ('s \<Rightarrow> (pstr \<times> pstr) list) \<Rightarrow> pstr \<Rightarrow> ('s, exn, 's signer) eff" where
  "env_get_signer C environ key_ref s =
     (sbind (env_seed (environ s) key_ref) (Ed25519Signer_from_private_bytes C), s)"

definition EnvKeyProvider ::
  "('k, 'p) crypto \<Rightarrow> 'k registry \<Rightarrow> ('s, exn, bytes) eff \<Rightarrow> ('s \<Rightarrow> (pstr \<times> pstr) list) \<Rightarrow> 's key_provider" where
  "EnvKeyProvider C reg token_bytes environ =
     \<lparr>kp_schemes = [u ''env''], kp_get_signer = env_get_signer C environ,
      kp_get_public_key = (\<lambda>key_ref. public_of (env_get_signer C environ key_ref)), kp_list_keys = base_list_keys,
      kp_self_test = base_self_test reg token_bytes (env_get_signer C environ)\<rparr>"

subsubsection \<open>Several providers\<close>

text \<open>
  The providers are objects: each comes with a number that is its identity.  The last one that
  declares a scheme handles it.
\<close>

type_synonym 's routes = "(pstr \<times> nat \<times> 's key_provider) list"

definition by_scheme :: "(nat \<times> 's key_provider) list \<Rightarrow> 's routes" where
  "by_scheme providers =
     foldl (\<lambda>tab (i, p). foldl (\<lambda>tab s. AList.update s (i, p) tab) tab (kp_schemes p)) [] providers"

definition cp_route :: "'s routes \<Rightarrow> pstr \<Rightarrow> exn + 's key_provider" where
  "cp_route routes key_ref =
     sbind (parse_key_ref key_ref) (\<lambda>(scheme, _).
     case map_of routes scheme of None \<Rightarrow> Inl KeyProviderError | Some (_, p) \<Rightarrow> Inr p)"

text \<open>\<open>dict.fromkeys(xs)\<close>: each object once, where it occurs first.\<close>

fun first_seen :: "nat list \<Rightarrow> (nat \<times> 'a) list \<Rightarrow> 'a list" where
  "first_seen seen [] = []"
| "first_seen seen ((i, p) # ps) =
     (if i \<in> set seen then first_seen seen ps else p # first_seen (i # seen) ps)"

definition cp_list_keys :: "'s routes \<Rightarrow> ('s, exn, KeyDescriptor list) eff" where
  "cp_list_keys routes =
     mfor (first_seen [] (map snd routes))
       (\<lambda>p out. mcatch (mbind (kp_list_keys p) (\<lambda>ds. mret (out @ ds)))
          (\<lambda>e. if isinstance e NotImplementedError then mret out else mraise e)) []"

definition CompositeKeyProvider :: "(nat \<times> 's key_provider) list \<Rightarrow> 's key_provider" where
  "CompositeKeyProvider providers = (let routes = by_scheme providers in
     \<lparr>kp_schemes = map fst routes,
      kp_get_signer = (\<lambda>r. mbind (mlift (cp_route routes r)) (\<lambda>p. kp_get_signer p r)),
      kp_get_public_key = (\<lambda>r. mbind (mlift (cp_route routes r)) (\<lambda>p. kp_get_public_key p r)),
      kp_list_keys = cp_list_keys routes,
      kp_self_test = (\<lambda>r. mbind (mlift (cp_route routes r)) (\<lambda>p. kp_self_test p r))\<rparr>)"

subsection \<open>What a provider promises\<close>

text \<open>
  \<open>holds s r\<close> is the public key the reference \<open>r\<close> stands for in the world \<open>s\<close>; \<open>trusted m\<close> says the
  signature scheme is correct for the key \<open>m\<close>, which only the package can guarantee.
\<close>

definition ready :: "'k registry \<Rightarrow> (PublicKeyMaterial \<Rightarrow> bool) \<Rightarrow> ('s \<Rightarrow> 'h) \<Rightarrow> 's signer \<Rightarrow> bool" where
  "ready reg trusted holds sg \<longleftrightarrow>
     sg_algorithm sg = m_scheme (sg_public_material sg) \<and> sg_key_id sg = Inr (m_keyid (sg_public_material sg)) \<and>
     (\<forall>data s r t. sg_sign sg data s = (r, t) \<longrightarrow> holds t = holds s \<and>
        (\<forall>sig. r = Inr sig \<longrightarrow> trusted (sg_public_material sg) \<longrightarrow>
           verifies reg (sg_public_material sg) sig data = Inr ()))"

locale provider_contract =
  fixes kp :: "'s key_provider" and reg :: "'k registry" and trusted :: "PublicKeyMaterial \<Rightarrow> bool"
    and holds :: "'s \<Rightarrow> pstr \<Rightarrow> PublicKeyMaterial option"
  assumes signer_held: "kp_get_signer kp r s = (Inr sg, t) \<Longrightarrow>
      holds t = holds s \<and> holds s r = Some (sg_public_material sg) \<and> ready reg trusted holds sg"
    and signer_failed: "kp_get_signer kp r s = (Inl e, t) \<Longrightarrow> holds t = holds s"
    and public_held: "kp_get_public_key kp r s = (Inr m, t) \<Longrightarrow> holds t = holds s \<and> holds s r = Some m"
    and public_failed: "kp_get_public_key kp r s = (Inl e, t) \<Longrightarrow> holds t = holds s"
begin

text \<open>What a signer of the provider signed verifies under the public key the provider gives out.\<close>

lemma signed_verifies:
  assumes "kp_get_signer kp r s = (Inr sg, t)" "sign_with sg data t = (Inr (sig, kid), t')"
    and "kp_get_public_key kp r t' = (Inr m, t'')" "trusted m"
  shows "kid = m_keyid m \<and> verifies reg m sig data = Inr ()"
proof -
  obtain s1 where s: "sg_sign sg data t = (Inr sig, s1)" "sg_key_id sg = Inr kid" "t' = s1"
    using assms(2) by (auto simp: sign_with_def mbind_eq_Inr mlift_run mret_run)
  have g: "holds s r = Some (sg_public_material sg)" "ready reg trusted holds sg" "holds t = holds s"
    using signer_held [OF assms(1)] by simp_all
  then have "holds s1 = holds t" using s(1) by (simp add: ready_def)
  then have "m = sg_public_material sg" using public_held [OF assms(3)] g s(3) by simp
  then show ?thesis using g(2) s(1,2) assms(4) by (auto simp: ready_def)
qed

text \<open>The self-test does not fail for want of a correct signature.\<close>

lemma self_test_passes:
  assumes "kp_get_signer kp r s = (Inr sg, t)" "token s1 = (Inr nonce, t1)" "s1 = t"
    and "sign_with sg nonce t1 = (Inr (sig, kid), t2)" "trusted (sg_public_material sg)"
  shows "base_self_test reg token (kp_get_signer kp) r s = (Inr (), t2)"
proof -
  have "ready reg trusted holds sg" using signer_held [OF assms(1)] by simp
  moreover have "sg_sign sg nonce t1 = (Inr sig, t2)"
    using assms(4) by (auto simp: sign_with_def mbind_eq_Inr mlift_run mret_run)
  ultimately have "verifies reg (sg_public_material sg) sig nonce = Inr ()" using assms(5) by (auto simp: ready_def)
  then show ?thesis using assms
    by (simp add: base_self_test_def mbind_def Let_def mcatch_def mlift_def)
qed

end

text \<open>A provider that answers for every reference it holds.\<close>

locale local_provider = provider_contract kp reg trusted holds
  for kp :: "'s key_provider" and reg :: "'k registry" and trusted holds +
  assumes signer_available: "holds s r = Some m \<Longrightarrow> \<exists>sg t. kp_get_signer kp r s = (Inr sg, t) \<and>
      (\<forall>data s. \<exists>sig t. sg_sign sg data s = (Inr sig, t))"
    and public_available: "holds s r = Some m \<Longrightarrow> \<exists>t. kp_get_public_key kp r s = (Inr m, t)"

text \<open>The signature scheme works for the key.\<close>

definition sound_key :: "('k, 'p) crypto \<Rightarrow> PublicKeyMaterial \<Rightarrow> bool" where
  "sound_key C m \<longleftrightarrow> (\<forall>key. priv_public_raw C key = m_public m \<longrightarrow> ed_correct C key)"

lemma Ed25519Signer_fields [simp]:
  "sg_public_material (Ed25519Signer C key) = \<lparr>m_scheme = ED25519, m_public = priv_public_raw C key\<rparr>"
  "sg_algorithm (Ed25519Signer C key) = ED25519" "sg_key_id (Ed25519Signer C key) = Inr (keyid_for (priv_public_raw C key))"
  "sg_sign (Ed25519Signer C key) data s = (Inr (priv_sign C key data), s)"
  by (simp_all add: Ed25519Signer_def mret_def)

lemma Ed25519_verifies:
  "ed_correct C key \<Longrightarrow>
     verifies (default_registry C) \<lparr>m_scheme = ED25519, m_public = priv_public_raw C key\<rparr> (priv_sign C key data) data = Inr ()"
proof -
  assume c: "ed_correct C key"
  have "get_scheme (default_registry C) ED25519 = Inr \<lparr>s_name = ED25519, s_public_raw = ed_bytes_raw C,
      s_load_public = ed_from_bytes C, s_verify = ed_verify C\<rparr>"
    by (simp add: default_registry_schemes)
  then show ?thesis using c by (auto simp: verifies_def ed_verify_def ed_correct_def)
qed

lemma Ed25519_ready: "ready (default_registry C) (sound_key C) holds (Ed25519Signer C key)"
  by (auto simp: ready_def m_keyid_def sound_key_def intro: Ed25519_verifies)

text \<open>The key under a reference, for the two providers that keep keys themselves.\<close>

definition im_holds :: "('k, 'p) crypto \<Rightarrow> ('s \<Rightarrow> 'p keyring) \<Rightarrow> 's \<Rightarrow> pstr \<Rightarrow> PublicKeyMaterial option" where
  "im_holds C keys_of s r = (case im_get C (keys_of s) r :: exn + 's signer of Inl e \<Rightarrow> None | Inr sg \<Rightarrow> Some (sg_public_material sg))"

lemma im_get_Inr: "im_get C keys r = Inr sg \<Longrightarrow> \<exists>key. sg = Ed25519Signer C key"
  by (auto simp: im_get_def bind_simps split: option.splits prod.splits)

interpretation memory: local_provider "InMemoryKeyProvider C (default_registry C) token keys_of" "default_registry C" "sound_key C" "im_holds C keys_of"
  for C :: "('k, 'p) crypto" and token and keys_of :: "'s \<Rightarrow> 'p keyring"
proof (unfold_locales, goal_cases)
  case (1 r s sg t)
  then show ?case using im_get_Inr Ed25519_ready
    by (fastforce simp: InMemoryKeyProvider_def im_get_signer_def im_holds_def)
next
  case (5 s r m)
  then obtain sg where "im_get C (keys_of s) r = Inr (sg :: 's signer)"
    by (auto simp: im_holds_def split: sum.splits)
  moreover then obtain key where "sg = Ed25519Signer C key" using im_get_Inr by blast
  ultimately show ?case by (auto simp: InMemoryKeyProvider_def im_get_signer_def)
qed (auto simp: InMemoryKeyProvider_def im_get_signer_def im_get_public_key_def im_holds_def bind_simps split: sum.splits)

definition env_holds :: "('k, 'p) crypto \<Rightarrow> ('s \<Rightarrow> (pstr \<times> pstr) list) \<Rightarrow> 's \<Rightarrow> pstr \<Rightarrow> PublicKeyMaterial option" where
  "env_holds C environ s r = (case sbind (env_seed (environ s) r) (Ed25519Signer_from_private_bytes C) :: exn + 's signer of
     Inl e \<Rightarrow> None | Inr sg \<Rightarrow> Some (sg_public_material sg))"

lemma from_private_Inr: "Ed25519Signer_from_private_bytes C seed = Inr sg \<Longrightarrow> \<exists>key. sg = Ed25519Signer C key"
  by (auto simp: Ed25519Signer_from_private_bytes_def bind_simps)

interpretation environment: local_provider "EnvKeyProvider C (default_registry C) token environ" "default_registry C" "sound_key C" "env_holds C environ"
  for C :: "('k, 'p) crypto" and token and environ :: "'s \<Rightarrow> (pstr \<times> pstr) list"
proof (unfold_locales, goal_cases)
  case (1 r s sg t)
  then show ?case using from_private_Inr Ed25519_ready
    by (fastforce simp: EnvKeyProvider_def env_get_signer_def env_holds_def bind_simps)
next
  case (5 s r m)
  then obtain sg where g: "sbind (env_seed (environ s) r) (Ed25519Signer_from_private_bytes C) = Inr (sg :: 's signer)"
    by (auto simp: env_holds_def split: sum.splits)
  then obtain key where "sg = Ed25519Signer C key" using from_private_Inr by (fastforce simp: bind_simps)
  then show ?case using g by (auto simp: EnvKeyProvider_def env_get_signer_def)
qed (auto simp: EnvKeyProvider_def env_get_signer_def public_of_def env_holds_def mbind_def mret_def split: sum.splits)


subsection \<open>Routing\<close>

lemma map_of_declare:
  "map_of (foldl (\<lambda>tab s. AList.update s v tab) tab ss) k = (if k \<in> set ss then Some v else map_of tab k)"
  by (induction ss arbitrary: tab) (auto simp: update_conv')

lemma map_of_by_scheme:
  "map_of (by_scheme ps) scheme = find (\<lambda>(i, p). scheme \<in> set (kp_schemes p)) (rev ps)"
  by (induction ps rule: rev_induct) (auto simp: by_scheme_def map_of_declare split: prod.split)

text \<open>A reference goes to the last provider that declares its scheme, and to none without one.\<close>

lemma composite_route:
  assumes "parse_key_ref r = Inr (scheme, rest)"
  shows "cp_route (by_scheme ps) r = (case find (\<lambda>(i, p). scheme \<in> set (kp_schemes p)) (rev ps) of
      None \<Rightarrow> Inl KeyProviderError | Some (i, p) \<Rightarrow> Inr p)"
  using assms by (simp add: cp_route_def map_of_by_scheme)

lemma composite_get:
  assumes "cp_route (by_scheme ps) r = Inr p"
  shows "kp_get_signer (CompositeKeyProvider ps) r = kp_get_signer p r"
    "kp_get_public_key (CompositeKeyProvider ps) r = kp_get_public_key p r"
    "kp_self_test (CompositeKeyProvider ps) r = kp_self_test p r"
  using assms by (simp_all add: CompositeKeyProvider_def Let_def)

lemma composite_schemes:
  "set (kp_schemes (CompositeKeyProvider ps)) = (\<Union>(i, p)\<in>set ps. set (kp_schemes p))"
proof -
  have d: "fst ` set (foldl (\<lambda>tab s. AList.update s v tab) tab ss) = fst ` set tab \<union> set ss" for v :: "nat \<times> 's key_provider" and tab ss
    by (induction ss arbitrary: tab) (auto simp: dom_update)
  have "fst ` set (by_scheme ps) = (\<Union>(i, p)\<in>set ps. set (kp_schemes p))"
    by (induction ps rule: rev_induct) (auto simp: by_scheme_def d split: prod.splits)
  then show ?thesis by (simp add: CompositeKeyProvider_def Let_def)
qed

text \<open>routing.  A composite hands a reference to the last of its providers that declares the
  scheme of the reference, for signing, for the public key and for the self-test alike, and refuses a
  scheme none of them declares.\<close>

theorem composite_routes:
  assumes "parse_key_ref r = Inr (scheme, rest)"
  shows "case find (\<lambda>(i, p). scheme \<in> set (kp_schemes p)) (rev ps) of
      None \<Rightarrow> scheme \<notin> set (kp_schemes (CompositeKeyProvider ps)) \<and>
        kp_get_signer (CompositeKeyProvider ps) r = mraise KeyProviderError
    | Some (i, p) \<Rightarrow> scheme \<in> set (kp_schemes (CompositeKeyProvider ps)) \<and>
        kp_get_signer (CompositeKeyProvider ps) r = kp_get_signer p r \<and>
        kp_get_public_key (CompositeKeyProvider ps) r = kp_get_public_key p r \<and>
        kp_self_test (CompositeKeyProvider ps) r = kp_self_test p r"
proof (cases "find (\<lambda>(i, p). scheme \<in> set (kp_schemes p)) (rev ps)")
  case None
  have "cp_route (by_scheme ps) r = Inl KeyProviderError" using composite_route [OF assms, of ps] None by simp
  moreover have "scheme \<notin> set (kp_schemes (CompositeKeyProvider ps))"
    using None by (auto simp: composite_schemes find_None_iff)
  ultimately show ?thesis using None by (simp add: CompositeKeyProvider_def Let_def)
next
  case (Some ip)
  then obtain i p where "ip = (i, p)" "(i, p) \<in> set ps" "scheme \<in> set (kp_schemes p)"
    by (auto simp: find_Some_iff) (metis nth_mem length_rev set_rev)
  then show ?thesis using composite_route [OF assms, of ps] composite_get [of ps r p] Some
    by (auto simp: composite_schemes)
qed

subsection \<open>Files\<close>

text \<open>A file system that gives back what was written.\<close>

definition keeps_files :: "'s files \<Rightarrow> bool" where
  "keeps_files fs \<longleftrightarrow> (\<forall>path text s. \<exists>t. fs_write_text fs path text s = (Inr (), t) \<and>
     (\<exists>t'. fs_exists fs path t = (Inr True, t') \<and> (\<exists>t''. fs_read_text fs path t' = (Inr text, t''))))"

lemma py_strip_hex [simp]: "py_strip (to_hex bs) = to_hex bs"
proof -
  have "\<not> py_space c" if "c \<in> set (to_hex bs)" for c
    using to_hex_char_bounds [OF that] by (auto simp: py_space_def)
  then have "dropWhile py_space xs = xs" if "set xs \<subseteq> set (to_hex bs)" for xs
    using that by (cases xs) auto
  then show ?thesis by (simp add: py_strip_def)
qed

text \<open>A key that \<open>save\<close> wrote is the key \<open>from_file\<close> loads.\<close>

lemma saved_key_loads:
  assumes "keeps_files fs" "signer_save fs path seed s = (Inr (), t)" "lf_path root r = Inr path"
  shows "\<exists>t'. lf_get_signer C fs root r t = (case Ed25519Signer_from_private_bytes C seed of
      Inl e \<Rightarrow> Inl (if isinstance_any e [ValueError, OSError] then KeyProviderError else e) | Inr sg \<Rightarrow> Inr sg, t')"
proof -
  obtain s1 where w: "fs_write_text fs path (to_hex seed) s1 = (Inr (), t)"
    using assms(2) by (auto simp: signer_save_def mbind_eq_Inr)
  obtain t1 t2 where "fs_exists fs path t = (Inr True, t1)" "fs_read_text fs path t1 = (Inr (to_hex seed), t2)"
    using assms(1) w unfolding keeps_files_def by (metis prod.inject)
  then show ?thesis
    using assms(3) by (auto simp: lf_get_signer_def signer_from_file_def mbind_def mlift_def mcatch_def mraise_def split: sum.split)
qed

text \<open>
  A seed of the wrong length: the file provider reports it as a \<open>KeyProviderError\<close>, the environment
  provider lets the \<open>ValueError\<close> of the package through.
\<close>

lemma bad_seed_escapes:
  assumes "parse_key_ref r = Inr (scheme, var)" "map_of (environ s) var = Some (to_hex seed)" "seed \<noteq> []"
    and "priv_from_seed C seed = Inl ValueError"
  shows "kp_get_signer (EnvKeyProvider C reg token environ) r s = (Inl ValueError, s)"
proof -
  have "to_hex seed \<noteq> []" using assms(3) by (cases seed) (simp_all add: to_hex_def from_bytes_def)
  then show ?thesis using assms
    by (simp add: EnvKeyProvider_def env_get_signer_def env_seed_def Ed25519Signer_from_private_bytes_def)
qed


lemma composite_routes_witness:
  "kp_get_signer (CompositeKeyProvider
       [(0, InMemoryKeyProvider echo_crypto (default_registry echo_crypto) (mret []) (\<lambda>s :: unit. [(u ''a'', [1])])),
        (1, EnvKeyProvider echo_crypto (default_registry echo_crypto) (mret []) (\<lambda>s. [(u ''K'', u ''07'')]))]) (u ''env://K'') ()
     = (Inr (Ed25519Signer echo_crypto [7]), ())"
proof -
  have p: "parse_key_ref (u ''env://K'') = Inr (u ''env'', u ''K'')"
    using parse_key_ref_made [of "u ''env''" "u ''K''"] by (simp add: u_def)
  have "kp_get_signer (EnvKeyProvider echo_crypto (default_registry echo_crypto) (mret []) (\<lambda>s. [(u ''K'', u ''07'')])) (u ''env://K'') ()
      = (Inr (Ed25519Signer echo_crypto [7]), ())"
    using p by (simp add: EnvKeyProvider_def env_get_signer_def env_seed_def py_strip_def py_space_def u_def from_hex_def
        hex_val_def is_space_def to_bytes_def Ed25519Signer_from_private_bytes_def echo_crypto_def)
  then show ?thesis
    using composite_routes [OF p, of
        "[(0, InMemoryKeyProvider echo_crypto (default_registry echo_crypto) (mret []) (\<lambda>s :: unit. [(u ''a'', [1])])),
          (1, EnvKeyProvider echo_crypto (default_registry echo_crypto) (mret []) (\<lambda>s. [(u ''K'', u ''07'')]))]"]
    by (simp add: EnvKeyProvider_def)
qed


end
