(* ===== verification/Signing.thy ===== *)
theory Signing
  imports Service Providers
begin

section \<open>Server-side signing\<close>

text \<open>
  \<^verbatim>\<open>src/approvo/crypto/resolver.py\<close> and \<^verbatim>\<open>crypto/signing.py\<close>.  A resolver names the key for a purpose, a
  provider turns the name into a signer; the service keeps both signers and public keys for a while.
  \<open>signing_world\<close> is the world of the provider together with the two caches.  Time is what the clock
  of the service reads, in ticks; the rounding of floats is not modelled.
\<close>

subsection \<open>Resolvers\<close>

text \<open>\<open>SigningPurpose.value\<close>\<close>

fun purpose_value :: "SigningPurpose \<Rightarrow> pstr" where
  "purpose_value DECISION = u ''decision''"
| "purpose_value CHECKPOINT = u ''checkpoint''"

type_synonym purposes = "(SigningPurpose \<times> pstr) list"

text \<open>
  \<open>str.format\<close> with keyword arguments: literal text, doubled braces, and replacement fields.  A field
  that is a plain ASCII name is looked up; digits or nothing ask for a positional argument, of which
  there are none.  A field with an attribute, an index, a conversion or a format specification is left
  to the parameter \<open>special\<close>: from the text behind the brace it gives what the field prints and how
  long the field is.
\<close>

type_synonym special = "pstr \<Rightarrow> exn + pstr \<times> nat"

definition field_end :: "nat \<Rightarrow> bool" where
  "field_end c \<longleftrightarrow> c \<in> set (u ''{}[:!.'') \<or> 127 < c"

definition lookup_field :: "(pstr \<times> pstr) list \<Rightarrow> pstr \<Rightarrow> exn + pstr" where
  "lookup_field args f =
     (if list_all is_digit f then Inl (if 2 ^ 63 \<le> digits_val 0 f then ValueError else IndexError)
      else (case map_of args f of None \<Rightarrow> Inl KeyError | Some v \<Rightarrow> Inr v))"

lemma dropWhile_shorter: "dropWhile P xs = y # ys \<Longrightarrow> length ys < length xs"
  by (metis length_dropWhile_le length_Cons Suc_le_eq)

function str_format :: "special \<Rightarrow> (pstr \<times> pstr) list \<Rightarrow> pstr \<Rightarrow> exn + pstr" where
  "str_format special args [] = Inr []"
| "str_format special args (c # cs) =
     (if c = of_char CHR ''}'' then
        (case cs of [] \<Rightarrow> Inl ValueError
         | d # ds \<Rightarrow> if d = c then sbind (str_format special args ds) (\<lambda>r. Inr (c # r)) else Inl ValueError)
      else if c = of_char CHR ''{'' then
        (case cs of [] \<Rightarrow> Inl ValueError
         | d # ds \<Rightarrow> if d = c then sbind (str_format special args ds) (\<lambda>r. Inr (c # r))
             else (case dropWhile (\<lambda>x. \<not> field_end x) cs of
                 [] \<Rightarrow> Inl ValueError
               | e # rest \<Rightarrow>
                   if e = of_char CHR ''}'' then
                     sbind (lookup_field args (takeWhile (\<lambda>x. \<not> field_end x) cs)) (\<lambda>v.
                     sbind (str_format special args rest) (\<lambda>r. Inr (v @ r)))
                   else if e = of_char CHR ''{'' then Inl ValueError
                   else sbind (special cs) (\<lambda>(v, n).
                        sbind (str_format special args (drop n cs)) (\<lambda>r. Inr (v @ r)))))
      else sbind (str_format special args cs) (\<lambda>r. Inr (c # r)))"
  by pat_completeness auto

termination
  by (relation "measure (\<lambda>(special, args, s). length s)")
    (auto dest: dropWhile_shorter simp: less_Suc_eq_le intro: le_trans [OF length_dropWhile_le] simp del: dropWhile.simps
      split: if_splits)

definition static_resolve :: "purposes \<Rightarrow> SigningContext \<Rightarrow> exn + pstr" where
  "static_resolve mapping ctx = (case map_of mapping (sc_purpose ctx) of
       None \<Rightarrow> Inl KeyResolutionError | Some r \<Rightarrow> Inr r)"

text \<open>\<open>ctx.kind or ""\<close>, formatted.\<close>

definition or_empty :: "runtime \<Rightarrow> pyval \<Rightarrow> pstr" where
  "or_empty R v = (if truthy v then py_str R v else [])"

definition context_args :: "runtime \<Rightarrow> SigningContext \<Rightarrow> (pstr \<times> pstr) list" where
  "context_args R ctx = map (\<lambda>(k, v). (u k, v))
     [(''log_id'', py_str R (sc_log_id ctx)), (''purpose'', purpose_value (sc_purpose ctx)),
      (''kind'', or_empty R (sc_kind ctx)), (''policy_id'', or_empty R (sc_policy_id ctx)),
      (''approver_id'', or_empty R (sc_approver_id ctx))]"

definition template_resolve ::
  "runtime \<Rightarrow> special \<Rightarrow> purposes \<Rightarrow> SigningContext \<Rightarrow> exn + pstr" where
  "template_resolve R special templates ctx = (case map_of templates (sc_purpose ctx) of
       None \<Rightarrow> Inl KeyResolutionError
     | Some tmpl \<Rightarrow> (case str_format special (context_args R ctx) tmpl of
           Inl e \<Rightarrow> Inl (if isinstance e KeyError then KeyResolutionError else e)
         | Inr r \<Rightarrow> Inr r))"

datatype 's resolver =
    StaticKeyResolver purposes
  | TemplateKeyResolver runtime special purposes
  | CustomResolver "SigningContext \<Rightarrow> ('s, exn, pstr) eff"

fun resolve :: "'s resolver \<Rightarrow> SigningContext \<Rightarrow> ('s, exn, pstr) eff" where
  "resolve (StaticKeyResolver mapping) ctx = mlift (static_resolve mapping ctx)"
| "resolve (TemplateKeyResolver R special templates) ctx = mlift (template_resolve R special templates ctx)"
| "resolve (CustomResolver f) ctx = f ctx"

subsection \<open>The signing service\<close>

record TrustSpec =
  ts_key_ref :: pstr
  ts_owner_id :: pstr
  ts_key_use :: pstr
  ts_not_before :: pstr
  ts_not_after :: "pstr option"
  ts_log_ids :: "pstr list option"

record 's SigningService =
  si_provider :: "'s key_provider"
  si_resolver :: "'s resolver"
  si_pubkey_ttl :: int
  si_signer_ttl :: int
  si_now :: "('s, exn, int) eff"

definition DEFAULT_PUBKEY_TTL :: int where
  "DEFAULT_PUBKEY_TTL = 3600"

definition DEFAULT_SIGNER_TTL :: int where
  "DEFAULT_SIGNER_TTL = 300"

record 's signing_world =
  w_inner :: 's
  w_pub_cache :: "(pstr \<times> int \<times> PublicKeyMaterial) list"
  w_signer_cache :: "(pstr \<times> int \<times> 's signer) list"

definition inner :: "('s, exn, 'a) eff \<Rightarrow> ('s signing_world, exn, 'a) eff" where
  "inner m w = (case m (w_inner w) of (r, t) \<Rightarrow> (r, w\<lparr>w_inner := t\<rparr>))"

text \<open>\<open>if hit and now() - hit[0] < ttl: return hit[1]\<close>, else fetch and keep.\<close>

definition cached ::
  "('s signing_world \<Rightarrow> (pstr \<times> int \<times> 'v) list) \<Rightarrow> (pstr \<times> int \<times> 'v \<Rightarrow> 's signing_world \<Rightarrow> 's signing_world) \<Rightarrow>
   ('s, exn, int) eff \<Rightarrow> int \<Rightarrow> ('s, exn, 'v) eff \<Rightarrow> pstr \<Rightarrow> ('s signing_world, exn, 'v) eff" where
  "cached cache keep_in now ttl fetch key_ref w =
     (let refill = mbind (inner fetch) (\<lambda>v. mbind (inner now) (\<lambda>n w. (Inr v, keep_in (key_ref, n, v) w)))
      in (case map_of (cache w) key_ref of
            None \<Rightarrow> refill w
          | Some (t, v) \<Rightarrow> mbind (inner now) (\<lambda>n. if n - t < ttl then mret v else refill) w))"

definition keep_signer :: "pstr \<times> int \<times> 's signer \<Rightarrow> 's signing_world \<Rightarrow> 's signing_world" where
  "keep_signer e w = (case e of (r, tv) \<Rightarrow> w\<lparr>w_signer_cache := AList.update r tv (w_signer_cache w)\<rparr>)"

definition keep_public :: "pstr \<times> int \<times> PublicKeyMaterial \<Rightarrow> 's signing_world \<Rightarrow> 's signing_world" where
  "keep_public e w = (case e of (r, tv) \<Rightarrow> w\<lparr>w_pub_cache := AList.update r tv (w_pub_cache w)\<rparr>)"

definition key_ref_for :: "'s SigningService \<Rightarrow> SigningContext \<Rightarrow> ('s signing_world, exn, pstr) eff" where
  "key_ref_for si ctx = inner (resolve (si_resolver si) ctx)"

definition signer_for :: "'s SigningService \<Rightarrow> SigningContext \<Rightarrow> ('s signing_world, exn, 's signer) eff" where
  "signer_for si ctx =
     mbind (inner (resolve (si_resolver si) ctx)) (\<lambda>key_ref.
     cached w_signer_cache keep_signer (si_now si) (si_signer_ttl si) (kp_get_signer (si_provider si) key_ref) key_ref)"

definition public_key :: "'s SigningService \<Rightarrow> pstr \<Rightarrow> ('s signing_world, exn, PublicKeyMaterial) eff" where
  "public_key si key_ref =
     cached w_pub_cache keep_public (si_now si) (si_pubkey_ttl si) (kp_get_public_key (si_provider si) key_ref) key_ref"

definition service_sign_decision :: "'s SigningService \<Rightarrow> Decision \<Rightarrow> SigningContext \<Rightarrow> ('s signing_world, exn, pyval) eff" where
  "service_sign_decision si decision ctx =
     mbind (signer_for si ctx) (\<lambda>signer.
     inner (wrap_async (Decision_to_dict decision) DECISION_PAYLOAD_TYPE [signer]))"

definition checkpoint_context :: "Checkpoint \<Rightarrow> SigningContext" where
  "checkpoint_context cp =
     \<lparr>sc_log_id = c_log_id cp, sc_purpose = CHECKPOINT, sc_kind = PNone, sc_policy_id = PNone, sc_approver_id = PNone\<rparr>"

definition service_sign_checkpoint :: "'s SigningService \<Rightarrow> Checkpoint \<Rightarrow> ('s signing_world, exn, Checkpoint) eff" where
  "service_sign_checkpoint si cp =
     mbind (signer_for si (checkpoint_context cp)) (\<lambda>signer. inner (sign_checkpoint_async cp signer))"

definition trust :: "'s SigningService \<Rightarrow> TrustSpec list \<Rightarrow> ('s signing_world, exn, KeyRef list) eff" where
  "trust si specs =
     mfor specs (\<lambda>spec out.
       mbind (public_key si (ts_key_ref spec)) (\<lambda>pub.
       mret (out @ [to_key_ref pub (ts_owner_id spec) (ts_not_before spec) (ts_not_after spec)
                      (ts_key_use spec) (ts_log_ids spec)]))) []"

definition static_specs :: "purposes \<Rightarrow> pstr \<Rightarrow> pstr \<Rightarrow> pstr \<Rightarrow> pstr list option \<Rightarrow> TrustSpec list" where
  "static_specs purposes issuer_owner_id log_owner_id not_before log_ids =
     (case map_of purposes DECISION of None \<Rightarrow> []
      | Some r \<Rightarrow> [\<lparr>ts_key_ref = r, ts_owner_id = issuer_owner_id, ts_key_use = u ''decision_issuer'',
                    ts_not_before = not_before, ts_not_after = None, ts_log_ids = log_ids\<rparr>]) @
     (case map_of purposes CHECKPOINT of None \<Rightarrow> []
      | Some r \<Rightarrow> [\<lparr>ts_key_ref = r, ts_owner_id = log_owner_id, ts_key_use = u ''log'',
                    ts_not_before = not_before, ts_not_after = None, ts_log_ids = log_ids\<rparr>])"

definition trust_from_static ::
  "'s SigningService \<Rightarrow> pstr \<Rightarrow> pstr \<Rightarrow> pstr \<Rightarrow> pstr list option \<Rightarrow> ('s signing_world, exn, KeyRef list) eff" where
  "trust_from_static si issuer_owner_id log_owner_id not_before log_ids =
     (case si_resolver si of
        StaticKeyResolver purposes \<Rightarrow> trust si (static_specs purposes issuer_owner_id log_owner_id not_before log_ids)
      | _ \<Rightarrow> mraise TypeError)"

definition service_self_test :: "'s SigningService \<Rightarrow> pstr list option \<Rightarrow> ('s signing_world, exn, unit) eff" where
  "service_self_test si key_refs =
     mbind (case key_refs of
              Some rs \<Rightarrow> mret rs
            | None \<Rightarrow> (case si_resolver si of
                StaticKeyResolver purposes \<Rightarrow> mret (map snd purposes)
              | _ \<Rightarrow> mraise ValueError))
       (\<lambda>refs. mfor refs (\<lambda>r _. inner (kp_self_test (si_provider si) r)) ())"

definition invalidate :: "'s signing_world \<Rightarrow> 's signing_world" where
  "invalidate w = w\<lparr>w_pub_cache := [], w_signer_cache := []\<rparr>"

text \<open>What the approval service is given.\<close>

definition as_signing :: "'s SigningService \<Rightarrow> 's signing_world signing" where
  "as_signing si = \<lparr>sn_sign_decision = service_sign_decision si, sn_sign_checkpoint = service_sign_checkpoint si\<rparr>"

subsection \<open>Templates\<close>

text \<open>A template as it is meant: text, and fields of the context.\<close>

datatype piece = Lit pstr | Field pstr

fun piece_text :: "piece \<Rightarrow> pstr" where
  "piece_text (Lit s) = concat (map (\<lambda>c. if c \<in> set (u ''{}'') then [c, c] else [c]) s)"
| "piece_text (Field f) = u ''{'' @ f @ u ''}''"

fun render :: "(pstr \<times> pstr) list \<Rightarrow> piece \<Rightarrow> exn + pstr" where
  "render args (Lit s) = Inr s"
| "render args (Field f) = lookup_field args f"

lemma braces: "of_char CHR ''{'' = (123 :: nat)" "of_char CHR ''}'' = (125 :: nat)" "u ''{}'' = [123, 125]" "u ''{'' = [123]" "u ''}'' = [125]"
  by (simp_all add: u_def)

lemma format_lit:
  "str_format special args (piece_text (Lit s) @ rest) = sbind (str_format special args rest) (\<lambda>r. Inr (s @ r))"
  by (induction s) (simp_all add: braces sbind_assoc)

lemma format_field:
  assumes "\<forall>c\<in>set f. \<not> field_end c"
  shows "str_format special args (piece_text (Field f) @ rest) =
    sbind (lookup_field args f) (\<lambda>v. sbind (str_format special args rest) (\<lambda>r. Inr (v @ r)))"
proof -
  have e: "field_end 125" "field_end 123" by (simp_all add: field_end_def u_def)
  have split: "takeWhile (\<lambda>x. \<not> field_end x) (f @ 125 # rest) = f \<and> dropWhile (\<lambda>x. \<not> field_end x) (f @ 125 # rest) = 125 # rest"
    using assms e by (intro takeWhile_append_stop) auto
  obtain d ds where d: "f @ 125 # rest = d # ds" "d \<noteq> 123"
    using assms e by (cases f) auto
  have "str_format special args (123 # (f @ 125 # rest)) =
      sbind (lookup_field args f) (\<lambda>v. sbind (str_format special args rest) (\<lambda>r. Inr (v @ r)))"
    using split d(2) unfolding d(1) by (simp add: braces del: dropWhile.simps takeWhile.simps)
  then show ?thesis by (simp add: braces)
qed

lemma format_pieces:
  assumes "\<forall>f. Field f \<in> set ps \<longrightarrow> (\<forall>c\<in>set f. \<not> field_end c)"
  shows "str_format special args (concat (map piece_text ps)) = sbind (smap (render args) ps) (\<lambda>vs. Inr (concat vs))"
  using assms
proof (induction ps)
  case (Cons p ps)
  then have IH: "str_format special args (concat (map piece_text ps)) = sbind (smap (render args) ps) (\<lambda>vs. Inr (concat vs))" by simp
  show ?case
  proof (cases p)
    case (Lit s)
    have "str_format special args (piece_text (Lit s) @ concat (map piece_text ps)) =
        sbind (smap (render args) (Lit s # ps)) (\<lambda>vs. Inr (concat vs))"
      by (simp only: format_lit IH) (simp add: sbind_assoc)
    then show ?thesis using Lit by simp
  next
    case (Field f)
    have "str_format special args (piece_text (Field f) @ concat (map piece_text ps)) =
        sbind (smap (render args) (Field f # ps)) (\<lambda>vs. Inr (concat vs))"
      using Cons.prems Field by (subst format_field) (simp_all add: IH sbind_assoc)
    then show ?thesis using Field by simp
  qed
qed simp

subsection \<open>What the service signs with\<close>

lemma inner_run: "inner m w = (r, w') \<longleftrightarrow> (\<exists>t. m (w_inner w) = (r, t) \<and> w' = w\<lparr>w_inner := t\<rparr>)"
  by (auto simp: inner_def split: prod.splits)

locale signing_service = provider_contract "si_provider si" reg trusted holds
  for si :: "'s SigningService" and reg :: "'k registry" and trusted and holds :: "'s \<Rightarrow> pstr \<Rightarrow> PublicKeyMaterial option" +
  assumes resolver_held: "resolve (si_resolver si) ctx s = (rk, t) \<Longrightarrow> holds t = holds s"
    and now_held: "si_now si s = (rn, t) \<Longrightarrow> holds t = holds s"
begin

text \<open>The caches hold what the provider would give.\<close>

definition good_signer :: "'s signing_world \<Rightarrow> pstr \<Rightarrow> 's signer \<Rightarrow> bool" where
  "good_signer w r sg \<longleftrightarrow> holds (w_inner w) r = Some (sg_public_material sg) \<and> ready reg trusted holds sg"

definition current :: "'s signing_world \<Rightarrow> bool" where
  "current w \<longleftrightarrow> (\<forall>r t sg. map_of (w_signer_cache w) r = Some (t, sg) \<longrightarrow> good_signer w r sg) \<and>
     (\<forall>r t m. map_of (w_pub_cache w) r = Some (t, m) \<longrightarrow> holds (w_inner w) r = Some m)"

definition same :: "'s signing_world \<Rightarrow> 's signing_world \<Rightarrow> bool" where
  "same w w' \<longleftrightarrow> (current w \<longrightarrow> current w' \<and> holds (w_inner w') = holds (w_inner w))"

lemma same_order [simp]: "reflp same" "transp same"
  by (auto simp: same_def intro!: reflpI transpI)

lemma inner_same: "(\<And>s r t. m s = (r, t) \<Longrightarrow> holds t = holds s) \<Longrightarrow> keeps same (inner m)"
  by (rule keepsI) (auto simp: inner_run same_def current_def good_signer_def)

lemma inner_now: "keeps same (inner (si_now si))"
  using now_held by (rule inner_same)

lemma inner_resolve: "keeps same (inner (resolve (si_resolver si) ctx))"
  using resolver_held by (rule inner_same)

lemma cached_gives:
  assumes run: "cached cache keep_in (si_now si) ttl fetch key_ref w = (res, w')" and w: "current w"
    and hit: "\<And>w t v. current w \<Longrightarrow> map_of (cache w) key_ref = Some (t, v) \<Longrightarrow> P (holds (w_inner w)) v"
    and fetched: "\<And>s r t. fetch s = (r, t) \<Longrightarrow> holds t = holds s \<and> (\<forall>v. r = Inr v \<longrightarrow> P (holds s) v)"
    and kept: "\<And>w n v. current w \<Longrightarrow> P (holds (w_inner w)) v \<Longrightarrow>
      current (keep_in (key_ref, n, v) w) \<and> w_inner (keep_in (key_ref, n, v) w) = w_inner w"
  shows "current w' \<and> holds (w_inner w') = holds (w_inner w) \<and> (\<forall>v. res = Inr v \<longrightarrow> P (holds (w_inner w)) v)"
proof -
  let ?refill = "mbind (inner fetch) (\<lambda>v. mbind (inner (si_now si)) (\<lambda>n w. (Inr v, keep_in (key_ref, n, v) w)))"
  have refill: "current w' \<and> holds (w_inner w') = holds (w_inner w1) \<and> (\<forall>v. res = Inr v \<longrightarrow> P (holds (w_inner w1)) v)"
    if r: "?refill w1 = (res, w')" and w1: "current w1" for w1
  proof -
    obtain q w2 where q: "inner fetch w1 = (q, w2)" by fastforce
    then have w2: "current w2" "holds (w_inner w2) = holds (w_inner w1)"
      using keepsD [OF inner_same q] fetched w1 by (auto simp: same_def)
    show ?thesis
    proof (cases q)
      case (Inl e)
      then have "res = Inl e" "w' = w2" using r q by (simp_all add: mbind_def)
      then show ?thesis using w2 by simp
    next
      case (Inr v)
      then have P: "P (holds (w_inner w2)) v" using q fetched w2(2) by (auto simp: inner_run)
      obtain n w3 where n: "inner (si_now si) w2 = (n, w3)" by fastforce
      then have w3: "current w3" "holds (w_inner w3) = holds (w_inner w2)"
        using keepsD [OF inner_now n] w2 by (auto simp: same_def)
      then show ?thesis using r q Inr n P w2 kept [of w3 v]
        by (cases n) (auto simp: mbind_def)
    qed
  qed
  show ?thesis
  proof (cases "map_of (cache w) key_ref")
    case None
    then show ?thesis using refill [OF _ w] run by (simp add: cached_def Let_def)
  next
    case (Some tv)
    obtain t v where tv: "tv = (t, v)" by fastforce
    obtain n w1 where n: "inner (si_now si) w = (n, w1)" by fastforce
    then have w1: "current w1" "holds (w_inner w1) = holds (w_inner w)"
      using keepsD [OF inner_now n] w by (auto simp: same_def)
    show ?thesis
    proof (cases "\<exists>i. n = Inr i \<and> \<not> i - t < ttl")
      case True
      then have "?refill w1 = (res, w')" using run Some tv n by (auto simp: cached_def Let_def mbind_def)
      from refill [OF this w1(1)] show ?thesis using w1 by simp
    next
      case False
      then show ?thesis using run Some tv n w1 hit [OF w] by (cases n) (auto simp: cached_def Let_def mbind_def mret_def)
    qed
  qed
qed

lemma signer_for_gives:
  assumes "signer_for si ctx w = (Inr sg, w')" "current w"
  shows "current w' \<and> holds (w_inner w') = holds (w_inner w) \<and>
    (\<exists>r t. resolve (si_resolver si) ctx (w_inner w) = (Inr r, t) \<and> good_signer w r sg)"
proof -
  obtain r w1 where r: "inner (resolve (si_resolver si) ctx) w = (Inr r, w1)"
    "cached w_signer_cache keep_signer (si_now si) (si_signer_ttl si) (kp_get_signer (si_provider si) r) r w1 = (Inr sg, w')"
    using assms(1) by (auto simp: signer_for_def mbind_eq_Inr)
  have w1: "current w1" "holds (w_inner w1) = holds (w_inner w)"
    using keepsD [OF inner_resolve r(1)] assms(2) by (auto simp: same_def)
  have "current w' \<and> holds (w_inner w') = holds (w_inner w1) \<and>
      (\<forall>v. (Inr sg :: exn + 's signer) = Inr v \<longrightarrow> holds (w_inner w1) r = Some (sg_public_material v) \<and> ready reg trusted holds v)"
  proof (rule cached_gives [OF r(2) w1(1), where P = "\<lambda>h v. h r = Some (sg_public_material v) \<and> ready reg trusted holds v"])
    fix s q t assume "kp_get_signer (si_provider si) r s = (q, t)"
    then show "holds t = holds s \<and> (\<forall>v. q = Inr v \<longrightarrow> holds s r = Some (sg_public_material v) \<and> ready reg trusted holds v)"
      using signer_held signer_failed by (cases q) auto
  qed (auto simp: current_def good_signer_def keep_signer_def update_conv')
  then show ?thesis using r(1) w1 by (auto simp: good_signer_def inner_run)
qed

lemma public_key_gives:
  assumes "public_key si r w = (res, w')" "current w"
  shows "current w' \<and> holds (w_inner w') = holds (w_inner w) \<and> (\<forall>m. res = Inr m \<longrightarrow> holds (w_inner w) r = Some m)"
  using assms(1) unfolding public_key_def
proof (rule cached_gives [OF _ assms(2), where P = "\<lambda>h m. h r = Some m"])
  fix s q t assume "kp_get_public_key (si_provider si) r s = (q, t)"
  then show "holds t = holds s \<and> (\<forall>v. q = Inr v \<longrightarrow> holds s r = Some v)"
    using public_held public_failed by (cases q) auto
qed (auto simp: current_def good_signer_def keep_public_def update_conv')

text \<open>The key under which a reference is published.\<close>

definition published :: "'s signing_world \<Rightarrow> TrustSpec \<Rightarrow> KeyRef \<Rightarrow> bool" where
  "published w spec k \<longleftrightarrow> (\<exists>m. holds (w_inner w) (ts_key_ref spec) = Some m \<and>
     k = to_key_ref m (ts_owner_id spec) (ts_not_before spec) (ts_not_after spec) (ts_key_use spec) (ts_log_ids spec))"

lemma trust_gives:
  assumes "trust si specs w = (Inr ks, w')" "current w"
  shows "current w' \<and> holds (w_inner w') = holds (w_inner w) \<and> list_all2 (published w) specs ks"
proof -
  let ?body = "\<lambda>spec out. mbind (public_key si (ts_key_ref spec)) (\<lambda>pub.
       mret (out @ [to_key_ref pub (ts_owner_id spec) (ts_not_before spec) (ts_not_after spec) (ts_key_use spec) (ts_log_ids spec)]))"
  have "current w' \<and> holds (w_inner w') = holds (w_inner w) \<and> (\<exists>ks. out' = out @ ks \<and> list_all2 (published w) specs ks)"
    if "mfor specs ?body out w = (Inr out', w')" "current w" for out out' w'
    using that
  proof (induction specs arbitrary: out w)
    case (Cons spec specs)
    obtain q w1 where q: "?body spec out w = (Inr q, w1)" "mfor specs ?body q w1 = (Inr out', w')"
      using Cons.prems(1) unfolding mfor.simps mbind_eq_Inr by blast
    then obtain m where m: "public_key si (ts_key_ref spec) w = (Inr m, w1)"
      "mfor specs ?body (out @ [to_key_ref m (ts_owner_id spec) (ts_not_before spec) (ts_not_after spec) (ts_key_use spec) (ts_log_ids spec)]) w1
        = (Inr out', w')"
      unfolding mbind_eq_Inr by (auto simp: mret_def)
    have w1: "current w1" "holds (w_inner w1) = holds (w_inner w)" "holds (w_inner w) (ts_key_ref spec) = Some m"
      using public_key_gives [OF m(1) Cons.prems(2)] by simp_all
    have eq: "published w1 = published w" by (simp add: fun_eq_iff published_def w1(2))
    have p: "published w spec (to_key_ref m (ts_owner_id spec) (ts_not_before spec) (ts_not_after spec) (ts_key_use spec) (ts_log_ids spec))"
      using w1(3) by (auto simp: published_def)
    show ?case using Cons.IH [OF m(2) w1(1)] w1(2) p unfolding eq by fastforce
  qed (auto simp: mret_run)
  from this [of "[]" ks w'] show ?thesis using assms by (auto simp: trust_def)
qed

text \<open>A signature of a good signer, checked as the verifier checks it.\<close>

lemma check_published:
  "check_sig reg (to_key_ref m ow nb na us ids) (envelope_sig kid sig) data = verifies reg m sig data"
  by (simp add: check_sig_def verifies_def envelope_sig_def)

lemma good_signs:
  assumes "good_signer w r sg" "sign_with sg data s = (Inr (sig, kid), t)" "published w spec k" "ts_key_ref spec = r"
    and "\<forall>m. holds (w_inner w) r = Some m \<longrightarrow> trusted m"
  shows "kid = k_keyid k \<and> check_sig reg k (envelope_sig kid sig) data = Inr ()"
proof -
  let ?m = "sg_public_material sg"
  have m: "holds (w_inner w) r = Some ?m" "ready reg trusted holds sg" using assms(1) by (simp_all add: good_signer_def)
  have k: "k = to_key_ref ?m (ts_owner_id spec) (ts_not_before spec) (ts_not_after spec) (ts_key_use spec) (ts_log_ids spec)"
    using assms(3,4) m(1) by (auto simp: published_def)
  have s: "sg_sign sg data s = (Inr sig, t)" "sg_key_id sg = Inr kid"
    using assms(2) by (auto simp: sign_with_def mbind_eq_Inr mlift_run mret_run)
  have "verifies reg ?m sig data = Inr ()" "kid = m_keyid ?m"
    using m s assms(5) by (auto simp: ready_def)
  then show ?thesis by (simp add: k check_published m_keyid_def)
qed

lemma wrap_one:
  assumes "wrap_async v ty [sg] s = (Inr env, t)"
  obtains body x sig kid where "canonical_bytes v = Inr body" "pae (PStr ty) body = Inr x" "sign_with sg x s = (Inr (sig, kid), t)"
    "env = envelope_of ty body [envelope_sig kid sig]"
  using assms that by (auto simp: wrap_async_def mbind_eq_Inr mlift_run mret_def simp del: pae.simps)

text \<open>Whatever the service signs for a purpose is accepted under the key it published for the reference.\<close>

lemma decision_accepted:
  assumes w: "current w" and k: "published w spec k" "k_key_use k = u ''decision_issuer''"
    and run: "service_sign_decision si d ctx w = (Inr env, w')"
    and ref: "resolve (si_resolver si) ctx (w_inner w) = (Inr (ts_key_ref spec), t0)"
    and sound: "\<forall>m. holds (w_inner w) (ts_key_ref spec) = Some m \<longrightarrow> trusted m"
    and dir: "map_of kd (k_keyid k) = Some k" "valid_at k at_time = Inr True" "scoped_to k lg"
  shows "decision_authorized reg env a lg kd at_time True = Inr True"
proof -
  obtain sg w1 t1 where sg: "signer_for si ctx w = (Inr sg, w1)"
    and wrap: "wrap_async (Decision_to_dict d) DECISION_PAYLOAD_TYPE [sg] (w_inner w1) = (Inr env, t1)"
    using run by (auto simp: service_sign_decision_def mbind_eq_Inr inner_run)
  have good: "good_signer w (ts_key_ref spec) sg" using signer_for_gives [OF sg w] ref by auto
  obtain body x sig kid where e: "pae (PStr DECISION_PAYLOAD_TYPE) body = Inr x" "sign_with sg x (w_inner w1) = (Inr (sig, kid), t1)"
    "env = envelope_of DECISION_PAYLOAD_TYPE body [envelope_sig kid sig]"
    using wrap_one [OF wrap] by metis
  have kid: "kid = k_keyid k" "check_sig reg k (envelope_sig kid sig) x = Inr ()"
    using good_signs [OF good e(2) k(1) refl sound] by blast+
  have "verified_signatures reg env kd at_time = Inr [vs_of k]"
  proof (rule verified_one)
    show "signable_bytes env = Inr x" by (simp only: e(3) envelope_of_signable e(1))
  qed (use dir kid in \<open>simp_all add: e(3)\<close>)
  then show ?thesis using k(2) dir by (simp add: decision_authorized_def vs_of_def kd_get_def u_def)
qed

lemma checkpoint_accepted:
  assumes w: "current w" and k: "published w spec k" "k_key_use k = u ''log''"
    and run: "service_sign_checkpoint si cp w = (Inr cp', w')" and "c_signatures cp = []"
    and ref: "resolve (si_resolver si) (checkpoint_context cp) (w_inner w) = (Inr (ts_key_ref spec), t0)"
    and sound: "\<forall>m. holds (w_inner w) (ts_key_ref spec) = Some m \<longrightarrow> trusted m"
    and dir: "map_of kd (k_keyid k) = Some k" "valid_at k (c_published_at cp) = Inr True" "scoped_to k (c_log_id cp)"
  shows "verify_checkpoint reg cp' kd = Inr [k_owner_id k]"
proof -
  obtain sg w1 m sig kid t1 where sg: "signer_for si (checkpoint_context cp) w = (Inr sg, w1)"
    and m: "checkpoint_signable cp = Inr m" "sign_with sg m (w_inner w1) = (Inr (sig, kid), t1)"
    "append_sig cp kid sig = Inr cp'"
    using run by (auto simp: service_sign_checkpoint_def sign_checkpoint_async_def mbind_eq_Inr inner_run mlift_run)
  have good: "good_signer w (ts_key_ref spec) sg" using signer_for_gives [OF sg w] ref by auto
  have kid: "kid = k_keyid k" "check_sig reg k (envelope_sig kid sig) m = Inr ()"
    using good_signs [OF good m(2) k(1) refl sound] by blast+
  have "cp' = cp\<lparr>c_signatures := [envelope_sig kid sig]\<rparr>" using m(3) assms(5) by (simp add: append_sig)
  then show ?thesis using verify_one_log_sig [OF m(1) _ k(2) dir(2,3) kid(2)] dir(1) kid(1) by simp
qed

end


subsection \<open>Keys in memory\<close>

text \<open>The world of a service with keys in memory: the keys, the clock, and the nonces to come.\<close>

record 'p vault =
  va_keys :: "'p keyring"
  va_now :: int
  va_nonces :: "bytes list"

definition vault_token :: "('p vault, exn, bytes) eff" where
  "vault_token v = (case va_nonces v of [] \<Rightarrow> (Inr [], v) | n # ns \<Rightarrow> (Inr n, v\<lparr>va_nonces := ns\<rparr>))"

definition memory_signing :: "('k, 'p) crypto \<Rightarrow> purposes \<Rightarrow> int \<Rightarrow> int \<Rightarrow> 'p vault SigningService" where
  "memory_signing C mapping pubkey_ttl signer_ttl =
     \<lparr>si_provider = InMemoryKeyProvider C (default_registry C) vault_token va_keys,
      si_resolver = StaticKeyResolver mapping, si_pubkey_ttl = pubkey_ttl, si_signer_ttl = signer_ttl,
      si_now = (\<lambda>v. (Inr (va_now v), v))\<rparr>"

definition new_world :: "'s \<Rightarrow> 's signing_world" where
  "new_world v = \<lparr>w_inner = v, w_pub_cache = [], w_signer_cache = []\<rparr>"

interpretation vault: signing_service "memory_signing C mapping p q" "default_registry C" "sound_key C" "im_holds C va_keys"
  for C :: "('k, 'p) crypto" and mapping p q
proof -
  have "provider_contract (InMemoryKeyProvider C (default_registry C) vault_token va_keys) (default_registry C) (sound_key C) (im_holds C va_keys)"
    by (rule memory.provider_contract_axioms)
  then show "signing_service (memory_signing C mapping p q) (default_registry C) (sound_key C) (im_holds C va_keys)"
    by (auto simp: signing_service_def signing_service_axioms_def memory_signing_def mlift_def)
qed

abbreviation vault_current :: "('k, 'p) crypto \<Rightarrow> 'p vault signing_world \<Rightarrow> bool" where
  "vault_current C \<equiv> vault.current TYPE('k) C"

abbreviation vault_published :: "('k, 'p) crypto \<Rightarrow> 'p vault signing_world \<Rightarrow> TrustSpec \<Rightarrow> KeyRef \<Rightarrow> bool" where
  "vault_published C \<equiv> vault.published TYPE('k) C"

lemma new_world_current: "vault_current C (new_world v)"
  by (simp add: vault.current_def new_world_def)

lemma static_resolved:
  "resolve (si_resolver (memory_signing C mapping p q)) ctx s = (static_resolve mapping ctx, s)"
  by (simp add: memory_signing_def mlift_def)

lemma trust_from_static_gives:
  assumes "trust_from_static (memory_signing C mapping p q) issuer log_owner nb ids (new_world v) = (Inr ks, w)"
  shows "vault_current C w \<and> list_all2 (vault_published C w) (static_specs mapping issuer log_owner nb ids) ks"
proof -
  have "trust (memory_signing C mapping p q) (static_specs mapping issuer log_owner nb ids) (new_world v) = (Inr ks, w)"
    using assms by (simp add: trust_from_static_def memory_signing_def)
  from vault.trust_gives [OF this new_world_current] show ?thesis
    by (auto simp: vault.published_def elim!: list.rel_mono_strong)
qed

text \<open>The key the static resolver names for a purpose is among those that are published, for that use.\<close>

lemma static_published:
  assumes "list_all2 (vault_published C w) (static_specs mapping issuer log_owner nb ids) ks" "map_of mapping pu = Some r"
  obtains spec k where "k \<in> set ks" "vault_published C w spec k" "ts_key_ref spec = r"
    "k_key_use k = (case pu of DECISION \<Rightarrow> u ''decision_issuer'' | CHECKPOINT \<Rightarrow> u ''log'')"
    "k_owner_id k = (case pu of DECISION \<Rightarrow> issuer | CHECKPOINT \<Rightarrow> log_owner)"
proof -
  let ?spec = "\<lparr>ts_key_ref = r, ts_owner_id = (case pu of DECISION \<Rightarrow> issuer | CHECKPOINT \<Rightarrow> log_owner),
      ts_key_use = (case pu of DECISION \<Rightarrow> u ''decision_issuer'' | CHECKPOINT \<Rightarrow> u ''log''),
      ts_not_before = nb, ts_not_after = None, ts_log_ids = ids\<rparr>"
  have "?spec \<in> set (static_specs mapping issuer log_owner nb ids)"
    using assms(2) by (cases pu) (auto simp: static_specs_def)
  then obtain k where k: "k \<in> set ks" "vault_published C w ?spec k"
    using assms(1) by (fastforce simp: list_all2_conv_all_nth in_set_conv_nth)
  show thesis by (rule that [OF k]) (use k(2) in \<open>auto simp: vault.published_def to_key_ref_def\<close>)
qed

lemma sound_keys: "\<forall>key. ed_correct C key \<Longrightarrow> sound_key C m"
  by (simp add: sound_key_def)

subsection \<open>Properties\<close>

text \<open>C11: server-side signing.  What the signing service signs for an approver is authorized under the
  keys it publishes: with its trust root in the directory, a decision it signed is accepted for every
  approver that is known, on every log the keys are scoped to.\<close>

theorem issued_decision_accepted:
  assumes "\<forall>key. ed_correct C key"
    and "trust_from_static (memory_signing C mapping p q) issuer log_owner nb ids (new_world v) = (Inr ks, w)"
    and "service_sign_decision (memory_signing C mapping p q) d ctx w = (Inr env, w')" "sc_purpose ctx = DECISION"
    and "\<forall>k\<in>set ks. map_of kd (k_keyid k) = Some k \<and> valid_at k at_time = Inr True \<and> scoped_to k lg"
  shows "decision_authorized (default_registry C) env approver lg kd at_time True = Inr True"
proof -
  have w: "vault_current C w" "list_all2 (vault_published C w) (static_specs mapping issuer log_owner nb ids) ks"
    using trust_from_static_gives [OF assms(2)] by simp_all
  obtain r where r: "static_resolve mapping ctx = Inr r" "map_of mapping DECISION = Some r"
    using assms(3,4)
    by (auto simp: service_sign_decision_def signer_for_def mbind_eq_Inr inner_run static_resolved static_resolve_def split: option.splits)
  obtain spec k where k: "k \<in> set ks" "vault_published C w spec k" "ts_key_ref spec = r" "k_key_use k = u ''decision_issuer''"
    using static_published [OF w(2) r(2)] by (metis SigningPurpose.simps(3))
  show ?thesis
    by (rule vault.decision_accepted [OF w(1) k(2,4) assms(3)])
      (use r k assms(1,5) in \<open>auto simp: static_resolved sound_keys\<close>)
qed

text \<open>checkpoints.  With the published keys in the directory, a checkpoint the signing service
  signed verifies, and names the owner of the log key.\<close>

theorem issued_checkpoint_accepted:
  assumes "\<forall>key. ed_correct C key"
    and "trust_from_static (memory_signing C mapping p q) issuer log_owner nb ids (new_world v) = (Inr ks, w)"
    and "service_sign_checkpoint (memory_signing C mapping p q) cp w = (Inr cp', w')" "c_signatures cp = []"
    and "\<forall>k\<in>set ks. map_of kd (k_keyid k) = Some k \<and> valid_at k (c_published_at cp) = Inr True \<and> scoped_to k (c_log_id cp)"
  shows "verify_checkpoint (default_registry C) cp' kd = Inr [log_owner]"
proof -
  have w: "vault_current C w" "list_all2 (vault_published C w) (static_specs mapping issuer log_owner nb ids) ks"
    using trust_from_static_gives [OF assms(2)] by simp_all
  obtain r where r: "static_resolve mapping (checkpoint_context cp) = Inr r" "map_of mapping CHECKPOINT = Some r"
    using assms(3)
    by (auto simp: service_sign_checkpoint_def signer_for_def mbind_eq_Inr inner_run static_resolved static_resolve_def
        checkpoint_context_def split: option.splits)
  obtain spec k where k: "k \<in> set ks" "vault_published C w spec k" "ts_key_ref spec = r" "k_key_use k = u ''log''" "k_owner_id k = log_owner"
    using static_published [OF w(2) r(2)] by (metis SigningPurpose.simps(4))
  have "verify_checkpoint (default_registry C) cp' kd = Inr [k_owner_id k]"
    by (rule vault.checkpoint_accepted [OF w(1) k(2,4) assms(3,4)])
      (use r k assms(1,5) in \<open>auto simp: static_resolved sound_keys\<close>)
  then show ?thesis using k(5) by simp
qed

text \<open>C31: rotation.  A signer the service hands out is the one the provider has now under the resolved
  reference, or it was cached less than the time to live ago: a key that was replaced is not used
  longer than that.\<close>

theorem rotation_takes_effect:
  fixes C :: "('k, 'p) crypto"
  assumes "signer_for (memory_signing C mapping p ttl) ctx w = (Inr sg, w')"
  shows "\<exists>r. map_of mapping (sc_purpose ctx) = Some r \<and>
    (im_get C (va_keys (w_inner w)) r = Inr sg \<or>
     (\<exists>t. map_of (w_signer_cache w) r = Some (t, sg) \<and> va_now (w_inner w) - t < ttl))"
proof -
  let ?si = "memory_signing C mapping p ttl"
  obtain r where r: "map_of mapping (sc_purpose ctx) = Some r"
    and run: "cached w_signer_cache keep_signer (si_now ?si) ttl (kp_get_signer (si_provider ?si) r) r w = (Inr sg, w')"
    using assms
    by (auto simp: signer_for_def mbind_eq_Inr inner_run static_resolved static_resolve_def split: option.splits)
      (auto simp: memory_signing_def)
  have now: "inner (si_now (memory_signing C mapping p ttl)) w1 = (Inr (va_now (w_inner w1)), w1)" for w1
    by (simp add: inner_def memory_signing_def)
  have get: "inner (kp_get_signer (si_provider ?si) r) w = (im_get C (va_keys (w_inner w)) r, w)"
    by (simp add: inner_def memory_signing_def InMemoryKeyProvider_def im_get_signer_def)
  show ?thesis
    using r run
    by (cases "im_get C (va_keys (w_inner w)) r :: exn + 'p vault signer")
      (auto simp: cached_def Let_def mbind_def now get mret_def split: option.splits if_splits)
qed

text \<open>templates.  A template that is written as text and plain fields resolves to the text with the
  fields of the context put in, braces in the text doubled and undone; a field the context does not have
  is reported as a \<open>KeyResolutionError\<close>.\<close>

theorem template_resolves:
  assumes "map_of templates (sc_purpose ctx) = Some (concat (map piece_text ps))"
    and "\<forall>f. Field f \<in> set ps \<longrightarrow> (\<forall>c\<in>set f. \<not> field_end c)"
  shows "template_resolve R special templates ctx =
    (case smap (render (context_args R ctx)) ps of
       Inl e \<Rightarrow> Inl (if e = KeyError then KeyResolutionError else e) | Inr vs \<Rightarrow> Inr (concat vs))"
  using assms by (simp add: template_resolve_def format_pieces sbind_def split: sum.split)


subsection \<open>Examples\<close>

abbreviation org_ref :: pstr where "org_ref \<equiv> u ''memory://org''"

definition example_vault :: "bytes vault" where
  "example_vault = \<lparr>va_keys = [(u ''org'', [7])], va_now = 0, va_nonces = []\<rparr>"

abbreviation example_signing :: "SigningPurpose \<Rightarrow> bytes vault SigningService" where
  "example_signing pu \<equiv> memory_signing echo_crypto [(pu, org_ref)] DEFAULT_PUBKEY_TTL DEFAULT_SIGNER_TTL"

lemma org_ref: "parse_key_ref org_ref = Inr (u ''memory'', u ''org'')"
  using parse_key_ref_made [of "u ''memory''" "u ''org''"] by (simp add: u_def)

lemma org_signer: "im_get echo_crypto (va_keys example_vault) org_ref = Inr (Ed25519Signer echo_crypto [7])"
  by (simp add: im_get_def org_ref example_vault_def)

lemma org_now: "va_now example_vault = 0"
  by (simp add: example_vault_def)

text \<open>The key as it is published, and the world after that.\<close>

definition org_key :: "pstr \<Rightarrow> pstr \<Rightarrow> KeyRef" where
  "org_key owner key_use = to_key_ref \<lparr>m_scheme = ED25519, m_public = [7]\<rparr> owner (u ''2025-01-01T00:00:00Z'') None key_use None"

definition trusted_world :: "bytes vault signing_world" where
  "trusted_world = (new_world example_vault)\<lparr>w_pub_cache := [(org_ref, 0, \<lparr>m_scheme = ED25519, m_public = [7]\<rparr>)]\<rparr>"

lemma org_published:
  "trust_from_static (example_signing pu) (u ''org'') (u ''log-owner'') (u ''2025-01-01T00:00:00Z'') None (new_world example_vault)
     = (Inr [case pu of DECISION \<Rightarrow> org_key (u ''org'') (u ''decision_issuer'') | CHECKPOINT \<Rightarrow> org_key (u ''log-owner'') (u ''log'')],
        trusted_world)"
proof -
  have "public_key (example_signing pu) org_ref (new_world example_vault) =
      (Inr \<lparr>m_scheme = ED25519, m_public = [7]\<rparr>, trusted_world)"
    by (simp add: public_key_def cached_def Let_def new_world_def mbind_def inner_def memory_signing_def InMemoryKeyProvider_def
        im_get_public_key_def keep_public_def trusted_world_def org_signer org_now)
      (simp add: echo_crypto_def)
  then show ?thesis
    by (cases pu) (simp_all add: trust_from_static_def static_specs_def trust_def mbind_def mret_def org_key_def,
      simp_all add: memory_signing_def static_specs_def trust_def mbind_def mret_def org_key_def)
qed

lemma org_signs:
  assumes "sc_purpose ctx = pu"
  shows "\<exists>w. signer_for (example_signing pu) ctx trusted_world = (Inr (Ed25519Signer echo_crypto [7]), w) \<and> w_inner w = example_vault"
  using assms
  by (simp add: signer_for_def mbind_def static_resolved static_resolve_def inner_def)
    (simp add: cached_def Let_def trusted_world_def new_world_def mbind_def inner_def memory_signing_def InMemoryKeyProvider_def
        im_get_signer_def keep_signer_def org_signer)

lemma org_key_valid: "valid_at (org_key owner use) (lit ''2025-02-01T00:00:00Z'') = Inr True"
  using example_instants
  by (simp add: valid_at_window [of _ _ 63873964800000000] timed_def in_window_def org_key_def to_key_ref_def)

lemma issued_decision_accepted_witness:
  "\<exists>env w'. service_sign_decision (example_signing DECISION) example_decision
       \<lparr>sc_log_id = lit ''log'', sc_purpose = DECISION, sc_kind = PNone, sc_policy_id = PNone, sc_approver_id = lit ''al''\<rparr>
       trusted_world = (Inr env, w') \<and>
     decision_authorized (default_registry echo_crypto) env (lit ''al'') (lit ''log'')
       [(k_keyid (org_key (u ''org'') (u ''decision_issuer'')), org_key (u ''org'') (u ''decision_issuer''))]
       (lit ''2025-02-01T00:00:00Z'') True = Inr True"
proof -
  let ?ctx = "\<lparr>sc_log_id = lit ''log'', sc_purpose = DECISION, sc_kind = PNone, sc_policy_id = PNone, sc_approver_id = lit ''al''\<rparr>"
  obtain w where w: "signer_for (example_signing DECISION) ?ctx trusted_world = (Inr (Ed25519Signer echo_crypto [7]), w)"
    "w_inner w = example_vault"
    using org_signs [of ?ctx DECISION] by auto
  obtain env0 where "wrap_async (Decision_to_dict example_decision) DECISION_PAYLOAD_TYPE [Ed25519Signer echo_crypto [7]] () = (Inr env0, ())"
    using example_envelope by blast
  from wrap_async_shape [OF this] obtain body x where "canonical_bytes (Decision_to_dict example_decision) = Inr body"
    "pae (PStr DECISION_PAYLOAD_TYPE) body = Inr x" by metis
  from wrap_Ed25519 [OF this, of echo_crypto "[7]" example_vault] obtain env where
    "wrap_async (Decision_to_dict example_decision) DECISION_PAYLOAD_TYPE [Ed25519Signer echo_crypto [7]] example_vault = (Inr env, example_vault)"
    by blast
  then have e: "service_sign_decision (example_signing DECISION) example_decision ?ctx trusted_world = (Inr env, w)"
    using w by (simp add: service_sign_decision_def mbind_def inner_def)
  have "\<forall>key. ed_correct echo_crypto key" using echo_correct by blast
  from issued_decision_accepted [OF this org_published [of DECISION] e] org_key_valid show ?thesis
    using e by (fastforce simp: scoped_to_def org_key_def to_key_ref_def)
qed

lemma issued_checkpoint_accepted_witness:
  "\<exists>cp w'. service_sign_checkpoint (example_signing CHECKPOINT) example_cp trusted_world = (Inr cp, w') \<and>
     verify_checkpoint (default_registry echo_crypto) cp
       [(k_keyid (org_key (u ''log-owner'') (u ''log'')), org_key (u ''log-owner'') (u ''log''))] = Inr [u ''log-owner'']"
proof -
  obtain w where w: "signer_for (example_signing CHECKPOINT) (checkpoint_context example_cp) trusted_world = (Inr (Ed25519Signer echo_crypto [7]), w)"
    "w_inner w = example_vault"
    using org_signs [of "checkpoint_context example_cp" CHECKPOINT] by (auto simp: checkpoint_context_def)
  obtain m where "checkpoint_signable example_cp = Inr m" using example_cp_signable by blast
  then obtain cp where cp: "service_sign_checkpoint (example_signing CHECKPOINT) example_cp trusted_world = (Inr cp, w)"
    using w by (auto simp: service_sign_checkpoint_def sign_checkpoint_async_def sign_with_def mbind_def mlift_def mret_def append_sig inner_def)
  have "\<forall>key. ed_correct echo_crypto key" using echo_correct by blast
  from issued_checkpoint_accepted [OF this org_published [of CHECKPOINT] cp] org_key_valid show ?thesis
    using cp by (fastforce simp: scoped_to_def org_key_def to_key_ref_def example_cp_def)
qed

lemma rotation_takes_effect_witness:
  "\<exists>w'. signer_for (example_signing DECISION) (checkpoint_context example_cp\<lparr>sc_purpose := DECISION\<rparr>) trusted_world
       = (Inr (Ed25519Signer echo_crypto [7]), w') \<and>
     im_get echo_crypto (va_keys (w_inner trusted_world)) org_ref = Inr (Ed25519Signer echo_crypto [7] :: bytes vault signer)"
proof -
  let ?ctx = "(checkpoint_context example_cp)\<lparr>sc_purpose := DECISION\<rparr>"
  obtain w where w: "signer_for (example_signing DECISION) ?ctx trusted_world = (Inr (Ed25519Signer echo_crypto [7]), w)"
    using org_signs [of ?ctx DECISION] by auto
  from rotation_takes_effect [OF w] show ?thesis using w by (auto simp: trusted_world_def new_world_def)
qed

lemma template_resolves_witness:
  "template_resolve utc_runtime (\<lambda>s. Inl OtherError) [(DECISION, concat (map piece_text [Lit (u ''vault://''), Field (u ''log_id''), Lit (u ''/{}'')]))]
     \<lparr>sc_log_id = lit ''prod'', sc_purpose = DECISION, sc_kind = PNone, sc_policy_id = PNone, sc_approver_id = PNone\<rparr>
   = Inr (u ''vault://prod/{}'')"
proof -
  have "\<forall>c\<in>set (u ''log_id''). \<not> field_end c" by (simp add: u_def field_end_def)
  moreover have "lookup_field (context_args utc_runtime
      \<lparr>sc_log_id = lit ''prod'', sc_purpose = DECISION, sc_kind = PNone, sc_policy_id = PNone, sc_approver_id = PNone\<rparr>) (u ''log_id'')
      = Inr (u ''prod'')"
    by (simp add: lookup_field_def context_args_def) (simp add: u_def is_digit_def)
  ultimately show ?thesis
    using template_resolves [of "[(DECISION, concat (map piece_text [Lit (u ''vault://''), Field (u ''log_id''), Lit (u ''/{}'')]))]"
        "\<lparr>sc_log_id = lit ''prod'', sc_purpose = DECISION, sc_kind = PNone, sc_policy_id = PNone, sc_approver_id = PNone\<rparr>"
        "[Lit (u ''vault://''), Field (u ''log_id''), Lit (u ''/{}'')]" utc_runtime "\<lambda>s. Inl OtherError"]
    by (simp add: u_def)
qed


end
