(* ===== verification/Custody.thy ===== *)
theory Custody
  imports Scenario Signing
begin

section \<open>Signing on the server\<close>

text \<open>
  The service with a signing service injected: organisation keys in memory sign the decisions and the
  checkpoints.  Its world is that of the stores next to that of the keys, with the caches around
  both; the stores are lifted to it.  Every contract survives the lifting, so that the guarantees of
  \<open>Guarantees\<close> hold for this composition as well.
\<close>

subsection \<open>A store in a larger world\<close>

definition lift_eff :: "('w \<Rightarrow> 's) \<Rightarrow> ('s \<Rightarrow> 'w \<Rightarrow> 'w) \<Rightarrow> ('s, exn, 'a) eff \<Rightarrow> ('w, exn, 'a) eff" where
  "lift_eff get put m w = (case m (get w) of (r, t) \<Rightarrow> (r, put t w))"

definition lift_events :: "('w \<Rightarrow> 's) \<Rightarrow> ('s \<Rightarrow> 'w \<Rightarrow> 'w) \<Rightarrow> 's event_store \<Rightarrow> 'w event_store" where
  "lift_events get put es =
     \<lparr>es_log_id = es_log_id es, es_head = lift_eff get put (es_head es),
      es_append = (\<lambda>e. lift_eff get put (es_append es e)),
      es_get_by_seq = (\<lambda>n. lift_eff get put (es_get_by_seq es n)),
      es_events_for_request = (\<lambda>rid. lift_eff get put (es_events_for_request es rid)),
      es_scan = (\<lambda>start limit. lift_eff get put (es_scan es start limit)),
      es_leaf_hashes = (\<lambda>up_to. lift_eff get put (es_leaf_hashes es up_to)),
      es_latest_checkpoint = lift_eff get put (es_latest_checkpoint es)\<rparr>"

definition lift_projections :: "('w \<Rightarrow> 's) \<Rightarrow> ('s \<Rightarrow> 'w \<Rightarrow> 'w) \<Rightarrow> 's projection_store \<Rightarrow> 'w projection_store" where
  "lift_projections get put pj =
     \<lparr>pj_upsert = (\<lambda>v. lift_eff get put (pj_upsert pj v)), pj_get = (\<lambda>rid. lift_eff get put (pj_get pj rid)),
      pj_query = (\<lambda>q. lift_eff get put (pj_query pj q)), pj_clear = lift_eff get put (pj_clear pj)\<rparr>"

definition lift_idempotency :: "('w \<Rightarrow> 's) \<Rightarrow> ('s \<Rightarrow> 'w \<Rightarrow> 'w) \<Rightarrow> 's idempotency_store \<Rightarrow> 'w idempotency_store" where
  "lift_idempotency get put idem =
     \<lparr>id_reserve = (\<lambda>k fp. lift_eff get put (id_reserve idem k fp)),
      id_complete = (\<lambda>k resp. lift_eff get put (id_complete idem k resp)),
      id_release = (\<lambda>k. lift_eff get put (id_release idem k))\<rparr>"

lemma lift_run: "lift_eff get put m w = (r, w') \<longleftrightarrow> (\<exists>t. m (get w) = (r, t) \<and> w' = put t w)"
  by (auto simp: lift_eff_def split: prod.splits)

lemma lifted_contract:
  assumes "event_store_contract es log env ok" "\<And>t w. get (put t w) = t" "\<And>t w. side (put t w) = side w"
  shows "event_store_contract (lift_events get put es) (\<lambda>w. log (get w)) env (\<lambda>w. ok (get w) \<and> side w)"
proof (unfold_locales, goal_cases)
  note run = lift_events_def event_store.simps lift_run
  case (5 s rh t)
  then obtain t' where "es_head es (get s) = (rh, t')" "t = put t' s" by (auto simp: run)
  with event_store_contract.head [OF assms(1) _ this(1)] 5 show ?case by (simp add: assms(2,3))
next
  note run = lift_events_def event_store.simps lift_run
  case (6 s e v t)
  then obtain t' where "es_append es e (get s) = (Inr v, t')" "t = put t' s" by (auto simp: run)
  with event_store_contract.append_done [OF assms(1) _ _ _ _ this(1)] 6 show ?case by (simp add: assms(2,3))
next
  note run = lift_events_def event_store.simps lift_run
  case (7 s e x t)
  then obtain t' where "es_append es e (get s) = (Inl x, t')" "t = put t' s" by (auto simp: run)
  with event_store_contract.append_failed [OF assms(1) _ _ this(1)] 7 show ?case by (simp add: assms(2,3))
next
  note run = lift_events_def event_store.simps lift_run
  case (8 s n rg t)
  then obtain t' where "es_get_by_seq es n (get s) = (rg, t')" "t = put t' s" by (auto simp: run)
  with event_store_contract.get_by_seq [OF assms(1) _ this(1)] 8 show ?case by (simp add: assms(2,3))
next
  note run = lift_events_def event_store.simps lift_run
  case (9 s rid re t)
  then obtain t' where "es_events_for_request es rid (get s) = (re, t')" "t = put t' s" by (auto simp: run)
  with event_store_contract.events_for_request [OF assms(1) _ this(1)] 9 show ?case by (simp add: assms(2,3))
next
  note run = lift_events_def event_store.simps lift_run
  case (10 s start limit rs t)
  then obtain t' where "es_scan es start limit (get s) = (rs, t')" "t = put t' s" by (auto simp: run)
  with event_store_contract.scan [OF assms(1) _ this(1)] 10 show ?case by (simp add: assms(2,3))
next
  note run = lift_events_def event_store.simps lift_run
  case (11 s up_to rl t)
  then obtain t' where "es_leaf_hashes es up_to (get s) = (rl, t')" "t = put t' s" by (auto simp: run)
  with event_store_contract.leaf_hashes [OF assms(1) _ this(1)] 11 show ?case by (simp add: assms(2,3))
next
  note run = lift_events_def event_store.simps lift_run
  case (12 s rc t)
  then obtain t' where "es_latest_checkpoint es (get s) = (rc, t')" "t = put t' s" by (auto simp: run)
  with event_store_contract.latest_checkpoint [OF assms(1) _ this(1)] 12 show ?case by (simp add: assms(2,3))
qed (use event_store_contract.env_refl [OF assms(1)] event_store_contract.env_trans [OF assms(1)]
    event_store_contract.env_prefix [OF assms(1)] event_store_contract.env_intact [OF assms(1)] in blast)+

subsection \<open>The composition\<close>

type_synonym 'p site = "(mem \<times> 'p vault) signing_world"

definition site_mem :: "'p site \<Rightarrow> mem" where
  "site_mem w = fst (w_inner w)"

definition put_mem :: "mem \<Rightarrow> 'p site \<Rightarrow> 'p site" where
  "put_mem t w = w\<lparr>w_inner := (t, snd (w_inner w))\<rparr>"

text \<open>Organisation keys in the vault half of the world.\<close>

definition org_signing :: "('k, 'p) crypto \<Rightarrow> purposes \<Rightarrow> int \<Rightarrow> int \<Rightarrow> (mem \<times> 'p vault) SigningService" where
  "org_signing C mapping pubkey_ttl signer_ttl =
     \<lparr>si_provider = InMemoryKeyProvider C (default_registry C)
        (\<lambda>s. case vault_token (snd s) of (r, v) \<Rightarrow> (r, (fst s, v))) (\<lambda>s. va_keys (snd s)),
      si_resolver = StaticKeyResolver mapping, si_pubkey_ttl = pubkey_ttl, si_signer_ttl = signer_ttl,
      si_now = (\<lambda>s. (Inr (va_now (snd s)), s))\<rparr>"

definition org_service ::
  "('k, 'p) crypto \<Rightarrow> purposes \<Rightarrow> pstr \<Rightarrow> KeyDirectory \<Rightarrow> Identities \<Rightarrow> PolicyStore \<Rightarrow> runtime \<Rightarrow> ('p site, 'k) ApprovalService" where
  "org_service C mapping l kd ids ps R =
     \<lparr>sv_events = lift_events site_mem put_mem (memory_events l), sv_key_dir = kd, sv_identities = ids,
      sv_policy = policy_store_get ps,
      sv_projections = Projections (lift_projections site_mem put_mem memory_projections),
      sv_idempotency = Some (lift_idempotency site_mem put_mem memory_idempotency),
      sv_now = lift_eff site_mem put_mem (\<lambda>s. (Inr (m_now s), s)),
      sv_signing = Some (as_signing (org_signing C mapping DEFAULT_PUBKEY_TTL DEFAULT_SIGNER_TTL)), sv_log_signer = None,
      sv_append_attempts = DEFAULT_APPEND_ATTEMPTS, sv_challenge_ttl = DEFAULT_CHALLENGE_TTL,
      sv_max_clock_skew = DEFAULT_CLOCK_SKEW, sv_sleep = (\<lambda>i. lift_eff site_mem put_mem (busy (mret ()))),
      sv_registry = default_registry C, sv_runtime = R\<rparr>"

lemma site_put [simp]: "site_mem (put_mem t w) = t" "w_signer_cache (put_mem t w) = w_signer_cache w"
  by (simp_all add: site_mem_def put_mem_def)

text \<open>Signers that only sign.\<close>

definition harmless :: "'s signer \<Rightarrow> bool" where
  "harmless sg \<longleftrightarrow> (\<forall>data s. snd (sg_sign sg data s) = s)"

definition site_ok :: "'p site \<Rightarrow> bool" where
  "site_ok w \<longleftrightarrow> (\<forall>r t sg. map_of (w_signer_cache w) r = Some (t, sg) \<longrightarrow> harmless sg)"

lemma site_put_ok [simp]: "site_ok (put_mem t w) = site_ok w"
  by (simp add: site_ok_def)

lemma org_resolve: "inner (resolve (si_resolver (org_signing C mapping p q)) ctx) w = (static_resolve mapping ctx, w)"
  by (simp add: inner_def org_signing_def mlift_def)

lemma org_now': "inner (si_now (org_signing C mapping p q)) w = (Inr (va_now (snd (w_inner w))), w)"
  by (simp add: inner_def org_signing_def)

lemma org_get: "inner (kp_get_signer (si_provider (org_signing C mapping p q)) r) w = (im_get C (va_keys (snd (w_inner w))) r, w)"
  by (simp add: inner_def org_signing_def InMemoryKeyProvider_def im_get_signer_def)

lemma im_harmless: "im_get C keys r = Inr sg \<Longrightarrow> harmless sg"
  using im_get_Inr by (fastforce simp: harmless_def)

lemma org_signer_for:
  assumes "signer_for (org_signing C mapping p q) ctx w = (res, w')" "site_ok w"
  shows "site_ok w' \<and> w_inner w' = w_inner w \<and> (\<forall>sg. res = Inr sg \<longrightarrow> harmless sg)"
  using assms
  by (auto simp: signer_for_def mbind_def org_resolve cached_def Let_def org_get org_now' mret_def keep_signer_def
      site_ok_def update_conv' split: sum.splits option.splits if_splits dest: im_harmless im_harmless [OF sym])
    (metis im_harmless)+

lemma harmless_signs: "harmless sg \<Longrightarrow> sign_with sg data s = (r, t) \<Longrightarrow> t = s"
  by (auto simp: sign_with_def mbind_def mlift_def mret_def harmless_def split: prod.splits sum.splits) (metis snd_conv)+

lemma harmless_wraps: "harmless sg \<Longrightarrow> wrap_async v ty [sg] s = (r, t) \<Longrightarrow> t = s"
  by (auto simp: wrap_async_def mbind_def mlift_def mret_def simp del: pae.simps split: prod.splits sum.splits dest: harmless_signs)

lemma org_signs_only:
  assumes "site_ok w"
  shows "service_sign_decision (org_signing C mapping p q) d ctx w = (r, w') \<Longrightarrow> site_ok w' \<and> w_inner w' = w_inner w"
    and "service_sign_checkpoint (org_signing C mapping p q) cp w = (r2, w') \<Longrightarrow> site_ok w' \<and> w_inner w' = w_inner w"
proof -
  assume run: "service_sign_decision (org_signing C mapping p q) d ctx w = (r, w')"
  obtain res w1 where s: "signer_for (org_signing C mapping p q) ctx w = (res, w1)" by fastforce
  note o = org_signer_for [OF s assms]
  show "site_ok w' \<and> w_inner w' = w_inner w"
    using run s o
    by (cases res) (auto simp: service_sign_decision_def mbind_def inner_def site_ok_def split: prod.splits dest: harmless_wraps)
next
  assume run: "service_sign_checkpoint (org_signing C mapping p q) cp w = (r2, w')"
  obtain res w1 where s: "signer_for (org_signing C mapping p q) (checkpoint_context cp) w = (res, w1)" by fastforce
  note o = org_signer_for [OF s assms]
  show "site_ok w' \<and> w_inner w' = w_inner w"
    using run s o
    by (cases res) (auto simp: service_sign_checkpoint_def sign_checkpoint_async_def mbind_def mlift_def inner_def site_ok_def
        split: prod.splits sum.splits dest: harmless_signs)
qed

interpretation site: event_store_contract "lift_events site_mem put_mem (memory_events l)" "\<lambda>w. m_entries (site_mem w)" "joined W"
    "\<lambda>w :: 'p site. busy_ok W (site_mem w) \<and> site_ok w"
  for l :: pstr and W :: "posting \<Rightarrow> bool"
  by (rule lifted_contract [OF shared.event_store_contract_axioms]) simp_all

lemma site_quiet:
  assumes "shared.quiet W m"
  shows "site.quiet W (lift_eff site_mem put_mem m)"
  using assms unfolding site.quiet_def shared.quiet_def by (auto simp: lift_run)

lemma site_quiet_inner:
  "(\<And>w r w'. site_ok w \<Longrightarrow> m w = (r, w') \<Longrightarrow> site_ok w' \<and> w_inner w' = w_inner w) \<Longrightarrow> site.quiet W m"
  unfolding site.quiet_def by (metis joined.same site_mem_def)

interpretation org: approval_service "org_service C mapping l kd ids ps R" "\<lambda>w. m_entries (site_mem w)" "joined W"
    "\<lambda>w :: 'p site. busy_ok W (site_mem w) \<and> site_ok w"
  for C :: "('k, 'p) crypto" and mapping l kd ids ps R W
proof (rule approval_service.intro, goal_cases)
  case 1
  show ?case using site.event_store_contract_axioms [of l W] by (simp add: org_service_def)
next
  case 2
  have pure: "shared.quiet W m" if "\<And>s. snd (m s) = s" for m :: "(mem, exn, 'x) eff"
    unfolding shared.quiet_def using that joined.same by (metis snd_conv)
  show ?case
  proof (rule approval_service_axioms.intro, goal_cases)
    case 1
    show ?case by (simp add: org_service_def) (intro site_quiet pure, simp)
  next
    case (2 i)
    show ?case
      by (simp add: org_service_def)
        (intro site_quiet, unfold shared.quiet_def, auto simp: busy_def mret_def dest: others_act_ok)
  next
    case (3 p v rid q)
    then show ?case
      by (auto simp: org_service_def lift_projections_def memory_projections_def intro!: site_quiet shared_quiet dest: mem_keeps_log)
  next
    case (4 m key fp resp)
    then show ?case
      by (auto simp: org_service_def lift_idempotency_def memory_idempotency_def intro!: site_quiet shared_quiet dest: mem_keeps_log)
  next
    case (5 sn d cx cp)
    then have sn: "sn = as_signing (org_signing C mapping DEFAULT_PUBKEY_TTL DEFAULT_SIGNER_TTL)"
      by (simp add: org_service_def)
    show ?case unfolding sn as_signing_def signing.simps
      by (intro conjI; rule site_quiet_inner) (auto dest: org_signs_only)
  qed (simp add: org_service_def)
qed


subsection \<open>Evidence\<close>

lemma plain_site_call: "plain_call c \<Longrightarrow> org.quiet_call W c"
proof (cases c rule: plain_call.cases)
  case (1 rid a v sg c' k authn)
  assume "plain_call c"
  then show ?thesis using 1 joined.same
    by (auto simp: site.quiet_def split: option.splits) (metis snd_conv joined.same)+
qed auto

text \<open>C2: custody.  With organisation keys signing on the server, whatever calls the service handles and
  whatever other writers post to the log, each posting made for the head it follows, the chain stays
  intact, nothing is lost, and every recorded decision that is not a posting of the others is backed by an
  envelope authorized for the approver it names and bound to its request.\<close>

theorem custodial_service_keeps_evidence:
  assumes "\<forall>c\<in>set cs. plain_call c" "index_ok (site_mem w)" "site_ok w" "intact (m_entries (site_mem w))"
    and "backed_unless (\<lambda>e. posting_of e \<in> posted (site_mem w)) (org_service C mapping l kd ids ps R) (m_entries (site_mem w))"
  shows "intact (m_entries (site_mem (serve (org_service C mapping l kd ids ps R) cs w))) \<and>
    prefix (m_entries (site_mem w)) (m_entries (site_mem (serve (org_service C mapping l kd ids ps R) cs w))) \<and>
    backed_unless (\<lambda>e. posting_of e \<in> posted (site_mem w)) (org_service C mapping l kd ids ps R)
      (m_entries (site_mem (serve (org_service C mapping l kd ids ps R) cs w)))"
proof -
  let ?sv = "org_service C mapping l kd ids ps R" and ?W = "\<lambda>x. x \<in> posted (site_mem w)"
  have cs: "\<forall>c\<in>set cs. org.quiet_call ?W c" using assms(1) plain_site_call by blast
  have g: "intact (m_entries (site_mem (serve ?sv cs w)))"
    "site.grows ?W (legit ?sv) (m_entries (site_mem w)) (m_entries (site_mem (serve ?sv cs w)))"
    using org.serve_grows [OF cs, of w C mapping l kd ids ps R] busy_posted [OF assms(2)] assms(3,4) by simp_all
  have "backed_unless (\<lambda>e. posting_of e \<in> posted (site_mem w)) ?sv (m_entries (site_mem (serve ?sv cs w)))"
    by (rule org.grows_backed [OF g(2) assms(5)]) (rule joined_posted)
  then show ?thesis using g org.grows_prefix [OF g(2)] by blast
qed

text \<open>Al asks the service to decide with the key of the organisation, while somebody else writes a memo.\<close>

definition org_site :: "bytes site" where
  "org_site = new_world (wn, example_vault)"

abbreviation org_dir :: KeyDirectory where
  "org_dir \<equiv> [(k_keyid (org_key (u ''org'') (u ''decision_issuer'')), org_key (u ''org'') (u ''decision_issuer''))]"

definition org_run :: "bytes site" where
  "org_run = serve (org_service echo_crypto [(DECISION, org_ref)] (u ''log'') org_dir [] [(u ''p'', example_policy)] utc_runtime)
     [Submit (PStr (qid pinned)) (lit ''al'') (lit ''approve'') None (lit '''') PNone PNone, PublishCheckpoint] org_site"

lemma custodial_service_keeps_evidence_witness:
  "intact (m_entries (site_mem org_run)) \<and> prefix [e0 pinned] (m_entries (site_mem org_run)) \<and>
   backed_unless (\<lambda>e. posting_of e = memo)
     (org_service echo_crypto [(DECISION, org_ref)] (u ''log'') org_dir [] [(u ''p'', example_policy)] utc_runtime)
     (m_entries (site_mem org_run))"
proof -
  have w: "site_mem org_site = wn" "site_ok org_site"
    by (simp_all add: org_site_def site_mem_def new_world_def site_ok_def)
  have "posted wn = {memo}" by (simp add: wn_def posted_def)
  moreover have "index_ok wn" using wn(1) by (simp add: busy_ok_def)
  moreover have "backed_unless V (org_service echo_crypto [(DECISION, org_ref)] (u ''log'') org_dir [] [(u ''p'', example_policy)] utc_runtime)
      [e0 pinned]" for V
    using e0_fields(2) [OF pinned_clean] by (simp add: backed_unless_def)
  ultimately show ?thesis
    using custodial_service_keeps_evidence [where w = org_site and C = echo_crypto and
        mapping = "[(DECISION, org_ref)]" and l = "u ''log''" and kd = org_dir and ids = "[]" and
        ps = "[(u ''p'', example_policy)]" and R = utc_runtime and
        cs = "[Submit (PStr (qid pinned)) (lit ''al'') (lit ''approve'') None (lit '''') PNone PNone, PublishCheckpoint]"]
      wn w by (simp add: org_run_def)
qed


end
