(* ===== verification/Kms.thy ===== *)
theory Kms
  imports Providers
begin

section \<open>Remote key providers\<close>

text \<open>
  \<^verbatim>\<open>src/approvo/providers/\<close>: keys that never leave a key management service.  The client of each
  service is a parameter, with the fields the code reads from its responses; so are the two ways the
  \<^verbatim>\<open>cryptography\<close> package turns a PEM text into bytes.  What the code adds is the choice of scheme,
  hash and encoding: \<open>aws_contract\<close>, \<open>gcp_contract\<close> and \<open>vault_verifies\<close> say that it is the right one,
  for a service that signs with the algorithm it is asked for; for Vault, of the ECDSA types only.
\<close>

definition RemoteSigner :: "pstr \<Rightarrow> bytes \<Rightarrow> (bytes \<Rightarrow> ('s, exn, bytes) eff) \<Rightarrow> 's signer" where
  "RemoteSigner scheme public raw_sign =
     \<lparr>sg_algorithm = scheme, sg_key_id = Inr (keyid_for public), sg_sign = raw_sign,
      sg_public_material = \<lparr>m_scheme = scheme, m_public = public\<rparr>\<rparr>"

record pem_reader =
  pem_spki :: "pstr \<Rightarrow> exn + bytes"
  pem_ed_raw :: "pstr \<Rightarrow> exn + bytes"

subsection \<open>AWS KMS\<close>

record 's aws_client =
  aws_get_public_key :: "pstr \<Rightarrow> ('s, exn, pstr \<times> bytes) eff"
  aws_sign :: "pstr \<Rightarrow> bytes \<Rightarrow> pstr \<Rightarrow> ('s, exn, bytes) eff"

definition KEYSPEC_MAP :: "(pstr \<times> pstr \<times> pstr) list" where
  "KEYSPEC_MAP =
     [(u ''ECC_NIST_P256'', ECDSA_P256_SHA256, u ''ECDSA_SHA_256''),
      (u ''ECC_NIST_P384'', ECDSA_P384_SHA384, u ''ECDSA_SHA_384''),
      (u ''RSA_2048'', RSA_PSS_SHA256, u ''RSASSA_PSS_SHA_256''),
      (u ''RSA_3072'', RSA_PSS_SHA256, u ''RSASSA_PSS_SHA_256''),
      (u ''RSA_4096'', RSA_PSS_SHA256, u ''RSASSA_PSS_SHA_256'')]"

definition aws_key_id :: "pstr \<Rightarrow> exn + pstr" where
  "aws_key_id key_ref =
     sbind (parse_key_ref key_ref) (\<lambda>(_, rest). if rest = [] then Inl KeyProviderError else Inr rest)"

text \<open>\<open>kms\<close> gives the client: the one that was passed in, or one that is made on first use.\<close>

definition aws_describe :: "('s, exn, 's aws_client) eff \<Rightarrow> pstr \<Rightarrow> ('s, exn, pstr \<times> pstr \<times> bytes) eff" where
  "aws_describe kms key_ref =
     mbind kms (\<lambda>client.
     mbind (mlift (aws_key_id key_ref)) (\<lambda>key_id.
     mbind (aws_get_public_key client key_id) (\<lambda>(spec, spki).
     case map_of KEYSPEC_MAP spec of
       None \<Rightarrow> mraise KeyProviderError
     | Some (scheme, signing_algo) \<Rightarrow> mret (scheme, signing_algo, spki))))"

definition aws_public :: "('s, exn, 's aws_client) eff \<Rightarrow> pstr \<Rightarrow> ('s, exn, PublicKeyMaterial) eff" where
  "aws_public kms key_ref =
     mbind (aws_describe kms key_ref) (\<lambda>(scheme, _, spki). mret \<lparr>m_scheme = scheme, m_public = spki\<rparr>)"

definition aws_get_signer :: "('s, exn, 's aws_client) eff \<Rightarrow> pstr \<Rightarrow> ('s, exn, 's signer) eff" where
  "aws_get_signer kms key_ref =
     mbind (aws_describe kms key_ref) (\<lambda>(scheme, signing_algo, spki).
     mbind (mlift (aws_key_id key_ref)) (\<lambda>key_id.
     mret (RemoteSigner scheme spki (\<lambda>data. mbind kms (\<lambda>client. aws_sign client key_id data signing_algo)))))"

definition AwsKmsKeyProvider ::
  "'k registry \<Rightarrow> ('s, exn, bytes) eff \<Rightarrow> ('s, exn, 's aws_client) eff \<Rightarrow> 's key_provider" where
  "AwsKmsKeyProvider reg token_bytes kms =
     \<lparr>kp_schemes = [u ''awskms''], kp_get_signer = aws_get_signer kms, kp_get_public_key = aws_public kms,
      kp_list_keys = base_list_keys, kp_self_test = base_self_test reg token_bytes (aws_get_signer kms)\<rparr>"

subsection \<open>GCP Cloud KMS\<close>

datatype gcp_message = GcpData bytes | GcpDigest pstr bytes

text \<open>The response to \<open>get_public_key\<close> is the name of the algorithm and the key as PEM.\<close>

record 's gcp_client =
  gcp_get_public_key :: "pstr \<Rightarrow> ('s, exn, pstr \<times> pstr) eff"
  gcp_asymmetric_sign :: "pstr \<Rightarrow> gcp_message \<Rightarrow> ('s, exn, bytes) eff"

definition ALGO_MAP :: "(pstr \<times> pstr \<times> pstr option) list" where
  "ALGO_MAP =
     [(u ''EC_SIGN_P256_SHA256'', ECDSA_P256_SHA256, Some (u ''sha256'')),
      (u ''EC_SIGN_P384_SHA384'', ECDSA_P384_SHA384, Some (u ''sha384'')),
      (u ''EC_SIGN_ED25519'', ED25519, None),
      (u ''RSA_SIGN_PSS_2048_SHA256'', RSA_PSS_SHA256, Some (u ''sha256'')),
      (u ''RSA_SIGN_PSS_3072_SHA256'', RSA_PSS_SHA256, Some (u ''sha256'')),
      (u ''RSA_SIGN_PSS_4096_SHA256'', RSA_PSS_SHA256, Some (u ''sha256'')),
      (u ''RSA_SIGN_PKCS1_2048_SHA256'', RSA_PKCS1_SHA256, Some (u ''sha256'')),
      (u ''RSA_SIGN_PKCS1_3072_SHA256'', RSA_PKCS1_SHA256, Some (u ''sha256'')),
      (u ''RSA_SIGN_PKCS1_4096_SHA256'', RSA_PKCS1_SHA256, Some (u ''sha256''))]"

definition gcp_name :: "pstr \<Rightarrow> exn + pstr" where
  "gcp_name key_ref =
     sbind (parse_key_ref key_ref) (\<lambda>(_, rest). if prefix (u ''projects/'') rest then Inr rest else Inl KeyProviderError)"

definition gcp_describe :: "pem_reader \<Rightarrow> 's gcp_client \<Rightarrow> pstr \<Rightarrow> ('s, exn, pstr \<times> pstr option \<times> pstr) eff" where
  "gcp_describe pem client key_ref =
     mbind (mlift (gcp_name key_ref)) (\<lambda>name.
     mbind (gcp_get_public_key client name) (\<lambda>(algo_name, text).
     case map_of ALGO_MAP algo_name of
       None \<Rightarrow> mraise KeyProviderError
     | Some (scheme, digest) \<Rightarrow>
         mbind (mlift (if scheme = ED25519 then pem_ed_raw pem text else pem_spki pem text)) (\<lambda>public.
         mret (scheme, digest, to_hex public))))"

definition gcp_public :: "pem_reader \<Rightarrow> 's gcp_client \<Rightarrow> pstr \<Rightarrow> ('s, exn, PublicKeyMaterial) eff" where
  "gcp_public pem client key_ref =
     mbind (gcp_describe pem client key_ref) (\<lambda>(scheme, _, public_hex).
     mbind (mlift (from_hex public_hex)) (\<lambda>public. mret \<lparr>m_scheme = scheme, m_public = public\<rparr>))"

definition gcp_raw_sign :: "'s gcp_client \<Rightarrow> pstr \<Rightarrow> pstr option \<Rightarrow> bytes \<Rightarrow> ('s, exn, bytes) eff" where
  "gcp_raw_sign client name digest data =
     (case digest of
        None \<Rightarrow> gcp_asymmetric_sign client name (GcpData data)
      | Some h \<Rightarrow> mbind (mlift (hash_new h data)) (\<lambda>d. gcp_asymmetric_sign client name (GcpDigest h d)))"

definition gcp_get_signer :: "pem_reader \<Rightarrow> 's gcp_client \<Rightarrow> pstr \<Rightarrow> ('s, exn, 's signer) eff" where
  "gcp_get_signer pem client key_ref =
     mbind (mlift (gcp_name key_ref)) (\<lambda>name.
     mbind (gcp_describe pem client key_ref) (\<lambda>(scheme, digest, public_hex).
     mbind (mlift (from_hex public_hex)) (\<lambda>public.
     mret (RemoteSigner scheme public (gcp_raw_sign client name digest)))))"

definition GcpKmsKeyProvider ::
  "'k registry \<Rightarrow> ('s, exn, bytes) eff \<Rightarrow> pem_reader \<Rightarrow> 's gcp_client \<Rightarrow> 's key_provider" where
  "GcpKmsKeyProvider reg token_bytes pem client =
     \<lparr>kp_schemes = [u ''gcpkms''], kp_get_signer = gcp_get_signer pem client, kp_get_public_key = gcp_public pem client,
      kp_list_keys = base_list_keys, kp_self_test = base_self_test reg token_bytes (gcp_get_signer pem client)\<rparr>"

subsection \<open>Vault\<close>

text \<open>
  What \<open>read_key\<close> answers: the type of the key, its latest version, and the public key of each version.
  \<open>sign_data\<close> takes the name, the input in base64, the mount and, unless the key hashes for itself, the
  hash to use.
\<close>

record vault_key =
  vk_type :: pstr
  vk_latest :: int
  vk_keys :: "(pstr \<times> pstr) list"

record 's vault_client =
  vt_read_key :: "pstr \<Rightarrow> pstr \<Rightarrow> ('s, exn, vault_key) eff"
  vt_sign_data :: "pstr \<Rightarrow> pstr \<Rightarrow> pstr \<Rightarrow> pstr option \<Rightarrow> ('s, exn, pstr) eff"

definition TYPE_MAP :: "(pstr \<times> pstr \<times> pstr option \<times> pstr option) list" where
  "TYPE_MAP =
     [(u ''ed25519'', ED25519, None, None),
      (u ''ecdsa-p256'', ECDSA_P256_SHA256, Some (u ''sha2-256''), Some (u ''sha256'')),
      (u ''ecdsa-p384'', ECDSA_P384_SHA384, Some (u ''sha2-384''), Some (u ''sha384'')),
      (u ''rsa-2048'', RSA_PSS_SHA256, Some (u ''sha2-256''), Some (u ''sha256'')),
      (u ''rsa-3072'', RSA_PSS_SHA256, Some (u ''sha2-256''), Some (u ''sha256'')),
      (u ''rsa-4096'', RSA_PSS_SHA256, Some (u ''sha2-256''), Some (u ''sha256''))]"

definition vault_parts :: "pstr \<Rightarrow> exn + pstr \<times> pstr" where
  "vault_parts key_ref =
     sbind (parse_key_ref key_ref) (\<lambda>(_, rest).
     case py_partition (u ''/'') rest of
       None \<Rightarrow> Inl KeyProviderError
     | Some (mount, name) \<Rightarrow> if name = [] then Inl KeyProviderError else Inr (mount, name))"

definition vault_describe ::
  "pem_reader \<Rightarrow> 's vault_client \<Rightarrow> pstr \<Rightarrow> ('s, exn, pstr \<times> pstr option \<times> pstr option \<times> bytes) eff" where
  "vault_describe pem client key_ref =
     mbind (mlift (vault_parts key_ref)) (\<lambda>(mount, name).
     mbind (vt_read_key client name mount) (\<lambda>data.
     case map_of TYPE_MAP (vk_type data) of
       None \<Rightarrow> mraise KeyProviderError
     | Some (scheme, hash_algo, digest_name) \<Rightarrow>
         (case map_of (vk_keys data) (int_repr (vk_latest data)) of
            None \<Rightarrow> mraise KeyError
          | Some text \<Rightarrow>
              mbind (mlift (if scheme = ED25519 then pem_ed_raw pem text else pem_spki pem text)) (\<lambda>public.
              mret (scheme, hash_algo, digest_name, public)))))"

definition vault_public :: "pem_reader \<Rightarrow> 's vault_client \<Rightarrow> pstr \<Rightarrow> ('s, exn, PublicKeyMaterial) eff" where
  "vault_public pem client key_ref =
     mbind (vault_describe pem client key_ref) (\<lambda>(scheme, _, _, public). mret \<lparr>m_scheme = scheme, m_public = public\<rparr>)"

text \<open>\<open>s.split(":", 2)[2]\<close>\<close>

definition third_part :: "pstr \<Rightarrow> exn + pstr" where
  "third_part s = (case py_partition (u '':'') s of
       None \<Rightarrow> Inl IndexError
     | Some (_, rest) \<Rightarrow> (case py_partition (u '':'') rest of None \<Rightarrow> Inl IndexError | Some (_, third) \<Rightarrow> Inr third))"

definition vault_raw_sign :: "'s vault_client \<Rightarrow> pstr \<Rightarrow> pstr \<Rightarrow> pstr option \<Rightarrow> bytes \<Rightarrow> ('s, exn, bytes) eff" where
  "vault_raw_sign client mount name hash_algo data =
     mbind (vt_sign_data client name (b64encode data) mount hash_algo) (\<lambda>sig_field.
     mlift (sbind (third_part sig_field) (\<lambda>b. b64decode (PStr b))))"

definition vault_get_signer :: "pem_reader \<Rightarrow> 's vault_client \<Rightarrow> pstr \<Rightarrow> ('s, exn, 's signer) eff" where
  "vault_get_signer pem client key_ref =
     mbind (mlift (vault_parts key_ref)) (\<lambda>(mount, name).
     mbind (vault_describe pem client key_ref) (\<lambda>(scheme, hash_algo, _, public).
     mret (RemoteSigner scheme public (vault_raw_sign client mount name hash_algo))))"

definition VaultTransitKeyProvider ::
  "'k registry \<Rightarrow> ('s, exn, bytes) eff \<Rightarrow> pem_reader \<Rightarrow> 's vault_client \<Rightarrow> 's key_provider" where
  "VaultTransitKeyProvider reg token_bytes pem client =
     \<lparr>kp_schemes = [u ''vault''], kp_get_signer = vault_get_signer pem client, kp_get_public_key = vault_public pem client,
      kp_list_keys = base_list_keys, kp_self_test = base_self_test reg token_bytes (vault_get_signer pem client)\<rparr>"

subsection \<open>The right algorithm\<close>

text \<open>
  What a signature with an algorithm of the service is, in terms of the package: \<open>ecdsa_ok\<close> over the
  digest with the named hash, \<open>pss_ok\<close> and \<open>pkcs1_ok\<close> over the message with SHA-256, \<open>ed_ok\<close> over the
  message itself.
\<close>

definition ecdsa_ok :: "('k, 'p) crypto \<Rightarrow> pstr \<Rightarrow> bytes \<Rightarrow> bytes \<Rightarrow> bytes \<Rightarrow> bool" where
  "ecdsa_ok C h spki sig digest \<longleftrightarrow> (\<exists>k. load_der C spki = Inr k \<and> ec_verify_digest C k sig digest h = Inr ())"

definition pss_ok :: "('k, 'p) crypto \<Rightarrow> bytes \<Rightarrow> bytes \<Rightarrow> bytes \<Rightarrow> bool" where
  "pss_ok C spki sig msg \<longleftrightarrow> (\<exists>k. load_der C spki = Inr k \<and> pss_verify_sha256 C k sig msg = Inr ())"

definition pkcs1_ok :: "('k, 'p) crypto \<Rightarrow> bytes \<Rightarrow> bytes \<Rightarrow> bytes \<Rightarrow> bool" where
  "pkcs1_ok C spki sig msg \<longleftrightarrow> (\<exists>k. load_der C spki = Inr k \<and> pkcs1_verify_sha256 C k sig msg = Inr ())"

definition ed_ok :: "('k, 'p) crypto \<Rightarrow> bytes \<Rightarrow> bytes \<Rightarrow> bytes \<Rightarrow> bool" where
  "ed_ok C raw sig msg \<longleftrightarrow> (\<exists>k. ed_from_bytes C raw = Inr k \<and> ed_verify_sig C k sig msg = Inr ())"

lemma scheme_verifies:
  "ecdsa_ok C (u ''sha256'') pk sig (sha256 msg) \<Longrightarrow> verifies (default_registry C) \<lparr>m_scheme = ECDSA_P256_SHA256, m_public = pk\<rparr> sig msg = Inr ()"
  "ecdsa_ok C (u ''sha384'') pk sig (sha384 msg) \<Longrightarrow> verifies (default_registry C) \<lparr>m_scheme = ECDSA_P384_SHA384, m_public = pk\<rparr> sig msg = Inr ()"
  "pss_ok C pk sig msg \<Longrightarrow> verifies (default_registry C) \<lparr>m_scheme = RSA_PSS_SHA256, m_public = pk\<rparr> sig msg = Inr ()"
  "pkcs1_ok C pk sig msg \<Longrightarrow> verifies (default_registry C) \<lparr>m_scheme = RSA_PKCS1_SHA256, m_public = pk\<rparr> sig msg = Inr ()"
  "ed_ok C pk sig msg \<Longrightarrow> verifies (default_registry C) \<lparr>m_scheme = ED25519, m_public = pk\<rparr> sig msg = Inr ()"
proof -
  note s = verifies_def get_scheme_def default_registry_def
  note d = ecdsa_ok_def pss_ok_def pkcs1_ok_def ed_ok_def ec_verifier_def hash_new_def rsa_pss_verify_def rsa_pkcs1_verify_def ed_verify_def
  show "ecdsa_ok C (u ''sha256'') pk sig (sha256 msg) \<Longrightarrow> verifies (default_registry C) \<lparr>m_scheme = ECDSA_P256_SHA256, m_public = pk\<rparr> sig msg = Inr ()"
    "ecdsa_ok C (u ''sha384'') pk sig (sha384 msg) \<Longrightarrow> verifies (default_registry C) \<lparr>m_scheme = ECDSA_P384_SHA384, m_public = pk\<rparr> sig msg = Inr ()"
    "pss_ok C pk sig msg \<Longrightarrow> verifies (default_registry C) \<lparr>m_scheme = RSA_PSS_SHA256, m_public = pk\<rparr> sig msg = Inr ()"
    "pkcs1_ok C pk sig msg \<Longrightarrow> verifies (default_registry C) \<lparr>m_scheme = RSA_PKCS1_SHA256, m_public = pk\<rparr> sig msg = Inr ()"
    "ed_ok C pk sig msg \<Longrightarrow> verifies (default_registry C) \<lparr>m_scheme = ED25519, m_public = pk\<rparr> sig msg = Inr ()"
    by (auto simp: s d scheme_names)
qed

lemma RemoteSigner_ready:
  "(\<And>data s sig t. raw data s = (Inr sig, t) \<Longrightarrow> verifies reg \<lparr>m_scheme = scheme, m_public = public\<rparr> sig data = Inr ()) \<Longrightarrow>
     ready reg trusted (\<lambda>_. h) (RemoteSigner scheme public raw)"
  by (auto simp: ready_def RemoteSigner_def m_keyid_def)

lemma RemoteSigner_material [simp]: "sg_public_material (RemoteSigner scheme public raw) = \<lparr>m_scheme = scheme, m_public = public\<rparr>"
  by (simp add: RemoteSigner_def)

subsubsection \<open>AWS\<close>

definition aws_algorithm :: "('k, 'p) crypto \<Rightarrow> pstr \<Rightarrow> bytes \<Rightarrow> bytes \<Rightarrow> bytes \<Rightarrow> bool" where
  "aws_algorithm C algo spki sig msg \<longleftrightarrow>
     (algo = u ''ECDSA_SHA_256'' \<longrightarrow> ecdsa_ok C (u ''sha256'') spki sig (sha256 msg)) \<and>
     (algo = u ''ECDSA_SHA_384'' \<longrightarrow> ecdsa_ok C (u ''sha384'') spki sig (sha384 msg)) \<and>
     (algo = u ''RSASSA_PSS_SHA_256'' \<longrightarrow> pss_ok C spki sig msg)"

text \<open>A service that gives out the public half of the key it signs with, and signs as it is asked to.\<close>

definition honest_aws :: "('k, 'p) crypto \<Rightarrow> 's aws_client \<Rightarrow> (pstr \<Rightarrow> (pstr \<times> bytes) option) \<Rightarrow> bool" where
  "honest_aws C client keys \<longleftrightarrow>
     (\<forall>k s r t. aws_get_public_key client k s = (Inr r, t) \<longrightarrow> keys k = Some r) \<and>
     (\<forall>k msg algo s sig t spec spki. aws_sign client k msg algo s = (Inr sig, t) \<longrightarrow> keys k = Some (spec, spki) \<longrightarrow>
        aws_algorithm C algo spki sig msg)"

definition aws_holds :: "(pstr \<Rightarrow> (pstr \<times> bytes) option) \<Rightarrow> pstr \<Rightarrow> PublicKeyMaterial option" where
  "aws_holds keys r = (case aws_key_id r of Inl e \<Rightarrow> None
     | Inr k \<Rightarrow> Option.bind (keys k) (\<lambda>(spec, spki).
         map_option (\<lambda>(scheme, algo). \<lparr>m_scheme = scheme, m_public = spki\<rparr>) (map_of KEYSPEC_MAP spec)))"

lemma aws_spec:
  assumes "map_of KEYSPEC_MAP spec = Some (scheme, algo)" "aws_algorithm C algo spki sig msg"
  shows "verifies (default_registry C) \<lparr>m_scheme = scheme, m_public = spki\<rparr> sig msg = Inr ()"
  using assms by (auto simp: KEYSPEC_MAP_def aws_algorithm_def scheme_verifies split: if_splits)

lemma aws_described:
  assumes "aws_describe kms r s = (Inr (scheme, algo, spki), t)" "\<And>s. kms s = (Inr client, s)" "honest_aws C client keys"
  shows "\<exists>k spec. aws_key_id r = Inr k \<and> keys k = Some (spec, spki) \<and> map_of KEYSPEC_MAP spec = Some (scheme, algo)"
  using assms by (auto simp: aws_describe_def mbind_eq_Inr mlift_run mret_def mraise_def honest_aws_def split: option.splits) blast

lemma aws_contract:
  assumes "honest_aws C client keys" "\<And>s. kms s = (Inr client, s)"
  shows "provider_contract (AwsKmsKeyProvider (default_registry C) token kms) (default_registry C) trusted (\<lambda>_. aws_holds keys)"
proof (unfold_locales, goal_cases)
  case (1 r s sg t)
  then obtain scheme algo spki k s1 where d: "aws_describe kms r s = (Inr (scheme, algo, spki), s1)" "aws_key_id r = Inr k"
    and sg: "sg = RemoteSigner scheme spki (\<lambda>data. mbind kms (\<lambda>client. aws_sign client k data algo))"
    by (auto simp: AwsKmsKeyProvider_def aws_get_signer_def mbind_eq_Inr mlift_run mret_def)
  obtain k' spec where k: "aws_key_id r = Inr k'" "keys k' = Some (spec, spki)" "map_of KEYSPEC_MAP spec = Some (scheme, algo)"
    using aws_described [OF d(1) assms(2,1)] by blast
  then have "ready (default_registry C) trusted (\<lambda>_. aws_holds keys) sg"
    unfolding sg using assms d(2) aws_spec
    by (intro RemoteSigner_ready) (fastforce simp: mbind_def honest_aws_def)
  then show ?case using k by (simp add: sg aws_holds_def)
next
  case (3 r s m t)
  then obtain scheme algo spki where d: "aws_describe kms r s = (Inr (scheme, algo, spki), t)" "m = \<lparr>m_scheme = scheme, m_public = spki\<rparr>"
    by (auto simp: AwsKmsKeyProvider_def aws_public_def mbind_eq_Inr mret_def)
  obtain k spec where "aws_key_id r = Inr k" "keys k = Some (spec, spki)" "map_of KEYSPEC_MAP spec = Some (scheme, algo)"
    using aws_described [OF d(1) assms(2,1)] by blast
  then show ?case by (simp add: d(2) aws_holds_def)
qed simp_all

subsubsection \<open>GCP\<close>

text \<open>
  The algorithm belongs to the key version; \<open>gcp_algorithm\<close> is what a signature of it is, for the
  message or the digest that was sent.
\<close>

definition gcp_algorithm :: "('k, 'p) crypto \<Rightarrow> pem_reader \<Rightarrow> pstr \<Rightarrow> pstr \<Rightarrow> bytes \<Rightarrow> gcp_message \<Rightarrow> bool" where
  "gcp_algorithm C pem algo text sig m \<longleftrightarrow>
     (\<forall>pk d. algo = u ''EC_SIGN_P256_SHA256'' \<and> m = GcpDigest (u ''sha256'') d \<and> pem_spki pem text = Inr pk \<longrightarrow>
        ecdsa_ok C (u ''sha256'') pk sig d) \<and>
     (\<forall>pk d. algo = u ''EC_SIGN_P384_SHA384'' \<and> m = GcpDigest (u ''sha384'') d \<and> pem_spki pem text = Inr pk \<longrightarrow>
        ecdsa_ok C (u ''sha384'') pk sig d) \<and>
     (\<forall>pk msg. algo = u ''EC_SIGN_ED25519'' \<and> m = GcpData msg \<and> pem_ed_raw pem text = Inr pk \<longrightarrow> ed_ok C pk sig msg) \<and>
     (\<forall>pk msg. algo \<in> {u ''RSA_SIGN_PSS_2048_SHA256'', u ''RSA_SIGN_PSS_3072_SHA256'', u ''RSA_SIGN_PSS_4096_SHA256''} \<and>
        m = GcpDigest (u ''sha256'') (sha256 msg) \<and> pem_spki pem text = Inr pk \<longrightarrow> pss_ok C pk sig msg) \<and>
     (\<forall>pk msg. algo \<in> {u ''RSA_SIGN_PKCS1_2048_SHA256'', u ''RSA_SIGN_PKCS1_3072_SHA256'', u ''RSA_SIGN_PKCS1_4096_SHA256''} \<and>
        m = GcpDigest (u ''sha256'') (sha256 msg) \<and> pem_spki pem text = Inr pk \<longrightarrow> pkcs1_ok C pk sig msg)"

definition honest_gcp :: "('k, 'p) crypto \<Rightarrow> pem_reader \<Rightarrow> 's gcp_client \<Rightarrow> (pstr \<Rightarrow> (pstr \<times> pstr) option) \<Rightarrow> bool" where
  "honest_gcp C pem client keys \<longleftrightarrow>
     (\<forall>k s r t. gcp_get_public_key client k s = (Inr r, t) \<longrightarrow> keys k = Some r) \<and>
     (\<forall>k m s sig t algo text. gcp_asymmetric_sign client k m s = (Inr sig, t) \<longrightarrow> keys k = Some (algo, text) \<longrightarrow>
        gcp_algorithm C pem algo text sig m)"

definition gcp_holds :: "pem_reader \<Rightarrow> (pstr \<Rightarrow> (pstr \<times> pstr) option) \<Rightarrow> pstr \<Rightarrow> PublicKeyMaterial option" where
  "gcp_holds pem keys r = (case gcp_name r of Inl e \<Rightarrow> None
     | Inr k \<Rightarrow> Option.bind (keys k) (\<lambda>(algo, text). Option.bind (map_of ALGO_MAP algo) (\<lambda>(scheme, h).
         case (if scheme = ED25519 then pem_ed_raw pem text else pem_spki pem text) of
           Inl e \<Rightarrow> None | Inr public \<Rightarrow> Some \<lparr>m_scheme = scheme, m_public = public\<rparr>)))"

lemma gcp_algo:
  assumes "map_of ALGO_MAP algo = Some (scheme, digest)" "(if scheme = ED25519 then pem_ed_raw pem text else pem_spki pem text) = Inr pk"
    and "honest_gcp C pem client keys" "keys k = Some (algo, text)" "gcp_raw_sign client k digest msg s = (Inr sig, t)"
  shows "verifies (default_registry C) \<lparr>m_scheme = scheme, m_public = pk\<rparr> sig msg = Inr ()"
proof (cases digest)
  case None
  then have a: "scheme = ED25519" "algo = u ''EC_SIGN_ED25519''"
    using assms(1) by (auto simp: ALGO_MAP_def split: if_splits)
  have "gcp_asymmetric_sign client k (GcpData msg) s = (Inr sig, t)" using assms(5) None by (simp add: gcp_raw_sign_def)
  then have "gcp_algorithm C pem algo text sig (GcpData msg)"
    using assms(3,4) unfolding honest_gcp_def by blast
  then show ?thesis using a assms(2) by (simp add: gcp_algorithm_def scheme_verifies)
next
  case (Some h)
  obtain d where d: "hash_new h msg = Inr d" "gcp_asymmetric_sign client k (GcpDigest h d) s = (Inr sig, t)"
    using assms(5) Some by (auto simp: gcp_raw_sign_def mbind_eq_Inr mlift_run)
  have "gcp_algorithm C pem algo text sig (GcpDigest h d)" using assms(3,4) d(2) unfolding honest_gcp_def by blast
  moreover have "scheme \<noteq> ED25519" using assms(1) Some by (auto simp: ALGO_MAP_def scheme_names split: if_splits)
  ultimately show ?thesis
    using assms(1,2) d(1) Some by (auto simp: ALGO_MAP_def gcp_algorithm_def hash_new_def scheme_verifies split: if_splits)
qed

lemma gcp_described:
  assumes "gcp_describe pem client r s = (Inr (scheme, digest, public_hex), t)" "honest_gcp C pem client keys"
  shows "\<exists>k algo text public. gcp_name r = Inr k \<and> keys k = Some (algo, text) \<and> map_of ALGO_MAP algo = Some (scheme, digest) \<and>
    (if scheme = ED25519 then pem_ed_raw pem text else pem_spki pem text) = Inr public \<and> public_hex = to_hex public"
  using assms by (auto simp: gcp_describe_def mbind_eq_Inr mlift_run mret_def mraise_def honest_gcp_def split: option.splits if_splits) blast+

lemma gcp_contract:
  assumes "honest_gcp C pem client keys"
  shows "provider_contract (GcpKmsKeyProvider (default_registry C) token pem client) (default_registry C) trusted (\<lambda>_. gcp_holds pem keys)"
proof (unfold_locales, goal_cases)
  case (1 r s sg t)
  then obtain scheme digest hx n pub s1 where d: "gcp_describe pem client r s = (Inr (scheme, digest, hx), s1)" "gcp_name r = Inr n"
    "from_hex hx = Inr pub" and sg: "sg = RemoteSigner scheme pub (gcp_raw_sign client n digest)"
    by (auto simp: GcpKmsKeyProvider_def gcp_get_signer_def mbind_eq_Inr mlift_run mret_def)
  obtain k algo tx pk where k: "gcp_name r = Inr k" "keys k = Some (algo, tx)" "map_of ALGO_MAP algo = Some (scheme, digest)"
    "(if scheme = ED25519 then pem_ed_raw pem tx else pem_spki pem tx) = Inr pk" "hx = to_hex pk"
    using gcp_described [OF d(1) assms] by blast
  have eq: "n = k" "pub = pk" using d(2,3) k(1,5) by simp_all
  have "ready (default_registry C) trusted (\<lambda>_. gcp_holds pem keys) sg"
    unfolding sg eq by (rule RemoteSigner_ready) (rule gcp_algo [OF k(3,4) assms k(2)])
  then show ?case using k eq by (simp add: sg gcp_holds_def split: if_splits)
next
  case (3 r s m t)
  then obtain scheme digest hx where d: "gcp_describe pem client r s = (Inr (scheme, digest, hx), t)"
    "from_hex hx = Inr (m_public m)" "m_scheme m = scheme"
    by (auto simp: GcpKmsKeyProvider_def gcp_public_def mbind_eq_Inr mlift_run mret_def)
  then show ?case using gcp_described [OF d(1) assms] by (auto simp: gcp_holds_def split: if_splits)
qed simp_all

subsubsection \<open>Vault\<close>

text \<open>
  The documented behaviour for the types whose signatures and public keys have the form the code expects,
  the two ECDSA types.  (An RSA signature is made with the salt length \<^verbatim>\<open>auto\<close>, the largest one, which
  \<open>RSA_PSS_SHA256\<close> does not accept; the public key of an \<^verbatim>\<open>ed25519\<close> key comes in base64, not as PEM.)
\<close>

definition vault_algorithm :: "('k, 'p) crypto \<Rightarrow> pstr \<Rightarrow> pstr option \<Rightarrow> bytes \<Rightarrow> bytes \<Rightarrow> bytes \<Rightarrow> bool" where
  "vault_algorithm C ty hash_algo pk sig msg \<longleftrightarrow>
     (ty = u ''ecdsa-p256'' \<and> hash_algo = Some (u ''sha2-256'') \<longrightarrow> ecdsa_ok C (u ''sha256'') pk sig (sha256 msg)) \<and>
     (ty = u ''ecdsa-p384'' \<and> hash_algo = Some (u ''sha2-384'') \<longrightarrow> ecdsa_ok C (u ''sha384'') pk sig (sha384 msg))"

text \<open>
  The keys are in the world, where anybody may rotate them: a call sees what the name is at that time, and
  a signature, which comes back as a tag, a version and the signature in base64, is of the latest version.
\<close>

definition honest_vault ::
  "('k, 'p) crypto \<Rightarrow> pem_reader \<Rightarrow> 's vault_client \<Rightarrow> ('s \<Rightarrow> pstr \<Rightarrow> pstr \<Rightarrow> vault_key option) \<Rightarrow> bool" where
  "honest_vault C pem client keys \<longleftrightarrow>
     (\<forall>n m s r t. vt_read_key client n m s = (Inr r, t) \<longrightarrow> keys s n m = Some r) \<and>
     (\<forall>n m msg h s field t vk text pk. vt_sign_data client n (b64encode msg) m h s = (Inr field, t) \<longrightarrow> keys s n m = Some vk \<longrightarrow>
        map_of (vk_keys vk) (int_repr (vk_latest vk)) = Some text \<longrightarrow> pem_spki pem text = Inr pk \<longrightarrow>
        (\<exists>ver sig. field = u ''vault:'' @ ver @ u '':'' @ b64encode sig \<and> of_char CHR '':'' \<notin> set ver \<and>
           vault_algorithm C (vk_type vk) h pk sig msg))"

text \<open>The key of a reference is the same in two worlds.\<close>

definition unrotated :: "('s \<Rightarrow> pstr \<Rightarrow> pstr \<Rightarrow> vault_key option) \<Rightarrow> pstr \<Rightarrow> 's \<Rightarrow> 's \<Rightarrow> bool" where
  "unrotated keys r s t \<longleftrightarrow> (case vault_parts r of Inl e \<Rightarrow> True | Inr (mount, name) \<Rightarrow> keys t name mount = keys s name mount)"

lemma third_part_made: "of_char CHR '':'' \<notin> set ver \<Longrightarrow> third_part (u ''vault:'' @ ver @ u '':'' @ rest) = Inr rest"
proof -
  assume v: "of_char CHR '':'' \<notin> set ver"
  have "py_partition (u '':'') (u ''vault'' @ u '':'' @ ver @ u '':'' @ rest) = Some (u ''vault'', ver @ u '':'' @ rest)"
    using py_partition_first [of "of_char CHR '':''" "u ''vault''" "[]"] by (simp add: u_def)
  moreover have "py_partition (u '':'') (ver @ u '':'' @ rest) = Some (ver, rest)"
    using py_partition_first [OF v, of "[]"] by (simp add: u_def)
  ultimately show ?thesis by (simp add: third_part_def u_def)
qed

lemma vault_described:
  assumes "vault_describe pem client r s = (Inr (scheme, h, d, public), t)" "honest_vault C pem client keys"
  shows "\<exists>mount name vk text. vault_parts r = Inr (mount, name) \<and> keys s name mount = Some vk \<and>
    map_of TYPE_MAP (vk_type vk) = Some (scheme, h, d) \<and> map_of (vk_keys vk) (int_repr (vk_latest vk)) = Some text \<and>
    (if scheme = ED25519 then pem_ed_raw pem text else pem_spki pem text) = Inr public"
proof -
  have keys: "vt_read_key client n m s = (Inr r, t) \<Longrightarrow> keys s n m = Some r" for n m s r t
    using assms(2) unfolding honest_vault_def by blast
  obtain mount n where p: "vault_parts r = Inr (mount, n)"
    using assms(1) by (auto simp: vault_describe_def mbind_eq_Inr mlift_run)
  obtain vk s2 where v: "vt_read_key client n mount s = (Inr vk, s2)"
    and rest: "(case map_of TYPE_MAP (vk_type vk) of
       None \<Rightarrow> mraise KeyProviderError
     | Some (scheme, hash_algo, digest_name) \<Rightarrow>
         (case map_of (vk_keys vk) (int_repr (vk_latest vk)) of
            None \<Rightarrow> mraise KeyError
          | Some text \<Rightarrow>
              mbind (mlift (if scheme = ED25519 then pem_ed_raw pem text else pem_spki pem text)) (\<lambda>public.
              mret (scheme, hash_algo, digest_name, public)))) s2 = (Inr (scheme, h, d, public), t)"
    using assms(1) p by (auto simp: vault_describe_def mbind_eq_Inr mlift_run)
  then show ?thesis using keys [OF v] p
    by (cases "scheme = ED25519") (auto simp: mbind_eq_Inr mlift_run mret_run mraise_run split: option.splits)
qed

lemma vault_type:
  assumes "map_of TYPE_MAP ty = Some (scheme, h, d)" "scheme \<in> {ECDSA_P256_SHA256, ECDSA_P384_SHA384}" "vault_algorithm C ty h pk sig msg"
  shows "verifies (default_registry C) \<lparr>m_scheme = scheme, m_public = pk\<rparr> sig msg = Inr ()"
proof -
  have "(ty = u ''ecdsa-p256'' \<and> scheme = ECDSA_P256_SHA256 \<and> h = Some (u ''sha2-256'')) \<or>
      (ty = u ''ecdsa-p384'' \<and> scheme = ECDSA_P384_SHA384 \<and> h = Some (u ''sha2-384''))"
    using assms(1,2) by (auto simp: TYPE_MAP_def scheme_names split: if_splits)
  then show ?thesis using assms(3) unfolding vault_algorithm_def by (elim disjE) (auto simp: scheme_verifies)
qed

lemma vault_sig:
  assumes "honest_vault C pem client keys" "keys s n m = Some vk" "map_of TYPE_MAP (vk_type vk) = Some (scheme, h, d)"
    and "scheme \<in> {ECDSA_P256_SHA256, ECDSA_P384_SHA384}"
    and "map_of (vk_keys vk) (int_repr (vk_latest vk)) = Some tx" "pem_spki pem tx = Inr pk"
    and "vault_raw_sign client m n h msg s = (Inr sig, t)"
  shows "verifies (default_registry C) \<lparr>m_scheme = scheme, m_public = pk\<rparr> sig msg = Inr ()"
proof -
  obtain field where f: "vt_sign_data client n (b64encode msg) m h s = (Inr field, t)"
    "sbind (third_part field) (\<lambda>b. b64decode (PStr b)) = Inr sig"
    using assms(7) by (auto simp: vault_raw_sign_def mbind_eq_Inr mlift_run)
  obtain ver sig' where v: "field = u ''vault:'' @ ver @ u '':'' @ b64encode sig'" "of_char CHR '':'' \<notin> set ver"
    "vault_algorithm C (vk_type vk) h pk sig' msg"
    using assms(1,2,5,6) f(1) unfolding honest_vault_def by blast
  then have "sig' = sig" using f(2) third_part_made [OF v(2), of "b64encode sig'"] by (simp del: b64decode.simps)
  then show ?thesis using vault_type [OF assms(3,4)] v(3) by simp
qed

text \<open>The three calls of one use of a signer, in the order they take place.\<close>

lemma vault_verifies:
  assumes "honest_vault C pem client keys" "unrotated keys r s t" "unrotated keys r s t'"
    and "m_scheme m \<in> {ECDSA_P256_SHA256, ECDSA_P384_SHA384}"
    and "vault_get_signer pem client r s = (Inr sg, t)" "sign_with sg data t = (Inr (sig, kid), t')"
    and "vault_public pem client r t' = (Inr m, t'')"
  shows "kid = m_keyid m \<and> verifies (default_registry C) m sig data = Inr ()"
proof -
  obtain mount n scheme h d pub s1 where p: "vault_parts r = Inr (mount, n)"
    and at_s: "vault_describe pem client r s = (Inr (scheme, h, d, pub), s1)"
    and sg: "sg = RemoteSigner scheme pub (vault_raw_sign client mount n h)" "s1 = t"
    using assms(5) by (auto simp: vault_get_signer_def mbind_eq_Inr mlift_run mret_def)
  obtain h' d' where at_t': "vault_describe pem client r t' = (Inr (m_scheme m, h', d', m_public m), t'')"
    using assms(7) by (auto simp: vault_public_def mbind_eq_Inr mret_def)
  obtain vk tx where k: "keys s n mount = Some vk" "map_of TYPE_MAP (vk_type vk) = Some (scheme, h, d)"
    "map_of (vk_keys vk) (int_repr (vk_latest vk)) = Some tx" "(if scheme = ED25519 then pem_ed_raw pem tx else pem_spki pem tx) = Inr pub"
    using vault_described [OF at_s assms(1)] p by auto
  have same: "keys t n mount = Some vk" "keys t' n mount = Some vk" using assms(2,3) p k(1) by (simp_all add: unrotated_def)
  then have m: "m_scheme m = scheme" "m_public m = pub" using vault_described [OF at_t' assms(1)] p k by auto
  have spki: "pem_spki pem tx = Inr pub" using k(4) m(1) assms(4) by (auto simp: scheme_names split: if_splits)
  obtain s2 where sign: "vault_raw_sign client mount n h data t = (Inr sig, s2)" "kid = keyid_for pub"
    using assms(6) by (auto simp: sign_with_def sg(1) RemoteSigner_def mbind_eq_Inr mlift_run mret_run)
  have "verifies (default_registry C) \<lparr>m_scheme = scheme, m_public = pub\<rparr> sig data = Inr ()"
    using vault_sig [OF assms(1) same(1) k(2) _ k(3) spki sign(1)] assms(4) m(1) by simp
  moreover have "m = \<lparr>m_scheme = scheme, m_public = pub\<rparr>" using m by simp
  ultimately show ?thesis using sign(2) by (simp add: m_keyid_def)
qed

subsection \<open>Properties\<close>

text \<open>C23: remote signatures.  For AWS and GCP, with a service that signs with the algorithm it is asked for
  and in which the key a reference names does not change, what a signer of the provider returns verifies
  under the public key the provider gives out, by the scheme the library chose for it, and under the id of
  that key.  For Vault the same holds of the ECDSA types, when the key is not rotated between the calls.\<close>

theorem remote_signature_verifies:
  assumes "(\<exists>keys kms client. honest_aws C client keys \<and> (\<forall>s. kms s = (Inr client, s)) \<and>
        kp = AwsKmsKeyProvider (default_registry C) token kms) \<or>
      (\<exists>keys pem client. honest_gcp C pem client keys \<and> kp = GcpKmsKeyProvider (default_registry C) token pem client) \<or>
      (\<exists>keys pem client. honest_vault C pem client keys \<and> kp = VaultTransitKeyProvider (default_registry C) token pem client \<and>
        m_scheme m \<in> {ECDSA_P256_SHA256, ECDSA_P384_SHA384} \<and> unrotated keys r s t \<and> unrotated keys r s t')"
    and "kp_get_signer kp r s = (Inr sg, t)" "sign_with sg data t = (Inr (sig, kid), t')"
    and "kp_get_public_key kp r t' = (Inr m, t'')"
  shows "kid = m_keyid m \<and> verifies (default_registry C) m sig data = Inr ()"
  using assms(1)
proof (elim disjE exE conjE)
  note signed = provider_contract.signed_verifies [where trusted = "\<lambda>_. True", OF _ assms(2-4) TrueI]
  show ?thesis if "honest_aws C client keys" "\<forall>s. kms s = (Inr client, s)" "kp = AwsKmsKeyProvider (default_registry C) token kms"
    for keys kms client
    using signed [OF aws_contract [OF that(1), of kms token, folded that(3)]] that(2) by blast
  show ?thesis if "honest_gcp C pem client keys" "kp = GcpKmsKeyProvider (default_registry C) token pem client" for keys pem client
    using signed [OF gcp_contract [OF that(1), of token, folded that(2)]] .
  show ?thesis if "honest_vault C pem client keys" "kp = VaultTransitKeyProvider (default_registry C) token pem client"
    "m_scheme m \<in> {ECDSA_P256_SHA256, ECDSA_P384_SHA384}" "unrotated keys r s t" "unrotated keys r s t'" for keys pem client
    using vault_verifies [OF that(1,4,5,3)] assms(2-4) unfolding that(2) VaultTransitKeyProvider_def by simp
qed


text \<open>
  Three services in memory, each with one key: an RSA key and two ECDSA keys.  A signature repeats the key
  and the message, or the key and the digest.
\<close>

definition toy_crypto :: "(bytes, bytes) crypto" where
  "toy_crypto = echo_crypto\<lparr>pss_verify_sha256 := (\<lambda>k sig msg. if sig = k @ msg then Inr () else Inl InvalidSignature),
     ec_verify_digest := (\<lambda>k sig digest h. if sig = k @ digest then Inr () else Inl InvalidSignature)\<rparr>"

definition toy_pem :: pem_reader where
  "toy_pem = \<lparr>pem_spki = (\<lambda>text. if text = u ''pem'' then Inr [9] else Inl ValueError), pem_ed_raw = (\<lambda>_. Inl ValueError)\<rparr>"

definition toy_aws :: "unit aws_client" where
  "toy_aws = \<lparr>aws_get_public_key = (\<lambda>k s. (if k = u ''alias/a'' then Inr (u ''RSA_2048'', [9]) else Inl OtherError, s)),
     aws_sign = (\<lambda>k msg algo s. (if k = u ''alias/a'' \<and> algo = u ''RSASSA_PSS_SHA_256'' then Inr ([9] @ msg) else Inl OtherError, s))\<rparr>"

definition toy_gcp :: "unit gcp_client" where
  "toy_gcp = \<lparr>gcp_get_public_key = (\<lambda>k s. (if k = u ''projects/a'' then Inr (u ''EC_SIGN_P256_SHA256'', u ''pem'') else Inl OtherError, s)),
     gcp_asymmetric_sign = (\<lambda>k m s. (if k = u ''projects/a''
        then (case m of GcpDigest h d \<Rightarrow> Inr ([9] @ d) | GcpData d \<Rightarrow> Inl OtherError) else Inl OtherError, s))\<rparr>"

definition toy_vault_key :: vault_key where
  "toy_vault_key = \<lparr>vk_type = u ''ecdsa-p256'', vk_latest = 1, vk_keys = [(int_repr 1, u ''pem'')]\<rparr>"

definition toy_vault :: "unit vault_client" where
  "toy_vault = \<lparr>vt_read_key = (\<lambda>n m s. (if n = u ''a'' then Inr toy_vault_key else Inl OtherError, s)),
     vt_sign_data = (\<lambda>n input m h s. (if n = u ''a'' then sbind (b64decode (PStr input)) (\<lambda>msg.
        Inr (u ''vault:'' @ u ''v1'' @ u '':'' @ b64encode ([9] @ sha256 msg))) else Inl OtherError, s))\<rparr>"

lemma toy_honest:
  "honest_aws toy_crypto toy_aws (\<lambda>k. if k = u ''alias/a'' then Some (u ''RSA_2048'', [9]) else None)"
  "honest_gcp toy_crypto toy_pem toy_gcp (\<lambda>k. if k = u ''projects/a'' then Some (u ''EC_SIGN_P256_SHA256'', u ''pem'') else None)"
  "honest_vault toy_crypto toy_pem toy_vault (\<lambda>_ n m. if n = u ''a'' then Some toy_vault_key else None)"
proof -
  note c = toy_crypto_def echo_crypto_def
  show "honest_aws toy_crypto toy_aws (\<lambda>k. if k = u ''alias/a'' then Some (u ''RSA_2048'', [9]) else None)"
    by (auto simp: honest_aws_def toy_aws_def aws_algorithm_def pss_ok_def c split: if_splits)
  show "honest_gcp toy_crypto toy_pem toy_gcp (\<lambda>k. if k = u ''projects/a'' then Some (u ''EC_SIGN_P256_SHA256'', u ''pem'') else None)"
    by (auto simp: honest_gcp_def toy_gcp_def gcp_algorithm_def toy_pem_def ecdsa_ok_def c split: if_splits gcp_message.splits)
  have "\<exists>ver sig. u ''vault:'' @ u ''v1'' @ u '':'' @ b64encode ([9] @ sha256 msg) = u ''vault:'' @ ver @ u '':'' @ b64encode sig \<and>
      of_char CHR '':'' \<notin> set ver \<and> vault_algorithm toy_crypto (u ''ecdsa-p256'') h [9] sig msg" for h msg
    by (intro exI [of _ "u ''v1''"] exI [of _ "[9] @ sha256 msg"]) (simp add: vault_algorithm_def ecdsa_ok_def c u_def)
  then show "honest_vault toy_crypto toy_pem toy_vault (\<lambda>_ n m. if n = u ''a'' then Some toy_vault_key else None)"
    by (auto simp: honest_vault_def toy_vault_def toy_vault_key_def toy_pem_def simp del: b64decode.simps append.simps
        split: if_splits)
qed

lemma toy_runs:
  "\<exists>sg. aws_get_signer (mret toy_aws) (u ''awskms://alias/a'') () = (Inr sg, ()) \<and>
     sign_with sg msg () = (Inr ([9] @ msg, keyid_for [9]), ()) \<and>
     aws_public (mret toy_aws) (u ''awskms://alias/a'') () = (Inr \<lparr>m_scheme = RSA_PSS_SHA256, m_public = [9]\<rparr>, ())"
  "\<exists>sg. gcp_get_signer toy_pem toy_gcp (u ''gcpkms://projects/a'') () = (Inr sg, ()) \<and>
     sign_with sg msg () = (Inr ([9] @ sha256 msg, keyid_for [9]), ()) \<and>
     gcp_public toy_pem toy_gcp (u ''gcpkms://projects/a'') () = (Inr \<lparr>m_scheme = ECDSA_P256_SHA256, m_public = [9]\<rparr>, ())"
  "\<exists>sg. vault_get_signer toy_pem toy_vault (u ''vault://m/a'') () = (Inr sg, ()) \<and>
     sign_with sg msg () = (Inr ([9] @ sha256 msg, keyid_for [9]), ()) \<and>
     vault_public toy_pem toy_vault (u ''vault://m/a'') () = (Inr \<lparr>m_scheme = ECDSA_P256_SHA256, m_public = [9]\<rparr>, ())"
proof -
  have p: "parse_key_ref (u ''awskms://alias/a'') = Inr (u ''awskms'', u ''alias/a'')"
    "parse_key_ref (u ''gcpkms://projects/a'') = Inr (u ''gcpkms'', u ''projects/a'')"
    "parse_key_ref (u ''vault://m/a'') = Inr (u ''vault'', u ''m/a'')"
    using parse_key_ref_made [of "u ''awskms''" "u ''alias/a''"] parse_key_ref_made [of "u ''gcpkms''" "u ''projects/a''"]
      parse_key_ref_made [of "u ''vault''" "u ''m/a''"] by (simp_all add: u_def)
  note m = mbind_def mlift_def mret_def
  have "map_of KEYSPEC_MAP (u ''RSA_2048'') = Some (RSA_PSS_SHA256, u ''RSASSA_PSS_SHA_256'')" by (simp add: KEYSPEC_MAP_def)
  then have d: "aws_describe (mret toy_aws) (u ''awskms://alias/a'') () = (Inr (RSA_PSS_SHA256, u ''RSASSA_PSS_SHA_256'', [9]), ())"
    by (simp add: aws_describe_def aws_key_id_def p(1) m) (simp add: toy_aws_def mret_def)
  show "\<exists>sg. aws_get_signer (mret toy_aws) (u ''awskms://alias/a'') () = (Inr sg, ()) \<and>
     sign_with sg msg () = (Inr ([9] @ msg, keyid_for [9]), ()) \<and>
     aws_public (mret toy_aws) (u ''awskms://alias/a'') () = (Inr \<lparr>m_scheme = RSA_PSS_SHA256, m_public = [9]\<rparr>, ())"
    using d by (simp add: aws_get_signer_def aws_public_def m aws_key_id_def p(1)) (simp add: RemoteSigner_def sign_with_def m toy_aws_def)
  have n: "gcp_name (u ''gcpkms://projects/a'') = Inr (u ''projects/a'')" by (simp add: gcp_name_def p(2)) (simp add: u_def)
  have "map_of ALGO_MAP (u ''EC_SIGN_P256_SHA256'') = Some (ECDSA_P256_SHA256, Some (u ''sha256''))" by (simp add: ALGO_MAP_def)
  then have d: "gcp_describe toy_pem toy_gcp (u ''gcpkms://projects/a'') () = (Inr (ECDSA_P256_SHA256, Some (u ''sha256''), to_hex [9]), ())"
    by (simp add: gcp_describe_def n m toy_gcp_def toy_pem_def scheme_names)
  show "\<exists>sg. gcp_get_signer toy_pem toy_gcp (u ''gcpkms://projects/a'') () = (Inr sg, ()) \<and>
     sign_with sg msg () = (Inr ([9] @ sha256 msg, keyid_for [9]), ()) \<and>
     gcp_public toy_pem toy_gcp (u ''gcpkms://projects/a'') () = (Inr \<lparr>m_scheme = ECDSA_P256_SHA256, m_public = [9]\<rparr>, ())"
    using d by (simp add: gcp_get_signer_def gcp_public_def n m)
      (simp add: RemoteSigner_def sign_with_def gcp_raw_sign_def hash_new_def m toy_gcp_def)
  have n: "vault_parts (u ''vault://m/a'') = Inr (u ''m'', u ''a'')" by (simp add: vault_parts_def p(3)) (simp add: u_def prefix_def)
  have "map_of TYPE_MAP (u ''ecdsa-p256'') = Some (ECDSA_P256_SHA256, Some (u ''sha2-256''), Some (u ''sha256''))" by (simp add: TYPE_MAP_def)
  then have d: "vault_describe toy_pem toy_vault (u ''vault://m/a'') () =
      (Inr (ECDSA_P256_SHA256, Some (u ''sha2-256''), Some (u ''sha256''), [9]), ())"
    by (simp add: vault_describe_def n m toy_vault_def toy_vault_key_def toy_pem_def scheme_names)
  have t: "third_part (u ''vault:'' @ u ''v1'' @ u '':'' @ b64encode sig) = Inr (b64encode sig)" for sig
    by (rule third_part_made) (simp add: u_def)
  show "\<exists>sg. vault_get_signer toy_pem toy_vault (u ''vault://m/a'') () = (Inr sg, ()) \<and>
     sign_with sg msg () = (Inr ([9] @ sha256 msg, keyid_for [9]), ()) \<and>
     vault_public toy_pem toy_vault (u ''vault://m/a'') () = (Inr \<lparr>m_scheme = ECDSA_P256_SHA256, m_public = [9]\<rparr>, ())"
    using d by (simp add: vault_get_signer_def vault_public_def n m)
      (simp add: RemoteSigner_def sign_with_def vault_raw_sign_def m toy_vault_def t del: b64decode.simps append.simps)
qed

definition signs_and_verifies :: "unit key_provider \<Rightarrow> pstr \<Rightarrow> bool" where
  "signs_and_verifies kp r \<longleftrightarrow> (\<exists>sg sig kid m. kp_get_signer kp r () = (Inr sg, ()) \<and> sign_with sg [1, 2] () = (Inr (sig, kid), ()) \<and>
     kp_get_public_key kp r () = (Inr m, ()) \<and> kid = m_keyid m \<and> verifies (default_registry toy_crypto) m sig [1, 2] = Inr ())"

lemma remote_signature_verifies_witness:
  "signs_and_verifies (AwsKmsKeyProvider (default_registry toy_crypto) (mret []) (mret toy_aws)) (u ''awskms://alias/a'') \<and>
   signs_and_verifies (GcpKmsKeyProvider (default_registry toy_crypto) (mret []) toy_pem toy_gcp) (u ''gcpkms://projects/a'') \<and>
   signs_and_verifies (VaultTransitKeyProvider (default_registry toy_crypto) (mret []) toy_pem toy_vault) (u ''vault://m/a'')"
proof (intro conjI)
  let ?reg = "default_registry toy_crypto"
  note verified = remote_signature_verifies [where C = toy_crypto and token = "mret []"]
  let ?kp = "AwsKmsKeyProvider ?reg (mret []) (mret toy_aws)" and ?r = "u ''awskms://alias/a''"
  obtain sg sig kid m where run: "kp_get_signer ?kp ?r () = (Inr sg, ())" "sign_with sg [1, 2] () = (Inr (sig, kid), ())"
    "kp_get_public_key ?kp ?r () = (Inr m, ())"
    using toy_runs(1) [of "[1, 2]"] by (auto simp: AwsKmsKeyProvider_def)
  have "\<exists>keys kms client. honest_aws toy_crypto client keys \<and> (\<forall>s. kms s = (Inr client, s)) \<and> ?kp = AwsKmsKeyProvider ?reg (mret []) kms"
    using toy_honest(1) by (intro exI conjI) (auto simp: mret_def)
  from verified [OF disjI1 [OF this] run] show "signs_and_verifies ?kp ?r"
    using run unfolding signs_and_verifies_def by blast
  let ?kp = "GcpKmsKeyProvider ?reg (mret []) toy_pem toy_gcp" and ?r = "u ''gcpkms://projects/a''"
  obtain sg sig kid m where run: "kp_get_signer ?kp ?r () = (Inr sg, ())" "sign_with sg [1, 2] () = (Inr (sig, kid), ())"
    "kp_get_public_key ?kp ?r () = (Inr m, ())"
    using toy_runs(2) [of "[1, 2]"] by (auto simp: GcpKmsKeyProvider_def)
  have "\<exists>keys pem client. honest_gcp toy_crypto pem client keys \<and> ?kp = GcpKmsKeyProvider ?reg (mret []) pem client"
    using toy_honest(2) by blast
  from verified [OF disjI2 [OF disjI1 [OF this]] run] show "signs_and_verifies ?kp ?r"
    using run unfolding signs_and_verifies_def by blast
  let ?kp = "VaultTransitKeyProvider ?reg (mret []) toy_pem toy_vault" and ?r = "u ''vault://m/a''"
  obtain sg sig kid m where run: "kp_get_signer ?kp ?r () = (Inr sg, ())" "sign_with sg [1, 2] () = (Inr (sig, kid), ())"
    "kp_get_public_key ?kp ?r () = (Inr m, ())" "m_scheme m = ECDSA_P256_SHA256"
    using toy_runs(3) [of "[1, 2]"] by (auto simp: VaultTransitKeyProvider_def)
  have "\<exists>keys pem client. honest_vault toy_crypto pem client keys \<and> ?kp = VaultTransitKeyProvider ?reg (mret []) pem client \<and>
      m_scheme m \<in> {ECDSA_P256_SHA256, ECDSA_P384_SHA384} \<and> unrotated keys ?r () () \<and> unrotated keys ?r () ()"
    using toy_honest(3) run(4) by (intro exI conjI) (auto simp: unrotated_def split: sum.split)
  from verified [OF disjI2 [OF disjI2 [OF this]] run(1-3)] show "signs_and_verifies ?kp ?r"
    using run unfolding signs_and_verifies_def by blast
qed

end
