(* ===== verification/Mongo.thy ===== *)
theory Mongo
  imports Stores
begin

section \<open>The MongoDB stores of the example\<close>

text \<open>
  \<^verbatim>\<open>examples/vehicle-release-approvals/app/mongo_stores.py\<close>: the three storage protocols on a
  document database.  The driver is a parameter, one record of the calls the code makes on each
  collection; documents, filters and updates are the dicts the code passes.  \<open>mongo_filters\<close> says what
  the filters mean that the code writes, \<open>mongo_collection\<close> what the calls do, with other clients of
  the database acting between them.  From there \<open>mongo_ledger\<close> derives the contract of an event store.

  A find is taken to see one moment of the collection, as a read with snapshot concern does; a call that
  raises is taken to have changed nothing, so a write whose acknowledgement was lost is left out.
\<close>

subsection \<open>The driver\<close>

text \<open>
  A sort is a list of fields with \<open>1\<close> or \<open>- 1\<close>; a find returns what its cursor yields and, when it
  fails part of the way, the exception that ends it.
\<close>

record 's collection =
  co_create_index :: "(string \<times> int) list \<Rightarrow> ('s, exn, unit) eff"
  co_find_one :: "pyval \<Rightarrow> (string \<times> int) list \<Rightarrow> ('s, exn, pyval option) eff"
  co_find :: "pyval \<Rightarrow> pyval option \<Rightarrow> (string \<times> int) list \<Rightarrow> int option \<Rightarrow> 's \<Rightarrow> (pyval list \<times> exn option) \<times> 's"
  co_insert_one :: "pyval \<Rightarrow> ('s, exn, unit) eff"
  co_update_one :: "pyval \<Rightarrow> pyval \<Rightarrow> bool \<Rightarrow> ('s, exn, unit) eff"
  co_delete_one :: "pyval \<Rightarrow> ('s, exn, unit) eff"
  co_delete_many :: "pyval \<Rightarrow> ('s, exn, unit) eff"

definition ASCENDING :: int where
  "ASCENDING = 1"

definition DESCENDING :: int where
  "DESCENDING = - 1"

abbreviation doc :: "(string \<times> pyval) list \<Rightarrow> pyval" where
  "doc kvs \<equiv> PDict (items kvs)"

text \<open>\<open>[f(doc) async for doc in cursor]\<close>, and the same as a stream.\<close>

definition gathered :: "(pyval \<Rightarrow> exn + 'a) \<Rightarrow> pyval list \<times> exn option \<Rightarrow> exn + 'a list" where
  "gathered f found = (case found of (ds, stop) \<Rightarrow>
     sbind (smap f ds) (\<lambda>xs. case stop of None \<Rightarrow> Inr xs | Some x \<Rightarrow> Inl x))"

fun streamed :: "(pyval \<Rightarrow> exn + 'a) \<Rightarrow> pyval list \<Rightarrow> exn option \<Rightarrow> 'a list \<times> exn option" where
  "streamed f [] stop = ([], stop)"
| "streamed f (d # ds) stop = (case f d of Inl x \<Rightarrow> ([], Some x)
     | Inr y \<Rightarrow> (case streamed f ds stop of (ys, end_) \<Rightarrow> (y # ys, end_)))"

definition mfind :: "'s collection \<Rightarrow> pyval \<Rightarrow> pyval option \<Rightarrow> (string \<times> int) list \<Rightarrow> int option \<Rightarrow>
    (pyval list \<times> exn option \<Rightarrow> exn + 'a) \<Rightarrow> ('s, exn, 'a) eff" where
  "mfind c q proj order limit f s = (case co_find c q proj order limit s of (found, t) \<Rightarrow> (f found, t))"

subsection \<open>The ledger\<close>

definition ledger_doc_id :: "pstr \<Rightarrow> int \<Rightarrow> pstr" where
  "ledger_doc_id log_id seq = log_id @ u '':'' @ int_repr seq"

definition mongo_to_entry :: "pyval \<Rightarrow> exn + LedgerEntry" where
  "mongo_to_entry d =
     sbind (sbind (subscr d ''seq'') as_int) (\<lambda>seq.
     sbind (subscr d ''recorded_at'') (\<lambda>recorded_at.
     sbind (sbind (subscr d ''prev_hash'') as_str) (\<lambda>prev_hash.
     sbind (sbind (subscr d ''event_type'') as_str) (\<lambda>event_type.
     sbind (getdef d ''request_id'' PNone) (\<lambda>request_id.
     sbind (subscr d ''payload'') (\<lambda>payload.
     sbind (sbind (subscr d ''entry_hash'') as_str) (\<lambda>entry_hash.
     Inr \<lparr>e_seq = seq, e_recorded_at = recorded_at, e_prev_hash = prev_hash, e_event_type = event_type,
          e_request_id = request_id, e_payload = payload, e_entry_hash = entry_hash\<rparr>)))))))"

definition entry_doc :: "pstr \<Rightarrow> LedgerEntry \<Rightarrow> pyval" where
  "entry_doc l e = doc ([(''_id'', PStr (ledger_doc_id l (e_seq e))), (''log_id'', PStr l)] @ core_items e @
     [(''entry_hash'', PStr (e_entry_hash e))])"

text \<open>\<open>return f(doc) if doc else None\<close>\<close>

definition if_found :: "(pyval \<Rightarrow> exn + 'a) \<Rightarrow> pyval option \<Rightarrow> exn + 'a option" where
  "if_found f found = (case found of None \<Rightarrow> Inr None
     | Some d \<Rightarrow> if truthy d then sbind (f d) (\<lambda>x. Inr (Some x)) else Inr None)"

definition mongo_ledger_indexes :: "'s collection \<Rightarrow> ('s, exn, unit) eff" where
  "mongo_ledger_indexes c =
     mbind (co_create_index c [(''log_id'', ASCENDING), (''seq'', DESCENDING)]) (\<lambda>_.
     mbind (co_create_index c [(''log_id'', ASCENDING), (''request_id'', ASCENDING), (''seq'', ASCENDING)]) (\<lambda>_.
     co_create_index c [(''log_id'', ASCENDING), (''event_type'', ASCENDING), (''seq'', DESCENDING)]))"

definition mongo_head :: "'s collection \<Rightarrow> pstr \<Rightarrow> ('s, exn, LedgerEntry option) eff" where
  "mongo_head c l =
     mbind (co_find_one c (doc [(''log_id'', PStr l)]) [(''seq'', DESCENDING)]) (\<lambda>found.
     mlift (if_found mongo_to_entry found))"

definition mongo_append :: "'s collection \<Rightarrow> pstr \<Rightarrow> LedgerEntry \<Rightarrow> ('s, exn, unit) eff" where
  "mongo_append c l e =
     mcatch (co_insert_one c (entry_doc l e)) (\<lambda>x. mraise (if isinstance x DuplicateKeyError then LedgerConflict else x))"

definition mongo_get_by_seq :: "'s collection \<Rightarrow> pstr \<Rightarrow> int \<Rightarrow> ('s, exn, LedgerEntry option) eff" where
  "mongo_get_by_seq c l seq =
     mbind (co_find_one c (doc [(''_id'', PStr (ledger_doc_id l seq))]) []) (\<lambda>found.
     mlift (if_found mongo_to_entry found))"

definition mongo_events_for_request :: "'s collection \<Rightarrow> pstr \<Rightarrow> pyval \<Rightarrow> ('s, exn, LedgerEntry list) eff" where
  "mongo_events_for_request c l rid =
     mfind c (doc [(''log_id'', PStr l), (''request_id'', rid)]) None [(''seq'', ASCENDING)] None (gathered mongo_to_entry)"

definition mongo_scan :: "'s collection \<Rightarrow> pstr \<Rightarrow> int \<Rightarrow> int option \<Rightarrow> ('s, exn, LedgerEntry list \<times> exn option) eff" where
  "mongo_scan c l start limit =
     mfind c (doc [(''log_id'', PStr l), (''seq'', doc [(''$gte'', PInt start)])]) None [(''seq'', ASCENDING)] limit
       (\<lambda>(ds, stop). Inr (streamed mongo_to_entry ds stop))"

definition mongo_leaf_hashes :: "'s collection \<Rightarrow> pstr \<Rightarrow> int option \<Rightarrow> ('s, exn, pstr list) eff" where
  "mongo_leaf_hashes c l up_to =
     mfind c (doc ((''log_id'', PStr l) # (case up_to of None \<Rightarrow> [] | Some n \<Rightarrow> [(''seq'', doc [(''$lt'', PInt n)])])))
       (Some (doc [(''entry_hash'', PInt 1)])) [(''seq'', ASCENDING)] None
       (gathered (\<lambda>d. sbind (subscr d ''entry_hash'') as_str))"

definition mongo_latest_checkpoint :: "'s collection \<Rightarrow> pstr \<Rightarrow> ('s, exn, Checkpoint option) eff" where
  "mongo_latest_checkpoint c l =
     mbind (co_find_one c (doc [(''log_id'', PStr l), (''event_type'', lit ''checkpoint.published'')]) [(''seq'', DESCENDING)])
     (\<lambda>found. mlift (if_found (\<lambda>d. sbind (subscr d ''payload'') Checkpoint_from_dict) found))"

definition MongoEventStore :: "'s collection \<Rightarrow> pstr \<Rightarrow> 's event_store" where
  "MongoEventStore c l =
     \<lparr>es_log_id = l, es_head = mongo_head c l, es_append = mongo_append c l, es_get_by_seq = mongo_get_by_seq c l,
      es_events_for_request = mongo_events_for_request c l, es_scan = mongo_scan c l,
      es_leaf_hashes = mongo_leaf_hashes c l, es_latest_checkpoint = mongo_latest_checkpoint c l\<rparr>"


subsection \<open>The projections\<close>

definition mongo_doc_id :: "pstr \<Rightarrow> pstr \<Rightarrow> pstr" where
  "mongo_doc_id log_id key = log_id @ u '':'' @ key"

definition mongo_projection_indexes :: "'s collection \<Rightarrow> ('s, exn, unit) eff" where
  "mongo_projection_indexes c =
     mfor [[(''log_id'', ASCENDING), (''status'', ASCENDING)], [(''log_id'', ASCENDING), (''kind'', ASCENDING)],
         [(''log_id'', ASCENDING), (''requested_by'', ASCENDING)], [(''log_id'', ASCENDING), (''pending_for'', ASCENDING)],
         [(''log_id'', ASCENDING), (''created_at'', ASCENDING), (''_id'', ASCENDING)]]
       (\<lambda>index _. co_create_index c index) ()"

text \<open>\<open>_to_view\<close> reads the fields that \<open>RequestView.from_dict\<close> reads, with the same defaults.\<close>

definition mongo_to_view :: "pyval \<Rightarrow> exn + RequestView" where
  "mongo_to_view d = View_from_dict d"

fun dict_entries :: "pyval \<Rightarrow> pydict" where
  "dict_entries (PDict kvs) = kvs"
| "dict_entries _ = []"

definition mongo_upsert :: "'s collection \<Rightarrow> pstr \<Rightarrow> RequestView \<Rightarrow> ('s, exn, unit) eff" where
  "mongo_upsert c l v =
     mcatch (co_update_one c
         (doc [(''_id'', PStr (mongo_doc_id l (v_request_id v))), (''last_seq'', doc [(''$lte'', PInt (v_last_seq v))])])
         (doc [(''$set'', PDict ((lit ''log_id'', PStr l) # dict_entries (View_to_dict v)))]) True)
       (\<lambda>x. if isinstance x DuplicateKeyError then mret () else mraise x)"

definition mongo_get :: "runtime \<Rightarrow> 's collection \<Rightarrow> pstr \<Rightarrow> pyval \<Rightarrow> ('s, exn, RequestView option) eff" where
  "mongo_get R c l rid =
     mbind (co_find_one c (doc [(''_id'', PStr (mongo_doc_id l (py_str R rid)))]) []) (\<lambda>found.
     mlift (if_found mongo_to_view found))"

text \<open>
  The cursor is a pair of strings through \<open>json.dumps\<close>, with its default separators and every
  character that is not ASCII as an escape, and through URL-safe base64.
\<close>

definition esc_ascii :: "nat \<Rightarrow> pstr" where
  "esc_ascii c =
     (if c < 127 then esc_char c
      else if c < 0x10000 then [92, 117] @ hex_pad 4 c
      else [92, 117] @ hex_pad 4 (0xD800 + (c - 0x10000) div 0x400) @ [92, 117] @ hex_pad 4 (0xDC00 + (c - 0x10000) mod 0x400))"

fun json_key :: "pyval \<Rightarrow> exn + pstr" where
  "json_key (PStr s) = Inr s"
| "json_key PNone = Inr (u ''null'')"
| "json_key (PBool b) = Inr (if b then u ''true'' else u ''false'')"
| "json_key (PInt i) = Inr (int_repr i)"
| "json_key (PFloat t) = Inr t"
| "json_key _ = Inl TypeError"

definition json_text :: "pstr \<Rightarrow> pstr" where
  "json_text s = [34] @ concat (map esc_ascii s) @ [34]"

function json_dumps :: "pyval \<Rightarrow> exn + pstr" where
  "json_dumps PNone = Inr (u ''null'')"
| "json_dumps (PBool b) = Inr (if b then u ''true'' else u ''false'')"
| "json_dumps (PInt i) = Inr (int_repr i)"
| "json_dumps (PFloat t) = Inr t"
| "json_dumps (PStr s) = Inr (json_text s)"
| "json_dumps (PList xs) = sbind (smap json_dumps xs) (\<lambda>ts. Inr ([91] @ join (u '', '') ts @ [93]))"
| "json_dumps (PTuple xs) = sbind (smap json_dumps xs) (\<lambda>ts. Inr ([91] @ join (u '', '') ts @ [93]))"
| "json_dumps (PDict kvs) =
     sbind (smap (\<lambda>(k, v). sbind (json_key k) (\<lambda>key. sbind (json_dumps v) (\<lambda>t. Inr (json_text key @ u '': '' @ t)))) kvs)
       (\<lambda>ts. Inr ([123] @ join (u '', '') ts @ [125]))"
| "json_dumps (PObj t) = Inl TypeError"
  by pat_completeness auto
termination
  by (relation "measure size") (auto simp: less_Suc_eq_le size_list_estimation' dest: member_size)

definition url_char :: "nat \<Rightarrow> nat" where
  "url_char c = (if c = 43 then 45 else if c = 47 then 95 else c)"

definition std_char :: "nat \<Rightarrow> nat" where
  "std_char c = (if c = 45 then 43 else if c = 95 then 47 else c)"

definition urlsafe_b64encode :: "bytes \<Rightarrow> pstr" where
  "urlsafe_b64encode bs = map url_char (b64encode bs)"

definition urlsafe_b64decode :: "bytes \<Rightarrow> exn + bytes" where
  "urlsafe_b64decode bs = (case b64_go 0 0 0 (map std_char (from_bytes bs)) of
       None \<Rightarrow> Inl ValueError | Some ns \<Rightarrow> Inr (to_bytes ns))"

definition make_cursor :: "pyval \<Rightarrow> exn + pstr" where
  "make_cursor d =
     sbind (subscr d ''created_at'') (\<lambda>created_at. sbind (subscr d ''_id'') (\<lambda>ident.
     sbind (json_dumps (PList [created_at, ident])) (\<lambda>text.
     sbind (utf8_encode text) (\<lambda>bs. Inr (urlsafe_b64encode bs)))))"

definition read_cursor :: "pstr \<Rightarrow> exn + pyval \<times> pyval" where
  "read_cursor cursor =
     sbind (utf8_encode cursor) (\<lambda>raw. sbind (urlsafe_b64decode raw) (\<lambda>bs.
     sbind (utf8_decode bs) (\<lambda>text. sbind (loads_text text) (\<lambda>v. sbind (py_iter v) (\<lambda>parts.
     case parts of [created_at, ident] \<Rightarrow> Inr (created_at, ident) | _ \<Rightarrow> Inl ValueError)))))"

definition mongo_filter :: "runtime \<Rightarrow> pstr \<Rightarrow> RequestQuery \<Rightarrow> exn + pydict" where
  "mongo_filter R l q =
     (let base = items ((''log_id'', PStr l) #
          (case q_status q of None \<Rightarrow> [] | Some st \<Rightarrow> if st = [] then [] else [(''status'', doc [(''$in'', strs st)])]) @
          (case q_kind q of None \<Rightarrow> [] | Some k \<Rightarrow> [(''kind'', PStr k)]) @
          (case q_requested_by q of None \<Rightarrow> [] | Some r \<Rightarrow> [(''requested_by'', PStr r)]) @
          (case q_awaiting q of None \<Rightarrow> [] | Some a \<Rightarrow> [(''pending_for'', PStr a)]));
          full = (case q_subject_match q of None \<Rightarrow> base
            | Some kvs \<Rightarrow> foldl (\<lambda>f (k, v). AList.update (PStr (u ''subject.'' @ py_str R k)) v f) base kvs)
      in case q_cursor q of None \<Rightarrow> Inr full
         | Some [] \<Rightarrow> Inr full
         | Some cursor \<Rightarrow> sbind (read_cursor cursor) (\<lambda>(after_created_at, after_id).
             Inr (AList.update (lit ''$or'') (PList
               [doc [(''created_at'', doc [(''$gt'', after_created_at)])],
                doc [(''created_at'', after_created_at), (''_id'', doc [(''$gt'', after_id)])]]) full)))"

definition mongo_page :: "int \<Rightarrow> pyval list \<Rightarrow> exn + RequestView Page" where
  "mongo_page limit docs =
     (if limit < int (length docs) then
        (let kept = slice_to docs limit in
         sbind (if kept = [] then Inl IndexError else make_cursor (last kept)) (\<lambda>cursor.
         sbind (smap mongo_to_view kept) (\<lambda>vs. Inr \<lparr>pg_items = vs, pg_next_cursor = Some cursor\<rparr>)))
      else sbind (smap mongo_to_view docs) (\<lambda>vs. Inr \<lparr>pg_items = vs, pg_next_cursor = None\<rparr>))"

definition mongo_query :: "runtime \<Rightarrow> 's collection \<Rightarrow> pstr \<Rightarrow> RequestQuery \<Rightarrow> ('s, exn, RequestView Page) eff" where
  "mongo_query R c l q =
     mbind (mlift (mongo_filter R l q)) (\<lambda>f.
     mbind (mfind c (PDict f) None [(''created_at'', ASCENDING), (''_id'', ASCENDING)] (Some (q_limit q + 1)) (gathered Inr)) (\<lambda>docs.
     mlift (mongo_page (q_limit q) docs)))"

definition mongo_clear :: "'s collection \<Rightarrow> pstr \<Rightarrow> ('s, exn, unit) eff" where
  "mongo_clear c l = co_delete_many c (doc [(''log_id'', PStr l)])"

definition MongoProjectionStore :: "runtime \<Rightarrow> 's collection \<Rightarrow> pstr \<Rightarrow> 's projection_store" where
  "MongoProjectionStore R c l =
     \<lparr>pj_upsert = mongo_upsert c l, pj_get = mongo_get R c l, pj_query = mongo_query R c l, pj_clear = mongo_clear c l\<rparr>"

subsection \<open>Idempotency\<close>

definition mongo_reserve :: "runtime \<Rightarrow> 's collection \<Rightarrow> pstr \<Rightarrow> pyval \<Rightarrow> pstr \<Rightarrow> ('s, exn, Reservation) eff" where
  "mongo_reserve R c l key fp =
     (let ident = PStr (mongo_doc_id l (py_str R key)) in
      mcatch (mbind (co_insert_one c (doc [(''_id'', ident), (''fingerprint'', PStr fp), (''response'', PNone)])) (\<lambda>_.
          mret \<lparr>rs_won = True, rs_fingerprint = fp, rs_response = PNone\<rparr>))
        (\<lambda>x. if isinstance x DuplicateKeyError then
           mbind (co_find_one c (doc [(''_id'', ident)]) []) (\<lambda>found.
           mlift (let existing = (case found of None \<Rightarrow> PNone | Some d \<Rightarrow> d) in
             sbind (subscr existing ''fingerprint'') (\<lambda>fp'.
             if fp' \<noteq> PStr fp then Inl IdempotencyConflict
             else sbind (subscr existing ''response'') (\<lambda>resp.
               Inr \<lparr>rs_won = False, rs_fingerprint = fp, rs_response = resp\<rparr>))))
         else mraise x))"

definition mongo_complete :: "runtime \<Rightarrow> 's collection \<Rightarrow> pstr \<Rightarrow> pyval \<Rightarrow> pyval \<Rightarrow> ('s, exn, unit) eff" where
  "mongo_complete R c l key resp =
     co_update_one c (doc [(''_id'', PStr (mongo_doc_id l (py_str R key)))]) (doc [(''$set'', doc [(''response'', resp)])]) False"

definition mongo_release :: "runtime \<Rightarrow> 's collection \<Rightarrow> pstr \<Rightarrow> pyval \<Rightarrow> ('s, exn, unit) eff" where
  "mongo_release R c l key = co_delete_one c (doc [(''_id'', PStr (mongo_doc_id l (py_str R key)))])"

definition MongoIdempotencyStore :: "runtime \<Rightarrow> 's collection \<Rightarrow> pstr \<Rightarrow> 's idempotency_store" where
  "MongoIdempotencyStore R c l =
     \<lparr>id_reserve = mongo_reserve R c l, id_complete = mongo_complete R c l, id_release = mongo_release R c l\<rparr>"

end
