(* ===== verification/MongoLedger.thy ===== *)
theory MongoLedger
  imports Mongo "HOL-Library.Multiset"
begin

section \<open>The MongoDB ledger keeps the contract\<close>

text \<open>
  What the code relies on of the database, and that the event store built on it is one: the collection
  holds one document for each entry of the log, in its slot, and every operation reads or extends that
  log.  The unique index on \<open>_id\<close> is what makes an append atomic.
\<close>

subsection \<open>Filters\<close>

text \<open>Values that compare as they are: strings, integers, null.\<close>

fun atom :: "pyval \<Rightarrow> bool" where
  "atom (PStr _) = True"
| "atom (PInt _) = True"
| "atom PNone = True"
| "atom _ = False"

text \<open>A top-level field name: no operator, no path.\<close>

definition field :: "string \<Rightarrow> bool" where
  "field k \<longleftrightarrow> k \<noteq> [] \<and> hd k \<noteq> CHR ''$'' \<and> CHR ''.'' \<notin> set k"

locale mongo_filters =
  fixes matches :: "pyval \<Rightarrow> pyval \<Rightarrow> bool"
  assumes all_of: "matches (PDict (kc # kcs)) d \<longleftrightarrow> matches (PDict [kc]) d \<and> matches (PDict kcs) d"
    and nothing: "matches (PDict []) d"
    and equals: "field k \<Longrightarrow> subscr d k = Inr v \<Longrightarrow> atom v \<Longrightarrow> atom w \<Longrightarrow> matches (PDict [(lit k, w)]) d \<longleftrightarrow> v = w"
    and ranges: "field k \<Longrightarrow> subscr d k = Inr (PInt n) \<Longrightarrow> matches (PDict [(lit k, doc [(''$gte'', PInt m)])]) d \<longleftrightarrow> m \<le> n"
      "field k \<Longrightarrow> subscr d k = Inr (PInt n) \<Longrightarrow> matches (PDict [(lit k, doc [(''$lt'', PInt m)])]) d \<longleftrightarrow> n < m"
      "field k \<Longrightarrow> subscr d k = Inr (PInt n) \<Longrightarrow> matches (PDict [(lit k, doc [(''$lte'', PInt m)])]) d \<longleftrightarrow> n \<le> m"

subsection \<open>Order\<close>

text \<open>
  What a sort promises of two documents, one after the other: strings and integers ascend or descend;
  nothing is said of values of other types.
\<close>

fun in_order :: "(string \<times> int) list \<Rightarrow> pyval \<Rightarrow> pyval \<Rightarrow> bool" where
  "in_order [] a b = True"
| "in_order ((k, dir) # ks) a b =
     (case (subscr a k, subscr b k) of
        (Inr (PInt m), Inr (PInt n)) \<Rightarrow> if m = n then in_order ks a b else if dir = ASCENDING then m < n else n < m
      | (Inr (PStr m), Inr (PStr n)) \<Rightarrow> if m = n then in_order ks a b else if dir = ASCENDING then m < n else n < m
      | _ \<Rightarrow> True)"

text \<open>An answer: the documents that match, each once, in order; \<open>0\<close> is no limit.\<close>

definition answers :: "(pyval \<Rightarrow> bool) \<Rightarrow> (string \<times> int) list \<Rightarrow> pyval list \<Rightarrow> pyval list \<Rightarrow> bool" where
  "answers P order ds ys \<longleftrightarrow> mset ys = mset (filter P ds) \<and> sorted_wrt (in_order order) ys"

definition limited :: "int option \<Rightarrow> 'a list \<Rightarrow> 'a list" where
  "limited limit ys = (case limit of None \<Rightarrow> ys | Some n \<Rightarrow> if n = 0 then ys else take (nat \<bar>n\<bar>) ys)"

text \<open>A projection keeps the fields it names.\<close>

definition shown :: "pyval option \<Rightarrow> pyval \<Rightarrow> pyval \<Rightarrow> bool" where
  "shown proj d d' \<longleftrightarrow> (case proj of None \<Rightarrow> d' = d
     | Some p \<Rightarrow> \<forall>k. (\<exists>v. subscr p k = Inr v) \<longrightarrow> subscr d' k = subscr d k)"

lemma storable_doc:
  assumes "distinct (map fst kvs)" "\<And>k v. (k, v) \<in> set kvs \<Longrightarrow> storable v"
  shows "storable (doc kvs)"
proof -
  have "map fst (items kvs) = map lit (map fst kvs)" by (simp add: items_def case_prod_beta)
  moreover have "inj lit" by (simp add: inj_def u_def)
  ultimately have "distinct (map fst (items kvs))"
    using assms(1) by (simp only: distinct_map) (meson UNIV_I inj_on_def)
  then show ?thesis using assms(2) by (auto simp: storable_def list_all_iff items_def)
qed

subsection \<open>A collection\<close>

text \<open>
  \<open>docs s\<close> is what the collection holds; \<open>near ds es\<close> says that other clients may take it from \<open>ds\<close>
  to \<open>es\<close>.  A call sees one moment between the world before and the world after it.
\<close>

definition has_id :: "pyval \<Rightarrow> pyval list \<Rightarrow> bool" where
  "has_id d ds \<longleftrightarrow> (\<exists>d'\<in>set ds. subscr d' ''_id'' = subscr d ''_id'')"

locale mongo_collection = mongo_filters matches
  for matches :: "pyval \<Rightarrow> pyval \<Rightarrow> bool" +
  fixes co :: "'s collection" and docs :: "'s \<Rightarrow> pyval list" and near :: "pyval list \<Rightarrow> pyval list \<Rightarrow> bool"
  assumes near_refl: "near ds ds"
    and near_trans: "near ds es \<Longrightarrow> near es fs \<Longrightarrow> near ds fs"
    and find_one: "co_find_one co q order s = (r, t) \<Longrightarrow>
      \<exists>ds. near (docs s) ds \<and> near ds (docs t) \<and>
        (\<forall>found. r = Inr found \<longrightarrow> (\<exists>ys. answers (matches q) order ds ys \<and> found = (case ys of [] \<Rightarrow> None | y # _ \<Rightarrow> Some y)))"
    and find: "co_find co q proj order limit s = ((found, stop), t) \<Longrightarrow>
      \<exists>ds ys. near (docs s) ds \<and> near ds (docs t) \<and> answers (matches q) order ds ys \<and>
        (\<exists>zs. prefix zs (limited limit ys) \<and> list_all2 (shown proj) zs found \<and> (stop = None \<longrightarrow> zs = limited limit ys))"
    and insert_done: "storable d \<Longrightarrow> co_insert_one co d s = (Inr v, t) \<Longrightarrow>
      \<exists>ds. near (docs s) ds \<and> \<not> has_id d ds \<and> near (ds @ [d]) (docs t)"
    and insert_failed: "co_insert_one co d s = (Inl x, t) \<Longrightarrow>
      \<exists>ds. near (docs s) ds \<and> near ds (docs t) \<and> (x = DuplicateKeyError \<longrightarrow> has_id d ds)"

subsection \<open>Documents and entries\<close>

lemma simple_id_atom: "simple_id v \<Longrightarrow> atom v \<and> storable v \<and> hashable v"
  by (cases v) (simp_all add: simple_id_def)

lemma entry_doc_fields [simp]:
  "subscr (entry_doc l e) ''_id'' = Inr (PStr (ledger_doc_id l (e_seq e)))"
  "subscr (entry_doc l e) ''log_id'' = Inr (PStr l)"
  "subscr (entry_doc l e) ''seq'' = Inr (PInt (e_seq e))"
  "subscr (entry_doc l e) ''event_type'' = Inr (PStr (e_event_type e))"
  "subscr (entry_doc l e) ''request_id'' = Inr (e_request_id e)"
  "subscr (entry_doc l e) ''payload'' = Inr (e_payload e)"
  "subscr (entry_doc l e) ''entry_hash'' = Inr (PStr (e_entry_hash e))"
  by (simp_all add: entry_doc_def core_items_def u_def)

lemma mongo_to_entry_doc [simp]: "mongo_to_entry (entry_doc l e) = Inr e"
  by (simp add: mongo_to_entry_def entry_doc_def core_items_def u_def)

lemma truthy_entry_doc [simp]: "truthy (entry_doc l e)"
  by (simp add: entry_doc_def)

lemma storable_entry_doc: "simple_entry e \<Longrightarrow> storable (entry_doc l e)"
  unfolding entry_doc_def by (rule storable_doc) (auto simp: core_items_def simple_entry_def dest: simple_id_atom)

lemma entry_doc_inj [simp]: "entry_doc l e = entry_doc l' e' \<longleftrightarrow> l = l' \<and> e = e'"
  by (metis entry_doc_fields(2) mongo_to_entry_doc pyval.inject(4) sum.inject(2))

text \<open>The id of a ledger document names its log and its place in it.\<close>

lemma int_repr_no_colon: "58 \<notin> set (int_repr n)"
  by (auto simp: int_repr_def is_digit_def dest!: nat_repr_digits split: if_splits)

lemma int_repr_inj: "int_repr m = int_repr n \<longleftrightarrow> m = n"
proof
  assume "int_repr m = int_repr n"
  moreover have "readsD": "jconst (int_repr k) = Some (PInt k, [])" for k
    using jconst_int [of "[]" k] by simp
  ultimately show "m = n" by (metis option.inject prod.inject pyval.inject(2))
qed simp

lemma ledger_doc_id_inj: "ledger_doc_id l m = ledger_doc_id l' n \<longleftrightarrow> l = l' \<and> m = n"
proof
  assume eq: "ledger_doc_id l m = ledger_doc_id l' n"
  have colon: "u '':'' = [58::nat]" by (simp add: u_def)
  have "takeWhile (\<lambda>c. c \<noteq> 58) (rev (ledger_doc_id k i)) = rev (int_repr i)" for k i
    using int_repr_no_colon [of i] by (simp add: ledger_doc_id_def colon takeWhile_append)
  with eq have "int_repr m = int_repr n" by (metis rev_rev_ident)
  then show "l = l' \<and> m = n" using eq int_repr_inj by (simp add: ledger_doc_id_def)
qed simp


subsection \<open>The log in a collection\<close>

definition owned :: "pstr \<Rightarrow> pyval \<Rightarrow> bool" where
  "owned l d \<longleftrightarrow> subscr d ''log_id'' = Inr (PStr l)"

definition entries_in :: "pstr \<Rightarrow> pyval list \<Rightarrow> LedgerEntry list" where
  "entries_in l ds = List.map_filter (\<lambda>d. case mongo_to_entry d of Inl _ \<Rightarrow> None | Inr e \<Rightarrow> Some e) (filter (owned l) ds)"

text \<open>Every document is the document of an entry of its log.\<close>

definition placed :: "pyval \<Rightarrow> bool" where
  "placed d \<longleftrightarrow> (case (subscr d ''log_id'', mongo_to_entry d) of
     (Inr (PStr l), Inr e) \<Rightarrow> d = entry_doc l e \<and> simple_entry e | _ \<Rightarrow> False)"

definition well :: "pstr \<Rightarrow> pyval list \<Rightarrow> bool" where
  "well l ds \<longleftrightarrow> list_all placed ds \<and> map e_seq (entries_in l ds) = map int [0..<length (entries_in l ds)]"

lemma placed_iff: "placed d \<longleftrightarrow> (\<exists>l e. d = entry_doc l e \<and> simple_entry e)"
proof
  assume "placed d"
  then obtain l e where "mongo_to_entry d = Inr e" "d = entry_doc l e \<and> simple_entry e"
    unfolding placed_def by (auto split: sum.splits pyval.splits) (metis sumE)+
  then show "\<exists>l e. d = entry_doc l e \<and> simple_entry e" by blast
qed (auto simp: placed_def)

lemma owned_entry_doc [simp]: "owned l (entry_doc l' e) \<longleftrightarrow> l' = l"
  by (simp add: owned_def)

lemma entries_in_simps [simp]:
  "entries_in l [] = []"
  "entries_in l (ds @ es) = entries_in l ds @ entries_in l es"
  "entries_in l (entry_doc l' e # ds) = (if l' = l then e # entries_in l ds else entries_in l ds)"
  by (simp_all add: entries_in_def map_filter_def)

lemma owned_docs: "list_all placed ds \<Longrightarrow> filter (owned l) ds = map (entry_doc l) (entries_in l ds)"
  by (induction ds) (auto simp: placed_iff)

lemma in_entries: "list_all placed ds \<Longrightarrow> e \<in> set (entries_in l ds) \<longleftrightarrow> entry_doc l e \<in> set ds"
  by (induction ds) (auto simp: placed_iff split: if_splits)

lemma well_seqs: "well l ds \<Longrightarrow> i < length (entries_in l ds) \<Longrightarrow> e_seq (entries_in l ds ! i) = int i"
  unfolding well_def by (metis diff_zero length_map length_upt nth_map nth_upt plus_nat.add_0)

lemma well_append: "well l ds \<Longrightarrow> well l (ds @ [entry_doc l e]) \<longleftrightarrow> simple_entry e \<and> e_seq e = int (length (entries_in l ds))"
  by (auto simp: well_def placed_iff)

text \<open>A slot is taken exactly when the log reaches it.\<close>

lemma slot_taken:
  assumes "well l ds" "0 \<le> e_seq e"
  shows "has_id (entry_doc l e) ds \<longleftrightarrow> e_seq e < int (length (entries_in l ds))"
proof
  assume "has_id (entry_doc l e) ds"
  then obtain d where d: "d \<in> set ds" "subscr d ''_id'' = Inr (PStr (ledger_doc_id l (e_seq e)))"
    by (auto simp: has_id_def)
  then obtain e' where e': "d = entry_doc l e'" "e_seq e' = e_seq e"
    using assms(1) by (auto simp: well_def list_all_iff placed_iff ledger_doc_id_inj)
  then have "e' \<in> set (entries_in l ds)" using d(1) assms(1) in_entries by (simp add: well_def)
  then obtain i where "i < length (entries_in l ds)" "entries_in l ds ! i = e'" by (auto simp: in_set_conv_nth)
  then show "e_seq e < int (length (entries_in l ds))" using well_seqs [OF assms(1)] e'(2) by force
next
  assume "e_seq e < int (length (entries_in l ds))"
  then have i: "nat (e_seq e) < length (entries_in l ds)" using assms(2) by simp
  define e' where "e' = entries_in l ds ! nat (e_seq e)"
  have "e_seq e' = e_seq e" using well_seqs [OF assms(1) i] assms(2) by (simp add: e'_def)
  moreover have "entry_doc l e' \<in> set ds"
    using in_entries [of ds e' l] assms(1) i by (simp add: well_def e'_def)
  ultimately show "has_id (entry_doc l e) ds"
    unfolding has_id_def by (intro bexI [of _ "entry_doc l e'"]) simp_all
qed

text \<open>An ordered answer is determined: sequence numbers do not repeat.\<close>

lemma seq_order_unique:
  assumes "sorted_wrt (\<lambda>a b. e_seq a < e_seq b) xs"
    and "mset ys = mset (map (entry_doc l) xs)" "sorted_wrt (in_order [(''seq'', ASCENDING)]) ys"
  shows "ys = map (entry_doc l) xs"
proof -
  define key where "key d = (case subscr d ''seq'' of Inr (PInt n) \<Rightarrow> n | _ \<Rightarrow> 0)" for d
  have shape: "\<exists>e\<in>set xs. y = entry_doc l e" if "y \<in> set ys" for y
    using that assms(2) by (metis (no_types, lifting) image_iff set_map set_mset_mset)
  have keys: "map key (map (entry_doc l) xs) = map e_seq xs" by (simp add: key_def)
  have "sorted_wrt (<) (map e_seq xs)" using assms(1) by (simp add: sorted_wrt_map)
  then have d: "sorted (map e_seq xs)" "distinct (map e_seq xs)" by (simp_all add: strict_sorted_iff)
  have "sorted (map key ys)"
    unfolding sorted_map using assms(3)
  proof (rule sorted_wrt_mono_rel [rotated])
    fix x y assume xy: "x \<in> set ys" "y \<in> set ys" "in_order [(''seq'', ASCENDING)] x y"
    obtain a b where "x = entry_doc l a" "y = entry_doc l b" using shape xy(1,2) by blast
    then show "key x \<le> key y" using xy(3) by (simp add: key_def split: if_splits)
  qed
  moreover have "mset (map key ys) = mset (map e_seq xs)"
    using assms(2) keys by (metis mset_map)
  ultimately have k: "map key ys = map e_seq xs" using d(1) by (metis properties_for_sort)
  have len: "length ys = length xs" using k by (metis length_map)
  show ?thesis
  proof (rule nth_equalityI)
    fix i assume i: "i < length ys"
    then obtain e where e: "e \<in> set xs" "ys ! i = entry_doc l e" using shape by (metis nth_mem)
    have "e_seq e = e_seq (xs ! i)" using k i len e(2) by (metis (no_types, lifting) entry_doc_fields(3) key_def nth_map pyval.simps(83) sum.simps(6))
    moreover have "inj_on e_seq (set xs)" using d(2) by (simp add: distinct_map)
    ultimately have "e = xs ! i" using e(1) i len by (simp add: inj_on_def)
    then show "ys ! i = map (entry_doc l) xs ! i" using e(2) i len by simp
  qed (simp add: len)
qed

lemma seq_order_last:
  assumes "sorted_wrt (\<lambda>a b. e_seq a < e_seq b) xs"
    and "mset ys = mset (map (entry_doc l) xs)" "sorted_wrt (in_order [(''seq'', DESCENDING)]) ys"
  shows "ys = rev (map (entry_doc l) xs)"
proof -
  have shape: "\<exists>e\<in>set xs. y = entry_doc l e" if "y \<in> set ys" for y
    using that assms(2) by (metis (no_types, lifting) image_iff set_map set_mset_mset)
  have "sorted_wrt (in_order [(''seq'', ASCENDING)]) (rev ys)"
    unfolding sorted_wrt_rev using assms(3)
  proof (rule sorted_wrt_mono_rel [rotated])
    fix x y assume xy: "x \<in> set ys" "y \<in> set ys" "in_order [(''seq'', DESCENDING)] x y"
    obtain a b where "x = entry_doc l a" "y = entry_doc l b" using shape xy(1,2) by blast
    then show "in_order [(''seq'', ASCENDING)] y x"
      using xy(3) by (simp add: ASCENDING_def DESCENDING_def split: if_splits)
  qed
  from seq_order_unique [OF assms(1) _ this, of l] assms(2) show ?thesis by (metis mset_rev rev_rev_ident)
qed

lemma well_sorted:
  assumes "well l ds"
  shows "sorted_wrt (\<lambda>a b. e_seq a < e_seq b) (filter P (entries_in l ds))"
proof -
  have "sorted_wrt (\<lambda>a b. e_seq a < e_seq b) (entries_in l ds)"
    using well_seqs [OF assms] by (simp add: sorted_wrt_iff_nth_less)
  then show ?thesis by (rule sorted_wrt_filter)
qed


subsection \<open>The contract\<close>

text \<open>
  BSON has no tuples and the protocol types a request id as a string, so that the contract is stated of
  the store behind a caller which passes what JSON can hold: \<open>json_events\<close> refuses anything else.  (A dict
  in the place of a request id would reach the database as an operator of its query language.)
\<close>

definition json_events :: "'s event_store \<Rightarrow> 's event_store" where
  "json_events es = es
     \<lparr>es_append := (\<lambda>e. if simple_entry e then es_append es e else mraise TypeError),
      es_events_for_request := (\<lambda>rid. if simple_id rid then es_events_for_request es rid else mraise TypeError)\<rparr>"

locale mongo_ledger = mongo_collection matches co docs near
  for matches and co :: "'s collection" and docs near +
  fixes l :: pstr and env :: "LedgerEntry list \<Rightarrow> LedgerEntry list \<Rightarrow> bool"
  assumes env_refl: "env xs xs"
    and env_trans: "env xs ys \<Longrightarrow> env ys zs \<Longrightarrow> env xs zs"
    and env_prefix: "env xs ys \<Longrightarrow> prefix xs ys"
    and env_intact: "env xs ys \<Longrightarrow> intact xs \<Longrightarrow> intact ys"
    and near_log: "near ds es \<Longrightarrow> well l ds \<Longrightarrow> well l es \<and> env (entries_in l ds) (entries_in l es)"
begin

definition ok :: "'s \<Rightarrow> bool" where
  "ok s \<longleftrightarrow> well l (docs s)"

definition log :: "'s \<Rightarrow> LedgerEntry list" where
  "log s = entries_in l (docs s)"

text \<open>One moment of the collection is one moment of the log.\<close>

lemma moment:
  assumes "ok s" "near (docs s) ds" "near ds (docs t)"
  shows "ok t" "well l ds" "env (log s) (entries_in l ds)" "env (entries_in l ds) (log t)"
proof -
  show w: "well l ds" "env (log s) (entries_in l ds)"
    using near_log [OF assms(2)] assms(1) by (simp_all add: ok_def log_def)
  show "ok t" "env (entries_in l ds) (log t)" using near_log [OF assms(3) w(1)] by (simp_all add: ok_def log_def)
qed

lemma both [simp]: "matches (PDict (a # b # cs)) d \<longleftrightarrow> matches (PDict [a]) d \<and> matches (PDict (b # cs)) d"
  by (rule all_of)

lemma matches_own [simp]: "matches (PDict [(lit ''log_id'', PStr k)]) (entry_doc l' e) \<longleftrightarrow> l' = k"
  by (subst equals [where v = "PStr l'"]) (auto simp: field_def)

lemma matches_fields [simp]:
  "matches (PDict [(lit ''_id'', PStr x)]) (entry_doc l' e) \<longleftrightarrow> ledger_doc_id l' (e_seq e) = x"
  "matches (PDict [(lit ''event_type'', PStr x)]) (entry_doc l' e) \<longleftrightarrow> e_event_type e = x"
  "matches (PDict [(lit ''seq'', PDict [(lit ''$gte'', PInt n)])]) (entry_doc l' e) \<longleftrightarrow> n \<le> e_seq e"
  "matches (PDict [(lit ''seq'', PDict [(lit ''$lt'', PInt n)])]) (entry_doc l' e) \<longleftrightarrow> e_seq e < n"
  using equals [of "''_id''" "entry_doc l' e" "PStr (ledger_doc_id l' (e_seq e))" "PStr x"]
    equals [of "''event_type''" "entry_doc l' e" "PStr (e_event_type e)" "PStr x"]
    ranges [of "''seq''" "entry_doc l' e" "e_seq e" n] by (auto simp: field_def)

lemma matches_request [simp]:
  "simple_entry e \<Longrightarrow> simple_id rid \<Longrightarrow>
     matches (PDict [(lit ''request_id'', rid)]) (entry_doc l' e) \<longleftrightarrow> e_request_id e = rid"
  by (subst equals [where v = "e_request_id e"]) (auto simp: field_def simple_entry_def simple_id_atom)

text \<open>A filter on the log id selects entries of the log, in the order they are in.\<close>

lemma own_answer:
  assumes "well l ds" "\<And>l' e. simple_entry e \<Longrightarrow> P (entry_doc l' e) \<longleftrightarrow> l' = l \<and> Q e"
    and "answers P [(''seq'', dir)] ds ys"
  shows "dir = ASCENDING \<Longrightarrow> ys = map (entry_doc l) (filter Q (entries_in l ds))"
    and "dir = DESCENDING \<Longrightarrow> ys = rev (map (entry_doc l) (filter Q (entries_in l ds)))"
proof -
  have "list_all placed ds" using assms(1) by (simp add: well_def)
  then have "filter P ds = map (entry_doc l) (filter Q (entries_in l ds))"
    by (induction ds) (auto simp: placed_iff assms(2))
  with assms(3) have a: "mset ys = mset (map (entry_doc l) (filter Q (entries_in l ds)))" "sorted_wrt (in_order [(''seq'', dir)]) ys"
    by (simp_all add: answers_def)
  show "dir = ASCENDING \<Longrightarrow> ys = map (entry_doc l) (filter Q (entries_in l ds))"
    using seq_order_unique [OF well_sorted [OF assms(1)] a(1)] a(2) by simp
  show "dir = DESCENDING \<Longrightarrow> ys = rev (map (entry_doc l) (filter Q (entries_in l ds)))"
    using seq_order_last [OF well_sorted [OF assms(1)] a(1)] a(2) by simp
qed

lemma shown_all: "list_all2 (shown None) zs ys \<longleftrightarrow> ys = zs"
  by (auto simp: shown_def list_all2_conv_all_nth intro: nth_equalityI)

lemma smap_entries [simp]: "smap mongo_to_entry (map (entry_doc l) es) = Inr es"
  by (induction es) auto

lemma gathered_entries [simp]: "gathered mongo_to_entry (map (entry_doc l) es, None) = Inr es"
  by (simp add: gathered_def)

lemma streamed_entries [simp]: "streamed mongo_to_entry (map (entry_doc l) es) stop = (es, stop)"
  by (induction es) auto

lemma filter_from: "well l ds \<Longrightarrow> 0 \<le> n \<Longrightarrow> filter (\<lambda>e. n \<le> e_seq e) (entries_in l ds) = drop (nat n) (entries_in l ds)"
  and filter_below: "well l ds \<Longrightarrow> 0 \<le> n \<Longrightarrow> filter (\<lambda>e. e_seq e < n) (entries_in l ds) = take (nat n) (entries_in l ds)"
proof -
  assume w: "well l ds" and n: "0 \<le> n"
  define xs where "xs = entries_in l ds"
  have seq: "e_seq (xs ! i) = int i" if "i < length xs" for i using well_seqs [OF w] that by (simp add: xs_def)
  have split: "filter P xs = filter P (take (nat n) xs) @ filter P (drop (nat n) xs)" for P
    by (metis append_take_drop_id filter_append)
  have t: "e_seq e < n" if e: "e \<in> set (take (nat n) xs)" for e
  proof -
    obtain i where "i < length (take (nat n) xs)" "take (nat n) xs ! i = e" using e by (metis in_set_conv_nth)
    then show ?thesis using seq [of i] n by auto
  qed
  have d: "n \<le> e_seq e" if e: "e \<in> set (drop (nat n) xs)" for e
  proof -
    obtain i where "i < length (drop (nat n) xs)" "drop (nat n) xs ! i = e" using e by (metis in_set_conv_nth)
    then show ?thesis using seq [of "nat n + i"] n by auto
  qed
  have "filter (\<lambda>e. n \<le> e_seq e) (take (nat n) xs) = []" "filter (\<lambda>e. e_seq e < n) (drop (nat n) xs) = []"
    "filter (\<lambda>e. n \<le> e_seq e) (drop (nat n) xs) = drop (nat n) xs" "filter (\<lambda>e. e_seq e < n) (take (nat n) xs) = take (nat n) xs"
    using t d by (auto simp: filter_empty_conv filter_id_conv) (meson leD t d)+
  then show "filter (\<lambda>e. n \<le> e_seq e) (entries_in l ds) = drop (nat n) (entries_in l ds)"
    "filter (\<lambda>e. e_seq e < n) (entries_in l ds) = take (nat n) (entries_in l ds)"
    using split [of "\<lambda>e. n \<le> e_seq e"] split [of "\<lambda>e. e_seq e < n"] by (simp_all add: xs_def)
qed


text \<open>Reads.\<close>

lemma find_one_own:
  assumes "ok s" "co_find_one co q [(''seq'', DESCENDING)] s = (r, t)"
    and "\<And>l' e. simple_entry e \<Longrightarrow> matches q (entry_doc l' e) \<longleftrightarrow> l' = l \<and> Q e"
  shows "ok t \<and> (\<exists>xs. env (log s) xs \<and> env xs (log t) \<and>
    (\<forall>found. r = Inr found \<longrightarrow> found = map_option (entry_doc l) (last_of (filter Q xs))))"
proof -
  obtain ds where ds: "near (docs s) ds" "near ds (docs t)"
    "\<forall>found. r = Inr found \<longrightarrow> (\<exists>ys. answers (matches q) [(''seq'', DESCENDING)] ds ys \<and> found = (case ys of [] \<Rightarrow> None | y # _ \<Rightarrow> Some y))"
    using find_one [OF assms(2)] by blast
  note m = moment [OF assms(1) ds(1,2)]
  have "found = map_option (entry_doc l) (last_of (filter Q (entries_in l ds)))" if found: "r = Inr found" for found
  proof -
    obtain ys where ys: "answers (matches q) [(''seq'', DESCENDING)] ds ys" "found = (case ys of [] \<Rightarrow> None | y # _ \<Rightarrow> Some y)"
      using ds(3) found by blast
    have "ys = rev (map (entry_doc l) (filter Q (entries_in l ds)))" by (rule own_answer(2) [OF m(2) assms(3) ys(1) refl])
    then show ?thesis unfolding ys(2)
      by (cases "filter Q (entries_in l ds)" rule: rev_cases) (simp_all add: last_of_def)
  qed
  then show ?thesis using m by blast
qed

lemma find_own:
  assumes "ok s" "co_find co q proj [(''seq'', ASCENDING)] limit s = ((found, stop), t)"
    and "\<And>l' e. simple_entry e \<Longrightarrow> matches q (entry_doc l' e) \<longleftrightarrow> l' = l \<and> Q e"
  shows "ok t \<and> (\<exists>xs zs. (\<exists>ds. well l ds \<and> xs = entries_in l ds) \<and> env (log s) xs \<and> env xs (log t) \<and>
    prefix zs (limited limit (filter Q xs)) \<and> list_all2 (shown proj) (map (entry_doc l) zs) found \<and>
    (stop = None \<longrightarrow> zs = limited limit (filter Q xs)))"
proof -
  obtain ds ys zs where ds: "near (docs s) ds" "near ds (docs t)" "answers (matches q) [(''seq'', ASCENDING)] ds ys"
    "prefix zs (limited limit ys)" "list_all2 (shown proj) zs found" "stop = None \<longrightarrow> zs = limited limit ys"
    using find [OF assms(2)] by blast
  note m = moment [OF assms(1) ds(1,2)]
  have ys: "ys = map (entry_doc l) (filter Q (entries_in l ds))" by (rule own_answer(1) [OF m(2) assms(3) ds(3) refl])
  have lim: "limited limit (map f xs) = map f (limited limit xs)" for f :: "LedgerEntry \<Rightarrow> pyval" and xs
    by (simp add: limited_def take_map split: option.split)
  obtain es where "zs = map (entry_doc l) es" "prefix es (limited limit (filter Q (entries_in l ds)))"
    using ds(4) unfolding ys lim by (auto simp: prefix_def map_eq_append_conv)
  moreover have "stop = None \<longrightarrow> es = limited limit (filter Q (entries_in l ds))"
    using ds(6) calculation(1) unfolding ys lim by (simp add: inj_def)
  ultimately show ?thesis using m ds(5) by blast
qed


text \<open>
  The append: of an entry whose slot is at or before the end of the log, it succeeds only in the slot
  that follows the log, and fails with a conflict only when the slot was taken.
\<close>

lemma append_outcome:
  assumes "ok s" "simple_entry e" "0 \<le> e_seq e" "mongo_append co l e s = (r, t)"
  obtains (written) xs where "r = Inr ()" "env (log s) xs" "int (length xs) \<le> e_seq e"
      "e_seq e = int (length xs) \<Longrightarrow> ok t \<and> env (xs @ [e]) (log t)"
    | (refused) xs where "r = Inl LedgerConflict" "ok t" "env (log s) xs" "env xs (log t)" "e_seq e < int (length xs)"
    | (failed) x where "r = Inl x" "ok t" "env (log s) (log t)" "x \<noteq> DuplicateKeyError"
proof -
  obtain q t' where ins: "co_insert_one co (entry_doc l e) s = (q, t')" by (cases "co_insert_one co (entry_doc l e) s")
  show thesis
  proof (cases q)
    case (Inr v)
    obtain ds where ds: "near (docs s) ds" "\<not> has_id (entry_doc l e) ds" "near (ds @ [entry_doc l e]) (docs t')"
      using insert_done [OF storable_entry_doc [OF assms(2)] ins [unfolded Inr]] by blast
    have rt: "r = Inr ()" "t = t'" using assms(4) ins Inr by (simp_all add: mongo_append_def mcatch_def)
    have w: "well l ds" "env (log s) (entries_in l ds)" using moment [OF assms(1) ds(1)] near_refl near_log [OF ds(1)] assms(1)
      by (simp_all add: ok_def log_def)
    have "ok t \<and> env (entries_in l ds @ [e]) (log t)" if "e_seq e = int (length (entries_in l ds))"
      using near_log [OF ds(3)] well_append [OF w(1)] that assms(2) rt(2) by (simp add: ok_def log_def)
    then show thesis using written rt(1) w slot_taken [OF w(1) assms(3)] ds(2) by (meson linorder_not_less)
  next
    case (Inl x)
    obtain ds where ds: "near (docs s) ds" "near ds (docs t')" "x = DuplicateKeyError \<longrightarrow> has_id (entry_doc l e) ds"
      using insert_failed [OF ins [unfolded Inl]] by blast
    have rt: "r = Inl (if x = DuplicateKeyError then LedgerConflict else x)" "t = t'"
      using assms(4) ins Inl by (auto simp: mongo_append_def mcatch_def mraise_def)
    note m = moment [OF assms(1) ds(1,2), folded rt(2)]
    show thesis
    proof (cases "x = DuplicateKeyError")
      case True
      then show thesis using refused rt(1) m slot_taken [OF m(2) assms(3)] ds(3) by auto
    next
      case False
      then show thesis using failed rt(1) m env_trans by auto
    qed
  qed
qed

end

sublocale mongo_ledger \<subseteq> store: event_store_contract "json_events (MongoEventStore co l)" log env ok
proof (unfold_locales, goal_cases)
  note simps = json_events_def MongoEventStore_def mbind_def mlift_def
  case (5 s rh t)
  obtain r t' where r: "co_find_one co (doc [(''log_id'', PStr l)]) [(''seq'', DESCENDING)] s = (r, t')"
    by (cases "co_find_one co (doc [(''log_id'', PStr l)]) [(''seq'', DESCENDING)] s")
  have "ok t' \<and> (\<exists>xs. env (log s) xs \<and> env xs (log t') \<and>
      (\<forall>found. r = Inr found \<longrightarrow> found = map_option (entry_doc l) (last_of (filter (\<lambda>_. True) xs))))"
    by (rule find_one_own [OF 5(1) r]) simp
  then obtain xs where x: "ok t'" "env (log s) xs" "env xs (log t')"
      "\<forall>found. r = Inr found \<longrightarrow> found = map_option (entry_doc l) (last_of xs)" by auto
  have rt: "t = t'" "rh = (case r of Inl x \<Rightarrow> Inl x | Inr f \<Rightarrow> if_found mongo_to_entry f)"
    using 5(2) r by (auto simp: simps mongo_head_def split: sum.splits)
  have "if_found mongo_to_entry (map_option (entry_doc l) y) = Inr y" for y
    by (cases y) (simp_all add: if_found_def)
  then have "h = last_of xs" if "rh = Inr h" for h using that rt(2) x(4) by (auto split: sum.splits)
  then show ?case using x(1-3) rt(1) by blast
next
  case (6 s e v t)
  then have s: "simple_entry e" "mongo_append co l e s = (Inr v, t)"
    by (auto simp: json_events_def MongoEventStore_def mraise_def split: if_splits)
  from 6(1) s(1) 6(3) s(2) show ?case
  proof (cases rule: append_outcome)
    case (written xs)
    have "length (log s) \<le> length xs" using env_prefix [OF written(2)] by (rule prefix_length_le)
    then show ?thesis using written 6(4) by (intro conjI exI [of _ xs]) auto
  qed simp_all
next
  case (7 s e x t)
  show ?case
  proof (cases "simple_entry e")
    case True
    then have run: "mongo_append co l e s = (Inl x, t)" using 7(3) by (simp add: json_events_def MongoEventStore_def)
    obtain q t' where ins: "co_insert_one co (entry_doc l e) s = (q, t')" by (cases "co_insert_one co (entry_doc l e) s")
    then obtain y where y: "q = Inl y" "t = t'" using run by (cases q) (auto simp: mongo_append_def mcatch_def mraise_def)
    obtain ds where "near (docs s) ds" "near ds (docs t)" using insert_failed [OF ins [unfolded y(1)]] y(2) by blast
    from moment [OF 7(1) this] show ?thesis using env_trans by blast
  next
    case False
    then show ?thesis using 7 by (simp add: json_events_def mraise_def env_refl)
  qed
next
  note simps = json_events_def MongoEventStore_def mbind_def mlift_def
  case (8 s n rg t)
  let ?q = "doc [(''_id'', PStr (ledger_doc_id l n))]"
  obtain r t' where r: "co_find_one co ?q [] s = (r, t')" by (cases "co_find_one co ?q [] s")
  obtain ds where ds: "near (docs s) ds" "near ds (docs t')"
    "\<forall>found. r = Inr found \<longrightarrow> (\<exists>ys. answers (matches ?q) [] ds ys \<and> found = (case ys of [] \<Rightarrow> None | y # _ \<Rightarrow> Some y))"
    using find_one [OF r] by blast
  note m = moment [OF 8(1) ds(1,2)]
  let ?xs = "entries_in l ds"
  have rt: "t = t'" using 8(2) r by (cases r) (auto simp: simps mongo_get_by_seq_def)
  have "e = (if 0 \<le> n \<and> n < int (length ?xs) then Some (?xs ! nat n) else None)" if rg: "rg = Inr e" for e
  proof -
    obtain found where f: "r = Inr found" "if_found mongo_to_entry found = Inr e"
      using 8(2) r rg by (cases r) (auto simp: simps mongo_get_by_seq_def)
    obtain ys where ys: "answers (matches ?q) [] ds ys" "found = (case ys of [] \<Rightarrow> None | y # _ \<Rightarrow> Some y)"
      using ds(3) f(1) by blast
    have in_ds: "y \<in> set ys \<longleftrightarrow> (\<exists>e'\<in>set ?xs. y = entry_doc l e' \<and> e_seq e' = n)" for y
    proof -
      have "y \<in> set ys \<longleftrightarrow> y \<in> set ds \<and> matches ?q y"
        using ys(1) by (metis (no_types, lifting) answers_def mem_Collect_eq set_filter set_mset_mset)
      also have "\<dots> \<longleftrightarrow> (\<exists>e'. entry_doc l e' \<in> set ds \<and> y = entry_doc l e' \<and> e_seq e' = n)"
      proof
        assume y: "y \<in> set ds \<and> matches ?q y"
        then obtain l' e' where "y = entry_doc l' e'" using m(2) by (auto simp: well_def list_all_iff placed_iff)
        then show "\<exists>e'. entry_doc l e' \<in> set ds \<and> y = entry_doc l e' \<and> e_seq e' = n"
          using y by (auto simp: ledger_doc_id_inj)
      qed auto
      also have "\<dots> \<longleftrightarrow> (\<exists>e'\<in>set ?xs. y = entry_doc l e' \<and> e_seq e' = n)"
        using in_entries [of ds _ l] m(2) by (auto simp: well_def)
      finally show ?thesis .
    qed
    show ?thesis
    proof (cases "0 \<le> n \<and> n < int (length ?xs)")
      case True
      then have i: "nat n < length ?xs" "e_seq (?xs ! nat n) = n" using well_seqs [OF m(2), of "nat n"] by auto
      have only: "e' = ?xs ! nat n" if "e' \<in> set ?xs" "e_seq e' = n" for e'
        using that well_seqs [OF m(2)] by (metis in_set_conv_nth nat_int)
      have "entry_doc l (?xs ! nat n) \<in> set ys" using in_ds i by auto
      then obtain y zs where y: "ys = y # zs" by (cases ys) auto
      then have "y = entry_doc l (?xs ! nat n)" using in_ds [of y] only by auto
      then show ?thesis using f(2) ys(2) y True by (simp add: if_found_def)
    next
      case False
      have "ys = []"
      proof (rule ccontr)
        assume "ys \<noteq> []"
        then obtain e' where "e' \<in> set ?xs" "e_seq e' = n" using in_ds by (metis list.set_intros(1) neq_Nil_conv)
        then show False using False well_seqs [OF m(2)] by (metis in_set_conv_nth of_nat_0_le_iff of_nat_less_iff)
      qed
      then show ?thesis using f(2) ys(2) False by (simp add: if_found_def)
    qed
  qed
  then show ?case using m rt by blast
next
  note simps = json_events_def MongoEventStore_def
  case (9 s rid re t)
  show ?case
  proof (cases "simple_id rid")
    case True
    let ?q = "doc [(''log_id'', PStr l), (''request_id'', rid)]"
    obtain found stop t' where f: "co_find co ?q None [(''seq'', ASCENDING)] None s = ((found, stop), t')"
      by (metis prod.collapse)
    have "ok t' \<and> (\<exists>xs zs. (\<exists>ds. well l ds \<and> xs = entries_in l ds) \<and> env (log s) xs \<and> env xs (log t') \<and>
      prefix zs (limited None (filter (\<lambda>e. e_request_id e = rid) xs)) \<and> list_all2 (shown None) (map (entry_doc l) zs) found \<and>
      (stop = None \<longrightarrow> zs = limited None (filter (\<lambda>e. e_request_id e = rid) xs)))"
      by (rule find_own [OF 9(1) f]) (simp add: True)
    then obtain xs zs where x: "ok t'" "env (log s) xs" "env xs (log t')" "found = map (entry_doc l) zs"
      "stop = None \<longrightarrow> zs = filter (\<lambda>e. e_request_id e = rid) xs"
      unfolding shown_all limited_def by auto
    have "t = t'" "re = gathered mongo_to_entry (found, stop)"
      using 9(2) f True by (simp_all add: simps mongo_events_for_request_def mfind_def)
    moreover from this have "ys = filter (\<lambda>e. e_request_id e = rid) xs" if "re = Inr ys" for ys
      using that x(4,5) by (cases stop) (auto simp: gathered_def)
    ultimately show ?thesis using x(1-3) simple_id_atom [OF True] by blast
  next
    case False
    then show ?thesis using 9 env_refl by (auto simp: simps mraise_def)
  qed
next
  note simps = json_events_def MongoEventStore_def
  case (10 s start limit rs t)
  let ?q = "doc [(''log_id'', PStr l), (''seq'', doc [(''$gte'', PInt start)])]"
  obtain found stop t' where f: "co_find co ?q None [(''seq'', ASCENDING)] limit s = ((found, stop), t')"
    by (metis prod.collapse)
  have "ok t' \<and> (\<exists>xs zs. (\<exists>ds. well l ds \<and> xs = entries_in l ds) \<and> env (log s) xs \<and> env xs (log t') \<and>
    prefix zs (limited limit (filter (\<lambda>e. start \<le> e_seq e) xs)) \<and> list_all2 (shown None) (map (entry_doc l) zs) found \<and>
    (stop = None \<longrightarrow> zs = limited limit (filter (\<lambda>e. start \<le> e_seq e) xs)))"
    by (rule find_own [OF 10(1) f]) simp
  then obtain ds xs zs where x: "well l ds" "xs = entries_in l ds" "ok t'" "env (log s) xs" "env xs (log t')"
    "prefix zs (limited limit (filter (\<lambda>e. start \<le> e_seq e) xs))" "found = map (entry_doc l) zs"
    "stop = None \<longrightarrow> zs = limited limit (filter (\<lambda>e. start \<le> e_seq e) xs)"
    unfolding shown_all by auto
  have "t = t'" "rs = Inr (zs, stop)" using 10(2) f x(7) by (simp_all add: simps mongo_scan_def mfind_def)
  moreover have "prefix (limited limit ys) ys" for ys :: "LedgerEntry list"
    by (auto simp: limited_def take_is_prefix split: option.split)
  then have "prefix zs (filter (\<lambda>e. start \<le> e_seq e) xs)" using x(6) prefix_order.trans by blast
  moreover have "0 \<le> start \<longrightarrow> filter (\<lambda>e. start \<le> e_seq e) xs = drop (nat start) xs"
    using filter_from [OF x(1)] by (simp add: x(2))
  ultimately have "\<forall>ys f. rs = Inr (ys, f) \<longrightarrow> 0 \<le> start \<longrightarrow> prefix ys (drop (nat start) xs) \<and>
      (f = None \<longrightarrow> (case limit of None \<Rightarrow> ys = drop (nat start) xs
        | Some n \<Rightarrow> 0 < n \<longrightarrow> ys = take (nat n) (drop (nat start) xs)))"
    using x(8) by (auto simp: limited_def split: option.split)
  then show ?case using x(3-5) \<open>t = t'\<close> by blast
next
  note simps = json_events_def MongoEventStore_def
  case (11 s up_to rl t)
  let ?q = "doc ((''log_id'', PStr l) # (case up_to of None \<Rightarrow> [] | Some n \<Rightarrow> [(''seq'', doc [(''$lt'', PInt n)])]))"
  let ?Q = "\<lambda>e. case up_to of None \<Rightarrow> True | Some n \<Rightarrow> e_seq e < n"
  let ?p = "Some (doc [(''entry_hash'', PInt 1)])"
  obtain found stop t' where f: "co_find co ?q ?p [(''seq'', ASCENDING)] None s = ((found, stop), t')"
    by (metis prod.collapse)
  have "ok t' \<and> (\<exists>xs zs. (\<exists>ds. well l ds \<and> xs = entries_in l ds) \<and> env (log s) xs \<and> env xs (log t') \<and>
    prefix zs (limited None (filter ?Q xs)) \<and> list_all2 (shown ?p) (map (entry_doc l) zs) found \<and>
    (stop = None \<longrightarrow> zs = limited None (filter ?Q xs)))"
    by (rule find_own [OF 11(1) f]) (auto split: option.split)
  then obtain ds xs zs where x: "well l ds" "xs = entries_in l ds" "ok t'" "env (log s) xs" "env xs (log t')"
    "list_all2 (shown ?p) (map (entry_doc l) zs) found" "stop = None \<longrightarrow> zs = filter ?Q xs"
    unfolding limited_def by auto
  have hashes: "smap (\<lambda>d. sbind (subscr d ''entry_hash'') as_str) found = Inr (map e_entry_hash zs)"
    using x(6) by (induction zs arbitrary: found) (auto simp: list_all2_Cons1 shown_def u_def)
  have "t = t'" "rl = (case stop of None \<Rightarrow> Inr (map e_entry_hash zs) | Some x \<Rightarrow> Inl x)"
    using 11(2) f hashes by (simp_all add: simps mongo_leaf_hashes_def mfind_def gathered_def)
  moreover have "0 \<le> n \<longrightarrow> filter (\<lambda>e. e_seq e < n) xs = take (nat n) xs" for n
    using filter_below [OF x(1)] by (simp add: x(2))
  ultimately have "\<forall>hs. rl = Inr hs \<longrightarrow> (case up_to of None \<Rightarrow> hs = map e_entry_hash xs
      | Some n \<Rightarrow> 0 \<le> n \<longrightarrow> hs = slice_to (map e_entry_hash xs) n)"
    using x(7) by (cases stop) (auto simp: slice_to_def take_map split: option.splits)
  then show ?case using x(3-5) \<open>t = t'\<close> by blast
next
  note simps = json_events_def MongoEventStore_def mbind_def mlift_def
  case (12 s rc t)
  let ?q = "doc [(''log_id'', PStr l), (''event_type'', lit ''checkpoint.published'')]"
  let ?Q = "\<lambda>e. e_event_type e = u ''checkpoint.published''"
  obtain r t' where r: "co_find_one co ?q [(''seq'', DESCENDING)] s = (r, t')"
    by (cases "co_find_one co ?q [(''seq'', DESCENDING)] s")
  have "ok t' \<and> (\<exists>xs. env (log s) xs \<and> env xs (log t') \<and>
      (\<forall>found. r = Inr found \<longrightarrow> found = map_option (entry_doc l) (last_of (filter ?Q xs))))"
    by (rule find_one_own [OF 12(1) r]) simp
  then obtain xs where x: "ok t'" "env (log s) xs" "env xs (log t')"
      "\<forall>found. r = Inr found \<longrightarrow> found = map_option (entry_doc l) (last_of (filter ?Q xs))" by blast
  let ?f = "\<lambda>d. sbind (subscr d ''payload'') Checkpoint_from_dict"
  have rt: "t = t'" "rc = (case r of Inl x \<Rightarrow> Inl x | Inr found \<Rightarrow> if_found ?f found)"
    using 12(2) r by (auto simp: simps mongo_latest_checkpoint_def split: sum.splits)
  have "if_found ?f (map_option (entry_doc l) (last_of (filter ?Q xs))) = last_published xs"
    by (simp add: if_found_def last_of_def last_published_def split: list.split)
  then have "last_published xs = Inr c" if "rc = Inr c" for c using that rt(2) x(4) by (auto split: sum.splits)
  then show ?case using x(1-3) rt(1) by blast
qed (fact env_refl env_trans env_prefix env_intact)+

end
