(* ===== verification/Mongod.thy ===== *)
theory Mongod
  imports MongoLedger "HOL-Library.Product_Lexorder"
begin

section \<open>A database\<close>

text \<open>
  A document database in memory that does what the stores of the example ask of it: the instance that
  shows the assumptions of \<open>mongo_ledger\<close> can be met, and that the stores run on.  The world \<open>mongod\<close>
  holds the three collections and what other clients insert into the ledger before each of the next
  calls on it.
\<close>

subsection \<open>Filters\<close>

fun split_dots :: "pstr \<Rightarrow> pstr list" where
  "split_dots [] = [[]]"
| "split_dots (c # cs) = (if c = 46 then [] # split_dots cs
     else (case split_dots cs of [] \<Rightarrow> [[c]] | p # ps \<Rightarrow> (c # p) # ps))"

fun at_path :: "pstr list \<Rightarrow> pyval \<Rightarrow> pyval option" where
  "at_path [] d = Some d"
| "at_path (k # ks) (PDict kvs) = (case map_of kvs (PStr k) of None \<Rightarrow> None | Some v \<Rightarrow> at_path ks v)"
| "at_path (k # ks) _ = None"

fun val_less :: "pyval \<Rightarrow> pyval \<Rightarrow> bool" where
  "val_less (PInt m) (PInt n) = (m < n)"
| "val_less (PStr s) (PStr t) = (s < t)"
| "val_less _ _ = False"

definition val_eq :: "pyval option \<Rightarrow> pyval \<Rightarrow> bool" where
  "val_eq found w = (case found of None \<Rightarrow> w = PNone
     | Some v \<Rightarrow> v = w \<or> (case v of PList xs \<Rightarrow> w \<in> set xs | _ \<Rightarrow> False))"

definition operator_holds :: "pstr \<Rightarrow> pyval \<Rightarrow> pyval option \<Rightarrow> bool" where
  "operator_holds op w found =
     (if op = u ''$in'' then (case w of PList ws \<Rightarrow> list_ex (val_eq found) ws | _ \<Rightarrow> False)
      else (case found of None \<Rightarrow> False
        | Some v \<Rightarrow>
            if op = u ''$gt'' then val_less w v
            else if op = u ''$gte'' then val_less w v \<or> v = w
            else if op = u ''$lt'' then val_less v w
            else if op = u ''$lte'' then val_less v w \<or> v = w
            else False))"

definition is_operator :: "pyval \<Rightarrow> bool" where
  "is_operator k = (case k of PStr (c # _) \<Rightarrow> c = 36 | _ \<Rightarrow> False)"

definition cond_holds :: "pyval \<Rightarrow> pyval option \<Rightarrow> bool" where
  "cond_holds c found = (case c of
       PDict ((k, w) # ops) \<Rightarrow> if is_operator k then list_all (\<lambda>(k, w). operator_holds (str_of k) w found) ((k, w) # ops)
                              else val_eq found c
     | _ \<Rightarrow> val_eq found c)"

definition plain_matches :: "pydict \<Rightarrow> pyval \<Rightarrow> bool" where
  "plain_matches q d \<longleftrightarrow> list_all (\<lambda>(k, c). cond_holds c (at_path (split_dots (str_of k)) d)) q"

fun doc_matches :: "pyval \<Rightarrow> pyval \<Rightarrow> bool" where
  "doc_matches (PDict q) d \<longleftrightarrow> list_all (\<lambda>(k, c).
     if k = lit ''$or'' then (case c of PList qs \<Rightarrow> list_ex (\<lambda>p. case p of PDict q' \<Rightarrow> plain_matches q' d | _ \<Rightarrow> False) qs | _ \<Rightarrow> False)
     else plain_matches [(k, c)] d) q"
| "doc_matches _ d = False"

lemma of_char_dot [simp]: "of_char c = (46::nat) \<longleftrightarrow> c = CHR ''.''" "of_char c = (36::nat) \<longleftrightarrow> c = CHR ''$''"
  using of_char_eq_iff [of c "CHR ''.''"] of_char_eq_iff [of c "CHR ''$''"] by simp_all

lemma is_operator_lit [simp]: "is_operator (lit (c # cs)) \<longleftrightarrow> c = CHR ''$''"
  by (simp add: is_operator_def u_def)

lemma split_dots_field: "CHR ''.'' \<notin> set k \<Longrightarrow> split_dots (u k) = [u k]"
  by (induction k) (auto simp: u_def)

lemma at_field: "field k \<Longrightarrow> subscr d k = Inr v \<Longrightarrow> at_path (split_dots (u k)) d = Some v"
  by (cases d) (auto simp: field_def split_dots_field split: option.splits)

lemma field_not_or: "field k \<Longrightarrow> k \<noteq> ''$or''"
  by (auto simp: field_def)

interpretation filters: mongo_filters doc_matches
proof (unfold_locales, goal_cases)
  case (3 k d v w)
  then have a: "at_path (split_dots (u k)) d = Some v" "k \<noteq> ''$or''" using at_field field_not_or by blast+
  from 3(4) have "cond_holds w (Some v) \<longleftrightarrow> val_eq (Some v) w" by (cases w) (simp_all add: cond_holds_def)
  then show ?case using 3(3) a by (cases v) (simp_all add: plain_matches_def val_eq_def)
next
  case (4 k d n m)
  then have "at_path (split_dots (u k)) d = Some (PInt n)" "k \<noteq> ''$or''" using at_field field_not_or by blast+
  then show ?case by (auto simp: plain_matches_def cond_holds_def operator_holds_def)
next
  case (5 k d n m)
  then have "at_path (split_dots (u k)) d = Some (PInt n)" "k \<noteq> ''$or''" using at_field field_not_or by blast+
  then show ?case by (auto simp: plain_matches_def cond_holds_def operator_holds_def)
next
  case (6 k d n m)
  then have "at_path (split_dots (u k)) d = Some (PInt n)" "k \<noteq> ''$or''" using at_field field_not_or by blast+
  then show ?case by (auto simp: plain_matches_def cond_holds_def operator_holds_def)
qed auto

subsection \<open>Order\<close>

definition rank :: "string \<Rightarrow> pyval \<Rightarrow> nat \<times> int \<times> pstr" where
  "rank k d = (case subscr d k of Inr (PInt n) \<Rightarrow> (1, n, []) | Inr (PStr s) \<Rightarrow> (2, 0, s) | _ \<Rightarrow> (0, 0, []))"

fun before :: "(string \<times> int) list \<Rightarrow> pyval \<Rightarrow> pyval \<Rightarrow> bool" where
  "before [] a b = True"
| "before ((k, dir) # ks) a b =
     (if rank k a = rank k b then before ks a b
      else if dir = ASCENDING then rank k a < rank k b else rank k b < rank k a)"

fun insert_by :: "('a \<Rightarrow> 'a \<Rightarrow> bool) \<Rightarrow> 'a \<Rightarrow> 'a list \<Rightarrow> 'a list" where
  "insert_by le x [] = [x]"
| "insert_by le x (y # ys) = (if le x y then x # y # ys else y # insert_by le x ys)"

fun order_by :: "('a \<Rightarrow> 'a \<Rightarrow> bool) \<Rightarrow> 'a list \<Rightarrow> 'a list" where
  "order_by le [] = []"
| "order_by le (x # xs) = insert_by le x (order_by le xs)"

lemma before_total: "before ks a b \<or> before ks b a"
  by (induction ks) auto

lemma before_trans: "before ks a b \<Longrightarrow> before ks b c \<Longrightarrow> before ks a c"
  by (induction ks) (auto split: if_splits dest: less_trans)

lemma before_in_order: "before ks a b \<Longrightarrow> in_order ks a b"
proof (induction ks)
  case (Cons kd ks)
  obtain k dir where kd: "kd = (k, dir)" by (cases kd)
  show ?case
    using Cons by (auto simp: kd rank_def split: sum.splits pyval.splits if_splits)
qed simp

lemma mset_insert_by: "mset (insert_by le x xs) = add_mset x (mset xs)"
  by (induction xs) auto

lemma mset_order_by: "mset (order_by le xs) = mset xs"
  by (induction xs) (simp_all add: mset_insert_by)

lemma insert_by_sorted: "sorted_wrt (before ks) xs \<Longrightarrow> sorted_wrt (before ks) (insert_by (before ks) x xs)"
proof (induction xs)
  case (Cons y ys)
  have "set (insert_by (before ks) x ys) = insert x (set ys)"
    by (metis mset_insert_by set_mset_add_mset_insert set_mset_mset)
  then show ?case using Cons before_total [of ks x y] before_trans by (auto intro: before_trans)
qed simp

lemma order_by_answers: "answers P ks ds (order_by (before ks) (filter P ds))"
proof -
  have "sorted_wrt (before ks) (order_by (before ks) xs)" for xs
    by (induction xs) (simp_all add: insert_by_sorted)
  then have "sorted_wrt (in_order ks) (order_by (before ks) xs)" for xs
    by (rule sorted_wrt_mono_rel [rotated]) (rule before_in_order)
  then show ?thesis by (simp add: answers_def mset_order_by)
qed


subsection \<open>Collections\<close>

definition set_fields :: "pyval \<Rightarrow> pydict \<Rightarrow> pydict" where
  "set_fields changes d = foldl (\<lambda>d (k, v). AList.update k v d) d (dict_entries changes)"

text \<open>\<open>update_one\<close> with \<open>$set\<close>: the first match changes; without a match an upsert inserts the equalities of the filter.\<close>

fun update_first :: "(pyval \<Rightarrow> bool) \<Rightarrow> (pydict \<Rightarrow> pydict) \<Rightarrow> pyval list \<Rightarrow> pyval list option" where
  "update_first P f [] = None"
| "update_first P f (d # ds) =
     (if P d then Some (PDict (f (dict_entries d)) # ds) else map_option ((#) d) (update_first P f ds))"

fun delete_first :: "(pyval \<Rightarrow> bool) \<Rightarrow> pyval list \<Rightarrow> pyval list" where
  "delete_first P [] = []"
| "delete_first P (d # ds) = (if P d then ds else d # delete_first P ds)"

definition equalities :: "pyval \<Rightarrow> pydict" where
  "equalities q = filter (\<lambda>(k, c). case c of PDict _ \<Rightarrow> False | _ \<Rightarrow> True) (dict_entries q)"

definition local_collection :: "('s \<Rightarrow> pyval list) \<Rightarrow> (pyval list \<Rightarrow> 's \<Rightarrow> 's) \<Rightarrow> ('s \<Rightarrow> 's) \<Rightarrow> 's collection" where
  "local_collection get put pre =
     \<lparr>co_create_index = (\<lambda>index s. (Inr (), pre s)),
      co_find_one = (\<lambda>q order s. let t = pre s in
        (Inr (case order_by (before order) (filter (doc_matches q) (get t)) of [] \<Rightarrow> None | d # _ \<Rightarrow> Some d), t)),
      co_find = (\<lambda>q proj order limit s. let t = pre s in
        ((limited limit (order_by (before order) (filter (doc_matches q) (get t))), None), t)),
      co_insert_one = (\<lambda>d s. let t = pre s in
        if has_id d (get t) then (Inl DuplicateKeyError, t) else (Inr (), put (get t @ [d]) t)),
      co_update_one = (\<lambda>q change upsert s. let t = pre s; changes = (case subscr change ''$set'' of Inl _ \<Rightarrow> PDict [] | Inr c \<Rightarrow> c) in
        (case update_first (doc_matches q) (set_fields changes) (get t) of
           Some ds \<Rightarrow> (Inr (), put ds t)
         | None \<Rightarrow> if \<not> upsert then (Inr (), t)
                   else (let d = PDict (set_fields changes (equalities q)) in
                     if has_id d (get t) then (Inl DuplicateKeyError, t) else (Inr (), put (get t @ [d]) t)))),
      co_delete_one = (\<lambda>q s. let t = pre s in (Inr (), put (delete_first (doc_matches q) (get t)) t)),
      co_delete_many = (\<lambda>q s. let t = pre s in (Inr (), put (filter (\<lambda>d. \<not> doc_matches q d) (get t)) t))\<rparr>"

record mongod =
  md_ledger :: "pyval list"
  md_views :: "pyval list"
  md_slots :: "pyval list"
  md_now :: pstr
  md_others :: "pyval list list"

text \<open>
  Other clients write to the ledger through the same code: what they add leaves every log that is well
  formed so, and every intact chain intact.  A burst that would not is left out.
\<close>

definition log_grows :: "(LedgerEntry \<Rightarrow> bool) \<Rightarrow> LedgerEntry list \<Rightarrow> LedgerEntry list \<Rightarrow> bool" where
  "log_grows W xs ys \<longleftrightarrow> prefix xs ys \<and> list_all W (drop (length xs) ys) \<and> (intact xs \<longrightarrow> intact ys)"

definition decent :: "(LedgerEntry \<Rightarrow> bool) \<Rightarrow> pstr \<Rightarrow> pyval list \<Rightarrow> pyval list \<Rightarrow> bool" where
  "decent W l ds es \<longleftrightarrow> prefix ds es \<and> (well l ds \<longrightarrow> well l es \<and> log_grows W (entries_in l ds) (entries_in l es))"

definition others_insert :: "(LedgerEntry \<Rightarrow> bool) \<Rightarrow> pstr \<Rightarrow> mongod \<Rightarrow> mongod" where
  "others_insert W l s = (case md_others s of [] \<Rightarrow> s
     | burst # rest \<Rightarrow> s\<lparr>md_others := rest,
         md_ledger := (if decent W l (md_ledger s) (md_ledger s @ burst) then md_ledger s @ burst else md_ledger s)\<rparr>)"

definition ledger_collection :: "(LedgerEntry \<Rightarrow> bool) \<Rightarrow> pstr \<Rightarrow> mongod collection" where
  "ledger_collection W l = local_collection md_ledger (\<lambda>ds s. s\<lparr>md_ledger := ds\<rparr>) (others_insert W l)"

definition views_collection :: "mongod collection" where
  "views_collection = local_collection md_views (\<lambda>ds s. s\<lparr>md_views := ds\<rparr>) id"

definition slots_collection :: "mongod collection" where
  "slots_collection = local_collection md_slots (\<lambda>ds s. s\<lparr>md_slots := ds\<rparr>) id"

lemma log_grows_refl [simp]: "log_grows W xs xs"
  by (simp add: log_grows_def)

lemma log_grows_trans: "log_grows W xs ys \<Longrightarrow> log_grows W ys zs \<Longrightarrow> log_grows W xs zs"
  by (auto simp: log_grows_def prefix_def)

lemma log_grows_keeps: "log_grows W xs ys \<Longrightarrow> prefix xs ys \<and> (intact xs \<longrightarrow> intact ys)"
  by (simp add: log_grows_def)

lemma decent_refl [simp]: "decent W l ds ds"
  by (simp add: decent_def)

lemma decent_trans: "decent W l ds es \<Longrightarrow> decent W l es fs \<Longrightarrow> decent W l ds fs"
  unfolding decent_def using prefix_order.trans log_grows_trans by blast

lemma others_decent: "decent W l (md_ledger s) (md_ledger (others_insert W l s))"
  by (simp add: others_insert_def split: list.split)

interpretation ledger: mongo_ledger doc_matches "ledger_collection W l" md_ledger "decent W l" l "log_grows W"
  for W and l :: pstr
proof (unfold_locales, goal_cases)
  case (3 q order s r t)
  then have t: "t = others_insert W l s"
    "r = Inr (case order_by (before order) (filter (doc_matches q) (md_ledger t)) of [] \<Rightarrow> None | y # _ \<Rightarrow> Some y)"
    by (auto simp: ledger_collection_def local_collection_def Let_def)
  then show ?case
    using others_decent [of W l s] order_by_answers [of "doc_matches q" order "md_ledger t"]
    by (intro exI [of _ "md_ledger t"]) auto
next
  case (4 q proj order limit s found stop t)
  then have t: "t = others_insert W l s" "stop = None"
    "found = limited limit (order_by (before order) (filter (doc_matches q) (md_ledger t)))"
    by (auto simp: ledger_collection_def local_collection_def Let_def)
  have "list_all2 (shown proj) ds ds" for ds
    by (rule list_all2_refl) (simp add: shown_def split: option.split)
  then show ?case
    using others_decent [of W l s] order_by_answers [of "doc_matches q" order "md_ledger t"] t
    by (intro exI [of _ "md_ledger t"] exI [of _ "order_by (before order) (filter (doc_matches q) (md_ledger t))"] conjI exI [of _ found]) auto
next
  case (5 d s v t)
  then show ?case
    using others_decent [of W l s]
    by (intro exI [of _ "md_ledger (others_insert W l s)"])
      (auto simp: ledger_collection_def local_collection_def Let_def split: if_splits)
next
  case (6 d s x t)
  then show ?case
    using others_decent [of W l s]
    by (intro exI [of _ "md_ledger (others_insert W l s)"])
      (auto simp: ledger_collection_def local_collection_def Let_def split: if_splits)
next
  case (11 ds es)
  then show ?case by (simp add: decent_def)
qed (auto intro: decent_trans log_grows_trans dest: log_grows_keeps)

end
