(* ===== verification/Releases.thy ===== *)
theory Releases
  imports Promises Mongod
begin

section \<open>The example application\<close>

text \<open>
  \<^verbatim>\<open>examples/vehicle-release-approvals/app\<close>: the service on the MongoDB stores behind an HTTP API.
  Here are the roster and policy it starts with (\<^verbatim>\<open>identities.py\<close>), its settings (\<^verbatim>\<open>config.py\<close>), the
  shapes of requests and responses (\<^verbatim>\<open>schemas.py\<close>) and the handlers (\<^verbatim>\<open>main.py\<close>).  The web framework
  is left out: a handler gets the parameters it declares, already validated, and yields a status code with
  a body, or a status code alone when it fails.
\<close>

subsection \<open>Settings\<close>

record settings =
  mongo_uri :: pstr
  mongo_db :: pstr
  settings_log_id :: pstr

definition getenv :: "(pstr \<rightharpoonup> pstr) \<Rightarrow> string \<Rightarrow> string \<Rightarrow> pstr" where
  "getenv environ key dflt = (case environ (u key) of None \<Rightarrow> u dflt | Some v \<Rightarrow> v)"

definition from_env :: "(pstr \<rightharpoonup> pstr) \<Rightarrow> settings" where
  "from_env environ =
     \<lparr>mongo_uri = getenv environ ''MONGO_URI'' ''mongodb://localhost:27017'',
      mongo_db = getenv environ ''MONGO_DB'' ''approvo_vehicle_releases'',
      settings_log_id = getenv environ ''APPROVO_LOG_ID'' ''vehicle-releases''\<rparr>"

subsection \<open>Roster and policy\<close>

definition REQUIRED_SUBJECT_FIELDS :: "pstr list" where
  "REQUIRED_SUBJECT_FIELDS = [u ''ecu'', u ''artifact_digest'', u ''version'', u ''vehicle_platform'']"

definition RELEASE_POLICY_ID :: pstr where
  "RELEASE_POLICY_ID = u ''vehicle-release-v1''"

record 's DemoIdentity =
  demo_identity :: Identity
  demo_signer :: "'s signer"

record 's Bootstrap =
  bs_key_dir :: KeyDirectory
  bs_identities :: Identities
  bs_signers :: "(pstr \<times> 's signer) list"
  bs_policy_store :: PolicyStore
  bs_log_signer :: "'s signer"

definition release_policy :: Policy where
  "release_policy =
     \<lparr>pol_id = RELEASE_POLICY_ID, pol_kind = u ''vehicle-software-release'',
      allowed_approvers = [u ''role:safety-engineer'', u ''role:qa''], threshold = 2,
      require_distinct_roles = [u ''safety-engineer'', u ''qa''], separation_of_duties = True,
      reject_is_terminal = True, max_age_seconds = 7 * 24 * 3600,
      required_subject_fields = REQUIRED_SUBJECT_FIELDS, pol_schema = POLICY_SCHEMA\<rparr>"

text \<open>The keys that \<open>Ed25519Signer.generate()\<close> draws are \<open>k1\<close>, \<open>k2\<close>, \<open>k3\<close> and, for the log, \<open>k4\<close>.\<close>

definition demo_identities :: "('k, 'p) crypto \<Rightarrow> 'p \<Rightarrow> 'p \<Rightarrow> 'p \<Rightarrow> 's DemoIdentity list" where
  "demo_identities C k1 k2 k3 =
     [\<lparr>demo_identity = \<lparr>i_id = u ''user:priya'', i_roles = [u ''safety-engineer'']\<rparr>, demo_signer = Ed25519Signer C k1\<rparr>,
      \<lparr>demo_identity = \<lparr>i_id = u ''user:noah'', i_roles = [u ''qa'']\<rparr>, demo_signer = Ed25519Signer C k2\<rparr>,
      \<lparr>demo_identity = \<lparr>i_id = u ''user:sam'', i_roles = [u ''release-engineer'']\<rparr>, demo_signer = Ed25519Signer C k3\<rparr>]"

definition bootstrap_at :: "('k, 'p) crypto \<Rightarrow> 'p \<Rightarrow> 'p \<Rightarrow> 'p \<Rightarrow> 'p \<Rightarrow> pstr \<Rightarrow> 's Bootstrap" where
  "bootstrap_at C k1 k2 k3 k4 now =
     (let demos = demo_identities C k1 k2 k3;
          log_signer = Ed25519Signer C k4;
          keys = foldl (\<lambda>kd demo. kd_add (public_key_ref (demo_signer demo) (i_id (demo_identity demo)) now None (u ''approver'') None) kd)
                   (kd_init []) demos
      in \<lparr>bs_key_dir = kd_add (public_key_ref log_signer (u ''log:vehicle-releases'') now None (u ''log'') None) keys,
          bs_identities = map (\<lambda>d. (i_id (demo_identity d), demo_identity d)) demos,
          bs_signers = map (\<lambda>d. (i_id (demo_identity d), demo_signer d)) demos,
          bs_policy_store = policy_store_init [release_policy], bs_log_signer = log_signer\<rparr>)"

definition build_bootstrap :: "('k, 'p) crypto \<Rightarrow> 'p \<Rightarrow> 'p \<Rightarrow> 'p \<Rightarrow> 'p \<Rightarrow> runtime \<Rightarrow> int \<Rightarrow> exn + 's Bootstrap" where
  "build_bootstrap C k1 k2 k3 k4 R host_us =
     sbind (to_rfc3339 R \<lparr>local_us = host_us, utcoff = Some 0\<rparr>) (\<lambda>now. Inr (bootstrap_at C k1 k2 k3 k4 now))"

subsection \<open>Start\<close>

definition release_service ::
  "'s event_store \<Rightarrow> 's projection_store \<Rightarrow> 's idempotency_store \<Rightarrow> ('s, exn, pstr) eff \<Rightarrow> (nat \<Rightarrow> ('s, exn, unit) eff) \<Rightarrow>
     's Bootstrap \<Rightarrow> 'k registry \<Rightarrow> runtime \<Rightarrow> ('s, 'k) ApprovalService" where
  "release_service events projections idempotency now sleep bs reg R =
     \<lparr>sv_events = events, sv_key_dir = bs_key_dir bs, sv_identities = bs_identities bs,
      sv_policy = policy_store_get (bs_policy_store bs), sv_projections = Projections projections,
      sv_idempotency = Some idempotency, sv_now = now, sv_signing = None, sv_log_signer = Some (bs_log_signer bs),
      sv_append_attempts = DEFAULT_APPEND_ATTEMPTS, sv_challenge_ttl = DEFAULT_CHALLENGE_TTL,
      sv_max_clock_skew = DEFAULT_CLOCK_SKEW, sv_sleep = sleep, sv_registry = reg, sv_runtime = R\<rparr>"

text \<open>The three collections of one database.\<close>

definition lifespan ::
  "settings \<Rightarrow> 's collection \<Rightarrow> 's collection \<Rightarrow> 's collection \<Rightarrow> ('s, exn, pstr) eff \<Rightarrow> (nat \<Rightarrow> ('s, exn, unit) eff) \<Rightarrow>
     (int \<Rightarrow> exn + 's Bootstrap) \<Rightarrow> ('s, exn, int) eff \<Rightarrow> 'k registry \<Rightarrow> runtime \<Rightarrow> ('s, exn, ('s, 'k) ApprovalService \<times> 's Bootstrap) eff" where
  "lifespan settings ledger projections idempotency now sleep bootstrap host reg R =
     (let l = settings_log_id settings in
      mbind (mongo_ledger_indexes ledger) (\<lambda>_.
      mbind (mongo_projection_indexes projections) (\<lambda>_.
      mbind host (\<lambda>host_us.
      mbind (mlift (bootstrap host_us)) (\<lambda>bs.
      mret (release_service (MongoEventStore ledger l) (MongoProjectionStore R projections l)
              (MongoIdempotencyStore R idempotency l) now sleep bs reg R, bs))))))"

subsection \<open>Handlers\<close>

datatype reply = Reply int pyval | Failed int

definition ERROR_STATUS :: "(exn \<times> int) list" where
  "ERROR_STATUS =
     [(RequestNotFound, 404), (UnknownPolicy, 404), (SubjectConstraintViolation, 422), (IdempotencyConflict, 409),
      (ChallengeExpired, 410), (SignatureInvalid, 400), (LedgerConflict, 503)]"

text \<open>The handler of \<open>ApprovoError\<close> looks the exact class up; anything else is an internal error.\<close>

definition approvo_error_handler :: "exn \<Rightarrow> int" where
  "approvo_error_handler x = (case map_of ERROR_STATUS x of None \<Rightarrow> 400 | Some code \<Rightarrow> code)"

definition respond :: "int \<Rightarrow> ('s, exn, pyval) eff \<Rightarrow> 's \<Rightarrow> reply \<times> 's" where
  "respond code m s = (case m s of
       (Inr body, t) \<Rightarrow> (Reply code body, t)
     | (Inl x, t) \<Rightarrow> (Failed (if isinstance x ApprovoError then approvo_error_handler x else 500), t))"

text \<open>The table in the docstring of \<^verbatim>\<open>errors.py\<close>; its last row speaks of every subtype.\<close>

definition suggested_status :: "exn \<Rightarrow> int option" where
  "suggested_status x =
     (if isinstance x LedgerTampered then Some 500
      else if isinstance x LedgerConflict then Some 503
      else map_of
        [(RequestNotFound, 404), (UnknownPolicy, 404), (SubjectConstraintViolation, 422), (PolicyMismatch, 409),
         (IdempotencyConflict, 409), (ChallengeExpired, 410), (SignatureInvalid, 400), (KeyNotAuthorized, 403),
         (KeyExpiredOrRevoked, 403), (SeparationOfDutiesViolation, 403), (RequestExpired, 410)] x)"

text \<open>C32: error codes.  The application departs from the suggested codes exactly for a stale policy, lost
  retries, keys that are not authorized, expired or revoked, the separation of duties, expired requests
  and a tampered ledger; for all of these it answers 400.\<close>

theorem error_codes:
  "{x. isinstance x ApprovoError \<and> (\<exists>code. suggested_status x = Some code \<and> approvo_error_handler x \<noteq> code)} =
     {PolicyMismatch, ConcurrencyExhausted, KeyNotAuthorized, KeyExpiredOrRevoked, SeparationOfDutiesViolation, RequestExpired}
     \<union> {x. isinstance x LedgerTampered} \<and>
   approvo_error_handler ` {x. isinstance x ApprovoError \<and> (\<exists>code. suggested_status x = Some code \<and> approvo_error_handler x \<noteq> code)} = {400}"
proof -
  let ?differs = "{x. isinstance x ApprovoError \<and> (\<exists>code. suggested_status x = Some code \<and> approvo_error_handler x \<noteq> code)}"
  let ?listed = "{PolicyMismatch, ConcurrencyExhausted, KeyNotAuthorized, KeyExpiredOrRevoked, SeparationOfDutiesViolation, RequestExpired}
     \<union> {x. isinstance x LedgerTampered}"
  have "x \<in> ?differs \<longleftrightarrow> x \<in> ?listed" for x
    by (cases x) (simp_all add: suggested_status_def approvo_error_handler_def ERROR_STATUS_def isinstance_iff)
  then have eq: "?differs = ?listed" by blast
  have "\<forall>x\<in>?listed. approvo_error_handler x = 400"
    unfolding ledger_tampered_subtypes by (simp add: approvo_error_handler_def ERROR_STATUS_def)
  then show ?thesis unfolding eq by force
qed

text \<open>The response models check the types of what the ledger holds.\<close>

fun a_dict :: "pyval \<Rightarrow> exn + pyval" where
  "a_dict (PDict kvs) = Inr (PDict kvs)"
| "a_dict v = Inl ValueError"

fun a_str :: "pyval \<Rightarrow> exn + pyval" where
  "a_str (PStr s) = Inr (PStr s)"
| "a_str v = Inl ValueError"

record ReleaseSubject =
  sub_ecu :: pstr
  sub_artifact_digest :: pstr
  sub_version :: pstr
  sub_vehicle_platform :: pstr

record CreateReleaseRequest =
  cr_subject :: ReleaseSubject
  cr_requested_by :: pstr
  cr_approval_window_hours :: int

record DecisionRequest =
  dr_approver_id :: pstr
  dr_verdict :: pstr
  dr_comment :: pstr

definition model_dump :: "ReleaseSubject \<Rightarrow> pyval" where
  "model_dump x = doc
     [(''ecu'', PStr (sub_ecu x)), (''artifact_digest'', PStr (sub_artifact_digest x)),
      (''version'', PStr (sub_version x)), (''vehicle_platform'', PStr (sub_vehicle_platform x))]"

definition ReleaseCreatedResponse :: "ApprovalRequest \<Rightarrow> exn + pyval" where
  "ReleaseCreatedResponse r =
     sbind (request_id r) (\<lambda>rid. sbind (a_str (r_kind r)) (\<lambda>kind. sbind (a_dict (r_subject r)) (\<lambda>subject.
     sbind (a_str (r_requested_by r)) (\<lambda>requested_by. sbind (a_str (r_policy_id r)) (\<lambda>policy_id.
     sbind (a_str (r_created_at r)) (\<lambda>created_at. sbind (a_str (r_not_valid_after r)) (\<lambda>not_valid_after.
     Inr (doc [(''request_id'', PStr rid), (''kind'', kind), (''subject'', subject), (''requested_by'', requested_by),
       (''policy_id'', policy_id), (''created_at'', created_at), (''not_valid_after'', not_valid_after)]))))))))"

definition StatusResponse :: "Record \<Rightarrow> exn + pyval" where
  "StatusResponse record =
     sbind (request_id (rec_request record)) (\<lambda>rid. sbind (a_dict (r_subject (rec_request record))) (\<lambda>subject.
     sbind (a_str (r_requested_by (rec_request record))) (\<lambda>requested_by.
     Inr (doc [(''request_id'', PStr rid), (''status'', PStr (rec_status record)),
       (''satisfied_by'', strs (p_satisfied_by (rec_policy_result record))),
       (''reasons'', strs (p_reasons (rec_policy_result record))), (''subject'', subject), (''requested_by'', requested_by)]))))"

definition ReleaseListItem :: "RequestView \<Rightarrow> exn + pyval" where
  "ReleaseListItem v =
     sbind (a_str (v_kind v)) (\<lambda>kind. sbind (a_dict (v_subject v)) (\<lambda>subject. sbind (a_str (v_requested_by v)) (\<lambda>requested_by.
     sbind (a_str (v_created_at v)) (\<lambda>created_at. sbind (a_str (v_updated_at v)) (\<lambda>updated_at.
     Inr (doc [(''request_id'', PStr (v_request_id v)), (''status'', PStr (v_status v)), (''kind'', kind), (''subject'', subject),
       (''requested_by'', requested_by), (''approvals'', PInt (v_approvals v)), (''threshold'', PInt (v_threshold v)),
       (''pending_for'', strs (v_pending_for v)), (''created_at'', created_at), (''updated_at'', updated_at)]))))))"

definition ReleaseListResponse :: "RequestView Page \<Rightarrow> exn + pyval" where
  "ReleaseListResponse page = sbind (smap ReleaseListItem (pg_items page)) (\<lambda>xs.
     Inr (doc [(''items'', PList xs), (''next_cursor'', of_opt (pg_next_cursor page))]))"

definition list_identities :: "'s Bootstrap \<Rightarrow> 's \<Rightarrow> reply \<times> 's" where
  "list_identities bs = respond 200
     (mret (PDict (map (\<lambda>(ident, i). (PStr ident, doc [(''roles'', strs (i_roles i))])) (bs_identities bs))))"

definition window_end :: "runtime \<Rightarrow> int \<Rightarrow> int \<Rightarrow> exn + pstr" where
  "window_end R host_us hours =
     sbind (dt_add \<lparr>local_us = host_us, utcoff = Some 0\<rparr> (hours * 3600000000)) (to_rfc3339 R)"

definition create_release ::
  "('s, 'k) ApprovalService \<Rightarrow> ('s, exn, int) eff \<Rightarrow> CreateReleaseRequest \<Rightarrow> 's \<Rightarrow> reply \<times> 's" where
  "create_release sv host body = respond 201
     (mbind host (\<lambda>host_us.
      mbind (mlift (window_end (sv_runtime sv) host_us (cr_approval_window_hours body))) (\<lambda>not_valid_after.
      mbind (create_request sv (lit ''vehicle-software-release'') (model_dump (cr_subject body)) (PStr (cr_requested_by body))
               (PStr RELEASE_POLICY_ID) (PStr not_valid_after) PNone) (\<lambda>request.
      mlift (ReleaseCreatedResponse request)))))"

definition post_decision ::
  "('s, 'k) ApprovalService \<Rightarrow> 's Bootstrap \<Rightarrow> pstr \<Rightarrow> DecisionRequest \<Rightarrow> 's \<Rightarrow> reply \<times> 's" where
  "post_decision sv bs rid body s = (case map_of (bs_signers bs) (dr_approver_id body) of
       None \<Rightarrow> (Failed 400, s)
     | Some signer \<Rightarrow> respond 200
         (mbind (submit_decision sv (PStr rid) (PStr (dr_approver_id body)) (PStr (dr_verdict body)) (Some signer)
                   (PStr (dr_comment body)) PNone PNone) (\<lambda>record. mlift (StatusResponse record))) s)"

definition get_release_status :: "('s, 'k) ApprovalService \<Rightarrow> pstr \<Rightarrow> 's \<Rightarrow> reply \<times> 's" where
  "get_release_status sv rid = respond 200 (mbind (get_status sv (PStr rid)) (\<lambda>record. mlift (StatusResponse record)))"

definition list_releases ::
  "('s, 'k) ApprovalService \<Rightarrow> pstr list option \<Rightarrow> pstr option \<Rightarrow> pstr option \<Rightarrow> int \<Rightarrow> 's \<Rightarrow> reply \<times> 's" where
  "list_releases sv status awaiting cursor limit = respond 200
     (mbind (query_views sv (Some (default_query\<lparr>q_status := (case status of None \<Rightarrow> None | Some [] \<Rightarrow> None | Some xs \<Rightarrow> Some xs),
        q_awaiting := awaiting, q_limit := limit, q_cursor := cursor\<rparr>))) (\<lambda>page. mlift (ReleaseListResponse page)))"

definition publish_checkpoint :: "('s, 'k) ApprovalService \<Rightarrow> 's \<Rightarrow> reply \<times> 's" where
  "publish_checkpoint sv = respond 200 (mbind (checkpoint sv) (\<lambda>cp. mret (Checkpoint_to_dict cp)))"

text \<open>The description of a check is a text that \<open>describe\<close> makes of what it says.\<close>

definition Report_to_dict :: "(description \<Rightarrow> pstr) \<Rightarrow> VerificationReport \<Rightarrow> pyval" where
  "Report_to_dict describe r = doc
     [(''ok'', PBool (report_ok r)), (''verified_from_seq'', PInt (vr_from_seq r)), (''verified_to_seq'', PInt (vr_to_seq r)),
      (''checks'', PList (map (\<lambda>c. doc [(''ok'', PBool (ck_ok c)), (''description'', PStr (describe (ck_description c)))]) (vr_checks r)))]"

definition verify_ledger :: "(description \<Rightarrow> pstr) \<Rightarrow> ('s, 'k) ApprovalService \<Rightarrow> 's \<Rightarrow> reply \<times> 's" where
  "verify_ledger describe sv = respond 200 (mbind (verify_log sv None 0 None) (\<lambda>report. mret (Report_to_dict describe report)))"

subsection \<open>Deployments\<close>

text \<open>
  The application on a database: calls on the other two collections, the clock and the pause between
  attempts leave the ledger to whoever else writes to it, and the log signer only signs.  The store is
  taken behind \<open>json_events\<close>: what the API lets in is JSON, with strings for ids.
\<close>

definition untouched :: "('s \<Rightarrow> pyval list) \<Rightarrow> (pyval list \<Rightarrow> pyval list \<Rightarrow> bool) \<Rightarrow> 's collection \<Rightarrow> bool" where
  "untouched docs near c \<longleftrightarrow> (\<forall>s.
     (\<forall>q order. near (docs s) (docs (snd (co_find_one c q order s)))) \<and>
     (\<forall>q proj order limit. near (docs s) (docs (snd (co_find c q proj order limit s)))) \<and>
     (\<forall>d. near (docs s) (docs (snd (co_insert_one c d s)))) \<and>
     (\<forall>q change upsert. near (docs s) (docs (snd (co_update_one c q change upsert s)))) \<and>
     (\<forall>q. near (docs s) (docs (snd (co_delete_one c q s)))) \<and>
     (\<forall>q. near (docs s) (docs (snd (co_delete_many c q s)))))"

definition json_service ::
  "'s collection \<Rightarrow> 's collection \<Rightarrow> 's collection \<Rightarrow> pstr \<Rightarrow> ('s, exn, pstr) eff \<Rightarrow> (nat \<Rightarrow> ('s, exn, unit) eff) \<Rightarrow>
     's Bootstrap \<Rightarrow> 'k registry \<Rightarrow> runtime \<Rightarrow> ('s, 'k) ApprovalService" where
  "json_service co cp ci l now sleep bs reg R =
     release_service (json_events (MongoEventStore co l)) (MongoProjectionStore R cp l) (MongoIdempotencyStore R ci l)
       now sleep bs reg R"

locale deployment = mongo_ledger matches co docs near l env
  for matches and co :: "'s collection" and docs near l env +
  fixes cp :: "'s collection" and ci :: "'s collection" and now :: "('s, exn, pstr) eff"
    and sleep :: "nat \<Rightarrow> ('s, exn, unit) eff" and bs :: "'s Bootstrap"
  assumes views_apart: "untouched docs near cp" and slots_apart: "untouched docs near ci"
    and clock_apart: "near (docs s) (docs (snd (now s)))" and pause_apart: "near (docs s) (docs (snd (sleep i s)))"
    and signer_pure: "snd (sg_sign (bs_log_signer bs) data s) = s"
begin

abbreviation apart :: "'s \<Rightarrow> 's \<Rightarrow> bool" where
  "apart s t \<equiv> near (docs s) (docs t)"

lemma apart_order [simp]: "reflp apart" "transp apart"
  by (auto intro!: reflpI transpI near_refl intro: near_trans)

lemma apart_quiet:
  assumes "keeps apart m"
  shows "store.quiet m"
  unfolding store.quiet_def
proof (intro allI impI)
  fix s r t assume s: "ok s" "m s = (r, t)"
  from near_log [OF keepsD [OF assms s(2)]] s(1) show "ok t \<and> env (log s) (log t)" by (simp add: ok_def log_def)
qed

lemma apart_call:
  assumes "untouched docs near c"
  shows "keeps apart (co_find_one c q order)" "keeps apart (co_insert_one c d)" "keeps apart (co_update_one c q change upsert)"
    "keeps apart (co_delete_one c q)" "keeps apart (co_delete_many c q)" "keeps apart (mfind c q proj order limit f)"
proof -
  have u: "near (docs s) (docs (snd (co_find_one c q order s)))" "near (docs s) (docs (snd (co_insert_one c d s)))"
    "near (docs s) (docs (snd (co_update_one c q change upsert s)))" "near (docs s) (docs (snd (co_delete_one c q s)))"
    "near (docs s) (docs (snd (co_delete_many c q s)))" "near (docs s) (docs (snd (co_find c q proj order limit s)))" for s
    using assms unfolding untouched_def by blast+
  show "keeps apart (co_find_one c q order)" "keeps apart (co_insert_one c d)" "keeps apart (co_update_one c q change upsert)"
    "keeps apart (co_delete_one c q)" "keeps apart (co_delete_many c q)"
    unfolding keeps_def by (intro allI u)+
  have "snd (mfind c q proj order limit f s) = snd (co_find c q proj order limit s)" for s
    by (simp add: mfind_def split: prod.split)
  then show "keeps apart (mfind c q proj order limit f)" unfolding keeps_def using u(6) by simp
qed

lemma views_keep:
  "keeps apart (mongo_upsert cp l v)" "keeps apart (mongo_get R cp l rid)" "keeps apart (mongo_query R cp l q)"
  "keeps apart (mongo_clear cp l)"
  unfolding mongo_upsert_def mongo_get_def mongo_query_def mongo_clear_def
  by (intro keeps_mbind keeps_mcatch keeps_if apart_call views_apart keeps_mlift keeps_mret keeps_mraise apart_order)+

lemma slots_keep:
  "keeps apart (mongo_reserve R ci l key fp)" "keeps apart (mongo_complete R ci l key resp)" "keeps apart (mongo_release R ci l key)"
  unfolding mongo_reserve_def mongo_complete_def mongo_release_def Let_def
  by (intro keeps_mbind keeps_mcatch keeps_if apart_call slots_apart keeps_mlift keeps_mret keeps_mraise apart_order)+

end

sublocale deployment \<subseteq> running: approval_service "json_service co cp ci l now sleep bs reg R" log env ok
  for reg :: "'k registry" and R
proof (rule approval_service.intro, goal_cases)
  case 1
  show ?case using store.event_store_contract_axioms by (simp add: json_service_def release_service_def)
next
  case 2
  have keep: "keeps apart now" "keeps apart (sleep i)" "keeps apart (sg_sign (bs_log_signer bs) data)" for i data
    unfolding keeps_def using clock_apart pause_apart signer_pure near_refl by (metis snd_conv)+
  show ?case
    by (rule approval_service_axioms.intro)
      (auto simp: json_service_def release_service_def MongoProjectionStore_def MongoIdempotencyStore_def
        intro!: apart_quiet keep views_keep slots_keep)
qed


subsection \<open>Evidence\<close>

context deployment
begin

lemma plain_running: "plain_call c \<Longrightarrow> running.quiet_call c"
proof (cases c rule: plain_call.cases)
  case (1 rid a v sg c' k authn)
  assume "plain_call c"
  then show ?thesis using 1 env_refl
    by (auto simp: store.quiet_def split: option.splits) (metis snd_conv env_refl)+
qed auto

lemma deployed_evidence:
  assumes "\<forall>c\<in>set cs. plain_call c" "well l (docs s)" "intact (entries_in l (docs s))"
    and "backed_unless V (json_service co cp ci l now sleep bs reg R) (entries_in l (docs s))"
    and "\<And>xs ys. env xs ys \<Longrightarrow> list_all V (drop (length xs) ys)"
  shows "well l (docs (serve (json_service co cp ci l now sleep bs reg R) cs s)) \<and>
    intact (entries_in l (docs (serve (json_service co cp ci l now sleep bs reg R) cs s))) \<and>
    prefix (entries_in l (docs s)) (entries_in l (docs (serve (json_service co cp ci l now sleep bs reg R) cs s))) \<and>
    backed_unless V (json_service co cp ci l now sleep bs reg R)
      (entries_in l (docs (serve (json_service co cp ci l now sleep bs reg R) cs s)))"
proof -
  let ?sv = "json_service co cp ci l now sleep bs reg R"
  have cs: "\<forall>c\<in>set cs. running.quiet_call c" using assms(1) plain_running by blast
  have s: "ok s" "intact (log s)" "backed_unless V ?sv (log s)" using assms(2-4) by (simp_all add: ok_def log_def)
  have g: "ok (serve ?sv cs s)" "intact (log (serve ?sv cs s))" "store.grows (legit ?sv) (log s) (log (serve ?sv cs s))"
    using running.serve_grows [OF cs s(1,2), where reg = reg and R = R] by simp_all
  have "backed_unless V ?sv (log (serve ?sv cs s))" by (rule running.grows_backed [OF g(3) s(3) assms(5)])
  then show ?thesis using g store.grows_prefix [OF g(3)] by (simp add: ok_def log_def)
qed

end

text \<open>C4: evidence on MongoDB.  The other clients of the database may act between any two calls; they are taken
  to insert only, each entry in the next slot of its log and linked to the one before it: nothing deleted,
  edited or misplaced (\<open>mongo_ledger\<close>).  \<open>V\<close> holds of every entry they write.  Then, whatever calls the
  example application handles, the collection holds one document per entry in its slot, the chain stays
  intact, no entry is lost or changed, and every recorded decision is backed or one of those \<open>V\<close> holds of.\<close>

theorem releases_keep_evidence:
  assumes "deployment matches co docs near l env cp ci now sleep bs"
    and "\<forall>c\<in>set cs. plain_call c" "well l (docs s)" "intact (entries_in l (docs s))"
    and "backed_unless V (json_service co cp ci l now sleep bs reg R) (entries_in l (docs s))"
    and "\<And>xs ys. env xs ys \<Longrightarrow> list_all V (drop (length xs) ys)"
  shows "well l (docs (serve (json_service co cp ci l now sleep bs reg R) cs s)) \<and>
    intact (entries_in l (docs (serve (json_service co cp ci l now sleep bs reg R) cs s))) \<and>
    prefix (entries_in l (docs s)) (entries_in l (docs (serve (json_service co cp ci l now sleep bs reg R) cs s))) \<and>
    backed_unless V (json_service co cp ci l now sleep bs reg R)
      (entries_in l (docs (serve (json_service co cp ci l now sleep bs reg R) cs s)))"
  by (rule deployment.deployed_evidence [OF assms])


subsection \<open>Who releases\<close>

definition demo_roster :: Identities where
  "demo_roster =
     [(u ''user:priya'', \<lparr>i_id = u ''user:priya'', i_roles = [u ''safety-engineer'']\<rparr>),
      (u ''user:noah'', \<lparr>i_id = u ''user:noah'', i_roles = [u ''qa'']\<rparr>),
      (u ''user:sam'', \<lparr>i_id = u ''user:sam'', i_roles = [u ''release-engineer'']\<rparr>)]"

lemma bootstrap_fields:
  "bs_identities (bootstrap_at C k1 k2 k3 k4 now) = demo_roster"
  "bs_policy_store (bootstrap_at C k1 k2 k3 k4 now) = policy_store_init [release_policy]"
  "kd_wf (bs_key_dir (bootstrap_at C k1 k2 k3 k4 now))"
  by (simp_all add: bootstrap_at_def Let_def demo_identities_def kd_wf_ops demo_roster_def)

lemma roster_roles:
  "holds_role demo_roster (u ''safety-engineer'') a \<longleftrightarrow> a = u ''user:priya''"
  "holds_role demo_roster (u ''qa'') a \<longleftrightarrow> a = u ''user:noah''"
  by (auto simp: holds_role_def demo_roster_def)

lemma only_policy: "policy_store_get (policy_store_init [release_policy]) v = Inr p \<Longrightarrow> p = release_policy"
  by (auto simp: policy_store_init_def policy_store_get_def split: pyval.splits if_splits)

text \<open>The approval of \<open>who\<close> in a log: recorded, for this request and context, and signed for \<open>who\<close>.\<close>

definition released_by ::
  "('s, 'k) ApprovalService \<Rightarrow> LedgerEntry list \<Rightarrow> ApprovalRequest \<Rightarrow> string \<Rightarrow> bool" where
  "released_by sv xs request who \<longleftrightarrow> (\<exists>e d cx. e \<in> set xs \<and> ev ''decision.recorded'' e \<and>
     decision_of (e_payload e) = Inr d \<and> d_approver_id d = lit who \<and> d_verdict d = lit ''approve'' \<and>
     context_digest request = Inr cx \<and> d_context_digest d = PStr cx \<and> signed_for sv (e_payload e) d (u who))"

lemma both_release:
  assumes "status_in sv xs now rid = Inr rec" "rec_status rec = u ''approved''" "kd_wf (sv_key_dir sv)"
    and "sv_identities sv = demo_roster" "sv_policy sv = policy_store_get (policy_store_init [release_policy])"
  shows "released_by sv xs (rec_request rec) ''user:priya'' \<and> released_by sv xs (rec_request rec) ''user:noah'' \<and>
    r_requested_by (rec_request rec) \<notin> {lit ''user:priya'', lit ''user:noah''}"
proof -
  obtain policy as where a: "sv_policy sv (r_policy_id (rec_request rec)) = Inr policy"
    "\<forall>r\<in>set (require_distinct_roles policy). \<exists>a\<in>set as. holds_role demo_roster r a"
    "\<forall>a\<in>set as. \<exists>e d. approves sv xs (rec_request rec) policy a e d \<and> signed_for sv (e_payload e) d a"
    using approval_means [OF assms(3,1,2)] unfolding assms(4) by auto
  have p: "policy = release_policy" using a(1) only_policy unfolding assms(5) by blast
  have "u ''user:priya'' \<in> set as" "u ''user:noah'' \<in> set as"
    using a(2) by (auto simp: p release_policy_def roster_roles)
  moreover have "released_by sv xs (rec_request rec) who \<and> r_requested_by (rec_request rec) \<noteq> lit who"
    if "u who \<in> set as" for who
    using a(3) that by (fastforce simp: released_by_def approves_def p release_policy_def)
  ultimately show ?thesis by blast
qed

lemma StatusResponse_status: "StatusResponse rec = Inr body \<Longrightarrow> subscr body ''status'' = Inr (PStr (rec_status rec))"
  by (auto simp: StatusResponse_def sbind_eq_Inr)

context deployment
begin

lemma release_needs:
  assumes bs: "bs_identities bs = demo_roster" "bs_policy_store bs = policy_store_init [release_policy]" "kd_wf (bs_key_dir bs)"
    and s: "well l (docs s)"
    and run: "get_release_status (json_service co cp ci l now sleep bs reg R) rid s = (Reply 200 body, t)"
    and approved: "subscr body ''status'' = Inr (PStr (u ''approved''))"
  shows "\<exists>request. created_request (entries_of (PStr rid) (entries_in l (docs t))) = Inr (Some request) \<and>
    released_by (json_service co cp ci l now sleep bs reg R) (entries_in l (docs t)) request ''user:priya'' \<and>
    released_by (json_service co cp ci l now sleep bs reg R) (entries_in l (docs t)) request ''user:noah'' \<and>
    r_requested_by request \<notin> {lit ''user:priya'', lit ''user:noah''}"
proof -
  let ?sv = "json_service co cp ci l now sleep bs reg R"
  have sv: "kd_wf (sv_key_dir ?sv)" "sv_identities ?sv = demo_roster"
    "sv_policy ?sv = policy_store_get (policy_store_init [release_policy])"
    using bs by (simp_all add: json_service_def release_service_def)
  obtain rec where rec: "get_status ?sv (PStr rid) s = (Inr rec, t)" "StatusResponse rec = Inr body"
    using run by (auto simp: get_release_status_def respond_def mbind_def mlift_def split: prod.splits sum.splits)
  obtain xs now' where xs: "env xs (log t)" "status_in ?sv xs now' (PStr rid) = Inr rec"
    using running.get_status_at [OF _ rec(1)] s by (auto simp: ok_def)
  have pre: "prefix xs (entries_in l (docs t))" using env_prefix [OF xs(1)] by (simp add: log_def)
  have "created_request (entries_of (PStr rid) xs) = Inr (Some (rec_request rec))"
    using xs(2) by (auto simp: status_in_def recomputed_def sbind_eq_Inr split: option.splits if_splits)
  then have "created_request (entries_of (PStr rid) (entries_in l (docs t))) = Inr (Some (rec_request rec))"
    by (rule created_request_prefix [OF pre])
  moreover have "rec_status rec = u ''approved''" using StatusResponse_status [OF rec(2)] approved by simp
  ultimately show ?thesis
    using both_release [OF xs(2) _ sv] set_mono_prefix [OF pre] unfolding released_by_def by blast
qed

end

text \<open>C3: who releases.  When the API answers that a release is approved, the collection holds the
  request and, for that very request and its context, an approval of the safety engineer and one of QA,
  each signed with a key of theirs or by an issuer of the directory; neither of them had asked for the
  release.  This holds for every directory and for any documents the other clients insert while the call
  is served, as long as they keep the collection well formed: every entry in the next slot of its log,
  nothing deleted, edited or misplaced (\<open>mongo_ledger\<close>).\<close>

theorem approved_release_needs_both:
  assumes "deployment matches co docs near l env cp ci now sleep bs"
    and "bs_identities bs = demo_roster" "bs_policy_store bs = policy_store_init [release_policy]" "kd_wf (bs_key_dir bs)"
    and "well l (docs s)"
    and "get_release_status (json_service co cp ci l now sleep bs reg R) rid s = (Reply 200 body, t)"
    and "subscr body ''status'' = Inr (PStr (u ''approved''))"
  shows "\<exists>request. created_request (entries_of (PStr rid) (entries_in l (docs t))) = Inr (Some request) \<and>
    released_by (json_service co cp ci l now sleep bs reg R) (entries_in l (docs t)) request ''user:priya'' \<and>
    released_by (json_service co cp ci l now sleep bs reg R) (entries_in l (docs t)) request ''user:noah'' \<and>
    r_requested_by request \<notin> {lit ''user:priya'', lit ''user:noah''}"
  by (rule deployment.release_needs [OF assms])

text \<open>With the keys the application starts with, nobody signs for another: the approval of each is signed
  with the one key of theirs.\<close>

definition demo_key :: "('k, 'p) crypto \<Rightarrow> 'p \<Rightarrow> string \<Rightarrow> pstr \<Rightarrow> KeyRef" where
  "demo_key C k who now =
     to_key_ref \<lparr>m_scheme = ED25519, m_public = priv_public_raw C k\<rparr> (u who) now None (u ''approver'') None"

lemma bootstrap_keys:
  assumes "map_of (bs_key_dir (bootstrap_at C k1 k2 k3 k4 now)) i = Some key"
    and "k_key_use key = u ''approver''"
  shows "k_owner_id key = u ''user:priya'' \<Longrightarrow> key = demo_key C k1 ''user:priya'' now"
    and "k_owner_id key = u ''user:noah'' \<Longrightarrow> key = demo_key C k2 ''user:noah'' now"
  using assms
  by (auto simp: bootstrap_at_def Let_def demo_identities_def kd_add_def kd_init_def kd_extend_def update_conv'
      demo_key_def public_key_ref_def to_key_ref_def Ed25519Signer_def split: if_splits)

lemma bootstrap_no_issuer:
  "map_of (bs_key_dir (bootstrap_at C k1 k2 k3 k4 now)) i = Some key \<Longrightarrow> k_key_use key \<noteq> u ''decision_issuer''"
  by (auto simp: bootstrap_at_def Let_def demo_identities_def kd_add_def kd_init_def kd_extend_def update_conv'
      public_key_ref_def to_key_ref_def split: if_splits)

lemma signed_with_demo_key:
  assumes "signed_for sv envelope d a" "sv_key_dir sv = bs_key_dir (bootstrap_at C k1 k2 k3 k4 now)"
  shows "a = u ''user:priya'' \<Longrightarrow>
      has_signature (sv_registry sv) envelope (sv_key_dir sv) (d_decided_at d) (demo_key C k1 ''user:priya'' now)"
    and "a = u ''user:noah'' \<Longrightarrow>
      has_signature (sv_registry sv) envelope (sv_key_dir sv) (d_decided_at d) (demo_key C k2 ''user:noah'' now)"
proof -
  obtain key where key: "has_signature (sv_registry sv) envelope (sv_key_dir sv) (d_decided_at d) key"
    "k_key_use key = u ''approver'' \<and> k_owner_id key = a \<or> k_key_use key = u ''decision_issuer''"
    using assms(1) unfolding signed_for_def by auto
  have wf: "kd_wf (sv_key_dir sv)" using bootstrap_fields(3) by (simp add: assms(2))
  have dir: "map_of (sv_key_dir sv) (k_keyid key) = Some key"
    using key(1) counts_directory [OF wf] by (auto simp: has_signature_def)
  then have use: "k_key_use key = u ''approver'' \<and> k_owner_id key = a"
    using key(2) bootstrap_no_issuer [OF dir [unfolded assms(2)]] by blast
  show "a = u ''user:priya'' \<Longrightarrow>
      has_signature (sv_registry sv) envelope (sv_key_dir sv) (d_decided_at d) (demo_key C k1 ''user:priya'' now)"
    "a = u ''user:noah'' \<Longrightarrow>
      has_signature (sv_registry sv) envelope (sv_key_dir sv) (d_decided_at d) (demo_key C k2 ''user:noah'' now)"
    using key(1) use bootstrap_keys [OF dir [unfolded assms(2)]] by auto
qed

text \<open>The deployment on the database in memory.\<close>

lemma local_untouched:
  assumes "\<And>ds s. docs (put ds s) = docs s" "\<And>ds. near ds ds"
  shows "untouched docs near (local_collection get put id)"
  using assms by (auto simp: untouched_def local_collection_def Let_def split: option.split)

abbreviation demo_pause :: "(LedgerEntry \<Rightarrow> bool) \<Rightarrow> pstr \<Rightarrow> nat \<Rightarrow> (mongod, exn, unit) eff" where
  "demo_pause W l \<equiv> \<lambda>i s. (Inr (), others_insert W l s)"

abbreviation demo_clock :: "(mongod, exn, pstr) eff" where
  "demo_clock \<equiv> \<lambda>s. (Inr (md_now s), s)"

interpretation demo: deployment doc_matches "ledger_collection W l" md_ledger "decent W l" l "log_grows W" views_collection slots_collection
    demo_clock "demo_pause W l" "bootstrap_at C k1 k2 k3 k4 now0"
  for W and l :: pstr and C :: "('k, 'p) crypto" and k1 k2 k3 k4 now0
  by unfold_locales
    (auto simp: views_collection_def slots_collection_def bootstrap_at_def Let_def Ed25519Signer_def mret_def
      intro!: local_untouched others_decent)

end
