(* ===== verification/ReleaseRun.thy ===== *)
theory ReleaseRun
  imports Releases Scenario
begin

section \<open>A run of the example application\<close>

text \<open>
  The application on the database of \<open>Mongod\<close>: a release approved by the two people the policy asks for,
  and the run in which the second of them approves while somebody else inserts a note.  These are the
  inputs the properties of \<open>Releases\<close> are applied to.
\<close>

lemma next_simple:
  "next_entry prev ty pl (PStr t) (PStr rid) = Inr e \<Longrightarrow> storable pl \<Longrightarrow> simple_entry e"
  using next_entry_Inr by (simp add: simple_entry_def simple_id_def)

definition quiet_entry :: "LedgerEntry \<Rightarrow> bool" where
  "quiet_entry e \<longleftrightarrow> \<not> ev ''decision.recorded'' e"

lemma log_grows_V: "log_grows W xs ys \<Longrightarrow> list_all W (drop (length xs) ys)"
  by (simp add: log_grows_def)


subsection \<open>Serving\<close>

definition site :: pstr where
  "site = u ''vehicle-releases''"

abbreviation shop :: "(LedgerEntry \<Rightarrow> bool) \<Rightarrow> mongod Bootstrap \<Rightarrow> (mongod, bytes) ApprovalService" where
  "shop W bs \<equiv> json_service (ledger_collection W site) views_collection slots_collection site demo_clock (demo_pause W site) bs
     (default_registry echo_crypto) utc_runtime"

subsection \<open>A release that is approved\<close>

definition rdig :: pstr where
  "rdig = projr (policy_digest release_policy)"

lemma rdig: "policy_digest release_policy = Inr rdig"
  unfolding rdig_def
  by (rule named, unfold policy_digest_def, rule writable_hash)
    (simp add: Policy_to_dict_def release_policy_def RELEASE_POLICY_ID_def REQUIRED_SUBJECT_FIELDS_def strs_def writing)

lemma rdig_clean: "clean rdig"
  using clean_hash rdig by (simp add: policy_digest_def)

definition release_subject :: ReleaseSubject where
  "release_subject = \<lparr>sub_ecu = u ''brake'', sub_artifact_digest = u ''a1'', sub_version = u ''2.4.0'', sub_vehicle_platform = u ''ev''\<rparr>"

definition release :: ApprovalRequest where
  "release = \<lparr>r_kind = lit ''vehicle-software-release'', r_subject = model_dump release_subject, r_requested_by = lit ''user:sam'',
     r_policy_id = PStr RELEASE_POLICY_ID, r_policy_digest = PStr rdig, r_created_at = PStr t0,
     r_not_valid_after = lit ''2025-01-02T00:00:00Z'', r_nonce = lit '''', r_schema = REQUEST_SCHEMA\<rparr>"

lemmas release_defs = release_def model_dump_def release_subject_def RELEASE_POLICY_ID_def t0_def

definition release_id :: pstr where
  "release_id = projr (request_id release)"

definition release_cx :: pstr where
  "release_cx = projr (context_digest release)"

lemma release_id: "request_id release = Inr release_id"
  unfolding release_id_def
  by (rule named, unfold request_id_def, rule writable_hash)
    (simp add: identity_dict_def identity_items_def release_defs rdig_clean writing)

lemma release_cx: "context_digest release = Inr release_cx"
  unfolding release_cx_def
  by (rule named, unfold context_digest_def, rule writable_hash)
    (simp add: context_dict_def identity_items_def release_defs rdig_clean writing)

lemma release_clean: "clean release_id" "clean release_cx"
  using clean_hash release_id release_cx unfolding request_id_def context_digest_def by blast+

definition release_pay :: pyval where
  "release_pay = doc (identity_items release @ [(''created_at'', r_created_at release), (''request_id'', PStr release_id)])"

lemma release_pay: "Request_to_dict release = Inr release_pay"
  by (simp add: Request_to_dict_def release_id release_pay_def)

lemma release_pay_writable: "writable release_pay"
  using release_clean rdig_clean by (simp add: release_pay_def identity_items_def release_defs writing)

lemma release_pay_storable: "storable release_pay"
proof -
  have "storable (model_dump release_subject)" unfolding model_dump_def by (rule storable_doc) auto
  then show ?thesis
    unfolding release_pay_def by (intro storable_doc) (auto simp: identity_items_def release_def)
qed

text \<open>A decision of \<open>who\<close>, signed by the issuer of the organisation.\<close>

definition issuer :: KeyRef where
  "issuer = to_key_ref \<lparr>m_scheme = ED25519, m_public = priv_public_raw echo_crypto [7]\<rparr> (u ''org'') t0 None (u ''decision_issuer'') None"

definition org_dir :: KeyDirectory where
  "org_dir = [(k_keyid issuer, issuer)]"

definition yes :: "string \<Rightarrow> Decision" where
  "yes who = new_decision utc_runtime (PStr release_id) release_cx (lit ''approve'') (lit who) t1 (lit '''') (lit ''k'') PNone"

definition yes_env :: "string \<Rightarrow> pyval" where
  "yes_env who = projr (fst (wrap_async (Decision_to_dict (yes who)) DECISION_PAYLOAD_TYPE [Ed25519Signer echo_crypto [7]] ()))"

lemma yes_writable: "clean (u who) \<Longrightarrow> writable (Decision_to_dict (yes who))"
  using release_clean by (simp add: Decision_to_dict_def yes_def new_decision_def t1_def writing)

lemma issuer_valid: "valid_at issuer (PStr t1) = Inr True"
  using example_instants t1_instant
  by (simp add: valid_at_window [of _ _ 63871329600000000] timed_def in_window_def issuer_def to_key_ref_def t0_def)

lemma issuer_use: "k_key_use issuer = u ''decision_issuer''" "k_log_ids issuer = None" "k_keyid issuer = keyid_for [7]"
  by (simp_all add: issuer_def to_key_ref_def m_keyid_def echo_crypto_def)

lemma org_dir_wf: "kd_wf org_dir"
  by (simp add: kd_wf_def org_dir_def)


lemma yes_env:
  assumes "clean (u who)" "sv_registry sv = default_registry echo_crypto" "sv_key_dir sv = org_dir"
    and "identity_known sv (lit who) = Inr True" "log_id_of sv = lid"
  shows "decision_of (yes_env who) = Inr (yes who)" "authorized sv (yes_env who) (yes who) = Inr True"
    "\<exists>body sigs. yes_env who = envelope_of DECISION_PAYLOAD_TYPE body [envelope_sig (k_keyid issuer) sigs]"
proof -
  obtain body where body: "canonical_bytes (Decision_to_dict (yes who)) = Inr body"
    using writable_canonical [OF yes_writable [OF assms(1)]] by blast
  obtain x where x: "pae (PStr DECISION_PAYLOAD_TYPE) body = Inr x"
    by (simp add: utf8_encode_def DECISION_PAYLOAD_TYPE_def writing)
  have env: "yes_env who = envelope_of DECISION_PAYLOAD_TYPE body [envelope_sig (k_keyid issuer) (priv_sign echo_crypto [7] x)]"
    by (simp add: yes_env_def wrap_Ed25519 [OF body x] issuer_use) (simp add: echo_crypto_def)
  show "\<exists>body sigs. yes_env who = envelope_of DECISION_PAYLOAD_TYPE body [envelope_sig (k_keyid issuer) sigs]"
    using env by blast
  have "Ceremony.plain (yes who)" unfolding yes_def by (rule plain_new)
  then show "decision_of (yes_env who) = Inr (yes who)"
    by (simp add: decision_of_def env envelope_of_unwrap [OF body plain_wf] plain_norm)
  have "verified_signatures (default_registry echo_crypto) (yes_env who) org_dir (PStr t1) = Inr [vs_of issuer]"
  proof (rule verified_one)
    show "signable_bytes (yes_env who) = Inr x" by (simp only: env envelope_of_signable x)
    show "check_sig (default_registry echo_crypto) issuer (envelope_sig (k_keyid issuer) (priv_sign echo_crypto [7] x)) x = Inr ()"
      using check_sig_Ed25519 [OF echo_correct] by (simp add: issuer_def)
  qed (simp_all add: env org_dir_def issuer_valid)
  then show "authorized sv (yes_env who) (yes who) = Inr True"
    using assms by (simp add: authorized_def yes_def new_decision_def decision_authorized_def vs_of_def kd_get_def org_dir_def
        issuer_use scoped_to_def)
qed


lemma yes_env_shape:
  assumes "clean (u who)"
  shows "writable (yes_env who)" "storable (yes_env who)"
proof -
  define sv where "sv = (shop (\<lambda>_. False) \<lparr>bs_key_dir = org_dir, bs_identities = [(u who, \<lparr>i_id = u who, i_roles = []\<rparr>)], bs_signers = [],
      bs_policy_store = policy_store_init [release_policy], bs_log_signer = Ed25519Signer echo_crypto [7]\<rparr>)"
  have "sv_registry sv = default_registry echo_crypto" "sv_key_dir sv = org_dir" "identity_known sv (lit who) = Inr True"
    by (simp_all add: sv_def json_service_def release_service_def identity_known_def identities_get_def)
  then obtain body sig where e: "yes_env who = envelope_of DECISION_PAYLOAD_TYPE body [envelope_sig (k_keyid issuer) sig]"
    using yes_env(3) [OF assms] by blast
  have "clean (k_keyid issuer)" by (simp add: issuer_use keyid_for_def clean_hex)
  then show "writable (yes_env who)"
    by (simp add: e envelope_of_def envelope_sig_def DECISION_PAYLOAD_TYPE_def writing)
  show "storable (yes_env who)"
    by (simp add: e envelope_of_def envelope_sig_def storable_def u_def)
qed

text \<open>The log.\<close>

definition post :: "LedgerEntry option \<Rightarrow> string \<Rightarrow> pyval \<Rightarrow> pstr \<Rightarrow> LedgerEntry" where
  "post prev ty pl t = projr (next_entry prev (u ty) pl (PStr t) (PStr release_id))"

lemma post:
  assumes "writable pl" "storable pl" "clean (u ty)" "clean t" "\<forall>e. prev = Some e \<longrightarrow> clean (e_entry_hash e)"
  shows "next_entry prev (u ty) pl (PStr t) (PStr release_id) = Inr (post prev ty pl t)" "clean (e_entry_hash (post prev ty pl t))"
    "simple_entry (post prev ty pl t)"
proof -
  obtain e where e: "next_entry prev (u ty) pl (PStr t) (PStr release_id) = Inr e" "clean (e_entry_hash e)"
    using entry_made [of pl "PStr t" "PStr release_id" "u ty" prev] assms release_clean(1) by auto
  then show "next_entry prev (u ty) pl (PStr t) (PStr release_id) = Inr (post prev ty pl t)" "clean (e_entry_hash (post prev ty pl t))"
    by (simp_all add: post_def)
  then show "simple_entry (post prev ty pl t)" using next_simple assms(2) by blast
qed

definition r0 :: LedgerEntry where
  "r0 = post None ''request.created'' release_pay t0"

definition r1 :: LedgerEntry where
  "r1 = post (Some r0) ''decision.recorded'' (yes_env ''user:priya'') t1"

definition r2 :: LedgerEntry where
  "r2 = post (Some r1) ''decision.recorded'' (yes_env ''user:noah'') t1"

lemma r0: "next_entry None (u ''request.created'') release_pay (PStr t0) (PStr release_id) = Inr r0" "clean (e_entry_hash r0)" "simple_entry r0"
  unfolding r0_def by (rule post; simp add: release_pay_writable release_pay_storable t0_def writing)+

lemma r1: "next_entry (Some r0) (u ''decision.recorded'') (yes_env ''user:priya'') (PStr t1) (PStr release_id) = Inr r1"
    "clean (e_entry_hash r1)" "simple_entry r1"
  unfolding r1_def by (rule post; simp add: yes_env_shape r0(2) t1_def writing)+

lemma r2: "next_entry (Some r1) (u ''decision.recorded'') (yes_env ''user:noah'') (PStr t1) (PStr release_id) = Inr r2"
    "clean (e_entry_hash r2)" "simple_entry r2"
  unfolding r2_def by (rule post; simp add: yes_env_shape r1(2) t1_def writing)+

lemma r_fields:
  "e_event_type r0 = u ''request.created''" "e_payload r0 = release_pay" "e_request_id r0 = PStr release_id" "e_seq r0 = 0"
  "e_event_type r1 = u ''decision.recorded''" "e_payload r1 = yes_env ''user:priya''" "e_request_id r1 = PStr release_id" "e_seq r1 = 1"
  "e_event_type r2 = u ''decision.recorded''" "e_payload r2 = yes_env ''user:noah''" "e_request_id r2 = PStr release_id" "e_seq r2 = 2"
  using next_entry_Inr [OF r0(1)] next_entry_Inr [OF r1(1)] next_entry_Inr [OF r2(1)] by simp_all


text \<open>The evidence gives an approval.\<close>

definition shop_bs :: "mongod Bootstrap" where
  "shop_bs = \<lparr>bs_key_dir = org_dir, bs_identities = demo_roster, bs_signers = [], bs_policy_store = policy_store_init [release_policy],
     bs_log_signer = Ed25519Signer echo_crypto [4]\<rparr>"

definition nobody :: "LedgerEntry \<Rightarrow> bool" where
  "nobody e \<longleftrightarrow> False"

lemma shop_fields:
  "sv_registry (shop W shop_bs) = default_registry echo_crypto" "sv_key_dir (shop W shop_bs) = org_dir"
  "sv_identities (shop W shop_bs) = demo_roster" "sv_policy (shop W shop_bs) = policy_store_get (policy_store_init [release_policy])"
  "sv_runtime (shop W shop_bs) = utc_runtime" "sv_now (shop W shop_bs) = demo_clock"
  "sv_events (shop W shop_bs) = json_events (MongoEventStore (ledger_collection W site) site)"
  by (simp_all add: json_service_def release_service_def shop_bs_def)

lemma both_authorized:
  "authorized_decisions (shop W shop_bs) [r0, r1, r2] = Inr [yes ''user:priya'', yes ''user:noah'']"
proof -
  have k: "identity_known (shop W shop_bs) (lit ''user:priya'') = Inr True" "identity_known (shop W shop_bs) (lit ''user:noah'') = Inr True"
    by (simp_all add: identity_known_def shop_fields identities_get_def demo_roster_def)
  have c: "clean (u ''user:priya'')" "clean (u ''user:noah'')" by (simp_all add: writing)
  show ?thesis
    using yes_env(1,2) [OF c(1) shop_fields(1,2) k(1) refl] yes_env(1,2) [OF c(2) shop_fields(1,2) k(2) refl]
    by (simp add: r_fields)
qed

lemma release_deadline: "deadline_of release release_policy = Inr \<lparr>local_us = 63871372800000000, utcoff = Some 0\<rparr>"
  by (simp add: deadline_of_def release_def t0_def release_policy_def time_eval dt_add_def dt_min_def
      dt_less_def dt_cmp_def MAX_US_def)

lemma yes_fields [simp]:
  "d_context_digest (yes who) = PStr release_cx" "d_approver_id (yes who) = lit who" "d_decided_at (yes who) = PStr t1"
  "d_verdict (yes who) = lit ''approve''" "d_request_id (yes who) = PStr release_id"
  by (simp_all add: yes_def new_decision_def)

lemma release_policy_fields [simp]:
  "separation_of_duties release_policy" "reject_is_terminal release_policy" "threshold release_policy = 2"
  "require_distinct_roles release_policy = [u ''safety-engineer'', u ''qa'']"
  "allowed_approvers release_policy = [u ''role:safety-engineer'', u ''role:qa'']"
  by (simp_all add: release_policy_def)

lemma roster_eligible:
  "eligible (lit ''user:priya'') release_policy demo_roster = Inr True" "eligible (lit ''user:noah'') release_policy demo_roster = Inr True"
  by (simp_all add: eligible_def demo_roster_def identities_get_def role_ref_def) (simp_all add: u_def)

lemma yes_counted:
  assumes "who = ''user:priya'' \<or> who = ''user:noah''"
  shows "objection utc_runtime release release_policy demo_roster release_cx \<lparr>local_us = 63871372800000000, utcoff = Some 0\<rparr> (yes who) = Inr None"
proof -
  have "eligible (lit who) release_policy demo_roster = Inr True" using assms roster_eligible by blast
  moreover have "r_requested_by release \<noteq> lit who" using assms by (auto simp: release_def)
  ultimately show ?thesis
    using t1_parses by (simp add: objection_def dt_less_def dt_cmp_def del: parse_rfc3339.simps)
qed

lemma both_vote:
  "latest [yes ''user:priya'', yes ''user:noah''] = [(u ''user:priya'', yes ''user:priya''), (u ''user:noah'', yes ''user:noah'')]"
  by (simp add: latest_def by_time_def)

lemma evaluates_released:
  "\<exists>res. evaluate utc_runtime release [yes ''user:priya'', yes ''user:noah''] release_policy demo_roster (PStr t1) = Inr res \<and>
     p_status res = u ''approved''"
proof -
  have "roles_satisfied [u ''user:priya'', u ''user:noah''] release_policy demo_roster"
    by (simp add: roles_satisfied_def roster_roles)
  then have "\<exists>res. conclude utc_runtime release release_policy demo_roster now deadline [] (latest [yes ''user:priya'', yes ''user:noah'']) = Inr res \<and>
      p_status res = u ''approved''" for now deadline
    by (simp add: conclude_def Let_def voting_def both_vote)
  then show ?thesis
    using yes_counted t1_parses release_deadline release_cx
    by (simp add: evaluate_def del: parse_rfc3339.simps)
qed


text \<open>The database.\<close>

definition db2 :: mongod where
  "db2 = \<lparr>md_ledger = map (entry_doc site) [r0, r1, r2], md_views = [], md_slots = [], md_now = t1, md_others = []\<rparr>"

lemma db2: "well site (md_ledger db2)" "entries_in site (md_ledger db2) = [r0, r1, r2]"
  using r0(3) r1(3) r2(3) by (auto simp: db2_def well_def placed_iff r_fields)

lemma db2_find:
  "\<exists>found. co_find (ledger_collection nobody site) q proj order limit db2 = ((found, None), db2)"
  by (simp add: ledger_collection_def local_collection_def others_insert_def db2_def Let_def)

lemma db2_reads:
  "es_events_for_request (json_events (MongoEventStore (ledger_collection nobody site) site)) (PStr release_id) db2
     = (Inr [r0, r1, r2], db2)"
proof -
  obtain found where f: "co_find (ledger_collection nobody site) (doc [(''log_id'', PStr site), (''request_id'', PStr release_id)])
      None [(''seq'', ASCENDING)] None db2 = ((found, None), db2)"
    using db2_find by blast
  have "\<exists>xs zs. log_grows nobody [r0, r1, r2] xs \<and> list_all2 (shown None) (map (entry_doc site) zs) found \<and>
      zs = filter (\<lambda>e. e_request_id e = PStr release_id) xs \<and> log_grows nobody xs [r0, r1, r2]"
    using ledger.find_own [OF _ f, where Q = "\<lambda>e. e_request_id e = PStr release_id"] db2
    by (auto simp: ledger.ok_def ledger.log_def limited_def simple_id_def simp del: doc_matches.simps)
  then have "list_all2 (shown None) (map (entry_doc site) [r0, r1, r2]) found"
    by (auto simp: log_grows_def nobody_def r_fields dest!: prefix_order.antisym)
  then have "found = map (entry_doc site) [r0, r1, r2]" by (simp only: ledger.shown_all)
  then show ?thesis
    using f by (simp add: json_events_def MongoEventStore_def mongo_events_for_request_def mfind_def gathered_def simple_id_def)
qed


lemma shop_deployed:
  "deployment doc_matches (ledger_collection W l) md_ledger (decent W l) l (log_grows W) views_collection slots_collection
     demo_clock (demo_pause W l) shop_bs"
  by unfold_locales
    (auto simp: views_collection_def slots_collection_def shop_bs_def Ed25519Signer_def mret_def intro!: local_untouched others_decent)

lemma release_created: "created_request [r0, r1, r2] = Inr (Some release)"
  using Request_roundtrip [OF release_pay] by (simp add: created_request_def r_fields)

lemma release_answered:
  "\<exists>body. get_release_status (shop nobody shop_bs) release_id db2 = (Reply 200 body, db2) \<and>
     subscr body ''status'' = Inr (PStr (u ''approved''))"
proof -
  have required: "require_request (shop nobody shop_bs) (PStr release_id) db2 = (Inr release, db2)"
    using db2_reads release_created
    by (simp add: require_request_def load_request_def shop_fields mbind_def mlift_def mret_def)
  have policy: "policy_store_get (policy_store_init [release_policy]) (r_policy_id release) = Inr release_policy"
    by (simp add: policy_store_get_def policy_store_init_def release_def release_policy_def)
  have now: "md_now db2 = t1" and pinned_digest: "r_policy_digest release = PStr rdig" by (simp_all add: db2_def release_def)
  have decided: "decisions_for (shop nobody shop_bs) release db2 = (Inr [yes ''user:priya'', yes ''user:noah''], db2)"
    using db2_reads both_authorized [of nobody] release_id
    by (simp add: decisions_for_def shop_fields mbind_def mlift_def del: authorized_decisions.simps)
  obtain res where res: "evaluate utc_runtime release [yes ''user:priya'', yes ''user:noah''] release_policy demo_roster (PStr t1) = Inr res"
      "p_status res = u ''approved''"
    using evaluates_released by blast
  define rec where "rec = \<lparr>rec_request = release, rec_decisions = [yes ''user:priya'', yes ''user:noah''], rec_status = u ''approved'',
    rec_policy_result = res\<rparr>"
  have status: "get_status (shop nobody shop_bs) (PStr release_id) db2 = (Inr rec, db2)"
    using policy rdig decided res
    by (simp add: get_status_def recompute_def required shop_fields mbind_def mlift_def rec_def now pinned_digest)
      (simp add: mret_def)
  obtain body where body: "StatusResponse rec = Inr body"
    using release_id by (simp add: StatusResponse_def rec_def) (simp add: release_def model_dump_def)
  then have "subscr body ''status'' = Inr (PStr (u ''approved''))"
    using StatusResponse_status by (fastforce simp: rec_def)
  then show ?thesis
    using status body by (simp add: get_release_status_def respond_def mbind_def mlift_def)
qed

lemma approved_release_needs_both_witness:
  "\<exists>request. created_request (entries_of (PStr release_id) (entries_in site (md_ledger db2))) = Inr (Some request) \<and>
     released_by (shop nobody shop_bs) (entries_in site (md_ledger db2)) request ''user:priya'' \<and>
     released_by (shop nobody shop_bs) (entries_in site (md_ledger db2)) request ''user:noah'' \<and>
     r_requested_by request \<notin> {lit ''user:priya'', lit ''user:noah''}"
proof -
  obtain body where "get_release_status (shop nobody shop_bs) release_id db2 = (Reply 200 body, db2)"
      "subscr body ''status'' = Inr (PStr (u ''approved''))"
    using release_answered by blast
  then show ?thesis
    using approved_release_needs_both [OF shop_deployed _ _ _ db2(1), where R = utc_runtime and reg = "default_registry echo_crypto"]
      org_dir_wf by (simp add: shop_bs_def)
qed


subsection \<open>Evidence\<close>

text \<open>
  The log has the request and the approval of the safety engineer; QA approves next, while somebody else
  inserts a note.
\<close>

definition remark :: LedgerEntry where
  "remark = post (Some r1) ''note'' PNone t1"

definition db1 :: mongod where
  "db1 = \<lparr>md_ledger = map (entry_doc site) [r0, r1], md_views = [], md_slots = [], md_now = t1,
     md_others = [[], [entry_doc site remark]]\<rparr>"

lemma db1: "well site (md_ledger db1)" "entries_in site (md_ledger db1) = [r0, r1]" "intact [r0, r1]"
proof -
  show "well site (md_ledger db1)" "entries_in site (md_ledger db1) = [r0, r1]"
    using r0(3) r1(3) by (auto simp: db1_def well_def placed_iff r_fields)
  have "intact [r0]" using next_entry_log [of "[]"] r0(1) by simp
  then show "intact [r0, r1]" using next_entry_log [of "[r0]"] r1(1) by simp
qed

lemma r1_backed: "backed (shop W shop_bs) [r0] r1"
proof -
  have "identity_known (shop W shop_bs) (lit ''user:priya'') = Inr True"
    by (simp add: identity_known_def shop_fields identities_get_def demo_roster_def)
  moreover have "clean (u ''user:priya'')" by (simp add: writing)
  ultimately have "decision_of (yes_env ''user:priya'') = Inr (yes ''user:priya'')"
      "authorized (shop W shop_bs) (yes_env ''user:priya'') (yes ''user:priya'') = Inr True"
    using yes_env(1,2) [OF _ shop_fields(1,2)] by blast+
  moreover have "created_request [r0] = Inr (Some release)"
    using Request_roundtrip [OF release_pay] by (simp add: created_request_def r_fields)
  ultimately show ?thesis using release_cx by (simp add: backed_def r_fields)
qed

definition db1_run :: mongod where
  "db1_run = serve (shop quiet_entry shop_bs) [SubmitSigned (yes_env ''user:noah''), GetStatus (PStr release_id), PublishCheckpoint] db1"

lemma releases_keep_evidence_witness:
  "well site (md_ledger db1_run) \<and> intact (entries_in site (md_ledger db1_run)) \<and>
   prefix [r0, r1] (entries_in site (md_ledger db1_run)) \<and>
   backed_unless quiet_entry (shop quiet_entry shop_bs) (entries_in site (md_ledger db1_run))"
proof -
  have "backed_unless quiet_entry (shop quiet_entry shop_bs) [r0, r1]"
    using r1_backed [of quiet_entry] by (auto simp: backed_unless_def less_Suc_eq r_fields)
  then show ?thesis
    using releases_keep_evidence [OF shop_deployed [where W = quiet_entry and l = site], where V = quiet_entry and s = db1 and R = utc_runtime and
        reg = "default_registry echo_crypto" and cs = "[SubmitSigned (yes_env ''user:noah''), GetStatus (PStr release_id), PublishCheckpoint]"]
      db1 log_grows_V by (simp add: db1_run_def)
qed

end
