(* ===== verification/Conformance.thy ===== *)
theory Conformance
  imports Stores Encodable
begin

section \<open>The conformance suite\<close>

text \<open>
  \<^verbatim>\<open>src/approvo/testing.py\<close>: the tests a store has to pass.  A test is a coroutine over the world of the
  store it is given, which returns or raises; a failing \<open>assert\<close> raises \<open>AssertionError\<close>.  After the
  tests come the laws of a store the suite is about, as the locales \<open>tested_store\<close>, \<open>tested_projections\<close>
  and \<open>idempotency_contract\<close>, and the proof that they are enough to pass.
\<close>

subsection \<open>Asserting\<close>

definition expect :: "bool \<Rightarrow> ('s, exn, unit) eff" where
  "expect b = (if b then mret () else mraise AssertionError)"

text \<open>\<open>with pytest.raises(cls): m\<close>, which fails when \<open>m\<close> returns.\<close>

definition raises :: "exn \<Rightarrow> ('s, exn, 'a) eff \<Rightarrow> ('s, exn, unit) eff" where
  "raises cls m s = (case m s of
       (Inr _, t) \<Rightarrow> (Inl AssertionError, t)
     | (Inl x, t) \<Rightarrow> (if isinstance x cls then Inr () else Inl x, t))"

text \<open>An attribute of what may be \<open>None\<close>.\<close>

definition attr :: "('a \<Rightarrow> 'b) \<Rightarrow> 'a option \<Rightarrow> ('s, exn, 'b) eff" where
  "attr f found = (case found of None \<Rightarrow> mraise AttributeError | Some x \<Rightarrow> mret (f x))"

text \<open>\<open>[e async for e in scan(...)]\<close>\<close>

definition drained :: "('s, exn, LedgerEntry list \<times> exn option) eff \<Rightarrow> ('s, exn, LedgerEntry list) eff" where
  "drained m = mbind m (\<lambda>(ys, stop). case stop of None \<Rightarrow> mret ys | Some x \<Rightarrow> mraise x)"

text \<open>\<open>==\<close> of what JSON can hold: the order of the items of a dict does not matter, and a bool is an int.\<close>

fun py_eq :: "pyval \<Rightarrow> pyval \<Rightarrow> bool" where
  "py_eq (PDict xs) (PDict ys) \<longleftrightarrow> length xs = length ys \<and>
     list_all (\<lambda>(k, v). case map_of ys k of None \<Rightarrow> False | Some w \<Rightarrow> py_eq v w) xs"
| "py_eq (PList xs) (PList ys) \<longleftrightarrow> list_all2 py_eq xs ys"
| "py_eq (PTuple xs) (PTuple ys) \<longleftrightarrow> list_all2 py_eq xs ys"
| "py_eq (PBool b) (PInt n) \<longleftrightarrow> of_bool b = n"
| "py_eq (PInt n) (PBool b) \<longleftrightarrow> of_bool b = n"
| "py_eq v w \<longleftrightarrow> v = w"

text \<open>
  \<open>asyncio.gather(*ms, return_exceptions=True)\<close> of operations that are atomic each: they take place in
  some order, which is a parameter, and the results come back in the order of the arguments.
\<close>

definition attempt :: "('s, exn, 'a) eff \<Rightarrow> ('s, exn, exn + 'a) eff" where
  "attempt m s = (case m s of (r, t) \<Rightarrow> (Inr r, t))"

definition gather :: "nat list \<Rightarrow> ('s, exn, 'a) eff list \<Rightarrow> ('s, exn, (exn + 'a) list) eff" where
  "gather order ms =
     mbind (mfor order (\<lambda>i res. mbind (attempt (ms ! i)) (\<lambda>r. mret (res(i := r)))) (\<lambda>_. Inl OtherError))
       (\<lambda>res. mret (map res [0..<length ms]))"

subsection \<open>Entries and views\<close>

definition T0 :: pstr where
  "T0 = u ''2026-08-30T12:00:00.000Z''"

definition make_entry :: "int \<Rightarrow> LedgerEntry option \<Rightarrow> string \<Rightarrow> pyval \<Rightarrow> pyval option \<Rightarrow> exn + LedgerEntry" where
  "make_entry seq prev event_type rid payload =
     (let pl = (case payload of None \<Rightarrow> PDict (items [(''n'', PInt seq)]) | Some v \<Rightarrow> v)
      in case prev of
           Some p \<Rightarrow> next_entry (Some p) (u event_type) pl (PStr T0) rid
         | None \<Rightarrow> sealed \<lparr>e_seq = seq, e_recorded_at = PStr T0, e_prev_hash = ZERO_HASH, e_event_type = u event_type,
                            e_request_id = rid, e_payload = pl, e_entry_hash = []\<rparr>)"

text \<open>\<open>(prev.seq + 1) if prev else 0\<close>\<close>

definition seq_after :: "LedgerEntry option \<Rightarrow> int" where
  "seq_after prev = (case prev of None \<Rightarrow> 0 | Some p \<Rightarrow> e_seq p + 1)"

definition append_chain :: "'s event_store \<Rightarrow> nat \<Rightarrow> pyval \<Rightarrow> ('s, exn, LedgerEntry list) eff" where
  "append_chain es count rid =
     mbind (es_head es) (\<lambda>head.
     mbind (mfor [0..<count] (\<lambda>i (entries, prev).
         mbind (mlift (make_entry (seq_after prev) prev ''request.created'' rid None)) (\<lambda>entry.
         mbind (es_append es entry) (\<lambda>_.
         mret (entries @ [entry], Some entry)))) ([], head))
     (\<lambda>(entries, prev). mret entries))"

definition make_view :: "string \<Rightarrow> (RequestView \<Rightarrow> RequestView) \<Rightarrow> RequestView" where
  "make_view rid overrides = overrides
     \<lparr>v_request_id = u rid, v_kind = lit ''software-release'', v_status = u ''pending'', v_requested_by = lit ''user:riley'',
      v_policy_id = lit ''release-v1'',
      v_subject = PDict (items [(''artifact_digest'', lit ''sha256:ab''), (''version'', lit ''1.4.0'')]),
      v_created_at = PStr T0, v_not_valid_after = lit ''2026-09-06T12:00:00.000Z'', v_updated_at = PStr T0,
      v_approvals = 0, v_threshold = 2, v_approvers = [], v_pending_for = [u ''user:casey'', u ''user:jordan''], v_last_seq = 0\<rparr>"

subsection \<open>Event stores\<close>

definition test_empty_head_is_none :: "'s event_store \<Rightarrow> ('s, exn, unit) eff" where
  "test_empty_head_is_none es = mbind (es_head es) (\<lambda>head. expect (head = None))"

definition test_append_then_head :: "'s event_store \<Rightarrow> ('s, exn, unit) eff" where
  "test_append_then_head es =
     mbind (mlift (make_entry 0 None ''request.created'' PNone None)) (\<lambda>entry.
     mbind (es_append es entry) (\<lambda>_.
     mbind (es_head es) (\<lambda>head.
     mbind (expect (head \<noteq> None)) (\<lambda>_.
     mbind (attr e_entry_hash head) (\<lambda>h. mbind (expect (h = e_entry_hash entry)) (\<lambda>_.
     mbind (attr e_seq head) (\<lambda>n. expect (n = 0))))))))"

definition test_head_tracks_highest_seq :: "'s event_store \<Rightarrow> ('s, exn, unit) eff" where
  "test_head_tracks_highest_seq es =
     mbind (append_chain es 5 PNone) (\<lambda>entries.
     mbind (es_head es) (\<lambda>head.
     mbind (attr e_seq head) (\<lambda>n. mbind (expect (n = 4)) (\<lambda>_.
     mbind (attr e_entry_hash head) (\<lambda>h. expect (h = e_entry_hash (last entries)))))))"

definition test_duplicate_seq_raises_conflict :: "'s event_store \<Rightarrow> ('s, exn, unit) eff" where
  "test_duplicate_seq_raises_conflict es =
     mbind (mlift (make_entry 0 None ''request.created'' PNone None)) (\<lambda>first.
     mbind (es_append es first) (\<lambda>_.
     raises LedgerConflict
       (mbind (mlift (make_entry 0 None ''request.created'' PNone (Some (PDict (items [(''different'', PBool True)])))))
          (es_append es))))"

definition test_conflicting_append_does_not_overwrite :: "'s event_store \<Rightarrow> ('s, exn, unit) eff" where
  "test_conflicting_append_does_not_overwrite es =
     mbind (mlift (make_entry 0 None ''request.created'' PNone None)) (\<lambda>original.
     mbind (es_append es original) (\<lambda>_.
     mbind (raises LedgerConflict
       (mbind (mlift (make_entry 0 None ''request.created'' PNone (Some (PDict (items [(''evil'', PBool True)])))))
          (es_append es))) (\<lambda>_.
     mbind (es_get_by_seq es 0) (\<lambda>stored.
     mbind (attr e_entry_hash stored) (\<lambda>h. mbind (expect (h = e_entry_hash original)) (\<lambda>_.
     mbind (attr e_payload stored) (\<lambda>p. expect (py_eq p (e_payload original)))))))))"

definition test_get_by_seq :: "'s event_store \<Rightarrow> ('s, exn, unit) eff" where
  "test_get_by_seq es =
     mbind (append_chain es 3 PNone) (\<lambda>entries.
     mbind (es_get_by_seq es 1) (\<lambda>found.
     mbind (attr e_entry_hash found) (\<lambda>h. mbind (expect (h = e_entry_hash (entries ! 1))) (\<lambda>_.
     mbind (es_get_by_seq es 99) (\<lambda>none. expect (none = None))))))"

definition awkward_payload :: pyval where
  "awkward_payload = PDict (items
     [(''nested'', PDict (items
        [(''a'', PList [PInt 1, PInt 2, PDict (items [(''b'', PNone)])]),
         (''unicode'', PStr [104, 233, 108, 108, 111, 32, 8212, 32, 9989])])),
      (''empty_dict'', PDict []), (''empty_list'', PList []), (''bool'', PBool True), (''int'', PInt (- 17))])"

definition test_payload_roundtrips_faithfully :: "'s event_store \<Rightarrow> ('s, exn, unit) eff" where
  "test_payload_roundtrips_faithfully es =
     mbind (mlift (make_entry 0 None ''request.created'' PNone (Some awkward_payload))) (\<lambda>entry.
     mbind (es_append es entry) (\<lambda>_.
     mbind (es_get_by_seq es 0) (\<lambda>stored.
     mbind (attr e_payload stored) (\<lambda>p. mbind (expect (py_eq p awkward_payload)) (\<lambda>_.
     mbind (attr e_entry_hash stored) (\<lambda>h. mbind (expect (h = e_entry_hash entry)) (\<lambda>_.
     mbind (attr sealed stored) (\<lambda>again. mbind (mlift again) (\<lambda>again.
     expect (e_entry_hash again = e_entry_hash entry))))))))))"

definition test_events_for_request_filters_and_orders :: "'s event_store \<Rightarrow> ('s, exn, unit) eff" where
  "test_events_for_request_filters_and_orders es =
     mbind (mfor [0..<6] (\<lambda>i (prev, expected).
         let rid = (if i mod 2 = 0 then lit ''sha256:aaa'' else lit ''sha256:bbb'') in
         mbind (mlift (make_entry (seq_after prev) prev ''request.created'' rid None)) (\<lambda>entry.
         mbind (es_append es entry) (\<lambda>_.
         mret (Some entry, if rid = lit ''sha256:aaa'' then expected @ [entry] else expected)))) (None, []))
     (\<lambda>(prev, expected).
     mbind (es_events_for_request es (lit ''sha256:aaa'')) (\<lambda>found.
     mbind (expect (map e_seq found = map e_seq expected)) (\<lambda>_.
     expect (list_all (\<lambda>e. e_request_id e = lit ''sha256:aaa'') found))))"

definition test_events_for_unknown_request_is_empty :: "'s event_store \<Rightarrow> ('s, exn, unit) eff" where
  "test_events_for_unknown_request_is_empty es =
     mbind (append_chain es 3 (lit ''sha256:aaa'')) (\<lambda>_.
     mbind (es_events_for_request es (lit ''sha256:nope'')) (\<lambda>found. expect (found = [])))"

definition test_entries_without_request_id_are_excluded :: "'s event_store \<Rightarrow> ('s, exn, unit) eff" where
  "test_entries_without_request_id_are_excluded es =
     mbind (mlift (make_entry 0 None ''request.created'' (lit ''sha256:aaa'') None)) (\<lambda>entry.
     mbind (es_append es entry) (\<lambda>_.
     mbind (mlift (make_entry 1 (Some entry) ''checkpoint.published'' PNone None)) (\<lambda>second.
     mbind (es_append es second) (\<lambda>_.
     mbind (es_events_for_request es (lit ''sha256:aaa'')) (\<lambda>found. expect (map e_seq found = [0]))))))"

definition test_scan_orders_and_respects_start :: "'s event_store \<Rightarrow> ('s, exn, unit) eff" where
  "test_scan_orders_and_respects_start es =
     mbind (append_chain es 5 PNone) (\<lambda>_.
     mbind (drained (es_scan es 0 None)) (\<lambda>seen. mbind (expect (map e_seq seen = [0, 1, 2, 3, 4])) (\<lambda>_.
     mbind (drained (es_scan es 2 None)) (\<lambda>seen. expect (map e_seq seen = [2, 3, 4])))))"

definition test_scan_respects_limit :: "'s event_store \<Rightarrow> ('s, exn, unit) eff" where
  "test_scan_respects_limit es =
     mbind (append_chain es 5 PNone) (\<lambda>_.
     mbind (drained (es_scan es 1 (Some 2))) (\<lambda>seen. expect (map e_seq seen = [1, 2])))"

definition test_scan_past_end_is_empty :: "'s event_store \<Rightarrow> ('s, exn, unit) eff" where
  "test_scan_past_end_is_empty es =
     mbind (append_chain es 2 PNone) (\<lambda>_.
     mbind (drained (es_scan es 99 None)) (\<lambda>seen. expect (seen = [])))"

definition test_leaf_hashes_order_and_up_to_is_exclusive :: "'s event_store \<Rightarrow> ('s, exn, unit) eff" where
  "test_leaf_hashes_order_and_up_to_is_exclusive es =
     mbind (append_chain es 5 PNone) (\<lambda>entries.
     mbind (es_leaf_hashes es None) (\<lambda>hs. mbind (expect (hs = map e_entry_hash entries)) (\<lambda>_.
     mbind (es_leaf_hashes es (Some 3)) (\<lambda>hs. mbind (expect (hs = map e_entry_hash (take 3 entries))) (\<lambda>_.
     mbind (es_leaf_hashes es (Some 0)) (\<lambda>hs. expect (hs = [])))))))"

definition numbered_checkpoint :: "'s event_store \<Rightarrow> nat \<Rightarrow> int \<Rightarrow> Checkpoint" where
  "numbered_checkpoint es i tree =
     \<lparr>c_tree_size = tree, c_root_hash = PStr (u ''sha256:'' @ hex_pad 64 i), c_published_at = PStr T0,
      c_log_id = PStr (es_log_id es), c_prev_root_hash = PNone, c_signatures = [], c_schema = CHECKPOINT_SCHEMA\<rparr>"

definition test_latest_checkpoint :: "'s event_store \<Rightarrow> ('s, exn, unit) eff" where
  "test_latest_checkpoint es =
     mbind (es_latest_checkpoint es) (\<lambda>none. mbind (expect (none = None)) (\<lambda>_.
     mbind (mfor [(0, 1), (1, 2)] (\<lambda>(i, tree) prev.
         mbind (mlift (make_entry (seq_after prev) prev ''checkpoint.published'' PNone
                  (Some (Checkpoint_to_dict (numbered_checkpoint es i tree))))) (\<lambda>entry.
         mbind (es_append es entry) (\<lambda>_. mret (Some entry)))) None) (\<lambda>_.
     mbind (es_latest_checkpoint es) (\<lambda>latest.
     mbind (expect (latest \<noteq> None)) (\<lambda>_.
     mbind (attr c_tree_size latest) (\<lambda>n. expect (n = 2)))))))"

definition test_concurrent_appends_yield_exactly_one_winner :: "nat list \<Rightarrow> 's event_store \<Rightarrow> ('s, exn, unit) eff" where
  "test_concurrent_appends_yield_exactly_one_winner order es =
     mbind (mlift (smap (\<lambda>i. make_entry 0 None ''request.created'' PNone (Some (PDict (items [(''writer'', PInt (int i))])))) [0..<8]))
     (\<lambda>contenders.
     mbind (gather order (map (es_append es) contenders)) (\<lambda>results.
     let succeeded = filter (\<lambda>r. case r of Inr _ \<Rightarrow> True | Inl _ \<Rightarrow> False) results;
         conflicts = filter (\<lambda>r. case r of Inl x \<Rightarrow> isinstance x LedgerConflict | Inr _ \<Rightarrow> False) results;
         unexpected = filter (\<lambda>r. case r of Inl x \<Rightarrow> \<not> isinstance x LedgerConflict | Inr _ \<Rightarrow> False) results
     in mbind (expect (unexpected = [])) (\<lambda>_.
        mbind (expect (length succeeded = 1)) (\<lambda>_.
        mbind (expect (int (length conflicts) = int (length contenders) - 1)) (\<lambda>_.
        mbind (es_head es) (\<lambda>head.
        mbind (attr e_seq head) (\<lambda>n. mbind (expect (n = 0)) (\<lambda>_.
        mbind (attr e_entry_hash head) (\<lambda>h. expect (h \<in> set (map e_entry_hash contenders)))))))))))"

definition EventStoreConformance :: "nat list \<Rightarrow> 's event_store \<Rightarrow> ('s, exn, unit) eff list" where
  "EventStoreConformance order es =
     [test_empty_head_is_none es, test_append_then_head es, test_head_tracks_highest_seq es,
      test_duplicate_seq_raises_conflict es, test_conflicting_append_does_not_overwrite es, test_get_by_seq es,
      test_payload_roundtrips_faithfully es, test_events_for_request_filters_and_orders es,
      test_events_for_unknown_request_is_empty es, test_entries_without_request_id_are_excluded es,
      test_scan_orders_and_respects_start es, test_scan_respects_limit es, test_scan_past_end_is_empty es,
      test_leaf_hashes_order_and_up_to_is_exclusive es, test_latest_checkpoint es,
      test_concurrent_appends_yield_exactly_one_winner order es]"


subsection \<open>Running a test\<close>

text \<open>\<open>wp m Q s\<close>: from \<open>s\<close>, \<open>m\<close> returns, with a result and a world that \<open>Q\<close> holds of.\<close>

definition wp :: "('s, exn, 'a) eff \<Rightarrow> ('a \<Rightarrow> 's \<Rightarrow> bool) \<Rightarrow> 's \<Rightarrow> bool" where
  "wp m Q s \<longleftrightarrow> (case m s of (Inr x, t) \<Rightarrow> Q x t | (Inl _, _) \<Rightarrow> False)"

definition passes :: "('s, exn, unit) eff \<Rightarrow> 's \<Rightarrow> bool" where
  "passes m s \<longleftrightarrow> fst (m s) = Inr ()"

lemma passes_wp: "passes m s \<longleftrightarrow> wp m (\<lambda>_ _. True) s"
  by (auto simp: passes_def wp_def split: prod.split sum.split)

lemma wp_simps [simp]:
  "wp (mret x) Q s \<longleftrightarrow> Q x s"
  "wp (mbind m h) Q s \<longleftrightarrow> wp m (\<lambda>x. wp (h x) Q) s"
  "wp (mlift r) Q s \<longleftrightarrow> (case r of Inr x \<Rightarrow> Q x s | Inl _ \<Rightarrow> False)"
  "wp (expect b) Q1 s \<longleftrightarrow> b \<and> Q1 () s"
  "wp (attr f (Some y)) Q2 s \<longleftrightarrow> Q2 (f y) s"
  "wp (attempt k) Q3 s \<longleftrightarrow> (case k s of (q, t) \<Rightarrow> Q3 q t)"
  by (auto simp: wp_def mret_def mbind_def mlift_def expect_def attr_def mraise_def attempt_def split: prod.split sum.split)

lemma wp_mret [simp]: "wp (mret x) Q = Q x"
  by (simp add: fun_eq_iff)

lemma wp_bindI: "wp m (\<lambda>x. wp (f x) Q) s \<Longrightarrow> wp (mbind m f) Q s"
  by simp

lemma mbind_assoc: "mbind (mbind m f) g = mbind m (\<lambda>x. mbind (f x) g)"
  by (auto simp: mbind_def fun_eq_iff split: prod.split sum.split)

lemma wp_returns: "\<exists>t. m s = (Inr x, t) \<and> P t \<Longrightarrow> (\<And>t. P t \<Longrightarrow> Q x t) \<Longrightarrow> wp m Q s"
  by (auto simp: wp_def)

lemma wp_raises: "\<exists>t. m s = (Inl x, t) \<and> P t \<Longrightarrow> isinstance x cls \<Longrightarrow> (\<And>t. P t \<Longrightarrow> Q () t) \<Longrightarrow> wp (raises cls m) Q s"
  by (auto simp: wp_def raises_def)

lemma raises_mlift [simp]: "raises cls (mbind (mlift (Inr x)) f) = raises cls (f x)"
  by (simp add: raises_def fun_eq_iff)

lemma wp_drained: "wp m (\<lambda>p t. snd p = None \<and> Q (fst p) t) s \<Longrightarrow> wp (drained m) Q s"
  by (auto simp: drained_def wp_def mret_def mbind_def split: prod.splits sum.splits option.splits)

lemma wp_mono: "wp m P s \<Longrightarrow> (\<And>x t. P x t \<Longrightarrow> Q x t) \<Longrightarrow> wp m Q s"
  by (auto simp: wp_def split: prod.splits sum.splits)

lemma wp_mfor:
  assumes "I 0 acc s" "\<And>i acc s. i < length xs \<Longrightarrow> I i acc s \<Longrightarrow> wp (body (xs ! i) acc) (I (Suc i)) s"
    and "\<And>acc t. I (length xs) acc t \<Longrightarrow> Q acc t"
  shows "wp (mfor xs body acc) Q s"
  using assms
proof (induction xs arbitrary: acc s I)
  case (Cons x xs)
  have "wp (body x acc) (I (Suc 0)) s" using Cons.prems(1) Cons.prems(2) [of 0] by simp
  then show ?case unfolding mfor.simps wp_simps
    by (rule wp_mono) (rule Cons.IH [where I = "\<lambda>i. I (Suc i)"], use Cons.prems(2,3) in \<open>fastforce+\<close>)
qed simp

text \<open>Whatever the order of the contenders, the first of them wins and the others lose.\<close>

lemma wp_race:
  assumes "free s" "distinct order" "set order = {..<length ms}" "ms \<noteq> []"
    and wins: "\<And>i s. i < length ms \<Longrightarrow> free s \<Longrightarrow> \<exists>t. (ms ! i) s = (won, t) \<and> held i t"
    and loses: "\<And>i j s. i < length ms \<Longrightarrow> j < length ms \<Longrightarrow> held i s \<Longrightarrow> \<exists>t. (ms ! j) s = (lost, t) \<and> held i t"
    and Q: "\<And>winner t. winner < length ms \<Longrightarrow> held winner t \<Longrightarrow> Q ((replicate (length ms) lost)[winner := won]) t"
  shows "wp (gather order ms) Q s"
proof -
  have len: "length order = length ms" using distinct_card [OF assms(2)] assms(3) by simp
  have ne: "order \<noteq> []" using len assms(4) by auto
  have first: "hd order < length ms" using assms(3) ne hd_in_set by blast
  let ?I = "\<lambda>k res t. (if k = 0 then free t else held (hd order) t \<and> res (hd order) = won) \<and>
    (\<forall>j. 0 < j \<and> j < k \<longrightarrow> res (order ! j) = lost)"
  have "wp (mfor order (\<lambda>i res. mbind (attempt (ms ! i)) (\<lambda>r. mret (res(i := r)))) (\<lambda>_. Inl OtherError))
      (\<lambda>res t. Q (map res [0..<length ms]) t) s"
  proof (rule wp_mfor [where I = ?I])
    fix k res t assume k: "k < length order" and I: "?I k res t"
    then have i: "order ! k < length ms" using assms(3) nth_mem by blast
    show "wp (mbind (attempt (ms ! (order ! k))) (\<lambda>r. mret (res(order ! k := r)))) (?I (Suc k)) t"
    proof (cases "k = 0")
      case True
      obtain t' where "(ms ! (order ! k)) t = (won, t')" "held (order ! k) t'" using wins [OF i] I True by auto
      then show ?thesis using True ne by (simp add: hd_conv_nth)
    next
      case False
      obtain t' where "(ms ! (order ! k)) t = (lost, t')" "held (hd order) t'" using loses [OF first i] I False by auto
      moreover have "order ! j \<noteq> order ! k" if "j < k" for j using nth_eq_iff_index_eq [OF assms(2)] that k by auto
      ultimately show ?thesis using I False ne by (auto simp: hd_conv_nth less_Suc_eq)
    qed
  next
    fix res t assume I: "?I (length order) res t"
    have "map res [0..<length ms] = (replicate (length ms) lost)[hd order := won]"
    proof (rule nth_equalityI)
      fix i assume "i < length (map res [0..<length ms])"
      then have i: "i < length ms" by simp
      then obtain j where j: "j < length order" "order ! j = i" using assms(3) by (metis in_set_conv_nth lessThan_iff)
      show "map res [0..<length ms] ! i = (replicate (length ms) lost)[hd order := won] ! i"
      proof (cases "j = 0")
        case True
        then show ?thesis using I i j ne by (simp add: hd_conv_nth)
      next
        case False
        then have "hd order \<noteq> i" using nth_eq_iff_index_eq [OF assms(2), of 0 j] j ne by (auto simp: hd_conv_nth)
        then show ?thesis using I i j False by auto
      qed
    qed simp
    then show "Q (map res [0..<length ms]) t" using I ne first Q by simp
  qed (use assms in simp)
  then show ?thesis by (simp add: gather_def)
qed

lemma one_winner:
  "i < n \<Longrightarrow> filter P ((replicate n a)[i := b]) = (if P a then replicate i a else []) @ (if P b then [b] else []) @
     (if P a then replicate (n - Suc i) a else [])"
  by (simp add: upd_conv_take_nth_drop)

lemma py_eq_refl: "wf_val v \<Longrightarrow> py_eq v v"
proof (induction v)
  case (PDict kvs)
  then show ?case by (fastforce simp: list_all_iff)
qed (auto simp: list_all_iff list_all2_conv_all_nth)

subsection \<open>What the entries of the suite are\<close>

definition made :: "LedgerEntry option \<Rightarrow> int \<Rightarrow> string \<Rightarrow> pyval \<Rightarrow> pyval \<Rightarrow> LedgerEntry \<Rightarrow> bool" where
  "made prev seq ty rid pl e \<longleftrightarrow> e_seq e = (case prev of None \<Rightarrow> seq | Some p \<Rightarrow> e_seq p + 1) \<and> e_event_type e = u ty \<and>
     e_request_id e = rid \<and> e_payload e = pl \<and> simple_entry e \<and> clean (e_entry_hash e) \<and> sealed e = Inr e"

definition payload_of :: "int \<Rightarrow> pyval option \<Rightarrow> pyval" where
  "payload_of seq payload = (case payload of None \<Rightarrow> PDict (items [(''n'', PInt seq)]) | Some v \<Rightarrow> v)"

lemma payload_of_simps [simp]: "payload_of seq None = PDict [(lit ''n'', PInt seq)]" "payload_of seq (Some v) = v"
  by (simp_all add: payload_of_def)

lemma make_entry_made:
  assumes "writable (payload_of seq payload)" "storable (payload_of seq payload)" "simple_id rid" "writable rid" "clean (u ty)"
    and "\<forall>p. prev = Some p \<longrightarrow> clean (e_entry_hash p)"
  shows "\<exists>e. make_entry seq prev ty rid payload = Inr e \<and> made prev seq ty rid (payload_of seq payload) e"
proof (cases prev)
  case None
  have z: "clean ZERO_HASH" by (simp add: ZERO_HASH_def clean_u) (simp add: list_all_iff encodable_def surrogate_def)
  let ?c = "\<lparr>e_seq = seq, e_recorded_at = PStr T0, e_prev_hash = ZERO_HASH, e_event_type = u ty, e_request_id = rid,
      e_payload = payload_of seq payload, e_entry_hash = []\<rparr>"
  have "writable (core_dict ?c)" using assms z by (simp add: core_dict_def core_items_def clean_u T0_def)
  then obtain h where h: "canonical_hash (core_dict ?c) = Inr h" using writable_hash by blast
  then have "sealed (?c\<lparr>e_entry_hash := h\<rparr>) = Inr (?c\<lparr>e_entry_hash := h\<rparr>)"
    by (simp add: sealed_def core_dict_def core_items_def)
  then show ?thesis using clean_hash [OF h] h assms None
    by (auto simp: make_entry_def made_def sealed_def simple_entry_def payload_of_def)
next
  case (Some p)
  obtain e where e: "next_entry (Some p) (u ty) (payload_of seq payload) (PStr T0) rid = Inr e" "clean (e_entry_hash e)"
    using entry_made [of "payload_of seq payload" "PStr T0" rid "u ty" prev] assms Some by (auto simp: T0_def clean_u)
  have "sealed e = Inr e" using next_entry_Inr(7) [OF e(1)] by (simp add: sealed_ok_def sealed_def)
  then show ?thesis using e next_entry_Inr [OF e(1)] assms Some
    by (auto simp: make_entry_def made_def simple_entry_def payload_of_def)
qed


subsection \<open>A store the suite accepts\<close>

text \<open>
  What the tests ask of a store: every operation returns and reads the log as it is; an entry lands at the
  end; and the first slot, once taken, is refused.  The suite tries no other slot twice.
\<close>

locale tested_store =
  fixes es :: "'s event_store" and log :: "'s \<Rightarrow> LedgerEntry list" and ok :: "'s \<Rightarrow> bool"
  assumes reads_head: "ok s \<Longrightarrow> \<exists>t. es_head es s = (Inr (last_of (log s)), t) \<and> ok t \<and> log t = log s"
    and append_end: "ok s \<Longrightarrow> simple_entry e \<Longrightarrow> e_seq e = int (length (log s)) \<Longrightarrow>
      \<exists>t. es_append es e s = (Inr (), t) \<and> ok t \<and> log t = log s @ [e]"
    and append_first: "ok s \<Longrightarrow> simple_entry e \<Longrightarrow> e_seq e = 0 \<Longrightarrow> log s \<noteq> [] \<Longrightarrow>
      \<exists>t. es_append es e s = (Inl LedgerConflict, t) \<and> ok t \<and> log t = log s"
    and reads_entry: "ok s \<Longrightarrow> 0 \<le> n \<Longrightarrow>
      \<exists>t. es_get_by_seq es n s = (Inr (if n < int (length (log s)) then Some (log s ! nat n) else None), t) \<and> ok t \<and> log t = log s"
    and reads_events: "ok s \<Longrightarrow> rid \<noteq> [] \<Longrightarrow>
      \<exists>t. es_events_for_request es (PStr rid) s = (Inr (filter (\<lambda>e. e_request_id e = PStr rid) (log s)), t) \<and> ok t \<and> log t = log s"
    and reads_scan: "ok s \<Longrightarrow> 0 \<le> start \<Longrightarrow> \<exists>t. es_scan es start None s = (Inr (drop (nat start) (log s), None), t) \<and> ok t \<and> log t = log s"
    and reads_part: "ok s \<Longrightarrow> 0 \<le> start \<Longrightarrow> 0 < n \<Longrightarrow>
      \<exists>t. es_scan es start (Some n) s = (Inr (take (nat n) (drop (nat start) (log s)), None), t) \<and> ok t \<and> log t = log s"
    and reads_leaves: "ok s \<Longrightarrow> \<exists>t. es_leaf_hashes es None s = (Inr (map e_entry_hash (log s)), t) \<and> ok t \<and> log t = log s"
    and reads_some_leaves: "ok s \<Longrightarrow> 0 \<le> n \<Longrightarrow>
      \<exists>t. es_leaf_hashes es (Some n) s = (Inr (take (nat n) (map e_entry_hash (log s))), t) \<and> ok t \<and> log t = log s"
    and reads_checkpoint: "ok s \<Longrightarrow> last_published (log s) = Inr c \<Longrightarrow>
      \<exists>t. es_latest_checkpoint es s = (Inr c, t) \<and> ok t \<and> log t = log s"
begin

lemmas wp_reads = wp_returns [OF reads_head] wp_returns [OF append_end] wp_returns [OF reads_entry] wp_returns [OF reads_events]
  wp_returns [OF reads_scan] wp_returns [OF reads_part] wp_returns [OF reads_leaves] wp_returns [OF reads_some_leaves]
  wp_returns [OF reads_checkpoint]

lemma wp_make:
  assumes "writable (payload_of seq payload)" "storable (payload_of seq payload)" "simple_id rid" "writable rid" "clean (u ty)"
    and "\<forall>p. prev = Some p \<longrightarrow> clean (e_entry_hash p)" "\<And>e. made prev seq ty rid (payload_of seq payload) e \<Longrightarrow> Q e s"
  shows "case make_entry seq prev ty rid payload of Inl _ \<Rightarrow> False | Inr e \<Rightarrow> Q e s"
  using make_entry_made [OF assms(1-6)] assms(7) by auto

text \<open>The entries of \<open>append_chain\<close>.\<close>

definition numbered :: "nat \<Rightarrow> pyval \<Rightarrow> LedgerEntry list \<Rightarrow> bool" where
  "numbered n rid xs \<longleftrightarrow> length xs = n \<and> map e_seq xs = map int [0..<n] \<and> (\<forall>e\<in>set xs. e_request_id e = rid)"

lemma wp_append_chain:
  assumes "ok s" "log s = []" "simple_id rid" "writable rid"
    and "\<And>xs t. ok t \<Longrightarrow> log t = xs \<Longrightarrow> numbered n rid xs \<Longrightarrow> Q xs t"
  shows "wp (append_chain es n rid) Q s"
proof -
  let ?I = "\<lambda>i (entries, prev) t. ok t \<and> log t = entries \<and> numbered i rid entries \<and> prev = last_of entries \<and>
    (\<forall>e\<in>set entries. clean (e_entry_hash e))"
  have "wp (mfor [0..<n] (\<lambda>i (entries, prev).
      mbind (mlift (make_entry (seq_after prev) prev ''request.created'' rid None)) (\<lambda>entry.
      mbind (es_append es entry) (\<lambda>_. mret (entries @ [entry], Some entry)))) ([], None)) (\<lambda>p. Q (fst p)) t"
    if "ok t" "log t = []" for t
  proof (rule wp_mfor [where I = ?I])
    fix i acc t
    assume i: "i < length [0..<n]" and I: "?I i acc t"
    obtain entries prev where acc: "acc = (entries, prev)" by (cases acc)
    have seq: "seq_after prev = int i" "(case prev of None \<Rightarrow> seq_after prev | Some p \<Rightarrow> e_seq p + 1) = int i"
      using I by (auto simp: acc seq_after_def last_of_def numbered_def last_conv_nth of_nat_diff Suc_le_eq dest!: arg_cong [where f = last] split: if_splits)
    have c: "\<forall>p. prev = Some p \<longrightarrow> clean (e_entry_hash p)" using I by (auto simp: acc last_of_def split: if_splits)
    show "wp (case acc of (entries, prev) \<Rightarrow>
      mbind (mlift (make_entry (seq_after prev) prev ''request.created'' rid None)) (\<lambda>entry.
      mbind (es_append es entry) (\<lambda>_. mret (entries @ [entry], Some entry)))) (?I (Suc i)) t"
      unfolding acc prod.case wp_simps
    proof (rule wp_make, goal_cases)
      case (7 e)
      then have "e_seq e = int (length (log t))" "simple_entry e" using I seq(2) by (simp_all add: acc made_def numbered_def)
      then show ?case
        using 7 I by (intro wp_returns [OF append_end]) (auto simp: acc made_def numbered_def last_of_def)
    qed (use assms(3,4) c in \<open>auto simp: storable_def clean_u\<close>)
  qed (use assms(5) that in \<open>auto simp: numbered_def last_of_def\<close>)
  then show ?thesis
    using assms(1,2) by (auto simp: append_chain_def last_of_def case_prod_beta intro!: wp_returns [OF reads_head])
qed

lemma length_numbered: "numbered n rid xs \<Longrightarrow> length xs = n"
  by (simp add: numbered_def)

lemma numbered_seqs: "numbered n rid xs \<Longrightarrow> map e_seq xs = map int [0..<n]"
  by (simp add: numbered_def)

lemma numbered_drop: "numbered n rid xs \<Longrightarrow> map e_seq (drop k xs) = map int [k..<n]"
  by (simp add: numbered_def flip: drop_map) (simp add: drop_map)

lemma seqs_nth: "map e_seq xs = map int [0..<n] \<Longrightarrow> i < n \<Longrightarrow> e_seq (xs ! i) = int i"
  by (metis add_0 diff_zero length_map length_upt nth_map nth_upt)

lemma numbered_nth: "numbered n rid xs \<Longrightarrow> i < n \<Longrightarrow> e_seq (xs ! i) = int i"
  using seqs_nth [of xs n i] by (simp add: numbered_def)

lemma numbered_last: "numbered (Suc n) rid xs \<Longrightarrow> last_of xs = Some (last xs) \<and> e_seq (last xs) = int n"
  using numbered_nth [of "Suc n" rid xs n] length_numbered [of "Suc n" rid xs] by (cases xs) (auto simp: last_of_def last_conv_nth)

lemma chain_tests:
  assumes "ok s" "log s = []"
  shows "passes (test_empty_head_is_none es) s" "passes (test_head_tracks_highest_seq es) s" "passes (test_get_by_seq es) s"
    "passes (test_scan_orders_and_respects_start es) s" "passes (test_scan_respects_limit es) s"
    "passes (test_scan_past_end_is_empty es) s" "passes (test_leaf_hashes_order_and_up_to_is_exclusive es) s"
    "passes (test_events_for_unknown_request_is_empty es) s"
proof -
  note chain = wp_append_chain [OF assms]
  show "passes (test_empty_head_is_none es) s"
    using assms by (auto simp: passes_wp test_empty_head_is_none_def last_of_def intro!: wp_reads)
  show "passes (test_head_tracks_highest_seq es) s"
    unfolding passes_wp test_head_tracks_highest_seq_def wp_simps
    by (rule chain) (auto simp: simple_id_def numbered_last [of 4 PNone, simplified] intro!: wp_reads)
  show "passes (test_get_by_seq es) s"
    unfolding passes_wp test_get_by_seq_def wp_simps
    by (rule chain) (auto simp: simple_id_def numbered_def intro!: wp_reads)
  show "passes (test_scan_orders_and_respects_start es) s"
    unfolding passes_wp test_scan_orders_and_respects_start_def wp_simps
    by (rule chain) (auto simp: simple_id_def numbered_drop numbered_seqs upt_rec intro!: wp_drained wp_reads)
  show "passes (test_scan_respects_limit es) s"
    unfolding passes_wp test_scan_respects_limit_def wp_simps
    by (rule chain) (auto simp: simple_id_def numbered_drop upt_rec take_map [symmetric] intro!: wp_drained wp_reads)
  show "passes (test_scan_past_end_is_empty es) s"
    unfolding passes_wp test_scan_past_end_is_empty_def wp_simps
    by (rule chain) (auto simp: simple_id_def numbered_def intro!: wp_drained wp_reads)
  show "passes (test_leaf_hashes_order_and_up_to_is_exclusive es) s"
    unfolding passes_wp test_leaf_hashes_order_and_up_to_is_exclusive_def wp_simps
    by (rule chain) (auto simp: simple_id_def take_map intro!: wp_reads)
  show "passes (test_events_for_unknown_request_is_empty es) s"
    unfolding passes_wp test_events_for_unknown_request_is_empty_def wp_simps
    by (rule chain) (auto simp: simple_id_def numbered_def filter_empty_conv clean_u intro!: wp_reads)
qed

lemma wp_refused:
  assumes "ok s" "log s \<noteq> []" "writable v" "storable v" "\<And>t. ok t \<Longrightarrow> log t = log s \<Longrightarrow> Q () t"
  shows "wp (raises LedgerConflict (mbind (mlift (make_entry 0 None ''request.created'' PNone (Some v))) (es_append es))) Q s"
proof -
  obtain e where e: "make_entry 0 None ''request.created'' PNone (Some v) = Inr e" "made None 0 ''request.created'' PNone v e"
    using make_entry_made [of 0 "Some v" PNone "''request.created''" None] assms(3,4) by (auto simp: simple_id_def clean_u)
  show ?thesis unfolding e(1) raises_mlift
    by (rule wp_raises [OF append_first]) (use assms e(2) in \<open>auto simp: made_def\<close>)
qed

lemma wp_first:
  assumes "ok s" "log s = []" "writable (payload_of 0 payload)" "storable (payload_of 0 payload)" "simple_id rid" "writable rid" "clean (u ty)"
    and "\<And>e t. made None 0 ty rid (payload_of 0 payload) e \<Longrightarrow> ok t \<Longrightarrow> log t = [e] \<Longrightarrow> wp (f e) Q t"
  shows "wp (mbind (mlift (make_entry 0 None ty rid payload)) (\<lambda>e. mbind (es_append es e) (\<lambda>_. f e))) Q s"
  unfolding wp_simps
proof (rule wp_make [OF assms(3-7)])
  fix e assume e: "made None 0 ty rid (payload_of 0 payload) e"
  then show "wp (es_append es e) (\<lambda>x. wp (f e) Q) s"
    using assms(1,2,8) by (intro wp_returns [OF append_end]) (auto simp: made_def)
qed simp

lemma entry_tests:
  assumes "ok s" "log s = []"
  shows "passes (test_append_then_head es) s" "passes (test_duplicate_seq_raises_conflict es) s"
    "passes (test_conflicting_append_does_not_overwrite es) s" "passes (test_payload_roundtrips_faithfully es) s"
    "passes (test_entries_without_request_id_are_excluded es) s"
proof -
  note first = wp_first [OF assms]
  show "passes (test_append_then_head es) s"
    unfolding passes_wp test_append_then_head_def
    by (rule first) (auto simp: simple_id_def storable_def clean_u made_def last_of_def intro!: wp_reads)
  show "passes (test_duplicate_seq_raises_conflict es) s"
    unfolding passes_wp test_duplicate_seq_raises_conflict_def
    by (rule first) (auto simp: simple_id_def storable_def clean_u intro!: wp_refused)
  show "passes (test_conflicting_append_does_not_overwrite es) s"
    unfolding passes_wp test_conflicting_append_does_not_overwrite_def
    by (rule first) (auto simp: simple_id_def storable_def clean_u made_def intro!: wp_refused wp_reads)
  have p: "storable awkward_payload" "writable awkward_payload"
    by (simp_all add: awkward_payload_def storable_def clean_u encodable_def surrogate_def)
  show "passes (test_payload_roundtrips_faithfully es) s"
    unfolding passes_wp test_payload_roundtrips_faithfully_def
    by (rule first) (use p py_eq_refl [of awkward_payload] in \<open>auto simp: simple_id_def clean_u made_def storable_def intro!: wp_reads\<close>)
  show "passes (test_entries_without_request_id_are_excluded es) s"
    unfolding passes_wp test_entries_without_request_id_are_excluded_def
  proof (rule first)
    fix e t assume e: "made None 0 ''request.created'' (lit ''sha256:aaa'') (payload_of 0 None) e" and t: "ok t" "log t = [e]"
    show "wp (mbind (mlift (make_entry 1 (Some e) ''checkpoint.published'' PNone None)) (\<lambda>second.
        mbind (es_append es second) (\<lambda>_.
        mbind (es_events_for_request es (lit ''sha256:aaa'')) (\<lambda>found. expect (map e_seq found = [0]))))) (\<lambda>_ _. True) t"
      unfolding wp_simps
      by (rule wp_make) (use e t in \<open>auto simp: simple_id_def storable_def clean_u made_def intro!: wp_reads\<close>)
  qed (auto simp: simple_id_def storable_def clean_u)
qed

text \<open>A log that a loop of the suite is building.\<close>

definition building :: "nat \<Rightarrow> LedgerEntry option \<Rightarrow> 's \<Rightarrow> bool" where
  "building i prev t \<longleftrightarrow> ok t \<and> map e_seq (log t) = map int [0..<i] \<and> prev = last_of (log t) \<and> (\<forall>e\<in>set (log t). clean (e_entry_hash e))"

lemma building_step:
  assumes "building i prev t" "made prev (seq_after prev) ty rid pl e" "\<And>t'. building (Suc i) (Some e) t' \<Longrightarrow> log t' = log t @ [e] \<Longrightarrow> Q () t'"
  shows "wp (es_append es e) Q t"
proof (rule wp_returns [OF append_end])
  have n: "length (log t) = i" using assms(1) by (auto simp: building_def dest!: arg_cong [where f = length])
  have "e_seq e = (case last_of (log t) of None \<Rightarrow> 0 | Some p \<Rightarrow> e_seq p + 1)"
    using assms(1,2) by (auto simp: building_def made_def seq_after_def split: option.splits)
  moreover have "e_seq (last (log t)) = int i - 1" if "log t \<noteq> []"
    using that assms(1) n seqs_nth [of "log t" i "i - 1"]
    by (auto simp: building_def last_conv_nth of_nat_diff Suc_le_eq)
  ultimately have e: "e_seq e = int i" using n by (auto simp: last_of_def)
  show "ok t" "simple_entry e" using assms(1,2) by (simp_all add: building_def made_def)
  show "e_seq e = int (length (log t))" using e n by simp
  fix t' assume "ok t' \<and> log t' = log t @ [e]"
  then show "Q () t'" using assms e by (auto simp: building_def made_def last_of_def)
qed

lemma building_clean: "building i prev t \<Longrightarrow> prev = Some p \<Longrightarrow> clean (e_entry_hash p)"
  by (auto simp: building_def last_of_def split: if_splits)

lemma passes_events_order:
  assumes "ok s" "log s = []"
  shows "passes (test_events_for_request_filters_and_orders es) s"
proof -
  let ?I = "\<lambda>i (prev, expected) t. building i prev t \<and> expected = filter (\<lambda>e. e_request_id e = lit ''sha256:aaa'') (log t)"
  show ?thesis
    unfolding passes_wp test_events_for_request_filters_and_orders_def wp_simps
  proof (rule wp_mfor [where I = ?I])
    fix i acc t
    assume i: "i < length [0..<6]" and I: "?I i acc t"
    obtain prev expected where acc: "acc = (prev, expected)" by (cases acc)
    have b: "building i prev t" "expected = filter (\<lambda>e. e_request_id e = lit ''sha256:aaa'') (log t)" using I by (simp_all add: acc)
    define rid where "rid = (if [0..<6] ! i mod 2 = 0 then lit ''sha256:aaa'' else lit ''sha256:bbb'')"
    have rid: "simple_id rid" "writable rid" by (auto simp: rid_def simple_id_def clean_u)
    show "wp (case acc of (prev, expected) \<Rightarrow>
        let rid = (if [0..<6] ! i mod 2 = 0 then lit ''sha256:aaa'' else lit ''sha256:bbb'') in
           mbind (mlift (make_entry (seq_after prev) prev ''request.created'' rid None)) (\<lambda>entry.
           mbind (es_append es entry) (\<lambda>_.
           mret (Some entry, if rid = lit ''sha256:aaa'' then expected @ [entry] else expected)))) (?I (Suc i)) t"
      unfolding acc prod.case Let_def wp_simps rid_def [symmetric]
    proof (rule wp_make, goal_cases)
      case (7 e)
      show ?case by (rule building_step [OF b(1) 7]) (use 7 b(2) in \<open>simp add: made_def\<close>)
    qed (use rid building_clean [OF b(1)] in \<open>auto simp: storable_def clean_u\<close>)
  qed (use assms in \<open>auto simp: building_def last_of_def list_all_iff intro!: wp_reads\<close>)
qed

lemma numbered_checkpoint_shape:
  assumes "clean (es_log_id es)"
  shows "writable (Checkpoint_to_dict (numbered_checkpoint es i n))" "storable (Checkpoint_to_dict (numbered_checkpoint es i n))"
  using assms
  by (simp_all add: Checkpoint_to_dict_def signed_items_def numbered_checkpoint_def storable_def clean_u clean_hex_pad T0_def)

lemma wp_next:
  assumes "building k prev t" "writable (payload_of (seq_after prev) payload)" "storable (payload_of (seq_after prev) payload)"
    and "simple_id rid" "writable rid" "clean (u ty)"
    and "\<And>e t'. e_event_type e = u ty \<Longrightarrow> e_payload e = payload_of (seq_after prev) payload \<Longrightarrow> building (Suc k) (Some e) t' \<Longrightarrow>
      log t' = log t @ [e] \<Longrightarrow> wp (f e) Q t'"
  shows "wp (mbind (mlift (make_entry (seq_after prev) prev ty rid payload)) (\<lambda>entry. mbind (es_append es entry) (\<lambda>_. f entry))) Q t"
  unfolding wp_simps
proof (rule wp_make, goal_cases)
  case (7 e)
  show ?case by (rule building_step [OF assms(1) 7]) (use 7 assms(7) in \<open>simp add: made_def\<close>)
qed (use assms building_clean [OF assms(1)] in auto)

lemma passes_latest_checkpoint:
  assumes "ok s" "log s = []" "clean (es_log_id es)"
  shows "passes (test_latest_checkpoint es) s"
proof -
  have read: "wp (mbind (es_latest_checkpoint es) (\<lambda>latest. mbind (expect (latest \<noteq> None)) (\<lambda>_. mbind (attr c_tree_size latest) (\<lambda>n. expect (n = 2)))))
      (\<lambda>_ _. True) t"
    if "log t = [a, b]" "e_event_type a = u ''checkpoint.published''" "e_event_type b = u ''checkpoint.published''"
      "e_payload b = Checkpoint_to_dict (numbered_checkpoint es 1 2)" "ok t" for t a b
    unfolding wp_simps
    by (rule wp_returns [OF reads_checkpoint [where c = "Some (numbered_checkpoint es 1 2)"]])
      (use that in \<open>auto simp: last_published_def Checkpoint_roundtrip numbered_checkpoint_def\<close>)
  note shape = numbered_checkpoint_shape [OF assms(3)]
  have test: "test_latest_checkpoint es = mbind (es_latest_checkpoint es) (\<lambda>none. mbind (expect (none = None)) (\<lambda>_.
      mbind (mlift (make_entry (seq_after None) None ''checkpoint.published'' PNone (Some (Checkpoint_to_dict (numbered_checkpoint es 0 1))))) (\<lambda>a.
      mbind (es_append es a) (\<lambda>_.
      mbind (mlift (make_entry (seq_after (Some a)) (Some a) ''checkpoint.published'' PNone (Some (Checkpoint_to_dict (numbered_checkpoint es 1 2))))) (\<lambda>b.
      mbind (es_append es b) (\<lambda>_.
      mbind (es_latest_checkpoint es) (\<lambda>latest. mbind (expect (latest \<noteq> None)) (\<lambda>_. mbind (attr c_tree_size latest) (\<lambda>n. expect (n = 2))))))))))"
    by (simp add: test_latest_checkpoint_def mbind_assoc)
  show ?thesis
    unfolding passes_wp test
  proof (rule wp_bindI, rule wp_returns [OF reads_checkpoint [where c = None]], goal_cases)
    case (3 t)
    then have "building 0 None t" using assms(2) by (simp add: building_def last_of_def)
    then show ?case
    proof (intro wp_bindI [of "expect b" for b], unfold wp_simps(4), intro conjI refl, rule wp_next, goal_cases)
      case (6 a t')
      then have a: "building (Suc 0) (Some a) t'" "log t' = log t @ [a]" "e_event_type a = u ''checkpoint.published''" by simp_all
      show ?case
      proof (rule wp_next [OF a(1)], goal_cases)
        case (6 b t'')
        then show ?case using 3 assms(2) a by (intro read [of t'' a b]) (simp_all add: building_def)
      qed (use shape in \<open>simp_all add: simple_id_def clean_u\<close>)
    qed (use shape in \<open>simp_all add: simple_id_def clean_u\<close>)
  qed (use assms in \<open>auto simp: last_published_def\<close>)
qed

lemma passes_concurrent:
  assumes "ok s" "log s = []" "distinct order" "set order = {..<8}"
  shows "passes (test_concurrent_appends_yield_exactly_one_winner order es) s"
proof -
  let ?make = "\<lambda>i. make_entry 0 None ''request.created'' PNone (Some (PDict (items [(''writer'', PInt (int i))])))"
  have each: "\<exists>e. ?make i = Inr e \<and> simple_entry e \<and> e_seq e = 0" for i
    using make_entry_made [of 0 "Some (PDict (items [(''writer'', PInt (int i))]))" PNone "''request.created''" None]
    by (auto simp: storable_def simple_id_def clean_u made_def)
  then have "\<forall>i\<in>set [0..<8]. \<exists>e. ?make i = Inr e" by blast
  then obtain cs where cs: "smap ?make [0..<8] = Inr cs" unfolding smap_Inr_iff [symmetric] by blast
  have len: "length cs = 8" using smap_length [OF cs] by simp
  then have ne: "cs \<noteq> []" by auto
  have "simple_entry (cs ! i) \<and> e_seq (cs ! i) = 0" if "i < 8" for i
    using smap_nth [OF cs, of i] each [of i] that by auto
  then have entries: "\<forall>e\<in>set cs. simple_entry e \<and> e_seq e = 0" using len by (auto simp: in_set_conv_nth)
  show ?thesis
    unfolding passes_wp test_concurrent_appends_yield_exactly_one_winner_def cs wp_simps sum.case
  proof (rule wp_race [where free = "\<lambda>t. ok t \<and> log t = []" and held = "\<lambda>i t. ok t \<and> log t = [cs ! i]" and won = "Inr ()"
        and lost = "Inl LedgerConflict"], goal_cases)
    case (5 i t)
    then have "simple_entry (cs ! i)" "e_seq (cs ! i) = 0" using entries by simp_all
    then show ?case using append_end [of t "cs ! i"] 5 by auto
  next
    case (6 i j t)
    then have "simple_entry (cs ! j)" "e_seq (cs ! j) = 0" using entries by simp_all
    then show ?case using append_first [of t "cs ! j"] 6 by auto
  next
    case (7 winner t)
    then show ?case unfolding Let_def
      using len entries by (auto simp: one_winner last_of_def intro!: wp_reads)
  qed (simp_all add: assms len ne)
qed

lemma suite_passes:
  assumes "ok s" "log s = []" "clean (es_log_id es)" "distinct order" "set order = {..<8}" "m \<in> set (EventStoreConformance order es)"
  shows "passes m s"
  using assms(6) chain_tests [OF assms(1,2)] entry_tests [OF assms(1,2)] passes_events_order [OF assms(1,2)]
    passes_latest_checkpoint [OF assms(1-3)] passes_concurrent [OF assms(1,2,4,5)]
  by (auto simp: EventStoreConformance_def)

end

text \<open>A store with one writer that keeps the protocol and does not fail is one of them.\<close>

locale total_writer = single_writer es log ok
  for es :: "'s event_store" and log :: "'s \<Rightarrow> LedgerEntry list" and ok :: "'s \<Rightarrow> bool" +
  assumes entry_total: "ok s \<Longrightarrow> 0 \<le> n \<Longrightarrow> \<exists>found t. es_get_by_seq es n s = (Inr found, t)"
    and scan_total: "ok s \<Longrightarrow> 0 \<le> start \<Longrightarrow> \<exists>ys t. es_scan es start limit s = (Inr (ys, None), t)"
    and leaves_total: "ok s \<Longrightarrow> \<exists>hs t. es_leaf_hashes es up_to s = (Inr hs, t)"
    and checkpoint_total: "ok s \<Longrightarrow> last_published (log s) = Inr c \<Longrightarrow> \<exists>found t. es_latest_checkpoint es s = (Inr found, t)"

sublocale total_writer \<subseteq> tested_store es log ok
proof (unfold_locales, goal_cases)
  case (1 s)
  then show ?case using head_reads by blast
next
  case (2 s e)
  then have "hashable (e_request_id e)" by (auto simp: simple_entry_def simple_id_def split: pyval.splits)
  with 2 show ?case using append_extends by blast
next
  case (3 s e)
  then have h: "hashable (e_request_id e)" by (auto simp: simple_entry_def simple_id_def split: pyval.splits)
  obtain t where "es_append es e s = (Inl LedgerConflict, t)" using append_conflict [OF 3(1) h] 3(3,4) by auto
  then show ?case using append_failed [OF 3(1) h] by auto
next
  case (4 s n)
  obtain found t where run: "es_get_by_seq es n s = (Inr found, t)" using entry_total [OF 4] by blast
  then show ?case using get_by_seq [OF 4(1) run] 4(2) by auto
next
  case (5 s rid)
  then show ?case using events_read [of s "PStr rid"] by simp
next
  case (6 s start)
  obtain ys t where run: "es_scan es start None s = (Inr (ys, None), t)" using scan_total [OF 6] by blast
  then show ?case using scan [OF 6(1) run] 6(2) by auto
next
  case (7 s start n)
  obtain ys t where run: "es_scan es start (Some n) s = (Inr (ys, None), t)" using scan_total [OF 7(1,2)] by blast
  then show ?case using scan [OF 7(1) run] 7(2,3) by auto
next
  case (8 s)
  obtain hs t where run: "es_leaf_hashes es None s = (Inr hs, t)" using leaves_total [OF 8] by blast
  then show ?case using leaf_hashes [OF 8 run] by auto
next
  case (9 s n)
  obtain hs t where run: "es_leaf_hashes es (Some n) s = (Inr hs, t)" using leaves_total [OF 9(1)] by blast
  then show ?case using leaf_hashes [OF 9(1) run] 9(2) by (auto simp: slice_to_def)
next
  case (10 s c)
  obtain found t where run: "es_latest_checkpoint es s = (Inr found, t)" using checkpoint_total [OF 10] by blast
  then show ?case using latest_checkpoint [OF 10(1) run] 10(2) by auto
qed

end
