(* ===== verification/ConformanceViews.thy ===== *)
theory ConformanceViews
  imports Conformance
begin

section \<open>The conformance suite: projections and idempotency\<close>

text \<open>
  The tests of \<^verbatim>\<open>src/approvo/testing.py\<close> for the other two stores, the laws of a projection store that
  is queried (\<open>tested_projections\<close>), and the proofs that those laws and \<open>idempotency_contract\<close> are enough.
\<close>

subsection \<open>Projection stores\<close>

definition ids_of :: "RequestView Page \<Rightarrow> pstr list" where
  "ids_of page = map v_request_id (pg_items page)"

definition test_get_unknown_is_none :: "'s projection_store \<Rightarrow> ('s, exn, unit) eff" where
  "test_get_unknown_is_none pj = mbind (pj_get pj (lit ''sha256:nope'')) (\<lambda>found. expect (found = None))"

definition test_upsert_then_get :: "'s projection_store \<Rightarrow> ('s, exn, unit) eff" where
  "test_upsert_then_get pj =
     (let view = make_view ''sha256:aaa'' id in
      mbind (pj_upsert pj view) (\<lambda>_.
      mbind (pj_get pj (lit ''sha256:aaa'')) (\<lambda>stored.
      mbind (expect (stored \<noteq> None)) (\<lambda>_.
      mbind (attr View_to_dict stored) (\<lambda>d. expect (py_eq d (View_to_dict view)))))))"

definition test_upsert_updates_in_place :: "'s projection_store \<Rightarrow> ('s, exn, unit) eff" where
  "test_upsert_updates_in_place pj =
     mbind (pj_upsert pj (make_view ''sha256:aaa'' (\<lambda>v. v\<lparr>v_last_seq := 1\<rparr>))) (\<lambda>_.
     mbind (pj_upsert pj (make_view ''sha256:aaa'' (\<lambda>v. v\<lparr>v_status := u ''approved'', v_approvals := 2, v_last_seq := 2\<rparr>))) (\<lambda>_.
     mbind (pj_get pj (lit ''sha256:aaa'')) (\<lambda>stored.
     mbind (attr v_status stored) (\<lambda>status. mbind (expect (status = u ''approved'')) (\<lambda>_.
     mbind (attr v_approvals stored) (\<lambda>n. mbind (expect (n = 2)) (\<lambda>_.
     mbind (pj_query pj default_query) (\<lambda>page. expect (length (pg_items page) = 1)))))))))"

definition test_upsert_never_moves_view_backwards :: "'s projection_store \<Rightarrow> ('s, exn, unit) eff" where
  "test_upsert_never_moves_view_backwards pj =
     mbind (pj_upsert pj (make_view ''sha256:aaa'' (\<lambda>v. v\<lparr>v_status := u ''approved'', v_approvals := 2, v_last_seq := 5\<rparr>))) (\<lambda>_.
     mbind (pj_upsert pj (make_view ''sha256:aaa'' (\<lambda>v. v\<lparr>v_status := u ''pending'', v_approvals := 0, v_last_seq := 2\<rparr>))) (\<lambda>_.
     mbind (pj_get pj (lit ''sha256:aaa'')) (\<lambda>stored.
     mbind (attr v_status stored) (\<lambda>status. mbind (expect (status = u ''approved'')) (\<lambda>_.
     mbind (attr v_last_seq stored) (\<lambda>n. expect (n = 5)))))))"

definition test_query_filters_by_status :: "'s projection_store \<Rightarrow> ('s, exn, unit) eff" where
  "test_query_filters_by_status pj =
     mbind (pj_upsert pj (make_view ''sha256:a'' (\<lambda>v. v\<lparr>v_status := u ''pending''\<rparr>))) (\<lambda>_.
     mbind (pj_upsert pj (make_view ''sha256:b'' (\<lambda>v. v\<lparr>v_status := u ''approved''\<rparr>))) (\<lambda>_.
     mbind (pj_query pj (default_query\<lparr>q_status := Some [u ''approved'']\<rparr>)) (\<lambda>page. expect (ids_of page = [u ''sha256:b'']))))"

definition test_query_filters_by_kind_and_requester :: "'s projection_store \<Rightarrow> ('s, exn, unit) eff" where
  "test_query_filters_by_kind_and_requester pj =
     mbind (pj_upsert pj (make_view ''sha256:a'' (\<lambda>v. v\<lparr>v_kind := lit ''db-migration''\<rparr>))) (\<lambda>_.
     mbind (pj_upsert pj (make_view ''sha256:b'' (\<lambda>v. v\<lparr>v_requested_by := lit ''user:sam''\<rparr>))) (\<lambda>_.
     mbind (pj_query pj (default_query\<lparr>q_kind := Some (u ''db-migration'')\<rparr>)) (\<lambda>page.
     mbind (expect (ids_of page = [u ''sha256:a''])) (\<lambda>_.
     mbind (pj_query pj (default_query\<lparr>q_requested_by := Some (u ''user:sam'')\<rparr>)) (\<lambda>page.
     expect (ids_of page = [u ''sha256:b'']))))))"

definition test_query_filters_by_awaiting :: "'s projection_store \<Rightarrow> ('s, exn, unit) eff" where
  "test_query_filters_by_awaiting pj =
     mbind (pj_upsert pj (make_view ''sha256:a'' (\<lambda>v. v\<lparr>v_pending_for := [u ''user:casey'']\<rparr>))) (\<lambda>_.
     mbind (pj_upsert pj (make_view ''sha256:b'' (\<lambda>v. v\<lparr>v_pending_for := [u ''user:jordan'']\<rparr>))) (\<lambda>_.
     mbind (pj_query pj (default_query\<lparr>q_awaiting := Some (u ''user:jordan'')\<rparr>)) (\<lambda>page. expect (ids_of page = [u ''sha256:b'']))))"

definition subject_named :: "string \<Rightarrow> string \<Rightarrow> pyval" where
  "subject_named digest version = PDict (items [(''artifact_digest'', lit digest), (''version'', lit version)])"

definition test_query_filters_by_subject :: "'s projection_store \<Rightarrow> ('s, exn, unit) eff" where
  "test_query_filters_by_subject pj =
     mbind (pj_upsert pj (make_view ''sha256:a'' (\<lambda>v. v\<lparr>v_subject := subject_named ''sha256:xx'' ''1.0.0''\<rparr>))) (\<lambda>_.
     mbind (pj_upsert pj (make_view ''sha256:b'' (\<lambda>v. v\<lparr>v_subject := subject_named ''sha256:yy'' ''2.0.0''\<rparr>))) (\<lambda>_.
     mbind (pj_query pj (default_query\<lparr>q_subject_match := Some (items [(''artifact_digest'', lit ''sha256:yy'')])\<rparr>)) (\<lambda>page.
     expect (ids_of page = [u ''sha256:b'']))))"

definition test_query_filters_combine_with_and :: "'s projection_store \<Rightarrow> ('s, exn, unit) eff" where
  "test_query_filters_combine_with_and pj =
     mbind (pj_upsert pj (make_view ''sha256:a'' (\<lambda>v. v\<lparr>v_status := u ''approved'', v_kind := lit ''k1''\<rparr>))) (\<lambda>_.
     mbind (pj_upsert pj (make_view ''sha256:b'' (\<lambda>v. v\<lparr>v_status := u ''approved'', v_kind := lit ''k2''\<rparr>))) (\<lambda>_.
     mbind (pj_query pj (default_query\<lparr>q_status := Some [u ''approved''], q_kind := Some (u ''k2'')\<rparr>)) (\<lambda>page.
     expect (ids_of page = [u ''sha256:b'']))))"

text \<open>
  The loop over the pages; it asserts that there are fewer than twenty, so that \<open>pages\<close>, the number
  still allowed, is enough to walk them.
\<close>

fun walk_pages :: "'s projection_store \<Rightarrow> nat \<Rightarrow> pstr list \<Rightarrow> pstr option \<Rightarrow> ('s, exn, pstr list) eff" where
  "walk_pages pj 0 seen cursor = mraise AssertionError"
| "walk_pages pj (Suc pages) seen cursor =
     mbind (pj_query pj (default_query\<lparr>q_limit := 3, q_cursor := cursor\<rparr>)) (\<lambda>page.
     case pg_next_cursor page of
       None \<Rightarrow> mret (seen @ ids_of page)
     | Some c \<Rightarrow> walk_pages pj pages (seen @ ids_of page) (Some c))"

definition digits3 :: "nat \<Rightarrow> string" where
  "digits3 i = [CHR ''0'', CHR ''0'', char_of (48 + i)]"

definition paged_views :: "RequestView list" where
  "paged_views = map (\<lambda>i. make_view (''sha256:'' @ digits3 i)
     (\<lambda>v. v\<lparr>v_created_at := PStr (u (''2026-08-1'' @ [char_of (48 + i :: nat)] @ ''T12:00:00.000Z''))\<rparr>)) [0..<10]"

definition test_pagination_covers_every_item_exactly_once :: "'s projection_store \<Rightarrow> ('s, exn, unit) eff" where
  "test_pagination_covers_every_item_exactly_once pj =
     (let ids = map v_request_id paged_views in
      mbind (mfor paged_views (\<lambda>v _. pj_upsert pj v) ()) (\<lambda>_.
      mbind (walk_pages pj 20 [] None) (\<lambda>seen.
      mbind (expect (sort seen = sort ids)) (\<lambda>_.
      expect (length seen = card (set seen))))))"

definition test_clear :: "'s projection_store \<Rightarrow> ('s, exn, unit) eff" where
  "test_clear pj =
     mbind (pj_upsert pj (make_view ''sha256:a'' id)) (\<lambda>_.
     mbind (pj_clear pj) (\<lambda>_.
     mbind (pj_get pj (lit ''sha256:a'')) (\<lambda>found. mbind (expect (found = None)) (\<lambda>_.
     mbind (pj_query pj default_query) (\<lambda>page. expect (pg_items page = []))))))"

definition ProjectionStoreConformance :: "'s projection_store \<Rightarrow> ('s, exn, unit) eff list" where
  "ProjectionStoreConformance pj =
     [test_get_unknown_is_none pj, test_upsert_then_get pj, test_upsert_updates_in_place pj,
      test_upsert_never_moves_view_backwards pj, test_query_filters_by_status pj,
      test_query_filters_by_kind_and_requester pj, test_query_filters_by_awaiting pj, test_query_filters_by_subject pj,
      test_query_filters_combine_with_and pj, test_pagination_covers_every_item_exactly_once pj, test_clear pj]"


subsection \<open>Idempotency stores\<close>

definition reserve_k :: "'s idempotency_store \<Rightarrow> string \<Rightarrow> string \<Rightarrow> ('s, exn, Reservation) eff" where
  "reserve_k idem key fp = id_reserve idem (lit key) (u fp)"

definition test_first_reserve_wins :: "'s idempotency_store \<Rightarrow> ('s, exn, unit) eff" where
  "test_first_reserve_wins idem = mbind (reserve_k idem ''k1'' ''fp1'') (\<lambda>r. expect (rs_won r))"

definition test_second_reserve_loses :: "'s idempotency_store \<Rightarrow> ('s, exn, unit) eff" where
  "test_second_reserve_loses idem =
     mbind (reserve_k idem ''k1'' ''fp1'') (\<lambda>_. mbind (reserve_k idem ''k1'' ''fp1'') (\<lambda>r. expect (\<not> rs_won r)))"

definition test_response_is_none_until_completed :: "'s idempotency_store \<Rightarrow> ('s, exn, unit) eff" where
  "test_response_is_none_until_completed idem =
     mbind (reserve_k idem ''k1'' ''fp1'') (\<lambda>_.
     mbind (reserve_k idem ''k1'' ''fp1'') (\<lambda>r. mbind (expect (rs_response r = PNone)) (\<lambda>_.
     mbind (id_complete idem (lit ''k1'') (PDict (items [(''request_id'', lit ''sha256:aaa'')]))) (\<lambda>_.
     mbind (reserve_k idem ''k1'' ''fp1'') (\<lambda>r.
     expect (py_eq (rs_response r) (PDict (items [(''request_id'', lit ''sha256:aaa'')]))))))))"

definition test_fingerprint_mismatch_raises :: "'s idempotency_store \<Rightarrow> ('s, exn, unit) eff" where
  "test_fingerprint_mismatch_raises idem =
     mbind (reserve_k idem ''k1'' ''fp1'') (\<lambda>_. raises IdempotencyConflict (reserve_k idem ''k1'' ''fp2''))"

definition test_release_allows_rereserve :: "'s idempotency_store \<Rightarrow> ('s, exn, unit) eff" where
  "test_release_allows_rereserve idem =
     mbind (reserve_k idem ''k1'' ''fp1'') (\<lambda>_. mbind (id_release idem (lit ''k1'')) (\<lambda>_.
     mbind (reserve_k idem ''k1'' ''fp1'') (\<lambda>r. expect (rs_won r))))"

definition test_distinct_keys_are_independent :: "'s idempotency_store \<Rightarrow> ('s, exn, unit) eff" where
  "test_distinct_keys_are_independent idem =
     mbind (reserve_k idem ''k1'' ''fp1'') (\<lambda>r. mbind (expect (rs_won r)) (\<lambda>_.
     mbind (reserve_k idem ''k2'' ''fp2'') (\<lambda>r. expect (rs_won r))))"

definition test_concurrent_reserve_yields_exactly_one_winner :: "nat list \<Rightarrow> 's idempotency_store \<Rightarrow> ('s, exn, unit) eff" where
  "test_concurrent_reserve_yields_exactly_one_winner order idem =
     mbind (gather order (replicate 8 (reserve_k idem ''k1'' ''fp1''))) (\<lambda>results.
     mbind (expect (list_all (\<lambda>r. case r of Inr _ \<Rightarrow> True | Inl _ \<Rightarrow> False) results)) (\<lambda>_.
     expect (length (filter (\<lambda>r. case r of Inr x \<Rightarrow> rs_won x | Inl _ \<Rightarrow> False) results) = 1)))"

definition IdempotencyStoreConformance :: "nat list \<Rightarrow> 's idempotency_store \<Rightarrow> ('s, exn, unit) eff list" where
  "IdempotencyStoreConformance order idem =
     [test_first_reserve_wins idem, test_second_reserve_loses idem, test_response_is_none_until_completed idem,
      test_fingerprint_mismatch_raises idem, test_release_allows_rereserve idem, test_distinct_keys_are_independent idem,
      test_concurrent_reserve_yields_exactly_one_winner order idem]"

text \<open>The contract is enough: the first reservation wins, and from then on the key is held.\<close>

context idempotency_contract
begin

lemma wp_reserve:
  "(case slots s (lit key) of
      None \<Rightarrow> \<forall>t. slots t = (slots s)(lit key \<mapsto> (u fp, PNone)) \<longrightarrow> Q \<lparr>rs_won = True, rs_fingerprint = u fp, rs_response = PNone\<rparr> t
    | Some (fp', resp) \<Rightarrow> fp' = u fp \<and>
        (\<forall>t. slots t = slots s \<longrightarrow> Q \<lparr>rs_won = False, rs_fingerprint = u fp, rs_response = resp\<rparr> t)) \<Longrightarrow> wp (reserve_k idem key fp) Q s"
  using reserve [of "lit key" "u fp" s] by (auto simp: reserve_k_def wp_def split: option.splits)

lemma wp_reserve_clash:
  "(case slots s (lit key) of None \<Rightarrow> False | Some (fp', resp) \<Rightarrow> fp' \<noteq> u fp \<and> (\<forall>t. slots t = slots s \<longrightarrow> Q () t)) \<Longrightarrow>
     wp (raises IdempotencyConflict (reserve_k idem key fp)) Q s"
  using reserve [of "lit key" "u fp" s] by (auto simp: reserve_k_def wp_def raises_def split: option.splits)

lemma wp_complete:
  "(case slots s (lit key) of None \<Rightarrow> False | Some (fp, _) \<Rightarrow> \<forall>t. slots t = (slots s)(lit key \<mapsto> (fp, resp)) \<longrightarrow> Q () t) \<Longrightarrow>
     wp (id_complete idem (lit key) resp) Q s"
  using complete [of "lit key" s _ _ resp] by (fastforce simp: wp_def split: option.splits)

lemma wp_release: "(\<And>t. slots t = (slots s)(lit key := None) \<Longrightarrow> Q () t) \<Longrightarrow> wp (id_release idem (lit key)) Q s"
  using release [of "lit key" s] by (auto simp: wp_def)

lemma idempotency_suite_passes:
  assumes "slots s = (\<lambda>_. None)" "distinct order" "set order = {..<8}" "m \<in> set (IdempotencyStoreConformance order idem)"
  shows "passes m s"
proof -
  have "passes (test_concurrent_reserve_yields_exactly_one_winner order idem) s"
    unfolding passes_wp test_concurrent_reserve_yields_exactly_one_winner_def wp_simps
  proof (rule wp_race [where free = "\<lambda>t. slots t (lit ''k1'') = None" and held = "\<lambda>i t. slots t (lit ''k1'') = Some (u ''fp1'', PNone)"
        and won = "Inr \<lparr>rs_won = True, rs_fingerprint = u ''fp1'', rs_response = PNone\<rparr>"
        and lost = "Inr \<lparr>rs_won = False, rs_fingerprint = u ''fp1'', rs_response = PNone\<rparr>"], goal_cases)
    case (5 i t)
    then show ?case using reserve [of "lit ''k1''" "u ''fp1''" t] by (auto simp: reserve_k_def)
  next
    case (6 i j t)
    then show ?case using reserve [of "lit ''k1''" "u ''fp1''" t] by (auto simp: reserve_k_def)
  next
    case (7 winner t)
    then show ?case
      by (auto simp: one_winner list_all_iff dest!: set_update_subset_insert [THEN subsetD])
  qed (use assms in simp_all)
  moreover have "passes (test_first_reserve_wins idem) s" "passes (test_second_reserve_loses idem) s"
    "passes (test_response_is_none_until_completed idem) s" "passes (test_fingerprint_mismatch_raises idem) s"
    "passes (test_release_allows_rereserve idem) s" "passes (test_distinct_keys_are_independent idem) s"
    using assms(1)
    by (auto simp: passes_wp test_first_reserve_wins_def test_second_reserve_loses_def test_response_is_none_until_completed_def
        test_fingerprint_mismatch_raises_def test_release_allows_rereserve_def test_distinct_keys_are_independent_def
        intro!: wp_reserve wp_reserve_clash wp_complete wp_release)
  ultimately show ?thesis using assms(4) by (auto simp: IdempotencyStoreConformance_def)
qed

end


subsection \<open>A projection store that is queried\<close>

text \<open>Which views a query selects: its filters combine with AND.\<close>

definition selects :: "RequestQuery \<Rightarrow> RequestView \<Rightarrow> bool" where
  "selects q v \<longleftrightarrow>
     (case q_status q of None \<Rightarrow> True | Some xs \<Rightarrow> v_status v \<in> set xs) \<and>
     (case q_kind q of None \<Rightarrow> True | Some k \<Rightarrow> v_kind v = PStr k) \<and>
     (case q_requested_by q of None \<Rightarrow> True | Some r \<Rightarrow> v_requested_by v = PStr r) \<and>
     (case q_awaiting q of None \<Rightarrow> True | Some a \<Rightarrow> a \<in> set (v_pending_for v)) \<and>
     (case q_subject_match q of None \<Rightarrow> True
      | Some kvs \<Rightarrow> list_all (\<lambda>(k, w). \<exists>ds. v_subject v = PDict ds \<and> map_of ds k = Some w) kvs)"

text \<open>
  A query whose filters are set to something: no empty strings or lists, and subject fields that are
  compared with strings and whose names mean nothing else to a database.
\<close>

definition plain_field :: "pyval \<Rightarrow> bool" where
  "plain_field k \<longleftrightarrow> (\<exists>f. k = lit f \<and> f \<noteq> [] \<and> CHR ''.'' \<notin> set f \<and> CHR ''$'' \<notin> set f)"

definition sensible :: "RequestQuery \<Rightarrow> bool" where
  "sensible q \<longleftrightarrow> q_status q \<noteq> Some [] \<and> q_kind q \<noteq> Some [] \<and> q_requested_by q \<noteq> Some [] \<and> q_awaiting q \<noteq> Some [] \<and>
     (\<forall>kvs. q_subject_match q = Some kvs \<longrightarrow> kvs \<noteq> [] \<and> (\<forall>(k, w)\<in>set kvs. plain_field k \<and> (\<exists>t. w = PStr t)))"

definition tidy :: "RequestView \<Rightarrow> bool" where
  "tidy v \<longleftrightarrow> storable (View_to_dict v) \<and> (\<exists>kvs. v_subject v = PDict kvs) \<and> (\<exists>t. v_kind v = PStr t) \<and>
     (\<exists>t. v_requested_by v = PStr t) \<and> (\<exists>t. v_created_at v = PStr t)"

text \<open>\<open>serves pj good vs q c s xs\<close>: the pages of \<open>q\<close> from the cursor \<open>c\<close> on are those of \<open>xs\<close>.\<close>

inductive serves ::
  "'s projection_store \<Rightarrow> ('s \<Rightarrow> bool) \<Rightarrow> ('s \<Rightarrow> pstr \<Rightarrow> RequestView option) \<Rightarrow> RequestQuery \<Rightarrow> pstr option \<Rightarrow> 's \<Rightarrow> RequestView list \<Rightarrow> bool"
  for pj good views q where
  last_page: "pj_query pj (q\<lparr>q_cursor := c\<rparr>) s = (Inr \<lparr>pg_items = xs, pg_next_cursor = None\<rparr>, t) \<Longrightarrow> int (length xs) \<le> q_limit q \<Longrightarrow>
     good t \<Longrightarrow> views t = views s \<Longrightarrow> serves pj good views q c s xs"
| next_page: "pj_query pj (q\<lparr>q_cursor := c\<rparr>) s = (Inr \<lparr>pg_items = take (nat (q_limit q)) xs, pg_next_cursor = Some c'\<rparr>, t) \<Longrightarrow>
     q_limit q < int (length xs) \<Longrightarrow> good t \<Longrightarrow> views t = views s \<Longrightarrow>
     serves pj good views q (Some c') t (drop (nat (q_limit q)) xs) \<Longrightarrow> serves pj good views q c s xs"

locale tested_projections = projection_contract pj views
  for pj :: "'s projection_store" and views :: "'s \<Rightarrow> pstr \<Rightarrow> RequestView option" +
  fixes good :: "'s \<Rightarrow> bool"
  assumes upsert_ok: "good s \<Longrightarrow> tidy v \<Longrightarrow> \<exists>t. pj_upsert pj v s = (Inr (), t) \<and> good t"
    and get_ok: "good s \<Longrightarrow> \<exists>found t. pj_get pj (PStr rid) s = (Inr found, t) \<and> good t"
    and clear_ok: "good s \<Longrightarrow> \<exists>t. pj_clear pj s = (Inr (), t) \<and> good t"
    and query_ok: "good s \<Longrightarrow> sensible q \<Longrightarrow> 0 < q_limit q \<Longrightarrow> q_cursor q = None \<Longrightarrow>
      \<exists>xs. distinct (map v_request_id xs) \<and> set xs = {v \<in> ran (views s). selects q v} \<and> serves pj good views q None s xs"
begin

lemma wp_upsert:
  assumes "good s" "tidy v"
    and "\<And>t. good t \<Longrightarrow> views t = (case views s (v_request_id v) of
          Some old \<Rightarrow> if v_last_seq v < v_last_seq old then views s else (views s)(v_request_id v \<mapsto> v)
        | None \<Rightarrow> (views s)(v_request_id v \<mapsto> v)) \<Longrightarrow> Q () t"
  shows "wp (pj_upsert pj v) Q s"
  using upsert_ok [OF assms(1,2)] upsert assms(3) by (fastforce simp: wp_def)

lemma wp_get: "good s \<Longrightarrow> (\<And>t. good t \<Longrightarrow> views t = views s \<Longrightarrow> Q (views s rid) t) \<Longrightarrow> wp (pj_get pj (PStr rid)) Q s"
  using get_ok [of s rid] view_of [of rid s] by (fastforce simp: wp_def)

lemma wp_clear: "good s \<Longrightarrow> (\<And>t. good t \<Longrightarrow> views t = Map.empty \<Longrightarrow> Q () t) \<Longrightarrow> wp (pj_clear pj) Q s"
  using clear_ok [of s] clear [of s] by (fastforce simp: wp_def)

lemma q_cursor_None: "q_cursor q = None \<Longrightarrow> q\<lparr>q_cursor := None\<rparr> = q"
  by simp

text \<open>A query whose answer fits on one page.\<close>

lemma wp_query_one:
  assumes "good s" "sensible q" "q_cursor q = None" "2 \<le> q_limit q" "{v \<in> ran (views s). selects q v} = {v}"
    and "\<And>t page. good t \<Longrightarrow> views t = views s \<Longrightarrow> pg_items page = [v] \<Longrightarrow> Q page t"
  shows "wp (pj_query pj q) Q s"
proof -
  obtain xs where xs: "distinct (map v_request_id xs)" "set xs = {v}" "serves pj good views q None s xs"
    using query_ok [OF assms(1,2) _ assms(3)] assms(4,5) by auto
  have "distinct xs" using xs(1) by (simp add: distinct_map)
  then have one: "xs = [v]" using xs(2) by (cases xs; cases "tl xs") auto
  from xs(3) show ?thesis
    by cases (use assms(3,4,6) one in \<open>auto simp: wp_def q_cursor_None\<close>)
qed

lemma wp_query_none:
  assumes "good s" "sensible q" "q_cursor q = None" "2 \<le> q_limit q" "{v \<in> ran (views s). selects q v} = {}"
    and "\<And>t page. good t \<Longrightarrow> views t = views s \<Longrightarrow> pg_items page = [] \<Longrightarrow> Q page t"
  shows "wp (pj_query pj q) Q s"
proof -
  obtain xs where "set xs = {}" "serves pj good views q None s xs"
    using query_ok [OF assms(1,2) _ assms(3)] assms(4,5) by auto
  then have "xs = []" "serves pj good views q None s xs" by simp_all
  from this(2) show ?thesis
    by cases (use assms(3,4,6) \<open>xs = []\<close> in \<open>auto simp: wp_def q_cursor_None\<close>)
qed

lemma tidy_made:
  assumes "storable (v_subject v)" "\<exists>kvs. v_subject v = PDict kvs" "\<exists>t. v_kind v = PStr t" "\<exists>t. v_requested_by v = PStr t"
    "\<exists>t. v_created_at v = PStr t" "\<exists>t. v_policy_id v = PStr t" "\<exists>t. v_not_valid_after v = PStr t" "\<exists>t. v_updated_at v = PStr t"
  shows "tidy v"
proof -
  have "storable (strs xs)" for xs by (simp add: strs_def storable_def list_all_iff)
  then show ?thesis using assms by (auto simp: tidy_def View_to_dict_def storable_def u_def)
qed

lemma made_view_fields [simp]:
  "v_subject (make_view rid id) = PDict (items [(''artifact_digest'', lit ''sha256:ab''), (''version'', lit ''1.4.0'')])"
  "v_request_id (make_view rid id) = u rid" "v_status (make_view rid id) = u ''pending''" "v_kind (make_view rid id) = lit ''software-release''"
  by (simp_all add: make_view_def)

definition plain_view :: "string \<Rightarrow> RequestView" where
  "plain_view rid = make_view rid id"

lemma made_by: "make_view rid f = f (plain_view rid)"
  by (simp add: plain_view_def make_view_def)

lemma plain_view_fields [simp]:
  "v_request_id (plain_view rid) = u rid" "v_status (plain_view rid) = u ''pending''" "v_kind (plain_view rid) = lit ''software-release''"
  "v_requested_by (plain_view rid) = lit ''user:riley''" "v_last_seq (plain_view rid) = 0" "v_approvals (plain_view rid) = 0"
  "v_subject (plain_view rid) = PDict (items [(''artifact_digest'', lit ''sha256:ab''), (''version'', lit ''1.4.0'')])"
  "v_policy_id (plain_view rid) = lit ''release-v1''" "v_not_valid_after (plain_view rid) = lit ''2026-09-06T12:00:00.000Z''"
  "v_updated_at (plain_view rid) = PStr T0"
  "v_pending_for (plain_view rid) = [u ''user:casey'', u ''user:jordan'']" "v_created_at (plain_view rid) = PStr T0"
  by (simp_all add: plain_view_def make_view_def)

lemma views_one: "ran [a \<mapsto> x] = {x}"
  by simp

lemma views_two: "a \<noteq> b \<Longrightarrow> ran [a \<mapsto> x, b \<mapsto> y] = {x, y}"
  by auto

lemmas view_tests = test_get_unknown_is_none_def test_upsert_then_get_def test_upsert_updates_in_place_def
  test_upsert_never_moves_view_backwards_def test_clear_def

lemmas filter_tests = test_query_filters_by_status_def test_query_filters_by_kind_and_requester_def test_query_filters_by_awaiting_def
  test_query_filters_by_subject_def test_query_filters_combine_with_and_def

lemma view_suite:
  assumes "good s" "views s = Map.empty"
  shows "passes (test_get_unknown_is_none pj) s" "passes (test_upsert_then_get pj) s" "passes (test_upsert_updates_in_place pj) s"
    "passes (test_upsert_never_moves_view_backwards pj) s" "passes (test_clear pj) s"
proof -
  have q: "sensible default_query" "selects default_query v" "q_cursor default_query = None" "q_limit default_query = 50" for v
    by (simp_all add: sensible_def selects_def default_query_def)
  have tidy: "tidy (plain_view rid)" for rid by (auto intro!: tidy_made simp: storable_def)
  then have "wf_val (View_to_dict (plain_view ''sha256:aaa''))" by (simp add: tidy_def storable_def)
  then have eq: "py_eq (View_to_dict (plain_view ''sha256:aaa'')) (View_to_dict (plain_view ''sha256:aaa''))" by (rule py_eq_refl)
  show "passes (test_get_unknown_is_none pj) s"
    using assms by (auto simp: passes_wp view_tests intro!: wp_get)
  show "passes (test_upsert_then_get pj) s"
    using assms tidy eq by (auto simp: passes_wp view_tests Let_def made_by simp del: py_eq.simps intro!: wp_get wp_upsert)
  show "passes (test_upsert_never_moves_view_backwards pj) s"
    using assms by (auto simp: passes_wp view_tests made_by storable_def intro!: wp_get wp_upsert tidy_made)
  show "passes (test_clear pj) s"
    using assms tidy q by (auto simp: passes_wp view_tests made_by intro!: wp_get wp_upsert wp_clear wp_query_none)
  let ?two = "plain_view ''sha256:aaa''\<lparr>v_status := u ''approved'', v_approvals := 2, v_last_seq := 2\<rparr>"
  show "passes (test_upsert_updates_in_place pj) s"
    using assms q
    by (auto simp: passes_wp view_tests made_by storable_def intro!: wp_get wp_upsert tidy_made wp_query_one [where v = ?two])
qed

lemma filter_suite:
  assumes "good s" "views s = Map.empty"
  shows "passes (test_query_filters_by_status pj) s" "passes (test_query_filters_by_kind_and_requester pj) s"
    "passes (test_query_filters_by_awaiting pj) s" "passes (test_query_filters_by_subject pj) s"
    "passes (test_query_filters_combine_with_and pj) s"
proof -
  have f: "plain_field (lit ''artifact_digest'')" by (auto simp: plain_field_def)
  note simps = passes_wp filter_tests made_by storable_def ids_of_def views_two sensible_def default_query_def selects_def subject_named_def
  note run = wp_upsert tidy_made
  let ?a = "plain_view ''sha256:a''" and ?b = "plain_view ''sha256:b''"
  show "passes (test_query_filters_by_status pj) s"
    using assms by (auto simp: simps intro!: run wp_query_one [where v = "?b\<lparr>v_status := u ''approved''\<rparr>"])
  show "passes (test_query_filters_by_awaiting pj) s"
    using assms by (auto simp: simps intro!: run wp_query_one [where v = "?b\<lparr>v_pending_for := [u ''user:jordan'']\<rparr>"])
  show "passes (test_query_filters_by_subject pj) s"
    using assms f by (auto simp: simps intro!: run wp_query_one [where v = "?b\<lparr>v_subject := subject_named ''sha256:yy'' ''2.0.0''\<rparr>"])
  show "passes (test_query_filters_combine_with_and pj) s"
    using assms by (auto simp: simps intro!: run wp_query_one [where v = "?b\<lparr>v_status := u ''approved'', v_kind := lit ''k2''\<rparr>"])
  show "passes (test_query_filters_by_kind_and_requester pj) s"
    using assms
    by (auto simp: simps intro!: run, intro wp_query_one [where v = "?a\<lparr>v_kind := lit ''db-migration''\<rparr>"], auto simp: simps,
        intro wp_query_one [where v = "?b\<lparr>v_requested_by := lit ''user:sam''\<rparr>"], auto simp: simps)
qed

lemma wp_upserts:
  assumes "good s" "views s = Map.empty" "distinct (map v_request_id vs)" "\<forall>v\<in>set vs. tidy v"
    and "\<And>t. good t \<Longrightarrow> ran (views t) = set vs \<Longrightarrow> Q () t"
  shows "wp (mfor vs (\<lambda>v _. pj_upsert pj v) ()) Q s"
proof (rule wp_mfor [where I = "\<lambda>i _ t. good t \<and> views t = map_of (map (\<lambda>v. (v_request_id v, v)) (rev (take i vs)))"])
  fix i acc t
  assume i: "i < length vs" and I: "good t \<and> views t = map_of (map (\<lambda>v. (v_request_id v, v)) (rev (take i vs)))"
  have "v_request_id (vs ! i) \<notin> v_request_id ` set (take i vs)"
    using assms(3) i by (metis distinct_take distinct.simps(2) distinct_append id_take_nth_drop list.simps(9) map_append not_distinct_conv_prefix set_map)
  then have "views t (v_request_id (vs ! i)) = None" using I by (auto simp: map_of_eq_None_iff)
  then show "wp (pj_upsert pj (vs ! i)) (\<lambda>_ t. good t \<and> views t = map_of (map (\<lambda>v. (v_request_id v, v)) (rev (take (Suc i) vs)))) t"
    using I i assms(4) by (intro wp_upsert) (auto simp: take_Suc_conv_app_nth)
next
  fix acc t assume I: "good t \<and> views t = map_of (map (\<lambda>v. (v_request_id v, v)) (rev (take (length vs) vs)))"
  have "distinct (map fst (map (\<lambda>v. (v_request_id v, v)) (rev vs)))" using assms(3) by (simp add: comp_def flip: rev_map)
  then have "ran (views t) = set vs" using ran_distinct I by (force simp: image_image)
  then show "Q acc t" using assms(5) I by simp
qed (use assms in simp)

lemma serves_walk:
  "serves pj good views (default_query\<lparr>q_limit := 3\<rparr>) c s xs \<Longrightarrow> int (length xs) \<le> 3 * int pages \<Longrightarrow> 0 < pages \<Longrightarrow>
     (\<And>t. Q (seen @ map v_request_id xs) t) \<Longrightarrow> wp (walk_pages pj pages seen c) Q s"
proof (induction arbitrary: pages seen rule: serves.induct)
  case (last_page c s xs t)
  then show ?case by (cases pages) (auto simp: wp_def mbind_def mret_def ids_of_def)
next
  case (next_page c s xs c' t)
  then obtain n where n: "pages = Suc n" by (cases pages) auto
  have "wp (walk_pages pj n (seen @ map v_request_id (take 3 xs)) (Some c')) Q t"
  proof (rule next_page.IH)
    show "Q ((seen @ map v_request_id (take 3 xs)) @ map v_request_id (drop (nat (q_limit (default_query\<lparr>q_limit := 3\<rparr>))) xs)) t'" for t'
      using next_page.prems(3) [of t'] by (simp flip: map_append)
  qed (use next_page n in auto)
  then show ?case using next_page.hyps(1) by (simp add: n wp_def mbind_def ids_of_def)
qed

lemma passes_pagination:
  assumes "good s" "views s = Map.empty"
  shows "passes (test_pagination_covers_every_item_exactly_once pj) s"
proof -
  have ids: "distinct (map v_request_id paged_views)" "length paged_views = 10"
    by (simp_all add: paged_views_def made_by digits3_def upt_rec)
  have tidy: "\<forall>v\<in>set paged_views. tidy v"
    by (auto simp: paged_views_def made_by storable_def intro!: tidy_made)
  let ?q = "default_query\<lparr>q_limit := 3\<rparr>"
  have q: "sensible ?q" "q_cursor ?q = None" "q_limit ?q = 3" "selects ?q v" for v
    by (simp_all add: sensible_def selects_def default_query_def)
  show ?thesis
    unfolding passes_wp test_pagination_covers_every_item_exactly_once_def Let_def
  proof (rule wp_bindI, rule wp_upserts [OF assms ids(1) tidy])
    fix t assume t: "good t" "ran (views t) = set paged_views"
    obtain xs where xs: "distinct (map v_request_id xs)" "set xs = set paged_views" "serves pj good views ?q None t xs"
      using query_ok [OF t(1) q(1) _ q(2)] q(3,4) t(2) by auto
    have "set (map v_request_id xs) = set (map v_request_id paged_views)" using xs(2) by simp
    then have sorted: "sort (map v_request_id xs) = sort (map v_request_id paged_views)"
      using xs(1) ids(1) by (intro sorted_distinct_set_unique) simp_all
    have "length xs = 10" using xs(1,2) ids by (metis distinct_card distinct_map)
    then show "wp (mbind (walk_pages pj 20 [] None) (\<lambda>seen. mbind (expect (sort seen = sort (map v_request_id paged_views)))
        (\<lambda>_. expect (length seen = card (set seen))))) (\<lambda>_ _. True) t"
      using distinct_card [OF xs(1)] sorted by (intro wp_bindI serves_walk [OF xs(3)]) simp_all
  qed
qed

lemma view_suite_passes:
  assumes "good s" "views s = Map.empty" "m \<in> set (ProjectionStoreConformance pj)"
  shows "passes m s"
  using assms(3) view_suite [OF assms(1,2)] filter_suite [OF assms(1,2)] passes_pagination [OF assms(1,2)]
  by (auto simp: ProjectionStoreConformance_def)

end

end
