(* ===== verification/Suites.thy ===== *)
theory Suites
  imports ConformanceViews Mongod MemStore
begin

section \<open>The stores and the conformance suite\<close>

text \<open>
  The stores of \<open>MemStore\<close> and \<open>Mongo\<close> under the tests of \<^verbatim>\<open>src/approvo/testing.py\<close>: they meet what
  \<open>tested_store\<close>, \<open>tested_projections\<close> and \<open>idempotency_contract\<close> ask for, and so pass.
\<close>

subsection \<open>In memory\<close>

interpretation memory_log: total_writer "memory_events l" m_entries alone
  for l :: pstr
proof (unfold_locales, goal_cases)
  case (1 s n)
  then show ?case by (simp add: memory_events_simps mem_get_by_seq_def)
next
  case (2 s start limit)
  then show ?case by (simp add: memory_events_simps mem_scan_def Let_def)
next
  case (3 s up_to)
  then show ?case by (simp add: memory_events_simps mem_leaf_hashes_def Let_def)
next
  case (4 s c)
  then show ?case by (simp add: memory_events_simps latest_is_published)
qed

text \<open>The views: one for each request, filed under its id.\<close>

definition filed :: "mem \<Rightarrow> bool" where
  "filed s \<longleftrightarrow> distinct (map fst (m_views s)) \<and> (\<forall>(rid, v)\<in>set (m_views s). v_request_id v = rid \<and> tidy v)"

lemma filed_ran: "filed s \<Longrightarrow> ran (map_of (m_views s)) = snd ` set (m_views s)"
  by (auto simp: filed_def ran_distinct)

lemma filed_ids: "filed s \<Longrightarrow> map v_request_id (map snd (m_views s)) = map fst (m_views s)"
  by (auto simp: filed_def)

lemma filed_distinct: "filed s \<Longrightarrow> distinct (map v_request_id (map snd (m_views s)))"
  unfolding filed_ids by (simp add: filed_def)

definition newest :: "mem \<Rightarrow> RequestView list" where
  "newest s = rev (sort_key (\<lambda>v. str_of (v_created_at v)) (rev (map snd (m_views s))))"

lemma newest:
  assumes "filed s"
  shows "distinct (map v_request_id (newest s))" "set (newest s) = ran (map_of (m_views s))"
proof -
  have m: "mset (newest s) = mset (map snd (m_views s))" by (simp add: newest_def)
  then have "mset (map v_request_id (newest s)) = mset (map v_request_id (map snd (m_views s)))" by (metis mset_map)
  then show "distinct (map v_request_id (newest s))"
    using filed_distinct [OF assms] by (metis mset_eq_imp_distinct_iff)
  show "set (newest s) = ran (map_of (m_views s))"
    using arg_cong [OF m, of set_mset] filed_ran [OF assms] by simp
qed

lemma tidy_subject: "tidy v \<Longrightarrow> \<exists>kvs. v_subject v = PDict kvs"
  by (simp add: tidy_def)

lemma subject_matches_dict:
  "subject_matches kvs (PDict ds) = Inr (list_all (\<lambda>(k, w). (case map_of ds k of None \<Rightarrow> PNone | Some x \<Rightarrow> x) = w) kvs)"
  by (induction kvs) (auto split: option.splits)

lemma matching_selects:
  assumes "sensible q" "\<forall>v\<in>set vs. tidy v"
  shows "matching q vs = Inr (filter (selects q) vs)"
proof -
  have some: "nonempty (q_status q) \<longleftrightarrow> q_status q \<noteq> None" "nonempty (q_kind q) \<longleftrightarrow> q_kind q \<noteq> None"
    "nonempty (q_requested_by q) \<longleftrightarrow> q_requested_by q \<noteq> None" "nonempty (q_awaiting q) \<longleftrightarrow> q_awaiting q \<noteq> None"
    "nonempty (q_subject_match q) \<longleftrightarrow> q_subject_match q \<noteq> None"
    using assms(1) by (auto simp: nonempty_def sensible_def split: option.splits)
  let ?rest = "\<lambda>v. (case q_status q of None \<Rightarrow> True | Some xs \<Rightarrow> v_status v \<in> set xs) \<and>
     (case q_kind q of None \<Rightarrow> True | Some k \<Rightarrow> v_kind v = PStr k) \<and>
     (case q_requested_by q of None \<Rightarrow> True | Some r \<Rightarrow> v_requested_by v = PStr r) \<and>
     (case q_awaiting q of None \<Rightarrow> True | Some a \<Rightarrow> a \<in> set (v_pending_for v))"
  define ws where "ws = filter ?rest vs"
  have kept: "keep (nonempty (q_awaiting q)) (\<lambda>v. the (q_awaiting q) \<in> set (v_pending_for v))
      (keep (nonempty (q_requested_by q)) (\<lambda>v. v_requested_by v = PStr (the (q_requested_by q)))
      (keep (nonempty (q_kind q)) (\<lambda>v. v_kind v = PStr (the (q_kind q)))
      (keep (nonempty (q_status q)) (\<lambda>v. v_status v \<in> set (the (q_status q))) vs))) = ws"
    unfolding some keep_def ws_def
    by (cases "q_status q"; cases "q_kind q"; cases "q_requested_by q"; cases "q_awaiting q")
      (simp_all add: conj_comms)
  have tidy: "\<forall>v\<in>set ws. tidy v" using assms(2) by (simp add: ws_def)
  show ?thesis
  proof (cases "q_subject_match q")
    case None
    then have "selects q = ?rest" by (simp add: selects_def fun_eq_iff)
    then show ?thesis using kept some None by (simp add: matching_def Let_def ws_def)
  next
    case (Some kvs)
    let ?sub = "\<lambda>v. list_all (\<lambda>(k, w). \<exists>ds. v_subject v = PDict ds \<and> map_of ds k = Some w) kvs"
    have "subject_matches kvs (v_subject v) = Inr (?sub v)" if v: "v \<in> set ws" for v
    proof -
      obtain ds where ds: "v_subject v = PDict ds" using tidy v tidy_subject by blast
      have "\<forall>(k, w)\<in>set kvs. w \<noteq> PNone" using assms(1) Some by (auto simp: sensible_def)
      then have "list_all (\<lambda>(k, w). (case map_of ds k of None \<Rightarrow> PNone | Some x \<Rightarrow> x) = w) kvs \<longleftrightarrow>
          list_all (\<lambda>(k, w). map_of ds k = Some w) kvs"
        by (induction kvs) (auto split: option.splits)
      then show ?thesis by (simp add: ds subject_matches_dict)
    qed
    then have "smap (\<lambda>v. subject_matches kvs (v_subject v)) ws = Inr (map ?sub ws)"
      by (induction ws) auto
    moreover have "map fst (filter snd (zip ws (map P ws))) = filter P ws" for P
      by (induction ws) auto
    moreover have "filter ?sub ws = filter (selects q) vs"
      unfolding ws_def filter_filter by (rule filter_cong) (auto simp: selects_def Some)
    ultimately show ?thesis using kept some Some by (simp add: matching_def Let_def)
  qed
qed

lemma cursor_repr: "0 \<le> n \<Longrightarrow> cursor_offset (Some (int_repr n)) = Inr n"
  using nat_repr_digits [of _ "nat n"] nat_repr_pos [of "nat n"]
  by (auto simp: cursor_offset_def int_repr_def list_all_iff is_digit_def)

lemma memory_page:
  assumes "filed s" "sensible q" "xs = filter (selects q) (newest s)" "0 \<le> k" "cursor_offset c = Inr k"
  shows "mem_query (q\<lparr>q_cursor := c\<rparr>) s = (Inr \<lparr>pg_items = py_slice xs k (k + q_limit q),
      pg_next_cursor = (if k + q_limit q < int (length xs) then Some (int_repr (k + q_limit q)) else None)\<rparr>, s)"
proof -
  have "sensible (q\<lparr>q_cursor := c\<rparr>)" "selects (q\<lparr>q_cursor := c\<rparr>) = selects q"
    using assms(2) by (simp_all add: sensible_def selects_def fun_eq_iff)
  moreover have "\<forall>v\<in>set (newest s). tidy v"
    using assms(1) by (auto simp: newest_def filed_def)
  ultimately have "matching (q\<lparr>q_cursor := c\<rparr>) (newest s) = Inr xs"
    using matching_selects assms(3) by simp
  then show ?thesis using assms(5) by (simp add: mem_query_def newest_def Let_def)
qed

lemma memory_serves:
  assumes "filed s" "sensible q" "0 < q_limit q" "xs = filter (selects q) (newest s)" "cursor_offset c = Inr (int k)"
  shows "serves memory_projections filed (\<lambda>s. map_of (m_views s)) q c s (drop k xs)"
  using assms(5)
proof (induction "length xs - k" arbitrary: k c rule: less_induct)
  case less
  let ?m = "nat (q_limit q)"
  have run: "pj_query memory_projections (q\<lparr>q_cursor := c\<rparr>) s = (Inr \<lparr>pg_items = take ?m (drop k xs),
      pg_next_cursor = (if int k + q_limit q < int (length xs) then Some (int_repr (int k + q_limit q)) else None)\<rparr>, s)"
  proof -
    have "take (nat (min (int k + q_limit q) (int (length xs)) - min (int k) (int (length xs)))) (drop (nat (min (int k) (int (length xs)))) xs)
        = take ?m (drop k xs)"
      using assms(3) by (cases "k \<le> length xs"; cases "k + ?m \<le> length xs") (auto simp: min_def nat_add_distrib)
    then have "py_slice xs (int k) (int k + q_limit q) = take ?m (drop k xs)"
      using assms(3) by (simp add: py_slice_def Let_def)
    then show ?thesis
      using memory_page [OF assms(1,2,4) _ less.prems] by (simp add: memory_projections_def)
  qed
  show ?case
  proof (cases "int k + q_limit q < int (length xs)")
    case True
    have "serves memory_projections filed (\<lambda>s. map_of (m_views s)) q (Some (int_repr (int k + q_limit q))) s (drop (k + ?m) xs)"
      using True assms(3) cursor_repr [of "int k + q_limit q"] by (intro less.hyps) auto
    then have rest: "serves memory_projections filed (\<lambda>s. map_of (m_views s)) q (Some (int_repr (int k + q_limit q))) s (drop ?m (drop k xs))"
      by (simp only: drop_drop add.commute)
    have more: "q_limit q < int (length (drop k xs))" using True by simp
    show ?thesis by (rule serves.next_page [OF _ more assms(1) refl rest]) (simp only: run True if_True)
  next
    case False
    then show ?thesis using run assms(1,3) by (intro serves.last_page [where t = s]) auto
  qed
qed

interpretation memory_views: tested_projections memory_projections "\<lambda>s. map_of (m_views s)" filed
proof (unfold_locales, goal_cases)
  case (1 s v)
  have "filed (s\<lparr>m_views := AList.update (v_request_id v) v (m_views s)\<rparr>)"
    using 1 by (auto simp: filed_def distinct_update dest!: update_Some_unfold [THEN iffD1, OF map_of_is_SomeI, rotated])
  then show ?case using 1 by (auto simp: memory_projections_def mem_upsert_def split: option.split)
next
  case (2 s rid)
  then show ?case by (simp add: memory_projections_def mem_view_def)
next
  case (3 s)
  then show ?case by (simp add: memory_projections_def mem_clear_def filed_def)
next
  case (4 s q)
  let ?xs = "filter (selects q) (newest s)"
  have "distinct (map v_request_id ?xs)" using newest(1) [OF 4(1)] by (simp add: distinct_map_filter)
  moreover have "set ?xs = {v \<in> ran (map_of (m_views s)). selects q v}" using newest(2) [OF 4(1)] by auto
  moreover have "serves memory_projections filed (\<lambda>s. map_of (m_views s)) q None s ?xs"
    using memory_serves [OF 4(1-3) refl, of None 0] by (simp add: cursor_offset_def)
  ultimately show ?case by blast
qed


subsection \<open>In MongoDB\<close>

text \<open>
  A collection whose calls do not fail, while nobody else writes to the log; other logs may share it and
  grow.  The driver stays a parameter: \<open>mongo_collection\<close> says what its calls do.
\<close>

locale reliable_ledger = mongo_ledger matches co docs near l "(=)"
  for matches and co :: "'s collection" and docs near l +
  assumes finds_one: "\<exists>found t. co_find_one co q order s = (Inr found, t)"
    and finds: "\<exists>found t. co_find co q proj order limit s = ((found, None), t)"
    and inserts: "storable d \<Longrightarrow> \<exists>r t. co_insert_one co d s = (r, t) \<and> (r = Inr () \<or> r = Inl DuplicateKeyError)"
begin

lemma answers_placed: "well l ds \<Longrightarrow> answers P order ds ys \<Longrightarrow> y \<in> set ys \<Longrightarrow> placed y"
  by (metis (no_types, lifting) answers_def filter_is_subset list_all_iff set_mset_mset subsetD well_def)

lemma found_one:
  assumes "ok s"
  shows "\<exists>found t. co_find_one co q order s = (Inr found, t) \<and> (\<forall>d. found = Some d \<longrightarrow> placed d)"
proof -
  obtain found t where run: "co_find_one co q order s = (Inr found, t)" using finds_one by blast
  obtain ds ys where ds: "near (docs s) ds" "near ds (docs t)" "answers (matches q) order ds ys"
    "found = (case ys of [] \<Rightarrow> None | y # _ \<Rightarrow> Some y)"
    using find_one [OF run] by blast
  then have "placed d" if "found = Some d" for d
    using that answers_placed [OF moment(2) [OF assms ds(1,2)] ds(3), of d] by (cases ys) auto
  then show ?thesis using run by blast
qed

lemma found_all:
  assumes "ok s"
  shows "\<exists>found t ds. co_find co q proj order limit s = ((found, None), t) \<and> list_all placed ds \<and> list_all2 (shown proj) ds found"
proof -
  obtain found t where run: "co_find co q proj order limit s = ((found, None), t)" using finds by blast
  obtain ds ys where ds: "near (docs s) ds" "near ds (docs t)" "answers (matches q) order ds ys"
    "list_all2 (shown proj) (limited limit ys) found"
    using find [OF run] by auto
  have "set (limited limit ys) \<subseteq> set ys" by (auto simp: limited_def dest: in_set_takeD split: option.splits if_splits)
  then have "list_all placed (limited limit ys)"
    using answers_placed [OF moment(2) [OF assms ds(1,2)] ds(3)] by (auto simp: list_all_iff)
  then show ?thesis using run ds(4) by blast
qed

lemma placed_reads: "placed d \<Longrightarrow> truthy d \<and> (\<exists>e. mongo_to_entry d = Inr e)"
  by (auto simp: placed_iff)

lemma placed_entries:
  assumes "list_all placed ds"
  shows "\<exists>es. smap mongo_to_entry ds = Inr es" "\<exists>es. streamed mongo_to_entry ds None = (es, None)"
  using assms placed_reads by (induction ds) fastforce+

lemma shown_hash: "placed d \<Longrightarrow> shown (Some (doc [(''entry_hash'', PInt 1)])) d d' \<Longrightarrow> \<exists>h. subscr d' ''entry_hash'' = Inr (PStr h)"
  by (auto simp: placed_iff shown_def u_def)

lemma shown_hashes:
  "list_all placed ds \<Longrightarrow> list_all2 (shown (Some (doc [(''entry_hash'', PInt 1)]))) ds found \<Longrightarrow>
     \<exists>hs. smap (\<lambda>d. sbind (subscr d ''entry_hash'') as_str) found = Inr hs"
proof (induction ds arbitrary: found)
  case (Cons d ds)
  obtain d' rest where f: "found = d' # rest" "shown (Some (doc [(''entry_hash'', PInt 1)])) d d'"
    "list_all2 (shown (Some (doc [(''entry_hash'', PInt 1)]))) ds rest"
    using Cons.prems(2) unfolding list_all2_Cons1 by blast
  then show ?case using Cons.IH [of rest] Cons.prems(1) shown_hash [OF _ f(2)] by auto
qed simp

text \<open>What the store returns is settled by its contract; that it returns, by the driver.\<close>

lemma mongo_returns:
  assumes "ok s"
  shows "\<exists>x t. es_head (MongoEventStore co l) s = (Inr x, t)" "\<exists>x t. es_get_by_seq (MongoEventStore co l) n s = (Inr x, t)"
    "\<exists>x t. es_events_for_request (MongoEventStore co l) rid s = (Inr x, t)"
    "\<exists>ys t. es_scan (MongoEventStore co l) start limit s = (Inr (ys, None), t)"
    "\<exists>x t. es_leaf_hashes (MongoEventStore co l) up_to s = (Inr x, t)"
proof -
  note one = found_one [OF assms] and all = found_all [OF assms]
  have entry: "\<exists>y. if_found mongo_to_entry found = Inr y" if "\<forall>d. found = Some d \<longrightarrow> placed d" for found
    using that by (cases found) (auto simp: if_found_def dest: placed_reads)
  have plain: "\<exists>found t. co_find co q None order limit s = ((found, None), t) \<and> list_all placed found" for q order limit
    using all [of q None order limit] by (auto simp: shown_all)
  show "\<exists>x t. es_head (MongoEventStore co l) s = (Inr x, t)"
    using one [of "doc [(''log_id'', PStr l)]" "[(''seq'', DESCENDING)]"] entry
    by (force simp: MongoEventStore_def mongo_head_def mbind_def mlift_def)
  show "\<exists>x t. es_get_by_seq (MongoEventStore co l) n s = (Inr x, t)"
    using one [of "doc [(''_id'', PStr (ledger_doc_id l n))]" "[]"] entry
    by (force simp: MongoEventStore_def mongo_get_by_seq_def mbind_def mlift_def)
  show "\<exists>x t. es_events_for_request (MongoEventStore co l) rid s = (Inr x, t)"
    using plain [of "doc [(''log_id'', PStr l), (''request_id'', rid)]" "[(''seq'', ASCENDING)]" None] placed_entries(1)
    by (force simp: MongoEventStore_def mongo_events_for_request_def mfind_def gathered_def)
  show "\<exists>ys t. es_scan (MongoEventStore co l) start limit s = (Inr (ys, None), t)"
    using plain [of "doc [(''log_id'', PStr l), (''seq'', doc [(''$gte'', PInt start)])]" "[(''seq'', ASCENDING)]" limit] placed_entries(2)
    by (force simp: MongoEventStore_def mongo_scan_def mfind_def)
  show "\<exists>x t. es_leaf_hashes (MongoEventStore co l) up_to s = (Inr x, t)"
    using all [of "doc ((''log_id'', PStr l) # (case up_to of None \<Rightarrow> [] | Some n \<Rightarrow> [(''seq'', doc [(''$lt'', PInt n)])]))"
        "Some (doc [(''entry_hash'', PInt 1)])" "[(''seq'', ASCENDING)]" None] shown_hashes
    by (force simp: MongoEventStore_def mongo_leaf_hashes_def mfind_def gathered_def)
qed

lemma raw_reads:
  "es_head (MongoEventStore co l) = es_head (json_events (MongoEventStore co l))"
  "es_get_by_seq (MongoEventStore co l) = es_get_by_seq (json_events (MongoEventStore co l))"
  "es_scan (MongoEventStore co l) = es_scan (json_events (MongoEventStore co l))"
  "es_leaf_hashes (MongoEventStore co l) = es_leaf_hashes (json_events (MongoEventStore co l))"
  "es_events_for_request (MongoEventStore co l) (PStr rid) = es_events_for_request (json_events (MongoEventStore co l)) (PStr rid)"
  by (simp_all add: json_events_def simple_id_def)

lemma ledger_inserts:
  assumes "ok s" "simple_entry e" "0 \<le> e_seq e"
  obtains (written) t where "mongo_append co l e s = (Inr (), t)" "int (length (log s)) \<le> e_seq e"
      "e_seq e = int (length (log s)) \<Longrightarrow> ok t \<and> log t = log s @ [e]"
    | (refused) t where "mongo_append co l e s = (Inl LedgerConflict, t)" "e_seq e < int (length (log s))" "ok t" "log t = log s"
proof -
  note written_case = written
  obtain q t where ins: "co_insert_one co (entry_doc l e) s = (q, t)" "q = Inr () \<or> q = Inl DuplicateKeyError"
    using inserts [OF storable_entry_doc [OF assms(2)], of l s] by blast
  from ins(2) show thesis
  proof
    assume q: "q = Inr ()"
    then have run: "mongo_append co l e s = (Inr (), t)" using ins(1) by (simp add: mongo_append_def mcatch_def)
    have "r = Inr () \<Longrightarrow> thesis" if "mongo_append co l e s = (r, t)" for r
      using assms that
    proof (cases rule: append_outcome)
      case (written xs)
      show ?thesis
      proof (rule written_case [OF run])
        show "int (length (log s)) \<le> e_seq e" using written(2,3) by simp
        show "ok t \<and> log t = log s @ [e]" if "e_seq e = int (length (log s))"
          using written(4) [OF that [unfolded written(2)]] unfolding written(2) by (blast intro: sym)
      qed
    qed simp_all
    then show thesis using run by blast
  next
    assume q: "q = Inl DuplicateKeyError"
    then have run: "mongo_append co l e s = (Inl LedgerConflict, t)" using ins(1) by (simp add: mongo_append_def mcatch_def mraise_def)
    obtain ds where ds: "near (docs s) ds" "near ds (docs t)" "has_id (entry_doc l e) ds"
      using insert_failed [OF ins(1) [unfolded q]] by blast
    note m = moment [OF assms(1) ds(1,2)]
    have same: "entries_in l ds = log s" "log t = log s" using m(3,4) by simp_all
    show thesis
    proof (rule refused [OF run _ m(1) same(2)])
      show "e_seq e < int (length (log s))" using slot_taken [OF m(2) assms(3)] ds(3) unfolding same(1) by blast
    qed
  qed
qed

end

sublocale reliable_ledger \<subseteq> tested: tested_store "MongoEventStore co l" log ok
proof (unfold_locales, goal_cases)
  case (1 s)
  obtain x t where run: "es_head (json_events (MongoEventStore co l)) s = (Inr x, t)"
    using mongo_returns(1) [OF 1] unfolding raw_reads by blast
  show ?case unfolding raw_reads using store.head [OF 1 run] run by simp
next
  case (2 s e)
  then have "0 \<le> e_seq e" by simp
  from 2(1,2) this show ?case by (cases rule: ledger_inserts) (use 2(3) in \<open>auto simp: MongoEventStore_def\<close>)
next
  case (3 s e)
  then have "0 \<le> e_seq e" by simp
  from 3(1,2) this show ?case by (cases rule: ledger_inserts) (use 3(3,4) in \<open>auto simp: MongoEventStore_def\<close>)
next
  case (4 s n)
  obtain x t where run: "es_get_by_seq (json_events (MongoEventStore co l)) n s = (Inr x, t)"
    using mongo_returns(2) [OF 4(1)] unfolding raw_reads by blast
  show ?case unfolding raw_reads using store.get_by_seq [OF 4(1) run] 4(2) run by simp
next
  case (5 s rid)
  obtain x t where run: "es_events_for_request (json_events (MongoEventStore co l)) (PStr rid) s = (Inr x, t)"
    using mongo_returns(3) [OF 5(1), of "PStr rid"] unfolding raw_reads by blast
  show ?case unfolding raw_reads using store.events_for_request [OF 5(1) run] 5(2) run by simp
next
  case (6 s start)
  obtain ys t where run: "es_scan (json_events (MongoEventStore co l)) start None s = (Inr (ys, None), t)"
    using mongo_returns(4) [OF 6(1)] unfolding raw_reads by blast
  show ?case unfolding raw_reads using store.scan [OF 6(1) run] 6(2) run by simp
next
  case (7 s start n)
  obtain ys t where run: "es_scan (json_events (MongoEventStore co l)) start (Some n) s = (Inr (ys, None), t)"
    using mongo_returns(4) [OF 7(1)] unfolding raw_reads by blast
  show ?case unfolding raw_reads using store.scan [OF 7(1) run] 7(2,3) run by simp
next
  case (8 s)
  obtain hs t where run: "es_leaf_hashes (json_events (MongoEventStore co l)) None s = (Inr hs, t)"
    using mongo_returns(5) [OF 8(1)] unfolding raw_reads by blast
  show ?case unfolding raw_reads using store.leaf_hashes [OF 8(1) run] run by simp
next
  case (9 s n)
  obtain hs t where run: "es_leaf_hashes (json_events (MongoEventStore co l)) (Some n) s = (Inr hs, t)"
    using mongo_returns(5) [OF 9(1)] unfolding raw_reads by blast
  show ?case unfolding raw_reads using store.leaf_hashes [OF 9(1) run] 9(2) run by (simp add: slice_to_def)
next
  case (10 s c)
  let ?q = "doc [(''log_id'', PStr l), (''event_type'', lit ''checkpoint.published'')]"
  let ?Q = "\<lambda>e. e_event_type e = u ''checkpoint.published''"
  let ?f = "\<lambda>d. sbind (subscr d ''payload'') Checkpoint_from_dict"
  obtain found t where r: "co_find_one co ?q [(''seq'', DESCENDING)] s = (Inr found, t)" using finds_one by blast
  have "ok t \<and> (\<exists>xs. log s = xs \<and> xs = log t \<and>
      (\<forall>y. Inr found = (Inr y :: exn + pyval option) \<longrightarrow> y = map_option (entry_doc l) (last_of (filter ?Q xs))))"
    by (rule find_one_own [OF 10(1) r]) simp
  then have t: "ok t" "log t = log s" "found = map_option (entry_doc l) (last_of (filter ?Q (log s)))" by auto
  have "if_found ?f found = last_published (log s)"
    by (simp add: t(3) if_found_def last_of_def last_published_def split: list.split)
  then show ?case
    using r t(1,2) 10(2) by (simp add: MongoEventStore_def mongo_latest_checkpoint_def mbind_def mlift_def)
qed

context reliable_ledger
begin

lemma conforms:
  assumes "well l (docs s)" "entries_in l (docs s) = []" "clean l" "distinct order" "set order = {..<8}"
  shows "list_all (\<lambda>test. passes test s) (EventStoreConformance order (MongoEventStore co l))"
proof -
  have "ok s" "log s = []" using assms(1,2) by (simp_all add: ok_def log_def)
  moreover have "clean (es_log_id (MongoEventStore co l))" using assms(3) by (simp add: MongoEventStore_def)
  ultimately show ?thesis using tested.suite_passes assms(4,5) by (simp add: list_all_iff)
qed

end

text \<open>The database of \<open>Mongod\<close> is one, while the other clients write to other logs.\<close>

abbreviation own_ledger :: "pstr \<Rightarrow> mongod collection" where
  "own_ledger l \<equiv> ledger_collection (\<lambda>_. False) l"

lemma log_still: "log_grows (\<lambda>_. False) xs ys \<longleftrightarrow> xs = ys"
  by (auto simp: log_grows_def prefix_def list_all_iff)

interpretation own: reliable_ledger doc_matches "own_ledger l" md_ledger "decent (\<lambda>_. False) l" l
  for l :: pstr
proof (intro reliable_ledger.intro mongo_ledger.intro, goal_cases)
  case 1
  show ?case by (rule ledger.mongo_collection_axioms)
next
  case 2
  show ?case by unfold_locales (auto simp: decent_def log_still)
next
  case 3
  show ?case by unfold_locales (auto simp: ledger_collection_def local_collection_def Let_def)
qed

subsection \<open>Passing\<close>

lemma fresh_alone: "alone (from_entries [] now)" "filed (from_entries [] now)"
  by (simp_all add: alone_def index_ok_def filed_def from_entries_def)

text \<open>C36: the reference stores pass.  From an empty store, every test of the event store, projection store
  and idempotency store suites returns, in whatever order the concurrent operations of a test take place.\<close>

theorem memory_stores_conform:
  assumes "clean l" "distinct order" "set order = {..<8}"
  shows "list_all (\<lambda>test. passes test (from_entries [] now)) (EventStoreConformance order (memory_events l)) \<and>
    list_all (\<lambda>test. passes test (from_entries [] now)) (ProjectionStoreConformance memory_projections) \<and>
    list_all (\<lambda>test. passes test (from_entries [] now)) (IdempotencyStoreConformance order memory_idempotency)"
  unfolding list_all_iff
proof (intro conjI ballI)
  have l: "clean (es_log_id (memory_events l))" using assms(1) by (simp add: memory_events_simps)
  fix test
  show "passes test (from_entries [] now)" if "test \<in> set (EventStoreConformance order (memory_events l))"
    using memory_log.suite_passes [OF fresh_alone(1) _ l assms(2,3) that] by (simp add: from_entries_def)
  show "passes test (from_entries [] now)" if "test \<in> set (ProjectionStoreConformance memory_projections)"
    using memory_views.view_suite_passes [OF fresh_alone(2) _ that] by (simp add: from_entries_def)
  show "passes test (from_entries [] now)" if "test \<in> set (IdempotencyStoreConformance order memory_idempotency)"
    using idempotency_contract.idempotency_suite_passes [OF mem_idempotency.idempotency_contract_axioms _ assms(2,3) that] by (simp add: from_entries_def)
qed

lemma memory_stores_conform_witness:
  "list_all (\<lambda>test. passes test (from_entries [] (u ''t''))) (EventStoreConformance (rev [0..<8]) (memory_events (u ''log''))) \<and>
   list_all (\<lambda>test. passes test (from_entries [] (u ''t''))) (ProjectionStoreConformance memory_projections) \<and>
   list_all (\<lambda>test. passes test (from_entries [] (u ''t''))) (IdempotencyStoreConformance (rev [0..<8]) memory_idempotency)"
  by (rule memory_stores_conform) (simp_all add: clean_u atLeast_upt)

text \<open>C37: the ledger on MongoDB passes.  For any driver whose calls do what \<open>mongo_collection\<close> says and do not
  fail, while nobody else writes to the log, the event store of the example passes every test for a log
  that has no entries yet; the collection may hold other logs, and those may grow meanwhile.\<close>

theorem mongo_ledger_conforms:
  assumes "reliable_ledger matches co docs near l" "well l (docs s)" "entries_in l (docs s) = []"
    and "clean l" "distinct order" "set order = {..<8}"
  shows "list_all (\<lambda>test. passes test s) (EventStoreConformance order (MongoEventStore co l))"
  by (rule reliable_ledger.conforms [OF assms])

definition neighbour :: LedgerEntry where
  "neighbour = \<lparr>e_seq = 0, e_recorded_at = PStr T0, e_prev_hash = ZERO_HASH, e_event_type = u ''note'', e_request_id = PNone,
     e_payload = PDict [], e_entry_hash = []\<rparr>"

definition shared_db :: mongod where
  "shared_db = \<lparr>md_ledger = [entry_doc (u ''a'') neighbour], md_views = [], md_slots = [], md_now = T0,
     md_others = [[entry_doc (u ''a'') (neighbour\<lparr>e_seq := 1\<rparr>)]]\<rparr>"

lemma mongo_ledger_conforms_witness:
  "list_all (\<lambda>test. passes test shared_db)
     (EventStoreConformance (rev [0..<8]) (MongoEventStore (ledger_collection (\<lambda>_. False) (u ''b'')) (u ''b'')))"
proof (rule mongo_ledger_conforms [OF own.reliable_ledger_axioms])
  have "simple_entry neighbour" by (simp add: neighbour_def simple_entry_def simple_id_def storable_def)
  moreover have "u ''a'' \<noteq> u ''b''" by (simp add: u_def)
  ultimately show "well (u ''b'') (md_ledger shared_db)" "entries_in (u ''b'') (md_ledger shared_db) = []"
    by (auto simp: well_def shared_db_def placed_iff)
qed (simp_all add: clean_u atLeast_upt)


subsection \<open>What the suite does not ask\<close>

text \<open>A store that refuses to write the first slot twice, and lets every other be rewritten.\<close>

definition rewriting_append :: "LedgerEntry \<Rightarrow> (mem, exn, unit) eff" where
  "rewriting_append e s =
     (if 0 < e_seq e \<and> e_seq e < int (length (m_entries s)) then (Inr (), s\<lparr>m_entries := (m_entries s)[nat (e_seq e) := e]\<rparr>)
      else mem_append e s)"

definition rewriting_events :: "pstr \<Rightarrow> mem event_store" where
  "rewriting_events l = (memory_events l)\<lparr>es_append := (\<lambda>e. busy (rewriting_append e))\<rparr>"

interpretation rewriting_log: tested_store "rewriting_events l" m_entries alone
  for l :: pstr
proof (unfold_locales, goal_cases)
  case (2 s e)
  then show ?case using memory_log.append_end [of s e l]
    by (simp add: rewriting_events_def rewriting_append_def memory_events_simps)
next
  case (3 s e)
  then show ?case using memory_log.append_first [of s e l]
    by (simp add: rewriting_events_def rewriting_append_def memory_events_simps)
qed (use memory_log.reads_head memory_log.reads_entry memory_log.reads_events memory_log.reads_scan memory_log.reads_part
    memory_log.reads_leaves memory_log.reads_some_leaves memory_log.reads_checkpoint in \<open>simp_all add: rewriting_events_def\<close>)

text \<open>C39: the suite tries the first slot only.  A store whose other slots can be rewritten passes every test,
  and an append of it changes the history of a log.\<close>

theorem suite_misses_rewrites:
  assumes "clean l" "distinct order" "set order = {..<8}"
    and "alone s" "0 < e_seq e" "e_seq e < int (length (m_entries s))" "m_entries s ! nat (e_seq e) \<noteq> e"
  shows "list_all (\<lambda>test. passes test (from_entries [] now)) (EventStoreConformance order (rewriting_events l)) \<and>
    (\<exists>t. es_append (rewriting_events l) e s = (Inr (), t) \<and> \<not> prefix (m_entries s) (m_entries t))"
proof
  have l: "clean (es_log_id (rewriting_events l))" using assms(1) by (simp add: rewriting_events_def memory_events_simps)
  show "list_all (\<lambda>test. passes test (from_entries [] now)) (EventStoreConformance order (rewriting_events l))"
    using rewriting_log.suite_passes [OF fresh_alone(1) _ l assms(2,3)] by (simp add: list_all_iff from_entries_def)
  have "\<not> prefix (m_entries s) ((m_entries s)[nat (e_seq e) := e])"
  proof
    assume "prefix (m_entries s) ((m_entries s)[nat (e_seq e) := e])"
    then obtain zs where z: "(m_entries s)[nat (e_seq e) := e] = m_entries s @ zs" by (auto simp: prefix_def)
    have "zs = []" using arg_cong [OF z, of length] by simp
    with z have "m_entries s = (m_entries s)[nat (e_seq e) := e]" by simp
    then have "m_entries s ! nat (e_seq e) = (m_entries s)[nat (e_seq e) := e] ! nat (e_seq e)" by simp
    then show False using assms(5-7) by simp
  qed
  then show "\<exists>t. es_append (rewriting_events l) e s = (Inr (), t) \<and> \<not> prefix (m_entries s) (m_entries t)"
    using assms(4-6) by (simp add: rewriting_events_def rewriting_append_def)
qed

lemma suite_misses_rewrites_witness:
  "list_all (\<lambda>test. passes test (from_entries [] T0)) (EventStoreConformance (rev [0..<8]) (rewriting_events (u ''log''))) \<and>
   (\<exists>t. es_append (rewriting_events (u ''log'')) (neighbour\<lparr>e_seq := 1, e_payload := PNone\<rparr>)
        (from_entries [neighbour, neighbour\<lparr>e_seq := 1\<rparr>] T0) = (Inr (), t) \<and> \<not> prefix [neighbour, neighbour\<lparr>e_seq := 1\<rparr>] (m_entries t))"
  using suite_misses_rewrites [of "u ''log''" "rev [0..<8]" "from_entries [neighbour, neighbour\<lparr>e_seq := 1\<rparr>] T0"
      "neighbour\<lparr>e_seq := 1, e_payload := PNone\<rparr>" T0]
  by (simp add: clean_u atLeast_upt alone_def index_ok_def from_entries_def neighbour_def)

end
