(* ===== verification/ConformanceKeys.thy ===== *)
theory ConformanceKeys
  imports Conformance Providers
begin

section \<open>The conformance suite: key providers\<close>

text \<open>
  The tests of \<^verbatim>\<open>src/approvo/testing.py\<close> for a key provider and a reference it resolves.  A provider that
  answers for every reference it holds (\<open>local_provider\<close>) passes them, given what only the signature
  scheme can guarantee; the providers that keep keys in memory and in the environment are such.

  Two assertions of the suite are about types and hold here by the types of the records:
  \<^verbatim>\<open>isinstance(key_provider, KeyProvider)\<close>, which asks for the operations of the protocol, and
  \<^verbatim>\<open>isinstance(pub.public, bytes)\<close>.
\<close>

definition test_is_a_key_provider :: "'s key_provider \<Rightarrow> ('s, exn, unit) eff" where
  "test_is_a_key_provider kp = expect (kp_schemes kp \<noteq> [])"

definition test_public_key_scheme_is_known :: "'k registry \<Rightarrow> 's key_provider \<Rightarrow> pstr \<Rightarrow> ('s, exn, unit) eff" where
  "test_public_key_scheme_is_known reg kp key_ref =
     mbind (kp_get_public_key kp key_ref) (\<lambda>pub.
     mbind (expect (m_scheme pub \<in> set (known_schemes reg))) (\<lambda>_. expect (m_public pub \<noteq> [])))"

definition test_public_key_is_stable :: "'s key_provider \<Rightarrow> pstr \<Rightarrow> ('s, exn, unit) eff" where
  "test_public_key_is_stable kp key_ref =
     mbind (kp_get_public_key kp key_ref) (\<lambda>a. mbind (kp_get_public_key kp key_ref) (\<lambda>b.
     mbind (expect (m_public a = m_public b)) (\<lambda>_. expect (m_keyid a = m_keyid b))))"

definition test_signer_is_primed :: "'k registry \<Rightarrow> 's key_provider \<Rightarrow> pstr \<Rightarrow> ('s, exn, unit) eff" where
  "test_signer_is_primed reg kp key_ref =
     mbind (kp_get_signer kp key_ref) (\<lambda>signer.
     mbind (expect (sg_algorithm signer \<in> set (known_schemes reg))) (\<lambda>_.
     mbind (mlift (sg_key_id signer)) (\<lambda>kid.
     mbind (kp_get_public_key kp key_ref) (\<lambda>pub. expect (kid = m_keyid pub)))))"

definition test_sign_then_verify :: "'k registry \<Rightarrow> 's key_provider \<Rightarrow> pstr \<Rightarrow> ('s, exn, unit) eff" where
  "test_sign_then_verify reg kp key_ref =
     mbind (kp_get_signer kp key_ref) (\<lambda>signer.
     let pub = sg_public_material signer;
         message = to_bytes (u ''approvo-conformance-'' @ replicate 64 120)
     in mbind (sign_with signer message) (\<lambda>(sig, keyid).
        mbind (expect (keyid = m_keyid pub)) (\<lambda>_. mlift (verifies reg pub sig message))))"

definition message_one :: bytes where
  "message_one = to_bytes (u ''message-one'')"

definition message_two :: bytes where
  "message_two = to_bytes (u ''message-two'')"

definition test_signature_does_not_verify_for_other_message :: "'k registry \<Rightarrow> 's key_provider \<Rightarrow> pstr \<Rightarrow> ('s, exn, unit) eff" where
  "test_signature_does_not_verify_for_other_message reg kp key_ref =
     mbind (kp_get_signer kp key_ref) (\<lambda>signer.
     let pub = sg_public_material signer
     in mbind (sign_with signer message_one) (\<lambda>(sig, _). raises PyException (mlift (verifies reg pub sig message_two))))"

definition test_self_test_passes :: "'s key_provider \<Rightarrow> pstr \<Rightarrow> ('s, exn, unit) eff" where
  "test_self_test_passes kp key_ref = kp_self_test kp key_ref"

definition test_unknown_ref_raises_key_provider_error :: "'s key_provider \<Rightarrow> ('s, exn, unit) eff" where
  "test_unknown_ref_raises_key_provider_error kp = (case kp_schemes kp of
       [] \<Rightarrow> mraise IndexError
     | scheme # _ \<Rightarrow> raises KeyProviderError (kp_get_signer kp (scheme @ u ''://'' @ u ''definitely-not-a-real-key-xyz'')))"

definition KeyProviderConformance :: "'k registry \<Rightarrow> 's key_provider \<Rightarrow> pstr \<Rightarrow> ('s, exn, unit) eff list" where
  "KeyProviderConformance reg kp key_ref =
     [test_is_a_key_provider kp, test_public_key_scheme_is_known reg kp key_ref, test_public_key_is_stable kp key_ref,
      test_signer_is_primed reg kp key_ref, test_sign_then_verify reg kp key_ref,
      test_signature_does_not_verify_for_other_message reg kp key_ref, test_self_test_passes kp key_ref,
      test_unknown_ref_raises_key_provider_error kp]"

text \<open>A signature of the one message of the suite is not one of the other.\<close>

definition tells_apart :: "'k registry \<Rightarrow> PublicKeyMaterial \<Rightarrow> bool" where
  "tells_apart reg m \<longleftrightarrow> (\<forall>sig. verifies reg m sig message_one = Inr () \<longrightarrow> verifies reg m sig message_two \<noteq> Inr ())"

context local_provider
begin

lemma wp_signer:
  assumes "holds s r = Some m"
    and "\<And>sg t. holds t = holds s \<Longrightarrow> sg_public_material sg = m \<Longrightarrow> ready reg trusted holds sg \<Longrightarrow>
      \<forall>data s. \<exists>sig t. sg_sign sg data s = (Inr sig, t) \<Longrightarrow> Q sg t"
  shows "wp (kp_get_signer kp r) Q s"
proof -
  obtain sg t where run: "kp_get_signer kp r s = (Inr sg, t)" "\<forall>data s. \<exists>sig t. sg_sign sg data s = (Inr sig, t)"
    using signer_available [OF assms(1)] by blast
  then show ?thesis using signer_held [OF run(1)] assms by (simp add: wp_def)
qed

lemma wp_public:
  assumes "holds s r = Some m" "\<And>t. holds t = holds s \<Longrightarrow> Q m t"
  shows "wp (kp_get_public_key kp r) Q s"
proof -
  obtain t where run: "kp_get_public_key kp r s = (Inr m, t)" using public_available [OF assms(1)] by blast
  then show ?thesis using public_held [OF run] assms(2) by (simp add: wp_def)
qed

lemma wp_sign:
  assumes "ready reg trusted holds sg" "\<forall>data s. \<exists>sig t. sg_sign sg data s = (Inr sig, t)" "trusted (sg_public_material sg)"
    and "\<And>sig t. holds t = holds s \<Longrightarrow> verifies reg (sg_public_material sg) sig data = Inr () \<Longrightarrow> Q (sig, m_keyid (sg_public_material sg)) t"
  shows "wp (sign_with sg data) Q s"
proof -
  obtain sig t where run: "sg_sign sg data s = (Inr sig, t)" using assms(2) by blast
  then have "holds t = holds s" "verifies reg (sg_public_material sg) sig data = Inr ()" "sg_key_id sg = Inr (m_keyid (sg_public_material sg))"
    using assms(1,3) unfolding ready_def by blast+
  then show ?thesis using run assms(4) by (simp add: sign_with_def wp_def mbind_def mlift_def mret_def)
qed

lemma key_suite_passes:
  assumes "holds s r = Some m" "m_scheme m \<in> set (known_schemes reg)" "m_public m \<noteq> []" "trusted m" "tells_apart reg m"
    and "kp_schemes kp = scheme # schemes" "kp_self_test kp = base_self_test reg token (kp_get_signer kp)"
    and "\<And>t. \<exists>nonce. token t = (Inr nonce, t)"
    and "\<exists>t. kp_get_signer kp (scheme @ u ''://'' @ u ''definitely-not-a-real-key-xyz'') s = (Inl KeyProviderError, t)"
    and "test \<in> set (KeyProviderConformance reg kp r)"
  shows "passes test s"
proof -
  note held = assms(1)
  have "passes (test_is_a_key_provider kp) s" using assms(6) by (simp add: passes_wp test_is_a_key_provider_def)
  moreover have "passes (test_public_key_scheme_is_known reg kp r) s"
    using assms(2,3) by (auto simp: passes_wp test_public_key_scheme_is_known_def intro!: wp_public [OF held])
  moreover have "passes (test_public_key_is_stable kp r) s"
    using held by (auto simp: passes_wp test_public_key_is_stable_def intro!: wp_public)
  moreover have "passes (test_signer_is_primed reg kp r) s"
    using held assms(2) by (auto simp: passes_wp test_signer_is_primed_def ready_def intro!: wp_signer wp_public)
  moreover have "passes (test_sign_then_verify reg kp r) s"
    using assms(4) by (auto simp: passes_wp test_sign_then_verify_def Let_def intro!: wp_signer [OF held] wp_sign)
  moreover have "passes (test_signature_does_not_verify_for_other_message reg kp r) s"
  proof -
    have "wp (raises PyException (mlift (verifies reg m sig message_two))) (\<lambda>_ _. True) t" if "verifies reg m sig message_one = Inr ()" for sig t
      using that assms(5) by (cases "verifies reg m sig message_two")
        (auto simp: tells_apart_def wp_def raises_def mlift_def isinstance_exception)
    then show ?thesis
      using assms(4) by (auto simp: passes_wp test_signature_does_not_verify_for_other_message_def Let_def intro!: wp_signer [OF held] wp_sign)
  qed
  moreover have "passes (test_self_test_passes kp r) s"
  proof -
    have nonce: "wp token Q t" if "\<And>nonce. Q nonce t" for Q t
      using assms(8) [of t] that by (auto simp: wp_def)
    have verified: "wp (mcatch (mlift (Inr ())) h) (\<lambda>_ _. True) t" for h t
      by (simp add: wp_def mcatch_def mlift_def)
    show ?thesis
      using assms(4)
      by (auto simp: passes_wp test_self_test_passes_def assms(7) base_self_test_def Let_def intro!: wp_signer [OF held] nonce wp_sign verified)
  qed
  moreover have "passes (test_unknown_ref_raises_key_provider_error kp) s"
    using assms(9) by (auto simp: passes_wp test_unknown_ref_raises_key_provider_error_def assms(6) wp_def raises_def)
  ultimately show ?thesis using assms(10) by (auto simp: KeyProviderConformance_def)
qed

end

text \<open>The two providers that keep keys themselves, with the nonces the operating system hands out.\<close>

lemma no_colon: "of_char CHR '':'' \<notin> set (u ''memory'')" "of_char CHR '':'' \<notin> set (u ''env'')"
  by (simp_all add: u_def)

lemma Ed25519_known: "ED25519 \<in> set (known_schemes (default_registry C))"
  by (simp add: known_schemes_def default_registry_def)

text \<open>C38: the providers that keep keys pass the suite.  For every key of a sound signature scheme that tells two
  messages apart, the in-memory and the environment provider pass every test, whatever the nonces.\<close>

theorem key_providers_conform:
  fixes key :: 'p and C :: "('k, 'p) crypto" and token :: "('s, exn, bytes) eff"
  assumes "priv_public_raw C key \<noteq> []" "sound_key C \<lparr>m_scheme = ED25519, m_public = priv_public_raw C key\<rparr>"
    and "tells_apart (default_registry C) \<lparr>m_scheme = ED25519, m_public = priv_public_raw C key\<rparr>"
    and "\<And>t. \<exists>nonce. token t = (Inr nonce, t)"
    and "map_of (keys_of s) name = Some key" "map_of (keys_of s) (u ''definitely-not-a-real-key-xyz'') = None"
    and "map_of (environ s) var = Some (to_hex seed)" "seed \<noteq> []" "priv_from_seed C seed = Inr key"
    and "map_of (environ s) (u ''definitely-not-a-real-key-xyz'') = None"
  shows "list_all (\<lambda>test. passes test s) (KeyProviderConformance (default_registry C)
        (InMemoryKeyProvider C (default_registry C) token keys_of) (u ''memory://'' @ name)) \<and>
      list_all (\<lambda>test. passes test s) (KeyProviderConformance (default_registry C)
        (EnvKeyProvider C (default_registry C) token environ) (u ''env://'' @ var))"
proof
  let ?sg = "Ed25519Signer C key :: 's signer"
  have p: "parse_key_ref (u ''memory://'' @ rest) = Inr (u ''memory'', rest)" "parse_key_ref (u ''env://'' @ rest) = Inr (u ''env'', rest)" for rest
    using parse_key_ref_made [OF no_colon(1), of rest] parse_key_ref_made [OF no_colon(2), of rest] by (simp_all add: u_def)
  have unknown: "parse_key_ref (u ''memory'' @ u ''://'' @ rest) = Inr (u ''memory'', rest)" "parse_key_ref (u ''env'' @ u ''://'' @ rest) = Inr (u ''env'', rest)" for rest
    by (rule parse_key_ref_made, rule no_colon)+
  have "im_get C (keys_of s) (u ''memory://'' @ name) = Inr ?sg" using p assms(5) by (simp add: im_get_def)
  then have m: "im_holds C keys_of s (u ''memory://'' @ name) = Some (sg_public_material ?sg)"
    by (simp add: im_holds_def)
  show "list_all (\<lambda>test. passes test s) (KeyProviderConformance (default_registry C)
      (InMemoryKeyProvider C (default_registry C) token keys_of) (u ''memory://'' @ name))"
    unfolding list_all_iff
    by (intro ballI memory.key_suite_passes [OF m, where token = token and scheme = "u ''memory''" and schemes = "[]"])
      (use assms unknown in \<open>auto simp: Ed25519_known InMemoryKeyProvider_def im_get_signer_def im_get_def\<close>)
  have "to_hex seed \<noteq> []" using assms(8) by (cases seed) (simp_all add: to_hex_def from_bytes_def)
  then have "sbind (env_seed (environ s) (u ''env://'' @ var)) (Ed25519Signer_from_private_bytes C) = Inr ?sg"
    using p assms(7,9) by (simp add: env_seed_def Ed25519Signer_from_private_bytes_def)
  then have e: "env_holds C environ s (u ''env://'' @ var) = Some (sg_public_material ?sg)"
    by (simp add: env_holds_def)
  show "list_all (\<lambda>test. passes test s) (KeyProviderConformance (default_registry C)
      (EnvKeyProvider C (default_registry C) token environ) (u ''env://'' @ var))"
    unfolding list_all_iff
    by (intro ballI environment.key_suite_passes [OF e, where token = token and scheme = "u ''env''" and schemes = "[]"])
      (use assms unknown in \<open>auto simp: Ed25519_known EnvKeyProvider_def env_get_signer_def env_seed_def\<close>)
qed

lemma key_providers_conform_witness:
  "list_all (\<lambda>test. passes test ()) (KeyProviderConformance (default_registry echo_crypto)
      (InMemoryKeyProvider echo_crypto (default_registry echo_crypto) (mret [1]) (\<lambda>_. [(u ''a'', [7])])) (u ''memory://'' @ u ''a'')) \<and>
    list_all (\<lambda>test. passes test ()) (KeyProviderConformance (default_registry echo_crypto)
      (EnvKeyProvider echo_crypto (default_registry echo_crypto) (mret [1]) (\<lambda>_. [(u ''K'', to_hex [7])])) (u ''env://'' @ u ''K''))"
proof (rule key_providers_conform [where key = "[7]" and seed = "[7]"])
  show "tells_apart (default_registry echo_crypto) \<lparr>m_scheme = ED25519, m_public = priv_public_raw echo_crypto [7]\<rparr>"
  proof -
    have "verifies (default_registry echo_crypto) \<lparr>m_scheme = ED25519, m_public = k\<rparr> sig msg =
        (if sig = k @ msg then Inr () else Inl InvalidSignature)" for k sig msg
    proof -
      have "get_scheme (default_registry echo_crypto) ED25519 = Inr \<lparr>s_name = ED25519, s_public_raw = ed_bytes_raw echo_crypto,
          s_load_public = ed_from_bytes echo_crypto, s_verify = ed_verify echo_crypto\<rparr>"
        by (simp add: default_registry_schemes)
      then show ?thesis by (simp add: verifies_def ed_verify_def) (simp add: echo_crypto_def)
    qed
    then show ?thesis by (simp add: tells_apart_def message_one_def message_two_def u_def to_bytes_def)
  qed
qed (simp_all add: mret_def sound_key_def echo_correct, simp_all add: echo_crypto_def u_def)

end
