(* ===== verification/Spec2Isabelle.thy ===== *)
theory Spec2Isabelle
  imports Merkle Custody Kms ReleaseRun Suites ConformanceKeys
begin

text \<open>
  A verification library for approvo (the Python package under \<^verbatim>\<open>src/src/approvo\<close>): approvals as
  signed, hash-chained evidence.  An approval request pins a policy; people sign decisions bound to
  the body of the request; the service appends both to a ledger and derives every status from the
  ledger alone, so that anybody with the entries, the keys and the policies can check it again.

  \<^bold>\<open>How the program fits together.\<close>  \<^verbatim>\<open>service.py\<close> (\<open>ApprovalService\<close>) is the only part with a life of its own.
  It reads and appends entries through the event store protocol of \<^verbatim>\<open>stores/base.py\<close>, makes them with
  \<^verbatim>\<open>chain.py\<close> and \<^verbatim>\<open>models.py\<close>, hashes them through \<^verbatim>\<open>canonical.py\<close>, decides who signed what with
  \<^verbatim>\<open>crypto/verifier.py\<close> over the keys of \<^verbatim>\<open>crypto/keys.py\<close>, evaluates with \<^verbatim>\<open>policy/engine.py\<close>, publishes
  tree heads with \<^verbatim>\<open>checkpoint.py\<close> and \<^verbatim>\<open>merkle.py\<close>, and feeds a read model built by \<^verbatim>\<open>projection.py\<close>.

  \<^bold>\<open>Theories, from the bottom up.\<close>
  \<^item> \<open>Prelude\<close>, \<open>Errors\<close> (\<^verbatim>\<open>errors.py\<close>), \<open>PyVal\<close>: results \<open>exn + 'a\<close>, effects \<open>('s, exn, 'a) eff\<close> (a coroutine is
    a function from the world to a result and the next world), the exception hierarchy, Python values
    (\<open>pyval\<close>: what JSON can hold, tuples, and values JSON cannot).
  \<^item> \<open>Text\<close>, \<open>Sha2\<close>, \<open>Json\<close>: the operations of the standard library the source calls: UTF-8, hex,
    base64, SHA-256 on 32-bit words, \<^verbatim>\<open>json.dumps\<close> and \<^verbatim>\<open>json.loads\<close>.
  \<^item> \<open>Canonical\<close> (\<^verbatim>\<open>canonical.py\<close>), \<open>Encodable\<close>, \<open>Clock\<close> (\<^verbatim>\<open>clock.py\<close>), \<open>Models\<close> (\<^verbatim>\<open>models.py\<close>): canonical bytes
    identify values and decode to them; which values are sure to have a digest; timestamps; every
    dataclass with its conversions.
  \<^item> \<open>Chain\<close> (\<^verbatim>\<open>chain.py\<close>), \<open>Merkle\<close> (\<^verbatim>\<open>merkle.py\<close>): tamper evidence, up to an exhibited hash collision.
  \<^item> \<open>Keys\<close> (\<^verbatim>\<open>crypto/keys.py\<close>, \<^verbatim>\<open>crypto/algorithms.py\<close>), \<open>Envelope\<close> (\<^verbatim>\<open>crypto/envelope.py\<close>, \<^verbatim>\<open>crypto/signer.py\<close>),
    \<open>Verifier\<close> (\<^verbatim>\<open>crypto/verifier.py\<close>), \<open>Checkpoints\<close> (\<^verbatim>\<open>checkpoint.py\<close>): keys, signatures and trust.
  \<^item> \<open>Policy\<close> (\<^verbatim>\<open>policy/model.py\<close>, \<^verbatim>\<open>policy/engine.py\<close>), \<open>Projection\<close> (\<^verbatim>\<open>projection.py\<close>): the rule, its abstract
    specification over sets of people, and the views.
  \<^item> \<open>Stores\<close> (\<^verbatim>\<open>stores/base.py\<close>): the protocols as records of operations and what they must do as locales
    (\<open>event_store_contract\<close>, where other writers may act between any two operations, \<open>single_writer\<close>,
    \<open>projection_contract\<close>, \<open>idempotency_contract\<close>).
  \<^item> \<open>Service\<close> (\<^verbatim>\<open>service.py\<close>): every coroutine of the service, in the order of the file.
  \<^item> \<open>Guarantees\<close>, \<open>Behaviour\<close>, \<open>Verification\<close>: locales over those contracts.  \<open>approval_service\<close>: what
    each operation can do to the log, for any store and any interleaving; \<open>sole_service\<close>: what each
    operation returns when nobody else writes; what a clean report of \<open>verify\<close> says of the log.
  \<^item> \<open>MemStore\<close> (\<^verbatim>\<open>tests/memory_stores.py\<close>): the reference stores with a schedule of other writers;
    every locale is interpreted on them.
  \<^item> \<open>Ceremony\<close>: signing on the approver's client.  \<open>Promises\<close>: the properties of the running service.
    \<open>Scenario\<close>: a run with one request, one decision and one checkpoint, which the promises are applied to.
  \<^item> \<open>Providers\<close> (\<^verbatim>\<open>crypto/keyprovider.py\<close>), \<open>Kms\<close> (\<^verbatim>\<open>providers/\<close>), \<open>Signing\<close> (\<^verbatim>\<open>crypto/resolver.py\<close>,
    \<^verbatim>\<open>crypto/signing.py\<close>): where keys come from.  \<open>provider_contract\<close> is what a provider owes the library, and
    \<open>signing_service\<close> extends it to a resolver and caches; both are interpreted on keys in memory.
    \<open>Custody\<close>: the service with a signing service injected, in a world that holds stores, keys and
    caches; the stores are lifted to it and the guarantees hold for the composition.
  \<^item> \<open>Mongo\<close> (\<^verbatim>\<open>examples/vehicle-release-approvals/app/mongo_stores.py\<close>), \<open>Releases\<close> (\<^verbatim>\<open>main.py\<close>, \<^verbatim>\<open>schemas.py\<close>,
    \<^verbatim>\<open>identities.py\<close>, \<^verbatim>\<open>config.py\<close> beside it): the example application.  \<open>MongoLedger\<close> states what a collection of a
    document database owes its clients as the locales \<open>mongo_filters\<close>, \<open>mongo_collection\<close> and \<open>mongo_ledger\<close>,
    and derives the contract of the event store from them; \<open>deployment\<close> adds the other collections and
    gives \<open>approval_service\<close>.  \<open>Mongod\<close> is a database in memory, with other clients that insert documents;
    the locales are interpreted on it.  \<open>ReleaseRun\<close>: a release approved by two people.
  \<^item> \<open>Conformance\<close>, \<open>ConformanceViews\<close>, \<open>ConformanceKeys\<close> (\<^verbatim>\<open>testing.py\<close>): every test of the four suites as an
    operation over the store or provider it is given, and what a store has to do to pass, as the locales
    \<open>tested_store\<close> and \<open>tested_projections\<close> (\<open>total_writer\<close> is a \<open>single_writer\<close> that does not fail).  \<open>Suites\<close>: the
    reference stores pass, and so does the ledger on MongoDB over every driver that meets \<open>reliable_ledger\<close>; a
    store that lets later slots be rewritten passes too.

  \<^bold>\<open>Other writers.\<close>  They take turns with the service on the log.  They only append: each of their entries is
  in the next slot and linked to the one before it (\<open>joined\<close> in \<open>MemStore\<close>, \<open>env\<close> in the locales); deleting or
  editing is what \<open>pinned_checkpoint_protects_history\<close> is about.  They may record any decision, which the
  service does not answer for: \<open>backed_unless V\<close> says that every decision is backed or one that \<open>V\<close> holds of, and
  \<open>V\<close> is what the others write.

  \<^bold>\<open>State and operations.\<close>  A world \<open>mem\<close> holds the entries, their index by request, the views, the reserved
  keys, the clock and what other writers will append.  An operation of the code is a function that returns
  a result (\<open>Inl\<close> an exception, \<open>Inr\<close> a value) and the next world; whatever was written before an exception
  stays written.  \<open>serve\<close> handles a list of calls, whatever each raises.

  \<^bold>\<open>Parameters.\<close>  The primitives of the \<open>cryptography\<close> package are the record \<open>crypto\<close>; \<open>ed_correct\<close> states that a
  key verifies what it signed, and \<open>echo_crypto\<close> is an instance of it.  Nothing is assumed of SHA-256: it is
  computed, and binding properties give the alternative of a collision between two named messages.
  The clients of the key management services, the file system and the random source are parameters of the
  providers; \<open>honest_aws\<close>, \<open>honest_gcp\<close> and \<open>honest_vault\<close> state that a service signs with the algorithm it is
  asked for, in Vault with the key of that moment (\<open>unrotated\<close> compares two moments) and for ECDSA keys only:
  what it does with RSA and Ed25519 keys is not what the code expects.  \<open>Kms\<close> has an instance of each.
  A collection of the MongoDB driver is the record \<open>collection\<close> of the calls the example makes.
  \<open>runtime\<close> holds how the interpreter prints a value that is no string; the identities, the policies and
  the signing backend are arguments, as in the constructor of the service.

  \<^bold>\<open>Loops and bounds.\<close>  Every function is total.  The retry loop of \<open>_append\<close> recurses on the attempts left,
  exactly as many as \<open>range\<close> gives; the split point of the Merkle tree has a measure; \<open>scan\<close> and the loops of
  \<open>verify\<close> recurse on lists.  SHA-256 works on \<open>32 word\<close>; Python integers are unbounded \<open>int\<close>; times are
  microseconds within the range of \<open>datetime\<close>.

  \<^bold>\<open>Not modelled.\<close>  Texts of messages of exceptions; files of the key directory; how nonces and keys are
  drawn; the lazy imports of vendor SDKs; the web framework and the demo client of the example application.
  A request id is compared as a value, so the ids 1 and true differ; the signing service reads time in
  integer ticks, so the rounding of floats is left out.  The reference projection store reads cursors of
  ASCII digits, the only ones it gives out, and orders views by creation times that are strings, as the
  service writes them.  In front of the ledger on MongoDB, \<open>json_events\<close> refuses entries and ids that are
  not plain JSON, since the encoding of other values is the driver's; the suites are run without it.
\<close>

end
